(* ===== verification/Prelude.thy ===== *)
theory Prelude
  imports
    Main
    "HOL-Library.Word"
    "HOL-Library.AList"
    "HOL-Library.List_Lexorder"
    "HOL-Library.Char_ord"
    "HOL-Library.Multiset"
begin

unbundle bit_operations_syntax

text \<open>
  Shared vocabulary of the development: Rust's unsigned machine integers as natural numbers
  with their overflow behaviour written out, the slices of the standard containers that the
  crates use (\<open>BTreeMap\<close>, \<open>HashMap\<close>, slices), and the lemma collections that the component
  theories draw on.

  A \<open>u64\<close> (and a \<open>usize\<close>, on the 64-bit targets the server is built for) is a natural number
  below \<open>U64\<close>; \<open>add64\<close>, \<open>sub64\<close> and \<open>mul64\<close> are the plain operators of a release
  build, which wrap; \<open>checked_add64\<close> and the saturating operators are the methods of those
  names. The workspace sets no \<open>overflow-checks\<close> in \<open>[profile.release]\<close>.
\<close>

named_theorems u64_simps \<open>machine arithmetic that stays in range is plain arithmetic\<close>
named_theorems codec \<open>printing and parsing lemmas\<close>

subsection \<open>Unsigned machine integers\<close>

definition U64 :: nat where "U64 = 2 ^ 64"
definition U32 :: nat where "U32 = 2 ^ 32"

lemma U64_pos [simp]: "0 < U64" and U32_pos [simp]: "0 < U32"
  by (simp_all add: U64_def U32_def)

lemma U32_lt_U64: "U32 < U64"
  by (simp add: U64_def U32_def)

definition add64 :: "nat \<Rightarrow> nat \<Rightarrow> nat" where
  "add64 a b = (a + b) mod U64"

definition sub64 :: "nat \<Rightarrow> nat \<Rightarrow> nat" where
  "sub64 a b = (a + U64 - b) mod U64"

definition mul64 :: "nat \<Rightarrow> nat \<Rightarrow> nat" where
  "mul64 a b = (a * b) mod U64"

definition checked_add64 :: "nat \<Rightarrow> nat \<Rightarrow> nat option" where
  "checked_add64 a b = (if a + b < U64 then Some (a + b) else None)"

definition sat_add64 :: "nat \<Rightarrow> nat \<Rightarrow> nat" where
  "sat_add64 a b = min (a + b) (U64 - 1)"

definition sat_mul64 :: "nat \<Rightarrow> nat \<Rightarrow> nat" where
  "sat_mul64 a b = min (a * b) (U64 - 1)"

text \<open>\<open>saturating_sub\<close> is subtraction on natural numbers.\<close>

definition sat_sub :: "nat \<Rightarrow> nat \<Rightarrow> nat" where
  "sat_sub a b = a - b"

definition checked_sub :: "nat \<Rightarrow> nat \<Rightarrow> nat option" where
  "checked_sub a b = (if b \<le> a then Some (a - b) else None)"

lemma add64_in_range [u64_simps]: "a + b < U64 \<Longrightarrow> add64 a b = a + b"
  by (simp add: add64_def)

lemma add64_lt [simp]: "add64 a b < U64"
  by (simp add: add64_def)

lemma sub64_in_range [u64_simps]: "b \<le> a \<Longrightarrow> a < U64 \<Longrightarrow> sub64 a b = a - b"
  by (simp add: sub64_def mod_if)

lemma mul64_in_range [u64_simps]: "a * b < U64 \<Longrightarrow> mul64 a b = a * b"
  by (simp add: mul64_def)

lemma sub64_add64: "a < U64 \<Longrightarrow> b < U64 \<Longrightarrow> sub64 (add64 a b) b = a"
  by (cases "a + b < U64") (auto simp: sub64_def add64_def mod_if)

lemma checked_add64_eq_Some [simp]:
  "checked_add64 a b = Some c \<longleftrightarrow> c = a + b \<and> a + b < U64"
  by (auto simp: checked_add64_def)

lemma checked_add64_eq_None [simp]: "checked_add64 a b = None \<longleftrightarrow> U64 \<le> a + b"
  by (auto simp: checked_add64_def)

lemma checked_sub_eq_Some [simp]: "checked_sub a b = Some c \<longleftrightarrow> b \<le> a \<and> c = a - b"
  by (auto simp: checked_sub_def)

lemma checked_sub_eq_None [simp]: "checked_sub a b = None \<longleftrightarrow> a < b"
  by (auto simp: checked_sub_def)

text \<open>\<open>Iterator::sum::<u64>\<close>: a left fold with the wrapping addition.\<close>

definition sum64 :: "nat list \<Rightarrow> nat" where
  "sum64 xs = fold (\<lambda>x acc. add64 acc x) xs 0"

lemma fold_add64: "acc + sum_list xs < U64 \<Longrightarrow> fold (\<lambda>x a. add64 a x) xs acc = acc + sum_list xs"
  by (induction xs arbitrary: acc) (simp_all add: add64_in_range add.assoc)

lemma sum64_in_range [u64_simps]: "sum_list xs < U64 \<Longrightarrow> sum64 xs = sum_list xs"
  by (simp add: sum64_def fold_add64)

text \<open>\<open>try_fold\<close> with \<open>checked_add\<close>.\<close>

fun checked_sum64 :: "nat \<Rightarrow> nat list \<Rightarrow> nat option" where
  "checked_sum64 acc [] = Some acc"
| "checked_sum64 acc (x # xs) =
     (case checked_add64 acc x of None \<Rightarrow> None | Some a \<Rightarrow> checked_sum64 a xs)"

lemma checked_sum64_eq:
  "acc < U64 \<Longrightarrow>
   checked_sum64 acc xs = (if acc + sum_list xs < U64 then Some (acc + sum_list xs) else None)"
proof (induction xs arbitrary: acc)
  case (Cons x xs)
  then show ?case
    by (cases "acc + x < U64") (auto simp: checked_add64_def add.assoc)
qed simp

subsection \<open>Options and lists\<close>

definition get_opt :: "'a list \<Rightarrow> nat \<Rightarrow> 'a option" where
  "get_opt xs i = (if i < length xs then Some (xs ! i) else None)"

definition last_opt :: "'a list \<Rightarrow> 'a option" where
  "last_opt xs = (if xs = [] then None else Some (last xs))"

definition slice_opt :: "'a list \<Rightarrow> nat \<Rightarrow> nat \<Rightarrow> 'a list option" where
  "slice_opt xs a b = (if a \<le> b \<and> b \<le> length xs then Some (take (b - a) (drop a xs)) else None)"

lemma get_opt_eq_Some [simp]: "get_opt xs i = Some x \<longleftrightarrow> i < length xs \<and> xs ! i = x"
  by (auto simp: get_opt_def)

lemma get_opt_eq_None [simp]: "get_opt xs i = None \<longleftrightarrow> length xs \<le> i"
  by (auto simp: get_opt_def)

lemma slice_opt_eq_Some [simp]:
  "slice_opt xs a b = Some ys \<longleftrightarrow> a \<le> b \<and> b \<le> length xs \<and> ys = take (b - a) (drop a xs)"
  by (auto simp: slice_opt_def)

text \<open>\<open>collect::<Option<Vec<_>>>\<close> over a mapped iterator.\<close>

fun map_option_all :: "('a \<Rightarrow> 'b option) \<Rightarrow> 'a list \<Rightarrow> 'b list option" where
  "map_option_all f [] = Some []"
| "map_option_all f (x # xs) =
     (case f x of None \<Rightarrow> None
      | Some y \<Rightarrow> (case map_option_all f xs of None \<Rightarrow> None | Some ys \<Rightarrow> Some (y # ys)))"

lemma map_option_all_map [codec]:
  "(\<And>x. x \<in> set xs \<Longrightarrow> f (g x) = Some (h x)) \<Longrightarrow> map_option_all f (map g xs) = Some (map h xs)"
  by (induction xs) auto

lemma map_option_all_length: "map_option_all f xs = Some ys \<Longrightarrow> length ys = length xs"
  by (induction xs arbitrary: ys) (auto split: option.splits)

text \<open>\<open>collect::<Result<Vec<_>, _>>\<close>: the first error, or every value in order.\<close>

fun map_result_all :: "('a \<Rightarrow> 'e + 'b) \<Rightarrow> 'a list \<Rightarrow> 'e + 'b list" where
  "map_result_all f [] = Inr []"
| "map_result_all f (x # xs) =
     (case f x of Inl e \<Rightarrow> Inl e
      | Inr y \<Rightarrow> (case map_result_all f xs of Inl e \<Rightarrow> Inl e | Inr ys \<Rightarrow> Inr (y # ys)))"

lemma map_result_all_ok: "(\<And>x. x \<in> set xs \<Longrightarrow> f x = Inr (g x)) \<Longrightarrow> map_result_all f xs = Inr (map g xs)"
  by (induction xs) auto

lemma map_result_all_length: "map_result_all f xs = Inr ys \<Longrightarrow> length ys = length xs"
  by (induction xs arbitrary: ys) (auto split: sum.splits)

text \<open>\<open>sort_by\<close> with a comparator, which is stable; \<open>le x y\<close> is that \<open>x\<close> does not come after \<open>y\<close>.\<close>

fun insert_by :: "('a \<Rightarrow> 'a \<Rightarrow> bool) \<Rightarrow> 'a \<Rightarrow> 'a list \<Rightarrow> 'a list" where
  "insert_by le x [] = [x]"
| "insert_by le x (y # ys) = (if le x y then x # y # ys else y # insert_by le x ys)"

definition sort_by :: "('a \<Rightarrow> 'a \<Rightarrow> bool) \<Rightarrow> 'a list \<Rightarrow> 'a list" where
  "sort_by le xs = foldr (insert_by le) xs []"

lemma mset_insert_by [simp]: "mset (insert_by le x xs) = add_mset x (mset xs)"
  by (induction xs) auto

lemma mset_sort_by [simp]: "mset (sort_by le xs) = mset xs"
  by (induction xs) (simp_all add: sort_by_def)

lemma set_sort_by [simp]: "set (sort_by le xs) = set xs"
  by (metis mset_sort_by set_mset_mset)

lemma length_sort_by [simp]: "length (sort_by le xs) = length xs"
  by (metis mset_sort_by size_mset)

lemma sorted_insert_by:
  assumes "\<And>x y. le x y \<or> le y x" "\<And>x y z. le x y \<Longrightarrow> le y z \<Longrightarrow> le x z" "sorted_wrt le xs"
  shows "sorted_wrt le (insert_by le x xs)"
  using assms(3)
proof (induction xs)
  case (Cons y ys)
  have s: "set (insert_by le x ys) = insert x (set ys)"
    using mset_insert_by [of le x ys] by (metis set_mset_add_mset_insert set_mset_mset)
  show ?case
  proof (cases "le x y")
    case True
    then show ?thesis using Cons.prems assms(2) by auto
  next
    case False
    then have "le y x" using assms(1) by blast
    then show ?thesis using Cons False s by auto
  qed
qed simp

lemma sorted_sort_by:
  assumes "\<And>x y. le x y \<or> le y x" "\<And>x y z. le x y \<Longrightarrow> le y z \<Longrightarrow> le x z"
  shows "sorted_wrt le (sort_by le xs)"
  unfolding sort_by_def
proof (induction xs)
  case (Cons x xs)
  then show ?case using sorted_insert_by [of le, OF assms] by simp
qed simp

text \<open>\<open>enumerate().filter(..)\<close>: the positions at which a list of flags is set.\<close>

definition true_indexes :: "bool list \<Rightarrow> nat list" where
  "true_indexes bs = filter (\<lambda>i. bs ! i) [0..<length bs]"

lemma set_true_indexes [simp]: "set (true_indexes bs) = {i. i < length bs \<and> bs ! i}"
  by (auto simp: true_indexes_def)

lemma distinct_true_indexes [simp]: "distinct (true_indexes bs)"
  by (simp add: true_indexes_def)

lemma sorted_true_indexes [simp]: "sorted (true_indexes bs)"
  by (simp add: true_indexes_def sorted_filter [where f = id, simplified])

subsection \<open>Ordered maps\<close>

text \<open>
  A \<open>BTreeMap\<close> is the list of its entries in key order, which is also the order in which it
  iterates.
\<close>

fun bm_insert :: "'k::linorder \<Rightarrow> 'v \<Rightarrow> ('k \<times> 'v) list \<Rightarrow> ('k \<times> 'v) list" where
  "bm_insert k v [] = [(k, v)]"
| "bm_insert k v ((k', v') # xs) =
     (if k < k' then (k, v) # (k', v') # xs
      else if k = k' then (k, v) # xs
      else (k', v') # bm_insert k v xs)"

definition bm_remove :: "'k \<Rightarrow> ('k \<times> 'v) list \<Rightarrow> ('k \<times> 'v) list" where
  "bm_remove k xs = filter (\<lambda>p. fst p \<noteq> k) xs"

text \<open>\<open>range(..=k).next_back()\<close>, and the entries strictly after \<open>a\<close> and up to \<open>b\<close>.\<close>

definition bm_last_le :: "'k::linorder \<Rightarrow> ('k \<times> 'v) list \<Rightarrow> ('k \<times> 'v) option" where
  "bm_last_le k xs = last_opt (filter (\<lambda>p. fst p \<le> k) xs)"

definition bm_range_excl_incl ::
    "'k::linorder \<Rightarrow> 'k \<Rightarrow> ('k \<times> 'v) list \<Rightarrow> ('k \<times> 'v) list" where
  "bm_range_excl_incl a b xs = filter (\<lambda>p. a < fst p \<and> fst p \<le> b) xs"

lemma bm_remove_fold:
  "fold bm_remove ks xs = filter (\<lambda>p. fst p \<notin> set ks) xs"
proof (induction ks arbitrary: xs)
  case (Cons k ks)
  then show ?case
    by (simp add: bm_remove_def conj_commute)
qed simp

lemma bm_insert_between:
  "\<forall>p \<in> set xs. fst p < k \<Longrightarrow> \<forall>p \<in> set ys. k < fst p \<Longrightarrow>
   bm_insert k v (xs @ ys) = xs @ (k, v) # ys"
proof (induction xs)
  case Nil
  then show ?case by (cases ys) auto
next
  case (Cons p xs)
  then show ?case by (cases p) auto
qed

subsection \<open>Hash maps\<close>

text \<open>
  A \<open>HashMap\<close> that the code iterates over is an association list with distinct keys, in some
  order; \<open>AList.update\<close>, \<open>AList.delete\<close> and \<open>map_of\<close> are its operations. One that is only
  looked up is a map \<open>'k \<rightharpoonup> 'v\<close>.
\<close>

abbreviation hm_insert :: "'k \<Rightarrow> 'v \<Rightarrow> ('k \<times> 'v) list \<Rightarrow> ('k \<times> 'v) list" where
  "hm_insert \<equiv> AList.update"

abbreviation hm_remove :: "'k \<Rightarrow> ('k \<times> 'v) list \<Rightarrow> ('k \<times> 'v) list" where
  "hm_remove \<equiv> AList.delete"

lemma map_of_hm_insert [simp]: "map_of (hm_insert k v xs) = (map_of xs)(k \<mapsto> v)"
  by (simp add: update_conv')

lemma map_of_hm_remove [simp]: "map_of (hm_remove k xs) = (map_of xs)(k := None)"
  by (simp add: delete_conv')

lemma distinct_hm_insert [simp]:
  "distinct (map fst (hm_insert k v xs)) \<longleftrightarrow> distinct (map fst xs)" if "distinct (map fst xs)"
  using that by (simp add: distinct_update)

lemma distinct_hm_remove [simp]: "distinct (map fst xs) \<Longrightarrow> distinct (map fst (hm_remove k xs))"
  by (simp add: distinct_delete)

end
