(* ===== verification/RustStr.thy ===== *)
theory RustStr
  imports Prelude
begin

text \<open>
  The part of Rust's \<open>str\<close> API the modelled code uses. A \<open>&str\<close> is the list of its UTF-8
  bytes; a Rust \<open>char\<close> is represented by the bytes of its encoding, so \<open>chars()\<close> groups each
  leading byte with its continuation bytes. The functions that Rust defines on code points
  (\<open>trim\<close>, \<open>chars().count()\<close>) work on those groups, the ones that search for an ASCII
  character work on bytes, which is the same thing in UTF-8.
\<close>

subsection \<open>Characters\<close>

definition byte_val :: "char \<Rightarrow> nat" where
  "byte_val c = of_char c"

definition is_continuation :: "char \<Rightarrow> bool" where
  "is_continuation c = (128 \<le> byte_val c \<and> byte_val c < 192)"

fun utf8_chars :: "string \<Rightarrow> string list" where
  "utf8_chars [] = []"
| "utf8_chars (c # cs) =
     (case utf8_chars cs of
        [] \<Rightarrow> [[c]]
      | g # gs \<Rightarrow> if g \<noteq> [] \<and> is_continuation (hd g) then (c # g) # gs else [c] # g # gs)"

lemma concat_utf8_chars [simp]: "concat (utf8_chars s) = s"
  by (induction s) (auto split: list.splits)

definition is_ascii :: "char \<Rightarrow> bool" where
  "is_ascii c = (byte_val c < 128)"

lemma is_ascii_not_continuation: "is_ascii c \<Longrightarrow> \<not> is_continuation c"
  by (simp add: is_ascii_def is_continuation_def)

lemma utf8_chars_ascii: "\<forall>c \<in> set s. is_ascii c \<Longrightarrow> utf8_chars s = map (\<lambda>c. [c]) s"
proof (induction s)
  case (Cons c s)
  then show ?case
    by (cases s) (auto simp: is_ascii_not_continuation)
qed simp

definition bytes_str :: "nat list \<Rightarrow> string" where
  "bytes_str ns = map char_of ns"

text \<open>\<open>char::is_whitespace\<close>: the Unicode \<open>White_Space\<close> characters, by their encodings.\<close>

definition whitespace_chars :: "string list" where
  "whitespace_chars =
     map (\<lambda>n. bytes_str [n]) [9, 10, 11, 12, 13, 32]
     @ [bytes_str [194, 133], bytes_str [194, 160], bytes_str [225, 154, 128]]
     @ map (\<lambda>n. bytes_str [226, 128, n]) ([128..<139] @ [168, 169, 175])
     @ [bytes_str [226, 129, 159], bytes_str [227, 128, 128]]"

definition is_whitespace :: "string \<Rightarrow> bool" where
  "is_whitespace c = (c \<in> set whitespace_chars)"

definition trim :: "string \<Rightarrow> string" where
  "trim s = concat (rev (dropWhile is_whitespace (rev (dropWhile is_whitespace (utf8_chars s)))))"

lemma is_whitespace_one: "is_whitespace [c] \<longleftrightarrow> byte_val c \<in> {9, 10, 11, 12, 13, 32}"
proof -
  have "c = char_of n \<longleftrightarrow> byte_val c = n" if "n < 256" for n :: nat
    using that by (auto simp: byte_val_def of_char_of)
  then show ?thesis
    by (auto simp: is_whitespace_def whitespace_chars_def bytes_str_def)
qed

lemma dropWhile_none: "\<forall>x \<in> set xs. \<not> P x \<Longrightarrow> dropWhile P xs = xs"
  by (cases xs) auto

lemma trim_ascii:
  assumes "\<forall>c \<in> set s. is_ascii c \<and> \<not> is_whitespace [c]"
  shows "trim s = s"
  unfolding trim_def using assms
  by (simp add: utf8_chars_ascii dropWhile_none)

text \<open>Text of visible ASCII characters has nothing to trim.\<close>

definition is_visible :: "char \<Rightarrow> bool" where
  "is_visible c = (33 \<le> byte_val c \<and> byte_val c < 127)"

lemma trim_visible: "\<forall>c \<in> set s. is_visible c \<Longrightarrow> trim s = s"
  by (intro trim_ascii) (auto simp: is_ascii_def is_whitespace_one is_visible_def)

definition to_ascii_lower :: "char \<Rightarrow> char" where
  "to_ascii_lower c =
     (if 65 \<le> byte_val c \<and> byte_val c \<le> 90 then char_of (byte_val c + 32) else c)"

definition to_ascii_lowercase :: "string \<Rightarrow> string" where
  "to_ascii_lowercase s = map to_ascii_lower s"

subsection \<open>Prefixes and splitting\<close>

definition starts_with :: "string \<Rightarrow> string \<Rightarrow> bool" where
  "starts_with s p = (take (length p) s = p)"

definition ends_with :: "string \<Rightarrow> string \<Rightarrow> bool" where
  "ends_with s p = starts_with (rev s) (rev p)"

definition strip_prefix :: "string \<Rightarrow> string \<Rightarrow> string option" where
  "strip_prefix s p = (if starts_with s p then Some (drop (length p) s) else None)"

text \<open>\<open>str::replace\<close> of a pattern that is not empty.\<close>

fun replace_str :: "string \<Rightarrow> string \<Rightarrow> string \<Rightarrow> string" where
  "replace_str p r [] = []"
| "replace_str p r (c # s) =
     (if starts_with (c # s) p then r @ replace_str p r (drop (length p - 1) s) else c # replace_str p r s)"

lemma starts_with_append [simp]: "starts_with (p @ s) p"
  by (simp add: starts_with_def)

lemma strip_prefix_append [simp]: "strip_prefix (p @ s) p = Some s"
  by (simp add: strip_prefix_def)

lemma strip_prefix_eq_Some: "strip_prefix s p = Some t \<longleftrightarrow> s = p @ t"
  by (auto simp: strip_prefix_def starts_with_def) (metis append_take_drop_id)

text \<open>\<open>split(c)\<close> on an ASCII character; never empty. \<open>split_once(c)\<close> cuts at the first one.\<close>

fun split_on :: "char \<Rightarrow> string \<Rightarrow> string list" where
  "split_on c [] = [[]]"
| "split_on c (x # xs) =
     (if x = c then [] # split_on c xs
      else (case split_on c xs of [] \<Rightarrow> [[x]] | p # ps \<Rightarrow> (x # p) # ps))"

fun split_once :: "char \<Rightarrow> string \<Rightarrow> (string \<times> string) option" where
  "split_once c [] = None"
| "split_once c (x # xs) =
     (if x = c then Some ([], xs)
      else map_option (\<lambda>(a, b). (x # a, b)) (split_once c xs))"

fun join :: "string \<Rightarrow> string list \<Rightarrow> string" where
  "join sep [] = []"
| "join sep [x] = x"
| "join sep (x # y # xs) = x @ sep @ join sep (y # xs)"

lemma split_on_nonempty [simp]: "split_on c s \<noteq> []"
  by (induction s) (auto split: list.splits)

lemma split_on_no_sep [codec]: "c \<notin> set x \<Longrightarrow> split_on c x = [x]"
  by (induction x) auto

lemma split_on_append [codec]: "c \<notin> set x \<Longrightarrow> split_on c (x @ c # s) = x # split_on c s"
  by (induction x) auto

lemma split_on_join [codec]:
  "xs \<noteq> [] \<Longrightarrow> \<forall>x \<in> set xs. c \<notin> set x \<Longrightarrow> split_on c (join [c] xs) = xs"
proof (induction "[c]" xs rule: join.induct)
  case (3 x y xs)
  then show ?case by (simp add: split_on_append)
qed (simp_all add: split_on_no_sep)

lemma split_once_append [codec]: "c \<notin> set x \<Longrightarrow> split_once c (x @ c # s) = Some (x, s)"
  by (induction x) auto

lemma split_once_eq_Some: "split_once c s = Some (a, b) \<longleftrightarrow> s = a @ c # b \<and> c \<notin> set a"
proof
  assume "split_once c s = Some (a, b)"
  then show "s = a @ c # b \<and> c \<notin> set a"
    by (induction s arbitrary: a) (auto split: if_splits)
qed (simp add: split_once_append)

text \<open>\<open>str::lines\<close>: pieces between newlines, a trailing empty piece and a carriage return before
  a newline dropped.\<close>

definition strip_cr :: "string \<Rightarrow> string" where
  "strip_cr s = (if s \<noteq> [] \<and> last s = CHR 0x0D then butlast s else s)"

definition lines :: "string \<Rightarrow> string list" where
  "lines s =
     (let ps = split_on CHR 0x0A s;
          body = map strip_cr (butlast ps)
      in if last ps = [] then body else body @ [last ps])"

lemma lines_join:
  assumes "xs \<noteq> []" "\<forall>x \<in> set xs. x \<noteq> [] \<and> CHR 0x0A \<notin> set x \<and> CHR 0x0D \<notin> set x"
  shows "lines (join [CHR 0x0A] xs) = xs"
proof -
  have cr: "strip_cr x = x" if "x \<in> set xs" for x
  proof -
    have "last x \<noteq> CHR 0x0D" using assms(2) that by (metis last_in_set)
    then show ?thesis by (simp add: strip_cr_def)
  qed
  have "split_on CHR 0x0A (join [CHR 0x0A] xs) = xs"
    using assms by (intro split_on_join) auto
  moreover have "map strip_cr (butlast xs) = butlast xs"
    using cr by (intro map_idI) (auto dest: in_set_butlastD)
  moreover have "last xs \<noteq> []" using assms by (metis last_in_set)
  ultimately show ?thesis using assms(1) by (simp add: lines_def Let_def)
qed

subsection \<open>Decimal numbers\<close>

definition digit_char :: "nat \<Rightarrow> char" where
  "digit_char d = char_of (48 + d)"

definition digit_val :: "char \<Rightarrow> nat option" where
  "digit_val c = (if 48 \<le> byte_val c \<and> byte_val c \<le> 57 then Some (byte_val c - 48) else None)"

fun decimal :: "nat \<Rightarrow> string" where
  "decimal n = (if n < 10 then [digit_char n] else decimal (n div 10) @ [digit_char (n mod 10)])"

declare decimal.simps [simp del]

fun parse_digits :: "nat \<Rightarrow> string \<Rightarrow> nat option" where
  "parse_digits acc [] = Some acc"
| "parse_digits acc (c # cs) =
     (case digit_val c of
        None \<Rightarrow> None
      | Some d \<Rightarrow> if acc * 10 + d < U64 then parse_digits (acc * 10 + d) cs else None)"

text \<open>\<open>str::parse::<u64>\<close>: an optional plus sign, then at least one digit, in range.\<close>

definition parse_u64 :: "string \<Rightarrow> nat option" where
  "parse_u64 s =
     (let ds = (case s of [] \<Rightarrow> [] | c # cs \<Rightarrow> if c = CHR ''+'' then cs else s)
      in if ds = [] then None else parse_digits 0 ds)"

lemma byte_val_digit_char [simp]: "d < 10 \<Longrightarrow> byte_val (digit_char d) = 48 + d"
  by (simp add: byte_val_def digit_char_def)

lemma digit_val_digit_char [simp]: "d < 10 \<Longrightarrow> digit_val (digit_char d) = Some d"
  by (simp add: digit_val_def)

lemma decimal_nonempty [simp]: "decimal n \<noteq> []"
  by (subst decimal.simps) simp

lemma decimal_digits: "c \<in> set (decimal n) \<Longrightarrow> 48 \<le> byte_val c \<and> byte_val c \<le> 57"
proof (induction n rule: decimal.induct)
  case (1 n)
  then show ?case
    by (subst (asm) decimal.simps) (fastforce split: if_splits)
qed

lemma decimal_not_sep:
  "byte_val c < 48 \<or> 57 < byte_val c \<Longrightarrow> c \<notin> set (decimal n)"
  using decimal_digits by fastforce

lemma decimal_no_sep [simp]:
  "CHR '','' \<notin> set (decimal n)" "CHR ''-'' \<notin> set (decimal n)" "CHR ''='' \<notin> set (decimal n)"
  "CHR ''+'' \<notin> set (decimal n)" "CHR 0x0A \<notin> set (decimal n)" "CHR 0x0D \<notin> set (decimal n)"
  by (rule decimal_not_sep, simp add: byte_val_def)+

lemma parse_digits_append:
  "parse_digits acc (xs @ ys) =
     (case parse_digits acc xs of None \<Rightarrow> None | Some a \<Rightarrow> parse_digits a ys)"
  by (induction xs arbitrary: acc) (auto split: option.splits)

lemma parse_digits_decimal: "n < U64 \<Longrightarrow> parse_digits 0 (decimal n) = Some n"
proof (induction n rule: decimal.induct)
  case (1 n)
  show ?case
  proof (cases "n < 10")
    case True
    then show ?thesis using "1.prems" by (subst decimal.simps) simp
  next
    case False
    have "n div 10 < U64" using "1.prems" by (meson div_le_dividend le_less_trans)
    with False "1.IH" have "parse_digits 0 (decimal (n div 10)) = Some (n div 10)" by simp
    moreover have "n div 10 * 10 + n mod 10 = n" by simp
    ultimately show ?thesis using False "1.prems"
      by (subst decimal.simps) (simp add: parse_digits_append)
  qed
qed

lemma parse_u64_decimal [simp, codec]: "n < U64 \<Longrightarrow> parse_u64 (decimal n) = Some n"
proof -
  assume "n < U64"
  then have p: "parse_digits 0 (decimal n) = Some n" by (rule parse_digits_decimal)
  obtain c cs where d: "decimal n = c # cs" using decimal_nonempty by (metis list.exhaust)
  moreover have "c \<noteq> CHR ''+''" using d decimal_no_sep(4) [of n] by auto
  ultimately show ?thesis using p by (simp add: parse_u64_def)
qed

lemma decimal_inj [simp]: "decimal m = decimal n \<longleftrightarrow> m = n" if "m < U64" "n < U64"
  using that by (metis option.inject parse_digits_decimal)

lemma parse_digits_lt: "acc < U64 \<Longrightarrow> parse_digits acc s = Some n \<Longrightarrow> n < U64"
  by (induction s arbitrary: acc) (auto split: option.splits if_splits)

lemma parse_u64_lt: "parse_u64 s = Some n \<Longrightarrow> n < U64"
proof -
  assume "parse_u64 s = Some n"
  then obtain ds where "parse_digits 0 ds = Some n"
    by (auto simp only: parse_u64_def Let_def split: if_splits)
  then show ?thesis by (rule parse_digits_lt [rotated]) simp
qed

fun digits_value :: "nat \<Rightarrow> string \<Rightarrow> nat" where
  "digits_value acc [] = acc"
| "digits_value acc (c # cs) = digits_value (acc * 10 + (byte_val c - 48)) cs"

lemma digits_value_append: "digits_value acc (xs @ ys) = digits_value (digits_value acc xs) ys"
  by (induction xs arbitrary: acc) auto

lemma digits_value_decimal: "digits_value 0 (decimal n) = n"
proof (induction n rule: decimal.induct)
  case (1 n)
  then show ?case by (subst decimal.simps) (simp add: digits_value_append)
qed

lemma decimal_eq_iff: "decimal m = decimal n \<longleftrightarrow> m = n"
  by (metis digits_value_decimal)

lemma decimal_ascii: "c \<in> set (decimal n) \<Longrightarrow> is_ascii c"
  using decimal_digits [of c n] by (simp add: is_ascii_def)

lemma set_join: "set (join sep xs) \<subseteq> set sep \<union> (\<Union>x \<in> set xs. set x)"
  by (induction sep xs rule: join.induct) auto

text \<open>\<open>str::from_utf8\<close>: well-formed UTF-8, by the ranges of the Unicode table.\<close>

fun valid_utf8 :: "nat list \<Rightarrow> bool" where
  "valid_utf8 [] = True"
| "valid_utf8 (b # bs) =
     (if b < 128 then valid_utf8 bs
      else if 194 \<le> b \<and> b \<le> 223 then
        (case bs of c # cs \<Rightarrow> 128 \<le> c \<and> c \<le> 191 \<and> valid_utf8 cs | _ \<Rightarrow> False)
      else if 224 \<le> b \<and> b \<le> 239 then
        (case bs of c # d # cs \<Rightarrow>
             (if b = 224 then 160 else 128) \<le> c \<and> c \<le> (if b = 237 then 159 else 191)
             \<and> 128 \<le> d \<and> d \<le> 191 \<and> valid_utf8 cs
         | _ \<Rightarrow> False)
      else if 240 \<le> b \<and> b \<le> 244 then
        (case bs of c # d # e # cs \<Rightarrow>
             (if b = 240 then 144 else 128) \<le> c \<and> c \<le> (if b = 244 then 143 else 191)
             \<and> 128 \<le> d \<and> d \<le> 191 \<and> 128 \<le> e \<and> e \<le> 191 \<and> valid_utf8 cs
         | _ \<Rightarrow> False)
      else False)"

lemma valid_utf8_ascii: "\<forall>b \<in> set bs. b < 128 \<Longrightarrow> valid_utf8 bs"
  by (induction bs) auto

end
