(* ===== verification/Domain.thy ===== *)
theory Domain
  imports RustStr
begin

text \<open>
  \<open>rustorr-domain\<close>: the identifiers every crate shares. \<open>InfoHash\<close>, \<open>FileIndex\<close> and
  \<open>PieceIndex\<close> are one-constructor datatypes, ordered as the derived \<open>Ord\<close> orders them;
  \<open>ByteRange\<close> is a record whose two fields are private in the code, so every value of it comes
  from one of the two checked constructors.
\<close>

subsection \<open>Errors\<close>

datatype domain_error =
    InfoHashLength nat nat
  | InfoHashCharacter nat string
  | FileIndexZero
  | RangeReversed nat nat
  | RangeOverflow nat nat

subsection \<open>Byte ranges\<close>

record byte_range =
  br_start :: nat
  br_end :: nat

definition byte_range_new :: "nat \<Rightarrow> nat \<Rightarrow> domain_error + byte_range" where
  "byte_range_new s e =
     (if s > e then Inl (RangeReversed s e) else Inr \<lparr>br_start = s, br_end = e\<rparr>)"

definition from_start_len :: "nat \<Rightarrow> nat \<Rightarrow> domain_error + byte_range" where
  "from_start_len s l =
     (case checked_add64 s l of
        Some e \<Rightarrow> Inr \<lparr>br_start = s, br_end = e\<rparr>
      | None \<Rightarrow> Inl (RangeOverflow s l))"

definition br_len :: "byte_range \<Rightarrow> nat" where
  "br_len r = sub64 (br_end r) (br_start r)"

definition br_is_empty :: "byte_range \<Rightarrow> bool" where
  "br_is_empty r = (br_start r = br_end r)"

definition fits_within :: "byte_range \<Rightarrow> nat \<Rightarrow> bool" where
  "fits_within r l = (br_end r \<le> l)"

text \<open>What the constructors establish, and the set of offsets a range denotes.\<close>

definition range_wf :: "byte_range \<Rightarrow> bool" where
  "range_wf r = (br_start r \<le> br_end r \<and> br_end r < U64)"

definition range_set :: "byte_range \<Rightarrow> nat set" where
  "range_set r = {br_start r..<br_end r}"

lemma byte_range_new_wf: "byte_range_new s e = Inr r \<Longrightarrow> e < U64 \<Longrightarrow> range_wf r"
  by (auto simp: byte_range_new_def range_wf_def split: if_splits)

lemma from_start_len_eq_Inr [simp]:
  "from_start_len s l = Inr r \<longleftrightarrow> s + l < U64 \<and> r = \<lparr>br_start = s, br_end = s + l\<rparr>"
  by (auto simp: from_start_len_def checked_add64_def)

lemma from_start_len_wf: "from_start_len s l = Inr r \<Longrightarrow> range_wf r"
  by (auto simp: range_wf_def)

lemma br_len_wf: "range_wf r \<Longrightarrow> br_len r = br_end r - br_start r"
  by (simp add: range_wf_def br_len_def u64_simps)

lemma card_range_set: "range_wf r \<Longrightarrow> card (range_set r) = br_len r"
  by (simp add: br_len_wf range_set_def)

lemma range_set_empty [simp]: "range_wf r \<Longrightarrow> range_set r = {} \<longleftrightarrow> br_is_empty r"
  by (auto simp: range_set_def range_wf_def br_is_empty_def)

lemma finite_range_set [simp]: "finite (range_set r)"
  by (simp add: range_set_def)

subsection \<open>File and piece indexes\<close>

datatype file_index = FileIndex (zero_based: nat)

definition from_zero_based :: "nat \<Rightarrow> file_index" where
  "from_zero_based i = FileIndex i"

definition from_one_based :: "nat \<Rightarrow> domain_error + file_index" where
  "from_one_based i =
     (case checked_sub i 1 of Some z \<Rightarrow> Inr (FileIndex z) | None \<Rightarrow> Inl FileIndexZero)"

definition one_based :: "file_index \<Rightarrow> nat" where
  "one_based f = zero_based f + 1"

datatype piece_index = PieceIndex (piece_get: nat)

instantiation file_index :: linorder
begin

definition less_eq_file_index :: "file_index \<Rightarrow> file_index \<Rightarrow> bool" where
  "less_eq_file_index a b = (zero_based a \<le> zero_based b)"

definition less_file_index :: "file_index \<Rightarrow> file_index \<Rightarrow> bool" where
  "less_file_index a b = (zero_based a < zero_based b)"

instance
  by standard (auto simp: less_eq_file_index_def less_file_index_def intro: file_index.expand)

end

instantiation piece_index :: linorder
begin

definition less_eq_piece_index :: "piece_index \<Rightarrow> piece_index \<Rightarrow> bool" where
  "less_eq_piece_index a b = (piece_get a \<le> piece_get b)"

definition less_piece_index :: "piece_index \<Rightarrow> piece_index \<Rightarrow> bool" where
  "less_piece_index a b = (piece_get a < piece_get b)"

instance
  by standard (auto simp: less_eq_piece_index_def less_piece_index_def intro: piece_index.expand)

end

subsection \<open>Info hashes\<close>

type_synonym byte = "8 word"

text \<open>The bytes of a text, and the text that bytes are when they are UTF-8.\<close>

definition str_bytes :: "string \<Rightarrow> byte list" where
  "str_bytes s = map (\<lambda>c. of_nat (byte_val c)) s"

definition bytes_text :: "byte list \<Rightarrow> string" where
  "bytes_text bs = map (\<lambda>b. char_of (unat b)) bs"

lemma length_str_bytes [simp]: "length (str_bytes s) = length s"
  by (simp add: str_bytes_def)

lemma length_bytes_text [simp]: "length (bytes_text bs) = length bs"
  by (simp add: bytes_text_def)

lemma unat_of_byte_val: "unat (of_nat (byte_val c) :: byte) = byte_val c"
proof -
  have "byte_val c < 256" by (simp add: byte_val_def)
  then show ?thesis by (simp add: unat_of_nat)
qed

lemma bytes_text_str_bytes [simp]: "bytes_text (str_bytes s) = s"
  by (simp add: bytes_text_def str_bytes_def comp_def unat_of_byte_val) (simp add: byte_val_def)

datatype info_hash = InfoHash (as_bytes: "byte list")

text \<open>The array has 20 elements in the code; here that is the invariant \<open>hash_wf\<close>.\<close>

definition hash_wf :: "info_hash \<Rightarrow> bool" where
  "hash_wf h = (length (as_bytes h) = 20)"

instantiation info_hash :: linorder
begin

definition less_eq_info_hash :: "info_hash \<Rightarrow> info_hash \<Rightarrow> bool" where
  "less_eq_info_hash a b = (as_bytes a \<le> as_bytes b)"

definition less_info_hash :: "info_hash \<Rightarrow> info_hash \<Rightarrow> bool" where
  "less_info_hash a b = (as_bytes a < as_bytes b)"

instance
  by standard (auto simp: less_eq_info_hash_def less_info_hash_def intro: info_hash.expand)

end

text \<open>\<open>char::to_digit(16)\<close> of a character given by its encoding.\<close>

definition hex_digit :: "string \<Rightarrow> byte option" where
  "hex_digit ch =
     (case ch of
        [c] \<Rightarrow>
          (let n = byte_val c in
           if 48 \<le> n \<and> n \<le> 57 then Some (of_nat (n - 48))
           else if 97 \<le> n \<and> n \<le> 102 then Some (of_nat (n - 97 + 10))
           else if 65 \<le> n \<and> n \<le> 70 then Some (of_nat (n - 65 + 10))
           else None)
      | _ \<Rightarrow> None)"

fun hex_digits :: "nat \<Rightarrow> string list \<Rightarrow> domain_error + byte list" where
  "hex_digits p [] = Inr []"
| "hex_digits p (ch # chs) =
     (case hex_digit ch of
        None \<Rightarrow> Inl (InfoHashCharacter p ch)
      | Some d \<Rightarrow>
          (case hex_digits (Suc p) chs of Inl e \<Rightarrow> Inl e | Inr ds \<Rightarrow> Inr (d # ds)))"

text \<open>The pairs of \<open>chunks_exact(2)\<close>, combined into bytes.\<close>

fun hex_pairs :: "byte list \<Rightarrow> byte list" where
  "hex_pairs (a # b # ds) = (push_bit 4 a OR b) # hex_pairs ds"
| "hex_pairs _ = []"

definition info_hash_from_str :: "string \<Rightarrow> domain_error + info_hash" where
  "info_hash_from_str text =
     (let actual = length (utf8_chars text) in
      if actual \<noteq> 40 then Inl (InfoHashLength 40 actual)
      else (case hex_digits 0 (utf8_chars text) of
              Inl e \<Rightarrow> Inl e
            | Inr ds \<Rightarrow> Inr (InfoHash (hex_pairs ds))))"

text \<open>\<open>Display\<close>: each byte as two lowercase hexadecimal digits.\<close>

definition hex_char :: "nat \<Rightarrow> char" where
  "hex_char d = (if d < 10 then char_of (48 + d) else char_of (87 + d))"

definition hex_byte :: "byte \<Rightarrow> string" where
  "hex_byte b = [hex_char (unat (drop_bit 4 b)), hex_char (unat (b AND 15))]"

definition info_hash_to_string :: "info_hash \<Rightarrow> string" where
  "info_hash_to_string h = concat (map hex_byte (as_bytes h))"

lemma hex_digit_hex_char [codec]: "d < 16 \<Longrightarrow> hex_digit [hex_char d] = Some (of_nat d)"
  by (auto simp: hex_digit_def hex_char_def byte_val_def Let_def)

lemma hex_digit_cases:
  assumes "hex_digit [c] = Some d"
  shows "(\<exists>k. byte_val c = 48 + k \<and> k < 10 \<and> d = of_nat k)
       \<or> (\<exists>k. byte_val c = 87 + k \<and> 10 \<le> k \<and> k < 16 \<and> d = of_nat k)
       \<or> (\<exists>k. byte_val c = 55 + k \<and> 10 \<le> k \<and> k < 16 \<and> d = of_nat k)"
proof -
  define n where "n = byte_val c"
  from assms consider
      "48 \<le> n" "n \<le> 57" "d = of_nat (n - 48)"
    | "97 \<le> n" "n \<le> 102" "d = of_nat (n - 97 + 10)"
    | "65 \<le> n" "n \<le> 70" "d = of_nat (n - 65 + 10)"
    unfolding hex_digit_def Let_def list.case n_def [symmetric]
    by (metis option.inject option.distinct(1))
  then show ?thesis
  proof cases
    case 1
    then have "n = 48 + (n - 48)" "n - 48 < 10" by auto
    with 1 show ?thesis unfolding n_def by blast
  next
    case 2
    then have "n = 87 + (n - 97 + 10)" "10 \<le> n - 97 + 10" "n - 97 + 10 < 16" by auto
    with 2 show ?thesis unfolding n_def by blast
  next
    case 3
    then have "n = 55 + (n - 65 + 10)" "10 \<le> n - 65 + 10" "n - 65 + 10 < 16" by auto
    with 3 show ?thesis unfolding n_def by blast
  qed
qed

lemma hex_digit_Some:
  assumes "hex_digit ch = Some d"
  obtains c where "ch = [c]" "is_ascii c" "unat d < 16" "hex_char (unat d) = to_ascii_lower c"
proof -
  from assms obtain c where c: "ch = [c]"
    by (auto simp: hex_digit_def split: list.splits)
  define n where "n = byte_val c"
  have cn: "char_of n = c" by (simp add: n_def byte_val_def)
  have u: "unat (of_nat k :: byte) = k" if "k < 16" for k
    using that by (simp add: unat_of_nat take_bit_nat_eq_self)
  from assms c consider
      k where "n = 48 + k" "k < 10" "d = of_nat k"
    | k where "n = 87 + k" "10 \<le> k" "k < 16" "d = of_nat k"
    | k where "n = 55 + k" "10 \<le> k" "k < 16" "d = of_nat k"
    using hex_digit_cases [of c d] unfolding n_def by blast
  then show thesis
  proof cases
    case 1
    with cn u [of k] show thesis
      by (intro that [OF c]) (simp_all add: hex_char_def to_ascii_lower_def is_ascii_def flip: n_def)
  next
    case 2
    with cn u [of k] show thesis
      by (intro that [OF c]) (simp_all add: hex_char_def to_ascii_lower_def is_ascii_def flip: n_def)
  next
    case 3
    with cn u [of k] show thesis
      by (intro that [OF c])
        (simp_all add: hex_char_def to_ascii_lower_def is_ascii_def add.commute flip: n_def)
  qed
qed

lemma nibble_bounds [simp]: "unat (drop_bit 4 (b :: byte)) < 16" "unat (b AND 15) < 16"
proof -
  have "unat b < 256" using unsigned_less [of b] by simp
  then show "unat (drop_bit 4 b) < 16"
    by (simp add: unsigned_drop_bit_eq drop_bit_nat_def take_bit_eq_mod less_mult_imp_div_less)
  have "b AND 15 = take_bit 4 b" by (simp add: take_bit_eq_mask mask_eq_exp_minus_1)
  then show "unat (b AND 15) < 16"
    using take_bit_nat_less_exp [of 4 "unat b"] by (simp add: unsigned_take_bit_eq)
qed

lemma nibbles_join [simp]: "push_bit 4 (drop_bit 4 b) OR (b AND 15) = (b :: byte)"
proof -
  have "b AND 15 = take_bit 4 b" by (simp add: take_bit_eq_mask mask_eq_exp_minus_1)
  then show ?thesis
    by (intro bit_eqI) (auto simp: bit_or_iff bit_push_bit_iff bit_drop_bit_eq bit_take_bit_iff)
qed

lemma nibble_split:
  fixes a b :: byte
  assumes "unat a < 16" "unat b < 16"
  shows "drop_bit 4 (push_bit 4 a OR b) = a" "(push_bit 4 a OR b) AND 15 = b"
proof -
  have ab: "take_bit 4 a = a" "take_bit 4 b = b"
    using assms by (simp_all add: word_unat_eq_iff unsigned_take_bit_eq take_bit_nat_eq_self)
  have bits: "\<not> bit a n" "\<not> bit b n" if "4 \<le> n" for n
    using ab that by (metis bit_take_bit_iff not_le)+
  have m: "x AND 15 = take_bit 4 x" for x :: byte
    by (simp add: take_bit_eq_mask mask_eq_exp_minus_1)
  have "bit (drop_bit 4 (push_bit 4 a OR b)) n = bit a n" for n
    using bits [of n] bits [of "4 + n"]
    by (cases "n < 4") (auto simp: bit_or_iff bit_push_bit_iff bit_drop_bit_eq)
  then show "drop_bit 4 (push_bit 4 a OR b) = a" by (intro bit_eqI)
  have "bit ((push_bit 4 a OR b) AND 15) n = bit b n" for n
    using bits [of n] unfolding m
    by (cases "n < 4") (auto simp: bit_or_iff bit_push_bit_iff bit_take_bit_iff)
  then show "(push_bit 4 a OR b) AND 15 = b" by (intro bit_eqI)
qed

lemma byte_val_hex_char: "d < 16 \<Longrightarrow> byte_val (hex_char d) < 128"
  by (simp add: hex_char_def byte_val_def)

lemma hex_byte_ascii: "c \<in> set (hex_byte b) \<Longrightarrow> is_ascii c"
  using nibble_bounds [of b] by (auto simp: hex_byte_def is_ascii_def byte_val_hex_char)

lemma utf8_chars_hex:
  "utf8_chars (concat (map hex_byte bs)) = map (\<lambda>c. [c]) (concat (map hex_byte bs))"
  by (rule utf8_chars_ascii) (auto dest: hex_byte_ascii)

lemma length_concat_hex: "length (concat (map hex_byte bs)) = 2 * length bs"
  by (induction bs) (auto simp: hex_byte_def)

lemma hex_digits_print:
  "hex_digits p (map (\<lambda>c. [c]) (concat (map hex_byte bs)))
     = Inr (concat (map (\<lambda>b. [drop_bit 4 b, b AND 15]) bs))"
  using nibble_bounds
  by (induction bs arbitrary: p) (simp_all add: hex_byte_def hex_digit_hex_char)

lemma hex_pairs_nibbles: "hex_pairs (concat (map (\<lambda>b. [drop_bit 4 b, b AND 15]) bs)) = bs"
  by (induction bs) simp_all

lemma hex_digits_Inr:
  "hex_digits p chs = Inr ds \<Longrightarrow>
   length ds = length chs \<and> (\<forall>d \<in> set ds. unat d < 16)
   \<and> map (\<lambda>d. hex_char (unat d)) ds = map to_ascii_lower (concat chs)"
proof (induction chs arbitrary: p ds)
  case (Cons ch chs)
  then obtain d ds' where d: "hex_digit ch = Some d" "hex_digits (Suc p) chs = Inr ds'"
      "ds = d # ds'"
    by (auto split: option.splits sum.splits)
  from hex_digit_Some [OF d(1)] obtain c
    where "ch = [c]" "unat d < 16" "hex_char (unat d) = to_ascii_lower c" by blast
  with Cons.IH [OF d(2)] d(3) show ?case by simp
qed simp

lemma hex_pairs_print:
  "even (length ds) \<Longrightarrow> \<forall>d \<in> set ds. unat d < 16 \<Longrightarrow>
   concat (map hex_byte (hex_pairs ds)) = map (\<lambda>d. hex_char (unat d)) ds
   \<and> length (hex_pairs ds) = length ds div 2"
  by (induction ds rule: hex_pairs.induct) (simp_all add: hex_byte_def nibble_split del: drop_bit_or)

lemma hex_digits_Inl:
  "hex_digits p chs = Inl e \<Longrightarrow>
   \<exists>i < length chs. e = InfoHashCharacter (p + i) (chs ! i) \<and> hex_digit (chs ! i) = None
     \<and> (\<forall>j < i. hex_digit (chs ! j) \<noteq> None)"
proof (induction chs arbitrary: p)
  case (Cons ch chs)
  show ?case
  proof (cases "hex_digit ch")
    case None
    with Cons.prems show ?thesis by (intro exI [of _ 0]) auto
  next
    case (Some d)
    with Cons.prems have "hex_digits (Suc p) chs = Inl e" by (auto split: sum.splits)
    from Cons.IH [OF this] obtain i where "i < length chs" "e = InfoHashCharacter (Suc p + i) (chs ! i)"
        "hex_digit (chs ! i) = None" "\<forall>j < i. hex_digit (chs ! j) \<noteq> None" by blast
    with Some show ?thesis
      by (intro exI [of _ "Suc i"]) (auto simp: nth_Cons split: nat.split)
  qed
qed simp

lemma parse_print_hash: "hash_wf h \<Longrightarrow> info_hash_from_str (info_hash_to_string h) = Inr h"
  by (cases h)
    (simp add: hash_wf_def info_hash_from_str_def info_hash_to_string_def utf8_chars_hex
      length_concat_hex hex_digits_print hex_pairs_nibbles)

lemma print_parse_hash:
  assumes "info_hash_from_str t = Inr h"
  shows "hash_wf h" "info_hash_to_string h = to_ascii_lowercase t"
proof -
  from assms obtain ds where ds: "length (utf8_chars t) = 40"
      "hex_digits 0 (utf8_chars t) = Inr ds" "h = InfoHash (hex_pairs ds)"
    by (auto simp: info_hash_from_str_def Let_def split: if_splits sum.splits)
  from hex_digits_Inr [OF ds(2)] ds(1) have f: "length ds = 40" "\<forall>d \<in> set ds. unat d < 16"
      "map (\<lambda>d. hex_char (unat d)) ds = map to_ascii_lower t"
    by auto
  with hex_pairs_print [of ds] ds(3) show "hash_wf h" "info_hash_to_string h = to_ascii_lowercase t"
    by (simp_all add: hash_wf_def info_hash_to_string_def to_ascii_lowercase_def)
qed

lemma info_hash_to_string_inj: "info_hash_to_string h = info_hash_to_string k \<longleftrightarrow> h = k"
proof
  assume "info_hash_to_string h = info_hash_to_string k"
  then have "concat (map hex_byte (as_bytes h)) = concat (map hex_byte (as_bytes k))"
    by (simp add: info_hash_to_string_def)
  then have "hex_digits 0 (map (\<lambda>c. [c]) (concat (map hex_byte (as_bytes h))))
      = hex_digits 0 (map (\<lambda>c. [c]) (concat (map hex_byte (as_bytes k))))" by simp
  then have "concat (map (\<lambda>b. [drop_bit 4 b, b AND 15]) (as_bytes h))
      = concat (map (\<lambda>b. [drop_bit 4 b, b AND 15]) (as_bytes k))"
    unfolding hex_digits_print by (simp only: sum.inject)
  then have "hex_pairs (concat (map (\<lambda>b. [drop_bit 4 b, b AND 15]) (as_bytes h)))
      = hex_pairs (concat (map (\<lambda>b. [drop_bit 4 b, b AND 15]) (as_bytes k)))" by (rule arg_cong)
  then have "as_bytes h = as_bytes k" by (simp only: hex_pairs_nibbles)
  then show "h = k" by (simp add: info_hash.expand)
qed simp

lemma hex_char_lower: "d < 16 \<Longrightarrow> to_ascii_lower (hex_char d) = hex_char d"
  by (auto simp: to_ascii_lower_def hex_char_def byte_val_def)

lemma info_hash_to_string_lower: "to_ascii_lowercase (info_hash_to_string h) = info_hash_to_string h"
proof -
  have "map to_ascii_lower (hex_byte b) = hex_byte b" for b
    using nibble_bounds [of b] by (simp add: hex_byte_def hex_char_lower)
  then show ?thesis
    by (simp add: to_ascii_lowercase_def info_hash_to_string_def map_concat o_def)
qed

text \<open>
  C1. The text form of an info hash is faithful in both directions: every hash prints to a text
  that parses back to it, and whatever text parses prints back as that text in lower case, so two
  texts name the same torrent exactly when they differ in letter case only.
\<close>

theorem info_hash_text_roundtrip:
  "(hash_wf h \<longrightarrow> info_hash_from_str (info_hash_to_string h) = Inr h)
   \<and> (info_hash_from_str t = Inr h \<longrightarrow>
        hash_wf h \<and> info_hash_to_string h = to_ascii_lowercase t)"
  by (simp add: parse_print_hash print_parse_hash)

theorem info_hash_text_roundtrip_witness:
  "info_hash_from_str (info_hash_to_string (InfoHash (replicate 20 171)))
     = Inr (InfoHash (replicate 20 171))"
  using info_hash_text_roundtrip [of "InfoHash (replicate 20 171)" "[]"]
  by (simp add: hash_wf_def)

end
