(* ===== verification/Layout.thy ===== *)
theory Layout
  imports Domain
begin

text \<open>
  \<open>rustorr-cache\<close>, the shape of a torrent: \<open>TorrentLayout\<close> with its checked constructor and the
  range check every read and write goes through, and \<open>PieceSet\<close>, the residency index.
  The cache's error type is here too, since the range check is the first to raise it; the
  \<open>io::Error\<close> that \<open>Error::Io\<close> wraps is represented by its context text.
\<close>

datatype cache_error =
    UnknownTorrent info_hash
  | LayoutMismatch info_hash
  | Pinned info_hash
  | UnknownFile info_hash file_index
  | OutOfBounds info_hash file_index byte_range nat
  | Missing info_hash file_index byte_range
  | PieceOutOfRange piece_index nat
  | InvalidLayout string
  | IoError string
  | DomainError domain_error

subsection \<open>Torrent layout\<close>

record torrent_layout =
  piece_length :: nat
  file_lengths :: "nat list"
  total_length :: nat
  piece_count :: nat

definition div_ceil :: "nat \<Rightarrow> nat \<Rightarrow> nat" where
  "div_ceil a b = a div b + (if a mod b = 0 then 0 else 1)"

definition layout_new :: "nat \<Rightarrow> nat list \<Rightarrow> cache_error + torrent_layout" where
  "layout_new pl fls =
     (if pl = 0 then Inl (InvalidLayout ''piece length is zero'')
      else (case checked_sum64 0 fls of
              None \<Rightarrow> Inl (InvalidLayout ''total length overflows'')
            | Some tot \<Rightarrow>
                (if div_ceil tot pl < U32
                 then Inr \<lparr>piece_length = pl, file_lengths = fls, total_length = tot,
                           piece_count = div_ceil tot pl\<rparr>
                 else Inl (InvalidLayout ''more pieces than fit in 32 bits''))))"

definition file_count :: "torrent_layout \<Rightarrow> nat" where
  "file_count l = length (file_lengths l)"

definition file_length :: "torrent_layout \<Rightarrow> file_index \<Rightarrow> nat option" where
  "file_length l f = get_opt (file_lengths l) (zero_based f)"

definition file_offset :: "torrent_layout \<Rightarrow> file_index \<Rightarrow> nat option" where
  "file_offset l f =
     (if zero_based f \<le> length (file_lengths l)
      then checked_sum64 0 (take (zero_based f) (file_lengths l)) else None)"

definition check_range ::
    "torrent_layout \<Rightarrow> info_hash \<Rightarrow> file_index \<Rightarrow> nat \<Rightarrow> nat \<Rightarrow> cache_error + byte_range" where
  "check_range l t f offset len =
     (case file_length l f of
        None \<Rightarrow> Inl (UnknownFile t f)
      | Some file_len \<Rightarrow>
          (case from_start_len offset len of
             Inl e \<Rightarrow> Inl (DomainError e)
           | Inr r \<Rightarrow>
               (if fits_within r file_len then Inr r
                else Inl (OutOfBounds t f r file_len))))"

text \<open>What \<open>layout_new\<close> establishes; the fields are private, so every layout satisfies it.\<close>

definition layout_wf :: "torrent_layout \<Rightarrow> bool" where
  "layout_wf l \<longleftrightarrow>
     0 < piece_length l \<and> piece_length l < U64 \<and> total_length l = sum_list (file_lengths l) \<and> total_length l < U64
     \<and> piece_count l = div_ceil (total_length l) (piece_length l) \<and> piece_count l < U32"

lemma layout_new_wf: "pl < U64 \<Longrightarrow> layout_new pl fls = Inr l \<Longrightarrow> layout_wf l"
  by (auto simp: layout_new_def layout_wf_def checked_sum64_eq split: if_splits option.splits)

lemma div_ceil_bounds:
  assumes "0 < b"
  shows "a \<le> div_ceil a b * b" "div_ceil a b * b < a + b"
proof -
  have s: "a div b * b + a mod b = a" by (rule div_mult_mod_eq)
  have m: "a mod b < b" using assms by simp
  have d: "div_ceil a b * b = a div b * b + (if a mod b = 0 then 0 else b)"
    by (simp add: div_ceil_def algebra_simps)
  show "a \<le> div_ceil a b * b" "div_ceil a b * b < a + b"
    unfolding d using s m by (cases "a mod b = 0"; simp only: if_True if_False simp_thms; linarith)+
qed

lemma file_length_le_total: "layout_wf l \<Longrightarrow> file_length l f = Some n \<Longrightarrow> n \<le> total_length l"
  by (auto simp: layout_wf_def file_length_def member_le_sum_list)

lemma check_range_eq_Inr [simp]:
  "check_range l t f off len = Inr r \<longleftrightarrow>
     off + len < U64 \<and> r = \<lparr>br_start = off, br_end = off + len\<rparr>
     \<and> (\<exists>n. file_length l f = Some n \<and> off + len \<le> n)"
  by (auto simp: check_range_def fits_within_def from_start_len_def checked_add64_def
      split: option.splits if_splits)

lemma check_range_wf: "check_range l t f off len = Inr r \<Longrightarrow> range_wf r"
  by (auto simp: range_wf_def)

lemma file_offset_eq:
  assumes "layout_wf l" "zero_based f \<le> file_count l"
  shows "file_offset l f = Some (sum_list (take (zero_based f) (file_lengths l)))"
proof -
  have "sum_list (take (zero_based f) (file_lengths l)) \<le> total_length l"
    using assms(1) unfolding layout_wf_def
    by (metis append_take_drop_id le_add1 sum_list_append)
  then have "sum_list (take (zero_based f) (file_lengths l)) < U64"
    using assms(1) by (simp add: layout_wf_def)
  then show ?thesis
    using assms(2) by (simp add: file_offset_def file_count_def checked_sum64_eq)
qed

lemma sum_list_take_le_total:
  assumes "layout_wf l" "file_length l f = Some n"
  shows "sum_list (take (zero_based f) (file_lengths l)) + n \<le> total_length l"
proof -
  from assms(2) have i: "zero_based f < length (file_lengths l)" "file_lengths l ! zero_based f = n"
    by (auto simp: file_length_def)
  have "sum_list (take (Suc (zero_based f)) (file_lengths l)) \<le> sum_list (file_lengths l)"
    by (metis append_take_drop_id le_add1 sum_list_append)
  with i assms(1) show ?thesis by (simp add: take_Suc_conv_app_nth layout_wf_def)
qed

subsection \<open>The residency index\<close>

type_synonym piece_set = "bool list"

definition piece_set_new :: "nat \<Rightarrow> piece_set" where
  "piece_set_new n = replicate n False"

definition piece_set_insert :: "piece_set \<Rightarrow> piece_index \<Rightarrow> cache_error + piece_set" where
  "piece_set_insert ps p =
     (if piece_get p < length ps then Inr (ps[piece_get p := True])
      else Inl (PieceOutOfRange p (length ps mod U32)))"

definition piece_set_contains :: "piece_set \<Rightarrow> piece_index \<Rightarrow> bool" where
  "piece_set_contains ps p = (case get_opt ps (piece_get p) of Some b \<Rightarrow> b | None \<Rightarrow> False)"

definition piece_set_indexes :: "piece_set \<Rightarrow> piece_index list" where
  "piece_set_indexes ps = map PieceIndex (true_indexes ps)"

lemma piece_set_insert_eq_Inr [simp]:
  "piece_set_insert ps p = Inr ps' \<longleftrightarrow> piece_get p < length ps \<and> ps' = ps[piece_get p := True]"
  by (auto simp: piece_set_insert_def)

lemma piece_set_contains_insert:
  "piece_set_insert ps p = Inr ps' \<Longrightarrow>
   piece_set_contains ps' q \<longleftrightarrow> q = p \<or> piece_set_contains ps q"
  by (cases p; cases q) (auto simp: piece_set_contains_def get_opt_def nth_list_update)

lemma set_piece_set_indexes:
  "set (piece_set_indexes ps) = {p. piece_set_contains ps p}"
proof -
  have "p \<in> set (piece_set_indexes ps) \<longleftrightarrow> piece_set_contains ps p" for p
    by (cases p) (auto simp: piece_set_indexes_def piece_set_contains_def get_opt_def)
  then show ?thesis by blast
qed

end
