(* ===== verification/Extents.thy ===== *)
theory Extents
  imports Layout
begin

text \<open>
  \<open>rustorr-cache/src/extents.rs\<close>: the set of stored byte ranges. \<open>extents_insert\<close> follows the
  code's two passes over the \<open>BTreeMap\<close> (the predecessor that reaches the range, then the spans
  that begin inside it); the abstraction \<open>extents_bytes\<close> is the set of stored offsets, and the
  lemmas say that the code computes union, difference counting and inclusion on that set.
\<close>

record extents =
  ex_spans :: "(nat \<times> nat) list"
  ex_total :: nat

definition extents_default :: extents where
  "extents_default = \<lparr>ex_spans = [], ex_total = 0\<rparr>"

definition absorb_span :: "nat \<times> nat \<Rightarrow> nat list \<times> nat \<times> nat \<Rightarrow> nat list \<times> nat \<times> nat" where
  "absorb_span p acc =
     (case (p, acc) of
        ((s, e), (starts, absorbed, end)) \<Rightarrow>
          (starts @ [s], add64 absorbed (sub64 e s), max end e))"

definition extents_insert :: "extents \<Rightarrow> byte_range \<Rightarrow> extents \<times> nat" where
  "extents_insert x r =
     (if br_is_empty r then (x, 0)
      else
        let predecessor =
              (case bm_last_le (br_start r) (ex_spans x) of
                 Some (s, e) \<Rightarrow> if br_start r \<le> e then Some (s, e) else None
               | None \<Rightarrow> None);
            (start, acc) =
              (case predecessor of
                 Some (s, e) \<Rightarrow> (s, ([s], sub64 e s, max (br_end r) e))
               | None \<Rightarrow> (br_start r, ([], 0, br_end r)));
            following = bm_range_excl_incl (br_start r) (br_end r) (ex_spans x);
            (starts, absorbed, end) = fold absorb_span following acc;
            spans = bm_insert start end (fold bm_remove starts (ex_spans x));
            added = sub64 (sub64 end start) absorbed
        in (\<lparr>ex_spans = spans, ex_total = add64 (ex_total x) added\<rparr>, added))"

definition extents_covers :: "extents \<Rightarrow> byte_range \<Rightarrow> bool" where
  "extents_covers x r =
     (if br_is_empty r then True
      else (case bm_last_le (br_start r) (ex_spans x) of
              Some (s, e) \<Rightarrow> br_end r \<le> e
            | None \<Rightarrow> False))"

fun from_spans_acc :: "extents \<Rightarrow> (nat \<times> nat) list \<Rightarrow> extents option" where
  "from_spans_acc x [] = Some x"
| "from_spans_acc x ((s, e) # ps) =
     (case byte_range_new s e of
        Inl _ \<Rightarrow> None
      | Inr r \<Rightarrow>
          (case extents_insert x r of
             (x', added) \<Rightarrow> if added \<noteq> sub64 e s then None else from_spans_acc x' ps))"

definition from_spans :: "(nat \<times> nat) list \<Rightarrow> extents option" where
  "from_spans ps = from_spans_acc extents_default ps"

subsection \<open>Abstraction and invariant\<close>

definition spans_bytes :: "(nat \<times> nat) list \<Rightarrow> nat set" where
  "spans_bytes ps = (\<Union>(s, e) \<in> set ps. {s..<e})"

definition extents_bytes :: "extents \<Rightarrow> nat set" where
  "extents_bytes x = spans_bytes (ex_spans x)"

text \<open>Spans are non-empty, in order, and separated by gaps: disjoint and not adjacent.\<close>

definition gapped :: "(nat \<times> nat) list \<Rightarrow> bool" where
  "gapped ps \<longleftrightarrow>
     sorted_wrt (\<lambda>p q. snd p < fst q) ps \<and> (\<forall>p \<in> set ps. fst p < snd p \<and> snd p < U64)"

definition extents_wf :: "extents \<Rightarrow> bool" where
  "extents_wf x \<longleftrightarrow> gapped (ex_spans x) \<and> ex_total x = card (extents_bytes x)"

lemma spans_bytes_simps [simp]:
  "spans_bytes [] = {}" "spans_bytes (p # ps) = {fst p..<snd p} \<union> spans_bytes ps"
  "spans_bytes (ps @ qs) = spans_bytes ps \<union> spans_bytes qs"
  by (auto simp: spans_bytes_def case_prod_beta)

lemma finite_spans_bytes [simp]: "finite (spans_bytes ps)"
  by (induction ps) auto

lemma gapped_simps:
  "gapped []"
  "gapped (p # ps) \<longleftrightarrow> fst p < snd p \<and> snd p < U64 \<and> (\<forall>q \<in> set ps. snd p < fst q) \<and> gapped ps"
  "gapped (ps @ qs) \<longleftrightarrow> gapped ps \<and> gapped qs \<and> (\<forall>p \<in> set ps. \<forall>q \<in> set qs. snd p < fst q)"
  by (auto simp: gapped_def sorted_wrt_append)

lemma extents_default_wf [simp]: "extents_wf extents_default"
  by (simp add: extents_default_def extents_wf_def gapped_simps extents_bytes_def)

lemma extents_bytes_default [simp]: "extents_bytes extents_default = {}"
  by (simp add: extents_default_def extents_bytes_def)

lemma spans_bytes_bound: "gapped ps \<Longrightarrow> x \<in> spans_bytes ps \<Longrightarrow> x < U64"
  by (fastforce simp: gapped_def spans_bytes_def)

text \<open>Every wf list of spans splits, for a range, into what lies before, touches, lies after.\<close>

definition touches :: "nat \<Rightarrow> nat \<Rightarrow> nat \<times> nat \<Rightarrow> bool" where
  "touches a b p \<longleftrightarrow> a \<le> snd p \<and> fst p \<le> b"

lemma gapped_split:
  assumes "gapped ps" "a \<le> b"
  shows "ps = filter (\<lambda>p. snd p < a) ps @ filter (touches a b) ps @ filter (\<lambda>p. b < fst p) ps"
  using assms(1)
proof (induction ps)
  case (Cons p ps)
  then have IH: "ps = filter (\<lambda>p. snd p < a) ps @ filter (touches a b) ps @ filter (\<lambda>p. b < fst p) ps"
    and g: "\<forall>q \<in> set ps. snd p < fst q \<and> fst q < snd q" "fst p < snd p"
    by (auto simp: gapped_def)
  consider "snd p < a" | "touches a b p" | "b < fst p"
    unfolding touches_def by linarith
  then show ?case
  proof cases
    case 1
    then have "\<not> touches a b p" "\<not> b < fst p" using g(2) assms(2) by (auto simp: touches_def)
    with 1 show ?thesis by simp (rule IH)
  next
    case 2
    have "filter (\<lambda>p. snd p < a) ps = []"
      using 2 g by (fastforce simp: filter_empty_conv touches_def)
    moreover have "\<not> snd p < a" "\<not> b < fst p" using 2 by (auto simp: touches_def)
    ultimately show ?thesis using 2 IH by simp
  next
    case 3
    have "filter (\<lambda>p. snd p < a) ps = []" "filter (touches a b) ps = []"
      using 3 g assms(2) by (fastforce simp: filter_empty_conv touches_def)+
    moreover have "\<not> snd p < a" "\<not> touches a b p" using 3 g(2) assms(2) by (auto simp: touches_def)
    ultimately show ?thesis using 3 IH by simp
  qed
qed simp

subsection \<open>What an insertion computes\<close>

lemma card_spans_bytes:
  "gapped ps \<Longrightarrow> card (spans_bytes ps) = sum_list (map (\<lambda>p. snd p - fst p) ps)"
proof (induction ps)
  case (Cons p ps)
  then have "{fst p..<snd p} \<inter> spans_bytes ps = {}"
    by (fastforce simp: gapped_simps spans_bytes_def)
  then show ?case
    using Cons by (simp add: card_Un_disjoint gapped_simps)
qed simp

lemma card_below:
  assumes "X \<subseteq> {..<m}" "m < U64"
  shows "card X < U64"
  using card_mono [OF _ assms(1)] assms(2) by simp

lemma spans_bytes_subset: "gapped ps \<Longrightarrow> spans_bytes ps \<subseteq> {..<U64 - 1}"
proof
  fix x assume g: "gapped ps" and x: "x \<in> spans_bytes ps"
  then obtain p where "p \<in> set ps" "x < snd p" by (auto simp: spans_bytes_def)
  moreover from g this have "snd p < U64" by (auto simp: gapped_def)
  ultimately show "x \<in> {..<U64 - 1}" by simp
qed

lemma card_spans_lt: "gapped ps \<Longrightarrow> card (spans_bytes ps) < U64"
  by (rule card_below [OF spans_bytes_subset]) simp_all

definition max_end :: "(nat \<times> nat) list \<Rightarrow> nat \<Rightarrow> nat" where
  "max_end ps b = fold (\<lambda>p en. max en (snd p)) ps b"

lemma max_end_props:
  "b \<le> max_end ps b" "p \<in> set ps \<Longrightarrow> snd p \<le> max_end ps b"
  "max_end ps b = b \<or> (\<exists>p \<in> set ps. max_end ps b = snd p)"
proof -
  have "b \<le> max_end ps b \<and> (\<forall>p \<in> set ps. snd p \<le> max_end ps b)
        \<and> (max_end ps b = b \<or> (\<exists>p \<in> set ps. max_end ps b = snd p))"
  proof (induction ps arbitrary: b)
    case (Cons p ps)
    from Cons.IH [of "max b (snd p)"] show ?case
      by (auto simp: max_end_def max_def split: if_splits)
  qed (simp add: max_end_def)
  then show "b \<le> max_end ps b" "p \<in> set ps \<Longrightarrow> snd p \<le> max_end ps b"
    "max_end ps b = b \<or> (\<exists>p \<in> set ps. max_end ps b = snd p)"
    by blast+
qed

lemma fold_absorb_span:
  assumes "gapped ps" "ab + card (spans_bytes ps) < U64"
  shows "fold absorb_span ps (st, ab, en)
           = (st @ map fst ps, ab + card (spans_bytes ps), max_end ps en)"
  using assms
proof (induction ps arbitrary: st ab en)
  case (Cons p ps)
  have g: "gapped ps" "fst p < snd p" "snd p < U64" using Cons.prems(1) by (auto simp: gapped_simps)
  have c: "card (spans_bytes (p # ps)) = (snd p - fst p) + card (spans_bytes ps)"
    using card_spans_bytes [OF Cons.prems(1)] card_spans_bytes [OF g(1)] by simp
  have "absorb_span p (st, ab, en) = (st @ [fst p], ab + (snd p - fst p), max en (snd p))"
    using g Cons.prems(2) c by (simp add: absorb_span_def case_prod_beta u64_simps)
  then show ?case
    using Cons.IH [OF g(1)] Cons.prems(2) c by (simp add: max_end_def)
qed (simp add: max_end_def)

text \<open>The touching block \<open>B\<close> of a range \<open>a..b\<close> and the span that replaces it.\<close>

definition merged_start :: "nat \<Rightarrow> (nat \<times> nat) list \<Rightarrow> nat" where
  "merged_start a B = (if B \<noteq> [] \<and> fst (hd B) \<le> a then fst (hd B) else a)"

lemma merged_bytes:
  assumes "gapped B" "\<forall>p \<in> set B. touches a b p" "a < b"
  shows "{merged_start a B..<max_end B b} = {a..<b} \<union> spans_bytes B"
proof (intro equalityI subsetI)
  fix x assume x: "x \<in> {merged_start a B..<max_end B b}"
  consider "a \<le> x" "x < b" | "x < a" | "b \<le> x" by linarith
  then show "x \<in> {a..<b} \<union> spans_bytes B"
  proof cases
    case 2
    with x have B: "B \<noteq> []" "fst (hd B) \<le> x" by (auto simp: merged_start_def split: if_splits)
    with assms(2) 2 have "x < snd (hd B)"
      by (metis hd_in_set less_le_trans touches_def)
    with B show ?thesis
      by (auto simp: spans_bytes_def case_prod_beta intro!: bexI [of _ "hd B"])
  next
    case 3
    with x max_end_props(3) [of B b] obtain p where "p \<in> set B" "x < snd p"
      by fastforce
    moreover with assms(2) 3 have "fst p \<le> x" by (auto simp: touches_def)
    ultimately show ?thesis by (auto simp: spans_bytes_def case_prod_beta)
  qed simp
next
  fix x assume "x \<in> {a..<b} \<union> spans_bytes B"
  then show "x \<in> {merged_start a B..<max_end B b}"
  proof
    assume "x \<in> {a..<b}"
    then show ?thesis using max_end_props(1) [of b B] by (auto simp: merged_start_def)
  next
    assume "x \<in> spans_bytes B"
    then obtain p where p: "p \<in> set B" "fst p \<le> x" "x < snd p" by (auto simp: spans_bytes_def)
    have "fst (hd B) \<le> fst p"
      using assms(1) p(1) by (cases B) (auto simp: gapped_simps intro: less_imp_le less_trans)
    moreover have "a \<le> fst p \<or> merged_start a B \<le> fst p"
      using \<open>fst (hd B) \<le> fst p\<close> p(1) by (auto simp: merged_start_def)
    ultimately have "merged_start a B \<le> fst p"
      by (auto simp: merged_start_def)
    then show ?thesis using p max_end_props(2) [OF p(1), of b] by auto
  qed
qed

lemma filter_le_touching:
  assumes "gapped B" "\<forall>p \<in> set B. touches a b p"
  shows "filter (\<lambda>p. fst p \<le> a) B = (if B \<noteq> [] \<and> fst (hd B) \<le> a then [hd B] else [])"
    and "filter (\<lambda>p. a < fst p \<and> fst p \<le> b) B = (if B \<noteq> [] \<and> fst (hd B) \<le> a then tl B else B)"
proof -
  have t: "a < fst q" if "q \<in> set (tl B)" for q
  proof (cases B)
    case (Cons p ps)
    then have "snd p < fst q" "a \<le> snd p" using assms that by (auto simp: gapped_simps touches_def)
    then show ?thesis by simp
  qed (use that in simp)
  show "filter (\<lambda>p. fst p \<le> a) B = (if B \<noteq> [] \<and> fst (hd B) \<le> a then [hd B] else [])"
    using t by (cases B) (auto simp: filter_empty_conv not_le)
  show "filter (\<lambda>p. a < fst p \<and> fst p \<le> b) B = (if B \<noteq> [] \<and> fst (hd B) \<le> a then tl B else B)"
    using t assms(2) by (cases B) (auto simp: filter_id_conv touches_def)
qed

lemma fold_bm_remove_block:
  assumes "gapped (A @ B @ C)"
  shows "fold bm_remove (map fst B) (A @ B @ C) = A @ C"
proof -
  have "fst p \<noteq> fst q" if "p \<in> set B" "q \<in> set A \<union> set C" for p q
  proof -
    have "snd p < fst q \<or> snd q < fst p"
      using assms that by (auto simp: gapped_simps)
    moreover have "fst p < snd p" "fst q < snd q"
      using assms that by (auto simp: gapped_def)
    ultimately show ?thesis by auto
  qed
  then have "fst q \<notin> fst ` set B" if "q \<in> set A \<union> set C" for q
    using that by (metis (no_types, lifting) imageE)
  then show ?thesis
    by (auto simp: bm_remove_fold filter_empty_conv filter_id_conv)
qed

text \<open>The code's result in closed form, for a non-empty range.\<close>

lemma extents_insert_eq:
  assumes wf: "extents_wf x" and r: "range_wf r" "\<not> br_is_empty r"
  defines "a \<equiv> br_start r" and "b \<equiv> br_end r"
  defines "A \<equiv> filter (\<lambda>p. snd p < a) (ex_spans x)"
    and "B \<equiv> filter (touches a b) (ex_spans x)"
    and "C \<equiv> filter (\<lambda>p. b < fst p) (ex_spans x)"
  defines "S \<equiv> merged_start a B" and "E \<equiv> max_end B b"
  shows "extents_insert x r =
    (let added = sub64 (sub64 E S) (card (spans_bytes B)) in
     (\<lparr>ex_spans = A @ (S, E) # C, ex_total = add64 (ex_total x) added\<rparr>, added))"
    and "gapped (A @ B @ C)" and "ex_spans x = A @ B @ C" and "gapped (A @ (S, E) # C)"
    and "{S..<E} = {a..<b} \<union> spans_bytes B" and "E < U64" and "S < E"
proof -
  have ab: "a < b" "b < U64" using r by (auto simp: range_wf_def br_is_empty_def a_def b_def)
  have g: "gapped (ex_spans x)" using wf by (simp add: extents_wf_def)
  show sp: "ex_spans x = A @ B @ C"
    using gapped_split [OF g, of a b] ab by (simp add: A_def B_def C_def)
  show gABC: "gapped (A @ B @ C)" using g sp by simp
  then have gB: "gapped B" and gA: "gapped A" and gC: "gapped C" by (auto simp: gapped_simps)
  have tB: "\<forall>p \<in> set B. touches a b p" by (simp add: B_def)
  have aA: "\<forall>p \<in> set A. snd p < a" by (simp add: A_def)
  have bC: "\<forall>p \<in> set C. b < fst p" by (simp add: C_def)
  show SE: "{S..<E} = {a..<b} \<union> spans_bytes B"
    unfolding S_def E_def by (rule merged_bytes [OF gB tB ab(1)])
  show EU: "E < U64"
    using max_end_props(3) [of B b] ab gB by (auto simp: E_def gapped_def)
  have Sa: "S \<le> a" by (simp add: S_def merged_start_def)
  show SltE: "S < E" using Sa ab max_end_props(1) [of b B] by (simp add: E_def)
  have SA: "snd p < S" if "p \<in> set A" for p
  proof (cases "B \<noteq> [] \<and> fst (hd B) \<le> a")
    case True
    then have "hd B \<in> set B" by simp
    with gABC that have "snd p < fst (hd B)" by (simp add: gapped_simps)
    with True show ?thesis by (simp add: S_def merged_start_def)
  next
    case False
    then have "S = a" by (auto simp: S_def merged_start_def)
    with aA that show ?thesis by simp
  qed
  have EC: "E < fst p" if "p \<in> set C" for p
  proof (cases "E = b")
    case False
    then obtain q where "q \<in> set B" "E = snd q" using max_end_props(3) [of B b] by (auto simp: E_def)
    with gABC that show ?thesis by (simp add: gapped_simps)
  qed (use bC that in simp)
  show "gapped (A @ (S, E) # C)"
    using gABC SA EC EU SltE by (simp add: gapped_simps)
  have nA: "fst p < snd p" if "p \<in> set A" for p using gA that by (simp add: gapped_def)
  have fA: "filter (\<lambda>p. fst p \<le> a) A = A" "filter (\<lambda>p. a < fst p \<and> fst p \<le> b) A = []"
    using aA nA by (force simp: filter_id_conv filter_empty_conv)+
  have fC: "filter (\<lambda>p. fst p \<le> a) C = []" "filter (\<lambda>p. a < fst p \<and> fst p \<le> b) C = []"
    using bC ab by (auto simp: filter_empty_conv)
  have pred: "(case bm_last_le a (ex_spans x) of
                 Some (s, e) \<Rightarrow> if a \<le> e then Some (s, e) else None | None \<Rightarrow> None)
              = (if B \<noteq> [] \<and> fst (hd B) \<le> a then Some (hd B) else None)"
  proof (cases "B \<noteq> [] \<and> fst (hd B) \<le> a")
    case True
    then have "hd B \<in> set B" by simp
    then have "a \<le> snd (hd B)" using tB by (simp add: touches_def)
    with True show ?thesis
      by (cases "hd B")
        (simp add: bm_last_le_def last_opt_def sp fA fC filter_le_touching [OF gB tB])
  next
    case False
    then have "filter (\<lambda>p. fst p \<le> a) B = []"
      by (subst filter_le_touching [OF gB tB]) (rule if_not_P)
    then have "bm_last_le a (ex_spans x) = last_opt A"
      by (simp add: bm_last_le_def sp fA fC)
    moreover have "snd p < a" if "last_opt A = Some p" for p
      using that aA by (auto simp: last_opt_def split: if_splits)
    ultimately show ?thesis using False by (auto split: option.splits)
  qed
  have foll: "bm_range_excl_incl a b (ex_spans x) = (if B \<noteq> [] \<and> fst (hd B) \<le> a then tl B else B)"
    by (simp add: bm_range_excl_incl_def sp fA fC filter_le_touching [OF gB tB])
  have cB: "card (spans_bytes B) < U64" by (rule card_spans_lt [OF gB])
  have fold: "fold absorb_span (if B \<noteq> [] \<and> fst (hd B) \<le> a then tl B else B)
      (if B \<noteq> [] \<and> fst (hd B) \<le> a
       then ([fst (hd B)], sub64 (snd (hd B)) (fst (hd B)), max b (snd (hd B))) else ([], 0, b))
     = (map fst B, card (spans_bytes B), E)"
  proof (cases B)
    case (Cons p ps)
    have gp: "gapped ps" "fst p < snd p" "snd p < U64" using gB Cons by (auto simp: gapped_simps)
    have c: "card (spans_bytes B) = (snd p - fst p) + card (spans_bytes ps)"
      using card_spans_bytes [OF gB] card_spans_bytes [OF gp(1)] Cons by simp
    show ?thesis
      using fold_absorb_span [OF gp(1), of "snd p - fst p" "[fst p]" "max b (snd p)"]
        fold_absorb_span [OF gB, of 0 "[]" b] cB c gp Cons
      by (auto simp: u64_simps E_def max_end_def)
  qed (simp add: E_def max_end_def)
  have ins: "bm_insert S E (A @ C) = A @ (S, E) # C"
    using SA EC SltE nA by (intro bm_insert_between ballI) (meson less_trans)+
  have st: "(case (if B \<noteq> [] \<and> fst (hd B) \<le> a then Some (hd B) else None) of
                 Some (s, e) \<Rightarrow> (s, ([s], sub64 e s, max b e))
               | None \<Rightarrow> (a, ([], 0, b)))
     = (S, if B \<noteq> [] \<and> fst (hd B) \<le> a
       then ([fst (hd B)], sub64 (snd (hd B)) (fst (hd B)), max b (snd (hd B))) else ([], 0, b))"
    by (auto simp: S_def merged_start_def split: prod.splits)
  show "extents_insert x r =
    (let added = sub64 (sub64 E S) (card (spans_bytes B)) in
     (\<lparr>ex_spans = A @ (S, E) # C, ex_total = add64 (ex_total x) added\<rparr>, added))"
    using r(2) unfolding extents_insert_def a_def [symmetric] b_def [symmetric] Let_def
    by (simp only: pred st foll prod.case if_False fold)
      (simp add: sp fold_bm_remove_block [OF gABC] ins)
qed

lemma extents_insert_wf_bytes:
  assumes wf: "extents_wf x" and r: "range_wf r"
  shows "extents_wf (fst (extents_insert x r))"
    and "extents_bytes (fst (extents_insert x r)) = extents_bytes x \<union> range_set r"
    and "snd (extents_insert x r) = card (range_set r - extents_bytes x)"
proof -
  have "extents_wf (fst (extents_insert x r))
    \<and> extents_bytes (fst (extents_insert x r)) = extents_bytes x \<union> range_set r
    \<and> snd (extents_insert x r) = card (range_set r - extents_bytes x)"
  proof (cases "br_is_empty r")
    case True
    then have "range_set r = {}" using r by simp
    with True wf show ?thesis by (simp add: extents_insert_def)
  next
    case False
    define a b where "a = br_start r" and "b = br_end r"
    define A B C where "A = filter (\<lambda>p. snd p < a) (ex_spans x)"
      and "B = filter (touches a b) (ex_spans x)" and "C = filter (\<lambda>p. b < fst p) (ex_spans x)"
    define S E where "S = merged_start a B" and "E = max_end B b"
    note eqs = extents_insert_eq [OF wf r False, folded a_def b_def, folded A_def B_def C_def,
        folded S_def E_def]
    let ?A = "spans_bytes A" and ?B = "spans_bytes B" and ?C = "spans_bytes C"
    have ab: "a < b" using r False by (auto simp: range_wf_def br_is_empty_def a_def b_def)
    have rs: "range_set r = {a..<b}" by (simp add: range_set_def a_def b_def)
    have bx: "extents_bytes x = ?A \<union> ?B \<union> ?C" using eqs(3) by (auto simp: extents_bytes_def)
    have dA: "{a..<b} \<inter> ?A = {}" by (auto simp: A_def spans_bytes_def)
    have dC: "{a..<b} \<inter> ?C = {}" by (auto simp: C_def spans_bytes_def)
    have diff: "{a..<b} - extents_bytes x = {a..<b} - ?B" using bx dA dC by blast
    have SE: "E - S = card ({a..<b} \<union> ?B)" using eqs(5) by (metis card_atLeastLessThan)
    have cu: "card ({a..<b} \<union> ?B) = card ({a..<b} - ?B) + card ?B"
      using card_Un_disjoint [of "{a..<b} - ?B" ?B] by (simp add: Diff_disjoint Int_commute)
    define added where "added = card ({a..<b} - ?B)"
    have add: "sub64 (sub64 E S) (card ?B) = added"
      using SE cu eqs(6,7) by (simp add: u64_simps added_def)
    have res: "extents_insert x r = (\<lparr>ex_spans = A @ (S, E) # C, ex_total = add64 (ex_total x) added\<rparr>, added)"
      using eqs(1) add by (simp add: Let_def)
    have bytes: "spans_bytes (A @ (S, E) # C) = extents_bytes x \<union> {a..<b}"
      using eqs(5) bx by auto
    have "card (extents_bytes x \<union> {a..<b}) = card (extents_bytes x) + added"
      unfolding added_def diff [symmetric]
      by (metis Diff_disjoint Un_Diff_cancel card_Un_disjoint extents_bytes_def finite_Diff
          finite_atLeastLessThan finite_spans_bytes)
    moreover have "card (extents_bytes x \<union> {a..<b}) < U64"
      using card_spans_lt [OF eqs(4)] unfolding bytes .
    ultimately have "add64 (ex_total x) added = card (extents_bytes x \<union> {a..<b})"
      using wf by (simp add: extents_wf_def u64_simps)
    then show ?thesis
      using res bytes eqs(4) rs diff by (simp add: extents_wf_def extents_bytes_def added_def)
  qed
  then show "extents_wf (fst (extents_insert x r))"
    "extents_bytes (fst (extents_insert x r)) = extents_bytes x \<union> range_set r"
    "snd (extents_insert x r) = card (range_set r - extents_bytes x)"
    by blast+
qed

lemma bm_last_le_Some:
  "bm_last_le k ps = Some p \<Longrightarrow> p \<in> set ps \<and> fst p \<le> k"
  using last_in_set [of "filter (\<lambda>p. fst p \<le> k) ps"]
  by (auto simp: bm_last_le_def last_opt_def split: if_splits)

lemma bm_last_le_gapped:
  assumes "gapped ps" "q \<in> set ps" "fst q \<le> k"
  obtains p where "bm_last_le k ps = Some p" "fst q \<le> fst p"
proof -
  let ?f = "filter (\<lambda>p. fst p \<le> k) ps"
  have q: "q \<in> set ?f" using assms by simp
  then have ne: "?f \<noteq> []" by (metis empty_iff empty_set)
  have "sorted_wrt (\<lambda>p q. snd p < fst q) ?f"
    using assms(1) by (simp add: gapped_def sorted_wrt_filter)
  then have "sorted_wrt (\<lambda>p q. snd p < fst q) (butlast ?f @ [last ?f])" using ne by simp
  then have lt: "snd p < fst (last ?f)" if "p \<in> set (butlast ?f)" for p
    using that by (simp add: sorted_wrt_append)
  have pos: "fst q < snd q" using assms by (auto simp: gapped_def)
  have "set ?f = set (butlast ?f @ [last ?f])" using ne by simp
  with q have "q = last ?f \<or> q \<in> set (butlast ?f)" by auto
  then have "fst q \<le> fst (last ?f)" using lt [of q] pos by auto
  moreover have "bm_last_le k ps = Some (last ?f)" using ne by (simp add: bm_last_le_def last_opt_def)
  ultimately show thesis using that by blast
qed

lemma extents_covers_iff:
  assumes wf: "extents_wf x" and r: "range_wf r"
  shows "extents_covers x r \<longleftrightarrow> range_set r \<subseteq> extents_bytes x"
proof (cases "br_is_empty r")
  case True
  then have "range_set r = {}" using r by simp
  with True show ?thesis by (simp add: extents_covers_def)
next
  case False
  define a b where "a = br_start r" and "b = br_end r"
  have ab: "a < b" using r False by (auto simp: range_wf_def br_is_empty_def a_def b_def)
  have g: "gapped (ex_spans x)" using wf by (simp add: extents_wf_def)
  have c: "extents_covers x r \<longleftrightarrow> (\<exists>p. bm_last_le a (ex_spans x) = Some p \<and> b \<le> snd p)"
    using False by (auto simp: extents_covers_def a_def b_def split: option.splits)
  have rs: "range_set r = {a..<b}" by (simp add: range_set_def a_def b_def)
  show ?thesis
  proof
    assume "extents_covers x r"
    then obtain p where "bm_last_le a (ex_spans x) = Some p" "b \<le> snd p" using c by blast
    with bm_last_le_Some [OF this(1)] show "range_set r \<subseteq> extents_bytes x"
      by (auto simp: rs extents_bytes_def spans_bytes_def case_prod_beta intro!: bexI [of _ p])
  next
    assume sub: "range_set r \<subseteq> extents_bytes x"
    then have "a \<in> extents_bytes x" using ab rs by auto
    then obtain q where q: "q \<in> set (ex_spans x)" "fst q \<le> a" "a < snd q"
      by (auto simp: extents_bytes_def spans_bytes_def)
    obtain p where p: "bm_last_le a (ex_spans x) = Some p" "fst q \<le> fst p"
      by (rule bm_last_le_gapped [OF g q(1,2)])
    have disj: "p' = p'' \<or> snd p' < fst p'' \<or> snd p'' < fst p'"
      if "p' \<in> set (ex_spans x)" "p'' \<in> set (ex_spans x)" for p' p''
      using g that by (metis (no_types, lifting) gapped_def in_set_conv_nth linorder_neqE_nat
          sorted_wrt_nth_less)
    have "b \<le> snd p"
    proof (rule ccontr)
      assume n: "\<not> b \<le> snd p"
      have pp: "p \<in> set (ex_spans x)" "fst p \<le> a" using bm_last_le_Some [OF p(1)] by auto
      have "p = q" using disj [OF pp(1) q(1)] p(2) q pp g by (auto simp: gapped_def)
      then have "snd p \<in> {a..<b}" using n q by auto
      then have "snd p \<in> extents_bytes x" using sub rs by blast
      then obtain s where s: "s \<in> set (ex_spans x)" "fst s \<le> snd p" "snd p < snd s"
        by (auto simp: extents_bytes_def spans_bytes_def)
      with disj [OF s(1) pp(1)] g pp(1) show False by (auto simp: gapped_def)
    qed
    with p c show "extents_covers x r" by blast
  qed
qed

subsection \<open>The canonical form and recovery from a manifest\<close>

lemma gapped_first:
  assumes "gapped (p # ps)"
  shows "fst p \<in> spans_bytes (p # ps)" "x \<in> spans_bytes (p # ps) \<Longrightarrow> fst p \<le> x"
    and "snd p \<notin> spans_bytes (p # ps)"
    and "spans_bytes ps = spans_bytes (p # ps) - {fst p..<snd p}"
  using assms by (fastforce simp: gapped_simps spans_bytes_def)+

lemma gapped_canonical:
  "gapped ps \<Longrightarrow> gapped qs \<Longrightarrow> spans_bytes ps = spans_bytes qs \<Longrightarrow> ps = qs"
proof (induction ps arbitrary: qs)
  case Nil
  then show ?case by (cases qs) (auto simp: gapped_simps)
next
  case (Cons p ps)
  have "fst p \<in> spans_bytes qs" using gapped_first(1) [OF Cons.prems(1)] unfolding Cons.prems(3) .
  then obtain q qs' where qs: "qs = q # qs'" by (cases qs) auto
  note g = Cons.prems(1) Cons.prems(2) [unfolded qs]
  have eq: "spans_bytes (p # ps) = spans_bytes (q # qs')" using Cons.prems(3) qs by simp
  have f: "fst p = fst q"
    using gapped_first(1,2) [OF g(1)] gapped_first(1,2) [OF g(2)] eq by (metis le_antisym)
  have "snd p \<le> snd q"
  proof (rule ccontr)
    assume "\<not> snd p \<le> snd q"
    then have "snd q \<in> spans_bytes (p # ps)" using f g by (auto simp: gapped_simps)
    then show False using gapped_first(3) [OF g(2)] unfolding eq by contradiction
  qed
  moreover have "snd q \<le> snd p"
  proof (rule ccontr)
    assume "\<not> snd q \<le> snd p"
    then have "snd p \<in> spans_bytes (q # qs')" using f g by (auto simp: gapped_simps)
    then show False using gapped_first(3) [OF g(1)] unfolding eq by contradiction
  qed
  ultimately have pq: "p = q" using f by (simp add: prod_eq_iff)
  have "spans_bytes ps = spans_bytes qs'"
    using gapped_first(4) [OF g(1)] gapped_first(4) [OF g(2)] eq pq by simp
  with Cons.IH [of qs'] g pq qs show ?case by (auto simp: gapped_simps)
qed

lemma extents_canonical:
  "extents_wf x \<Longrightarrow> extents_wf y \<Longrightarrow> extents_bytes x = extents_bytes y \<Longrightarrow> x = y"
  using gapped_canonical [of "ex_spans x" "ex_spans y"]
  by (auto simp: extents_wf_def extents_bytes_def)

text \<open>Well-formed spans that overlap neither \<open>X\<close> nor each other, in the order given.\<close>

fun fresh_spans :: "nat set \<Rightarrow> (nat \<times> nat) list \<Rightarrow> bool" where
  "fresh_spans X [] = True"
| "fresh_spans X ((s, e) # ps) = (s \<le> e \<and> {s..<e} \<inter> X = {} \<and> fresh_spans (X \<union> {s..<e}) ps)"

lemma card_diff_full:
  "finite R \<Longrightarrow> card (R - X) = card R \<longleftrightarrow> R \<inter> X = {}" for R :: "nat set"
  by (metis Diff_disjoint Diff_subset Int_Diff Int_commute card_subset_eq inf.idem inf_bot_right
      Diff_triv)

lemma from_spans_acc_iff:
  assumes "extents_wf x" "\<forall>p \<in> set ps. snd p < U64"
  shows "from_spans_acc x ps = Some y \<longleftrightarrow>
    fresh_spans (extents_bytes x) ps \<and> extents_wf y \<and> extents_bytes y = extents_bytes x \<union> spans_bytes ps"
  using assms
proof (induction ps arbitrary: x)
  case Nil
  then show ?case using extents_canonical [of x y] by auto
next
  case (Cons p ps)
  obtain s e where p: "p = (s, e)" by (cases p)
  show ?case
  proof (cases "s \<le> e")
    case True
    define r where "r = \<lparr>br_start = s, br_end = e\<rparr>"
    have r: "range_wf r" "range_set r = {s..<e}" "byte_range_new s e = Inr r"
      using True Cons.prems(2) p by (auto simp: r_def range_wf_def range_set_def byte_range_new_def)
    note ins = extents_insert_wf_bytes [OF Cons.prems(1) r(1)]
    have "sub64 e s = card {s..<e}" using True Cons.prems(2) p by (simp add: u64_simps)
    then have added: "snd (extents_insert x r) = sub64 e s \<longleftrightarrow> {s..<e} \<inter> extents_bytes x = {}"
      using ins(3) r(2) card_diff_full [of "{s..<e}" "extents_bytes x"] by simp
    have "from_spans_acc x (p # ps) = Some y \<longleftrightarrow>
        {s..<e} \<inter> extents_bytes x = {} \<and> from_spans_acc (fst (extents_insert x r)) ps = Some y"
      using added r(3) by (simp add: p case_prod_beta)
    with Cons.IH [OF ins(1)] Cons.prems(2) ins(2) r(2) True show ?thesis
      by (simp add: p Un_ac)
  next
    case False
    then show ?thesis by (simp add: p byte_range_new_def)
  qed
qed

lemma gapped_fresh:
  "gapped ps \<Longrightarrow> X \<inter> spans_bytes ps = {} \<Longrightarrow> fresh_spans X ps"
proof (induction ps arbitrary: X)
  case (Cons p ps)
  obtain s e where p: "p = (s, e)" by (cases p)
  have "{s..<e} \<inter> spans_bytes ps = {}"
    using gapped_first(4) [OF Cons.prems(1)] p by auto
  then have "fresh_spans (X \<union> {s..<e}) ps"
    using Cons p by (intro Cons.IH) (auto simp: gapped_simps)
  with Cons.prems p show ?case by (auto simp: gapped_simps)
qed simp

lemma from_spans_iff:
  "\<forall>p \<in> set ps. snd p < U64 \<Longrightarrow>
   from_spans ps = Some y \<longleftrightarrow> fresh_spans {} ps \<and> extents_wf y \<and> extents_bytes y = spans_bytes ps"
  using from_spans_acc_iff [OF extents_default_wf] by (simp add: from_spans_def)

lemma from_spans_spans: "extents_wf x \<Longrightarrow> from_spans (ex_spans x) = Some x"
  by (subst from_spans_iff) (auto simp: extents_wf_def gapped_fresh extents_bytes_def gapped_def)

subsection \<open>The interface the stores use\<close>

locale byte_set =
  fixes ins :: "'x \<Rightarrow> byte_range \<Rightarrow> 'x \<times> nat"
    and cov :: "'x \<Rightarrow> byte_range \<Rightarrow> bool"
    and bytes :: "'x \<Rightarrow> nat set"
    and inv :: "'x \<Rightarrow> bool"
  assumes ins_inv: "inv x \<Longrightarrow> range_wf r \<Longrightarrow> inv (fst (ins x r))"
    and ins_bytes: "inv x \<Longrightarrow> range_wf r \<Longrightarrow> bytes (fst (ins x r)) = bytes x \<union> range_set r"
    and ins_added: "inv x \<Longrightarrow> range_wf r \<Longrightarrow> snd (ins x r) = card (range_set r - bytes x)"
    and cov_iff: "inv x \<Longrightarrow> range_wf r \<Longrightarrow> cov x r \<longleftrightarrow> range_set r \<subseteq> bytes x"
begin

lemma cov_ins_same: "inv x \<Longrightarrow> range_wf r \<Longrightarrow> cov (fst (ins x r)) r"
  by (simp add: cov_iff ins_inv ins_bytes)

lemma cov_ins_mono:
  "inv x \<Longrightarrow> range_wf r \<Longrightarrow> range_wf q \<Longrightarrow> cov x q \<Longrightarrow> cov (fst (ins x r)) q"
  by (auto simp: cov_iff ins_inv ins_bytes)

lemma ins_again: "inv x \<Longrightarrow> range_wf r \<Longrightarrow> range_set r \<subseteq> bytes x \<Longrightarrow> snd (ins x r) = 0"
  by (simp add: ins_added Diff_eq_empty_iff [THEN iffD2])

lemma ins_card:
  assumes "inv x" "range_wf r" "finite (bytes x)"
  shows "card (bytes (fst (ins x r))) = card (bytes x) + snd (ins x r)"
proof -
  have "card (bytes x \<union> (range_set r - bytes x)) = card (bytes x) + card (range_set r - bytes x)"
    using assms by (intro card_Un_disjoint) auto
  then show ?thesis
    using assms by (simp add: ins_bytes ins_added)
qed

end

interpretation ext: byte_set extents_insert extents_covers extents_bytes extents_wf
  by unfold_locales (simp_all add: extents_insert_wf_bytes extents_covers_iff)

lemma finite_extents_bytes [simp]: "finite (extents_bytes x)"
  by (simp add: extents_bytes_def)

lemma extents_bytes_bound: "extents_wf x \<Longrightarrow> o' \<in> extents_bytes x \<Longrightarrow> o' < U64"
  using spans_bytes_bound by (auto simp: extents_wf_def extents_bytes_def)

text \<open>
  C2. The span map implements a set of offsets. Inserting a range keeps the spans ordered,
  disjoint and non-adjacent, stores exactly the union, returns exactly the number of offsets that
  were not stored before and keeps the running total equal to the number of stored offsets;
  \<open>covers\<close> answers whether every offset of the range is stored.
\<close>

theorem extents_refine_offset_set:
  assumes "extents_wf x" "range_wf r"
  shows "extents_wf (fst (extents_insert x r))
    \<and> extents_bytes (fst (extents_insert x r)) = extents_bytes x \<union> range_set r
    \<and> snd (extents_insert x r) = card (range_set r - extents_bytes x)
    \<and> ex_total (fst (extents_insert x r)) = ex_total x + snd (extents_insert x r)
    \<and> (extents_covers x r \<longleftrightarrow> range_set r \<subseteq> extents_bytes x)"
  using assms ext.ins_inv [OF assms] ext.ins_card [OF assms] extents_insert_wf_bytes [OF assms]
    extents_covers_iff [OF assms]
  by (simp add: extents_wf_def)

theorem extents_refine_offset_set_witness:
  "extents_bytes (fst (extents_insert \<lparr>ex_spans = [(0, 5), (10, 15)], ex_total = 10\<rparr>
       \<lparr>br_start = 3, br_end = 12\<rparr>)) = {0..<15}
   \<and> snd (extents_insert \<lparr>ex_spans = [(0, 5), (10, 15)], ex_total = 10\<rparr>
       \<lparr>br_start = 3, br_end = 12\<rparr>) = 5"
proof -
  have c: "card ({0..<5::nat} \<union> {10..<15}) = 10"
    by (subst card_Un_disjoint) auto
  have "extents_wf \<lparr>ex_spans = [(0, 5), (10, 15)], ex_total = 10\<rparr>"
    by (simp add: extents_wf_def gapped_simps extents_bytes_def U64_def c)
  moreover have "range_wf \<lparr>br_start = 3, br_end = 12\<rparr>" by (simp add: range_wf_def U64_def)
  moreover have "{3..<12::nat} - ({0..<5} \<union> {10..<15}) = {5..<10}" by auto
  moreover have "{0..<5::nat} \<union> {10..<15} \<union> {3..<12} = {0..<15}" by auto
  ultimately show ?thesis
    using extents_refine_offset_set [of "\<lparr>ex_spans = [(0, 5), (10, 15)], ex_total = 10\<rparr>"
        "\<lparr>br_start = 3, br_end = 12\<rparr>"]
    by (simp add: extents_bytes_def range_set_def Un_ac)
qed

text \<open>
  Recovery from persisted spans accepts exactly the lists of non-reversed, pairwise disjoint
  spans, in any order, and then holds exactly their union. In particular a list whose spans touch
  each other is accepted, so the check does not establish the canonical form that the comment in
  \<open>from_spans\<close> names.
\<close>

theorem from_spans_accepts:
  assumes "\<forall>p \<in> set ps. snd p < U64"
  shows "(from_spans ps = Some x \<longleftrightarrow>
      fresh_spans {} ps \<and> extents_wf x \<and> extents_bytes x = spans_bytes ps)
    \<and> from_spans [(0, 5), (5, 10)] = Some \<lparr>ex_spans = [(0, 10)], ex_total = 10\<rparr>"
proof -
  have b: "{0..<5::nat} \<union> {5..<10} = {0..<10}" by auto
  have "from_spans [(0, 5), (5, 10)] = Some \<lparr>ex_spans = [(0, 10)], ex_total = 10\<rparr>"
    by (subst from_spans_iff) (auto simp: U64_def extents_wf_def gapped_simps extents_bytes_def b)
  with assms show ?thesis by (simp add: from_spans_iff)
qed

theorem from_spans_accepts_witness:
  "from_spans [(5, 10), (0, 2)] = Some \<lparr>ex_spans = [(0, 2), (5, 10)], ex_total = 7\<rparr>"
proof -
  have "card ({0..<2::nat} \<union> {5..<10}) = 7" by (subst card_Un_disjoint) auto
  then show ?thesis
    using from_spans_accepts [of "[(5, 10), (0, 2)]" "\<lparr>ex_spans = [(0, 2), (5, 10)], ex_total = 7\<rparr>"]
    by (simp add: U64_def extents_wf_def gapped_simps extents_bytes_def Un_ac)
qed

end
