(* ===== verification/PieceStore.thy ===== *)
theory PieceStore
  imports Extents
begin

text \<open>
  \<open>rustorr-cache/src/store.rs\<close>: the \<open>PieceStore\<close> trait. The cache holds its store as
  \<open>Arc<dyn PieceStore>\<close>; here a trait object is a record of operations over a store state
  \<open>'s\<close>, which the cache's definitions take as an argument. A method that changes the store
  returns the new state next to its result; a read fills a buffer, so its result is the bytes.

  The contract that the trait's comments state is the locale \<open>piece_store_contract\<close>; both
  backends interpret it in their theories.
\<close>

record recovered =
  rec_stored_bytes :: nat
  rec_completed_pieces :: "piece_index list"

definition recovered_default :: recovered where
  "recovered_default = \<lparr>rec_stored_bytes = 0, rec_completed_pieces = []\<rparr>"

record 's piece_store =
  ps_open :: "'s \<Rightarrow> info_hash \<Rightarrow> torrent_layout \<Rightarrow> 's \<times> (cache_error + recovered)"
  ps_write :: "'s \<Rightarrow> info_hash \<Rightarrow> file_index \<Rightarrow> nat \<Rightarrow> byte list \<Rightarrow> 's \<times> (cache_error + nat)"
  ps_read :: "'s \<Rightarrow> info_hash \<Rightarrow> file_index \<Rightarrow> nat \<Rightarrow> nat \<Rightarrow> cache_error + byte list"
  ps_remove :: "'s \<Rightarrow> info_hash \<Rightarrow> 's \<times> (cache_error + unit)"
  ps_piece_completed :: "'s \<Rightarrow> info_hash \<Rightarrow> piece_index \<Rightarrow> 's \<times> (cache_error + unit)"
  ps_discard_except :: "'s \<Rightarrow> info_hash set \<Rightarrow> 's \<times> (cache_error + unit)"

text \<open>The trait's two default methods.\<close>

definition default_piece_completed :: "'s \<Rightarrow> info_hash \<Rightarrow> piece_index \<Rightarrow> 's \<times> (cache_error + unit)" where
  "default_piece_completed s t p = (s, Inr ())"

definition default_discard_except :: "'s \<Rightarrow> info_hash set \<Rightarrow> 's \<times> (cache_error + unit)" where
  "default_discard_except s keep = (s, Inr ())"

subsection \<open>Contents\<close>

text \<open>
  What a store holds, seen from outside: for every torrent its layout, and for every file of it
  a partial function from offsets to bytes.
\<close>

type_synonym content = "info_hash \<Rightarrow> file_index \<Rightarrow> nat \<rightharpoonup> byte"

definition overlay :: "(nat \<rightharpoonup> byte) \<Rightarrow> nat \<Rightarrow> byte list \<Rightarrow> (nat \<rightharpoonup> byte)" where
  "overlay m off d = (\<lambda>i. if off \<le> i \<and> i < off + length d then Some (d ! (i - off)) else m i)"

lemma dom_overlay: "dom (overlay m off d) = dom m \<union> {off..<off + length d}"
  by (auto simp: overlay_def dom_def)

lemma overlay_outside [simp]: "i < off \<or> off + length d \<le> i \<Longrightarrow> overlay m off d i = m i"
  by (auto simp: overlay_def)

lemma overlay_inside [simp]: "off \<le> i \<Longrightarrow> i < off + length d \<Longrightarrow> overlay m off d i = Some (d ! (i - off))"
  by (simp add: overlay_def)

text \<open>The number of bytes held for a torrent of a given layout.\<close>

definition held :: "(file_index \<Rightarrow> nat \<rightharpoonup> byte) \<Rightarrow> torrent_layout \<Rightarrow> nat" where
  "held c l = (\<Sum>f < file_count l. card (dom (c (FileIndex f))))"

lemma held_update:
  assumes "f < file_count l" "finite (dom (c (FileIndex f)))" "finite D"
    and "dom (c' (FileIndex f)) = dom (c (FileIndex f)) \<union> D"
    and "\<And>g. g \<noteq> f \<Longrightarrow> c' (FileIndex g) = c (FileIndex g)"
  shows "held c' l = held c l + card (D - dom (c (FileIndex f)))"
proof -
  have s: "sum h {..<file_count l} = h f + sum h ({..<file_count l} - {f})" for h :: "nat \<Rightarrow> nat"
    using assms(1) by (simp add: sum.remove)
  have "card (dom (c' (FileIndex f))) = card (dom (c (FileIndex f)) \<union> (D - dom (c (FileIndex f))))"
    unfolding assms(4) by simp
  also have "\<dots> = card (dom (c (FileIndex f))) + card (D - dom (c (FileIndex f)))"
    using assms(2,3) by (intro card_Un_disjoint) auto
  finally have "card (dom (c' (FileIndex f))) = card (dom (c (FileIndex f))) + card (D - dom (c (FileIndex f)))" .
  moreover have "(\<Sum>g \<in> {..<file_count l} - {f}. card (dom (c' (FileIndex g))))
      = (\<Sum>g \<in> {..<file_count l} - {f}. card (dom (c (FileIndex g))))"
    by (rule sum.cong) (auto simp: assms(5))
  ultimately show ?thesis unfolding held_def s by simp
qed

lemma held_le_total:
  assumes "layout_wf l" "\<And>f n. file_length l f = Some n \<Longrightarrow> dom (c f) \<subseteq> {..<n}"
  shows "held c l \<le> total_length l"
proof -
  have "card (dom (c (FileIndex f))) \<le> file_lengths l ! f" if "f < file_count l" for f
    using card_mono [OF _ assms(2) [of "FileIndex f" "file_lengths l ! f"]] that
    by (simp add: file_length_def file_count_def)
  then have "held c l \<le> (\<Sum>f < file_count l. file_lengths l ! f)"
    unfolding held_def by (intro sum_mono) simp
  also have "\<dots> = total_length l"
    using assms(1) by (simp add: layout_wf_def sum_list_sum_nth file_count_def atLeast0LessThan)
  finally show ?thesis .
qed

subsection \<open>The contract\<close>

locale piece_store_contract =
  fixes vt :: "'s piece_store"
    and inv :: "'s \<Rightarrow> bool"
    and layout_of :: "'s \<Rightarrow> info_hash \<rightharpoonup> torrent_layout"
    and content :: "'s \<Rightarrow> content"
  assumes content_bounds:
      "inv s \<Longrightarrow> layout_of s t = Some l \<Longrightarrow> file_length l f = Some n \<Longrightarrow> dom (content s t f) \<subseteq> {..<n}"
    and open_ok:
      "inv s \<Longrightarrow> layout_wf l \<Longrightarrow> layout_of s t = None \<Longrightarrow> ps_open vt s t l = (s', Inr rc) \<Longrightarrow>
       inv s' \<and> layout_of s' = (layout_of s)(t \<mapsto> l) \<and> (\<forall>t'. t' \<noteq> t \<longrightarrow> content s' t' = content s t')
       \<and> rec_stored_bytes rc = held (content s' t) l
       \<and> (\<forall>p \<in> set (rec_completed_pieces rc). piece_get p < piece_count l)"
    and open_err:
      "inv s \<Longrightarrow> layout_wf l \<Longrightarrow> layout_of s t = None \<Longrightarrow> ps_open vt s t l = (s', Inl e) \<Longrightarrow>
       inv s' \<and> layout_of s' = layout_of s \<and> content s' = content s"
    and write_ok:
      "inv s \<Longrightarrow> ps_write vt s t f off d = (s', Inr n) \<Longrightarrow>
       inv s' \<and> layout_of s' = layout_of s
       \<and> (\<exists>l r. layout_of s t = Some l \<and> check_range l t f off (length d) = Inr r)
       \<and> content s' = (content s)(t := (content s t)(f := overlay (content s t f) off d))
       \<and> n = card ({off..<off + length d} - dom (content s t f))"
    and write_err:
      "inv s \<Longrightarrow> ps_write vt s t f off d = (s', Inl e) \<Longrightarrow>
       inv s' \<and> layout_of s' = layout_of s
       \<and> (\<forall>t' f'. dom (content s t' f') \<subseteq> dom (content s' t' f'))
       \<and> (\<forall>t' f' i. \<not> (t' = t \<and> f' = f \<and> off \<le> i \<and> i < off + length d)
            \<longrightarrow> content s' t' f' i = content s t' f' i)"
    and read_ok:
      "inv s \<Longrightarrow> ps_read vt s t f off n = Inr bs \<Longrightarrow>
       length bs = n \<and> (\<forall>k < n. content s t f (off + k) = Some (bs ! k))"
    and read_missing:
      "inv s \<Longrightarrow> layout_of s t = Some l \<Longrightarrow> check_range l t f off n = Inr r \<Longrightarrow> i \<in> range_set r \<Longrightarrow>
       content s t f i = None \<Longrightarrow> ps_read vt s t f off n = Inl (Missing t f r)"
    and remove_ok:
      "inv s \<Longrightarrow> ps_remove vt s t = (s', Inr u) \<Longrightarrow>
       inv s' \<and> layout_of s' = (layout_of s)(t := None)
       \<and> (\<forall>t'. t' \<noteq> t \<longrightarrow> content s' t' = content s t')"
    and remove_err:
      "inv s \<Longrightarrow> ps_remove vt s t = (s', Inl e) \<Longrightarrow>
       inv s' \<and> (layout_of s' t = layout_of s t \<and> content s' t = content s t \<or> layout_of s' t = None)
       \<and> (\<forall>t'. t' \<noteq> t \<longrightarrow> layout_of s' t' = layout_of s t' \<and> content s' t' = content s t')"
    and piece_completed_frame:
      "inv s \<Longrightarrow> ps_piece_completed vt s t p = (s', res) \<Longrightarrow>
       inv s' \<and> layout_of s' = layout_of s \<and> content s' = content s"
    and discard_frame:
      "inv s \<Longrightarrow> ps_discard_except vt s keep = (s', res) \<Longrightarrow>
       inv s' \<and> layout_of s' = layout_of s \<and> content s' = content s"
begin

lemma finite_content:
  assumes "inv s" "layout_of s t = Some l" "file_length l f = Some n"
  shows "finite (dom (content s t f))"
  using content_bounds [OF assms] by (rule finite_subset) simp

text \<open>Reading back what was just written.\<close>

lemma read_after_write:
  assumes "inv s" "ps_write vt s t f off d = (s', Inr n)" "ps_read vt s' t f off (length d) = Inr bs"
  shows "bs = d"
proof -
  from write_ok [OF assms(1,2)]
  have c: "inv s'" "content s' t f = overlay (content s t f) off d" by auto
  from read_ok [OF c(1) assms(3)] c(2) show ?thesis
    by (auto intro: nth_equalityI)
qed

text \<open>A write elsewhere leaves what is read unchanged.\<close>

lemma read_after_other_write:
  assumes "inv s" "ps_write vt s t f off d = (s', r)" "ps_read vt s' t' f' off' n = Inr bs"
    and "t' \<noteq> t \<or> f' \<noteq> f \<or> off' + n \<le> off \<or> off + length d \<le> off'"
  shows "\<forall>k < n. content s t' f' (off' + k) = Some (bs ! k)"
proof (intro allI impI)
  fix k assume k: "k < n"
  have out: "\<not> (t' = t \<and> f' = f \<and> off \<le> off' + k \<and> off' + k < off + length d)"
    using assms(4) k by auto
  show "content s t' f' (off' + k) = Some (bs ! k)"
  proof (cases r)
    case (Inl e)
    with assms(2) have "ps_write vt s t f off d = (s', Inl e)" by simp
    note w = write_err [OF assms(1) this]
    from w have "content s' t' f' i = content s t' f' i"
      if "\<not> (t' = t \<and> f' = f \<and> off \<le> i \<and> i < off + length d)" for i
      using that by simp
    from this [OF out] have "content s t' f' (off' + k) = content s' t' f' (off' + k)" by simp
    with w read_ok [OF _ assms(3)] k show ?thesis by simp
  next
    case (Inr m)
    with assms(2) have "ps_write vt s t f off d = (s', Inr m)" by simp
    note w = write_ok [OF assms(1) this]
    then have "content s' t' f' (off' + k) = content s t' f' (off' + k)"
      using out by (auto simp: overlay_def)
    with w read_ok [OF _ assms(3)] k show ?thesis by simp
  qed
qed

lemma held_bound:
  assumes "inv s" "layout_of s t = Some l" "layout_wf l"
  shows "held (content s t) l \<le> total_length l"
  using content_bounds [OF assms(1,2)] by (intro held_le_total assms(3)) auto

text \<open>The bytes a write reports are the growth of what is held.\<close>

lemma write_held:
  assumes "inv s" "ps_write vt s t f off d = (s', Inr n)" "layout_of s t = Some l"
  shows "held (content s' t) l = held (content s t) l + n"
proof -
  from write_ok [OF assms(1,2)] assms(3) obtain r where w:
      "check_range l t f off (length d) = Inr r"
      "content s' = (content s)(t := (content s t)(f := overlay (content s t f) off d))"
      "n = card ({off..<off + length d} - dom (content s t f))" by auto
  obtain i where i: "f = FileIndex i" by (cases f)
  from w(1) obtain m where m: "file_length l f = Some m" by auto
  then have "i < file_count l" by (simp add: i file_length_def file_count_def)
  from held_update [OF this, of "content s t" "{off..<off + length d}" "content s' t"]
    finite_content [OF assms(1,3) m] w(2,3) show ?thesis
    by (simp add: i dom_overlay)
qed

lemma write_err_held:
  assumes "inv s" "ps_write vt s t f off d = (s', Inl e)" "layout_of s t' = Some l"
  shows "held (content s t') l \<le> held (content s' t') l"
proof -
  note w = write_err [OF assms(1,2)]
  have "card (dom (content s t' (FileIndex g))) \<le> card (dom (content s' t' (FileIndex g)))"
    if "g < file_count l" for g
  proof (rule card_mono)
    show "finite (dom (content s' t' (FileIndex g)))"
      using w assms(3) that by (intro finite_content) (auto simp: file_length_def file_count_def)
  qed (use w in blast)
  then show ?thesis unfolding held_def by (intro sum_mono) simp
qed

end

text \<open>A store whose failing writes change nothing.\<close>

locale exact_piece_store = piece_store_contract +
  assumes write_err_same: "inv s \<Longrightarrow> ps_write vt s t f off d = (s', Inl e) \<Longrightarrow> s' = s"

end
