(* ===== verification/Cache.thy ===== *)
theory Cache
  imports PieceStore
begin

text \<open>
  \<open>rustorr-cache/src/cache.rs\<close>: the torrent-scoped LRU cache over a piece store. The store is
  any record of operations of type \<open>piece_store\<close>, an argument of the operations that call it;
  the state of the cache holds the store's state, the cap, the two counters and the table of
  torrents. An operation that holds the lock throughout is one state change; \<open>write\<close> releases it
  around the store call, so its steps before, during and after are separate definitions.
\<close>

subsection \<open>State\<close>

record reader_range =
  rr_file :: file_index
  rr_start :: nat
  rr_end :: nat

record entry =
  e_layout :: torrent_layout
  e_pieces :: piece_set
  e_stored :: nat
  e_pins :: nat
  e_readers :: "(nat \<times> reader_range) list"
  e_demanded :: extents
  e_last_read :: nat

record 's cache =
  c_store :: 's
  c_cap :: nat
  c_next_pin :: nat
  c_tick :: nat
  c_torrents :: "(info_hash \<times> entry) list"

definition provisional_cap_bytes :: nat where
  "provisional_cap_bytes = 4 * 2 ^ 30"

definition cache_new :: "'s \<Rightarrow> nat \<Rightarrow> 's cache" where
  "cache_new s cap = \<lparr>c_store = s, c_cap = cap, c_next_pin = 1, c_tick = 0, c_torrents = []\<rparr>"

definition next_tick :: "'s cache \<Rightarrow> 's cache" where
  "next_tick c = c\<lparr>c_tick := add64 (c_tick c) 1\<rparr>"

definition cache_entry :: "'s cache \<Rightarrow> info_hash \<Rightarrow> cache_error + entry" where
  "cache_entry c t =
     (case map_of (c_torrents c) t of None \<Rightarrow> Inl (UnknownTorrent t) | Some e \<Rightarrow> Inr e)"

text \<open>\<open>get_mut\<close> followed by an assignment to the entry.\<close>

definition put_entry :: "info_hash \<Rightarrow> entry \<Rightarrow> 's cache \<Rightarrow> 's cache" where
  "put_entry t e c = c\<lparr>c_torrents := hm_insert t e (c_torrents c)\<rparr>"

subsection \<open>Opening, writing, reading\<close>

fun insert_pieces :: "piece_set \<Rightarrow> piece_index list \<Rightarrow> cache_error + piece_set" where
  "insert_pieces ps [] = Inr ps"
| "insert_pieces ps (p # rest) =
     (case piece_set_insert ps p of Inl e \<Rightarrow> Inl e | Inr ps' \<Rightarrow> insert_pieces ps' rest)"

definition cache_open ::
    "'s piece_store \<Rightarrow> 's cache \<Rightarrow> info_hash \<Rightarrow> torrent_layout \<Rightarrow> 's cache \<times> (cache_error + unit)" where
  "cache_open vt c t l =
     (case map_of (c_torrents c) t of
        Some e \<Rightarrow> (c, if e_layout e = l then Inr () else Inl (LayoutMismatch t))
      | None \<Rightarrow>
          (case ps_open vt (c_store c) t l of
             (s, Inl err) \<Rightarrow> (c\<lparr>c_store := s\<rparr>, Inl err)
           | (s, Inr rc) \<Rightarrow>
               let c1 = next_tick (c\<lparr>c_store := s\<rparr>)
               in (case insert_pieces (piece_set_new (piece_count l)) (rec_completed_pieces rc) of
                     Inl err \<Rightarrow> (c1, Inl err)
                   | Inr pieces \<Rightarrow>
                       (put_entry t
                          \<lparr>e_layout = l, e_pieces = pieces, e_stored = rec_stored_bytes rc, e_pins = 0,
                           e_readers = [], e_demanded = extents_default, e_last_read = c_tick c1\<rparr> c1,
                        Inr ()))))"

definition cache_discard_unowned ::
    "'s piece_store \<Rightarrow> 's cache \<Rightarrow> info_hash set \<Rightarrow> 's cache \<times> (cache_error + unit)" where
  "cache_discard_unowned vt c owned =
     (let keep = owned \<union> fst ` set (c_torrents c);
          (s, res) = ps_discard_except vt (c_store c) keep
      in (c\<lparr>c_store := s\<rparr>, res))"

text \<open>
  The three phases of \<open>write\<close>: the check under the lock, the store call outside it, and the
  bookkeeping under the lock again, which finds the torrent gone or not.
\<close>

definition cache_write_check :: "'s cache \<Rightarrow> info_hash \<Rightarrow> cache_error + unit" where
  "cache_write_check c t = (case cache_entry c t of Inl e \<Rightarrow> Inl e | Inr _ \<Rightarrow> Inr ())"

definition cache_write_store ::
    "'s piece_store \<Rightarrow> 's cache \<Rightarrow> info_hash \<Rightarrow> file_index \<Rightarrow> nat \<Rightarrow> byte list
       \<Rightarrow> 's cache \<times> (cache_error + nat)" where
  "cache_write_store vt c t f off d =
     (let (s, res) = ps_write vt (c_store c) t f off d in (c\<lparr>c_store := s\<rparr>, res))"

definition cache_write_commit :: "'s cache \<Rightarrow> info_hash \<Rightarrow> nat \<Rightarrow> 's cache" where
  "cache_write_commit c t added =
     (case map_of (c_torrents c) t of
        None \<Rightarrow> c
      | Some e \<Rightarrow> put_entry t (e\<lparr>e_stored := add64 (e_stored e) added\<rparr>) c)"

definition cache_write ::
    "'s piece_store \<Rightarrow> 's cache \<Rightarrow> info_hash \<Rightarrow> file_index \<Rightarrow> nat \<Rightarrow> byte list
       \<Rightarrow> 's cache \<times> (cache_error + unit)" where
  "cache_write vt c t f off d =
     (case cache_write_check c t of
        Inl e \<Rightarrow> (c, Inl e)
      | Inr _ \<Rightarrow>
          (case cache_write_store vt c t f off d of
             (c1, Inl e) \<Rightarrow> (c1, Inl e)
           | (c1, Inr added) \<Rightarrow> (cache_write_commit c1 t added, Inr ())))"

definition cache_read ::
    "'s piece_store \<Rightarrow> 's cache \<Rightarrow> info_hash \<Rightarrow> file_index \<Rightarrow> nat \<Rightarrow> nat
       \<Rightarrow> 's cache \<times> (cache_error + byte list)" where
  "cache_read vt c t f off n =
     (let c1 = next_tick c
      in case cache_entry c1 t of
           Inl e \<Rightarrow> (c1, Inl e)
         | Inr e \<Rightarrow>
             (put_entry t (e\<lparr>e_last_read := c_tick c1\<rparr>) c1, ps_read vt (c_store c) t f off n))"

definition cache_file_length :: "'s cache \<Rightarrow> info_hash \<Rightarrow> file_index \<Rightarrow> cache_error + nat" where
  "cache_file_length c t f =
     (case cache_entry c t of
        Inl e \<Rightarrow> Inl e
      | Inr e \<Rightarrow> (case file_length (e_layout e) f of None \<Rightarrow> Inl (UnknownFile t f) | Some n \<Rightarrow> Inr n))"

definition cache_piece_completed ::
    "'s piece_store \<Rightarrow> 's cache \<Rightarrow> info_hash \<Rightarrow> piece_index \<Rightarrow> 's cache \<times> (cache_error + unit)" where
  "cache_piece_completed vt c t p =
     (case ps_piece_completed vt (c_store c) t p of
        (s, Inl err) \<Rightarrow> (c\<lparr>c_store := s\<rparr>, Inl err)
      | (s, Inr _) \<Rightarrow>
          let c1 = c\<lparr>c_store := s\<rparr>
          in (case cache_entry c1 t of
                Inl err \<Rightarrow> (c1, Inl err)
              | Inr e \<Rightarrow>
                  (case piece_set_insert (e_pieces e) p of
                     Inl err \<Rightarrow> (c1, Inl err)
                   | Inr ps \<Rightarrow> (put_entry t (e\<lparr>e_pieces := ps\<rparr>) c1, Inr ()))))"

definition cache_is_piece_resident :: "'s cache \<Rightarrow> info_hash \<Rightarrow> piece_index \<Rightarrow> cache_error + bool" where
  "cache_is_piece_resident c t p =
     (case cache_entry c t of Inl e \<Rightarrow> Inl e | Inr e \<Rightarrow> Inr (piece_set_contains (e_pieces e) p))"

definition cache_record_demand ::
    "'s cache \<Rightarrow> info_hash \<Rightarrow> file_index \<Rightarrow> nat \<Rightarrow> nat \<Rightarrow> 's cache \<times> (cache_error + unit)" where
  "cache_record_demand c t f off len =
     (case cache_entry c t of
        Inl err \<Rightarrow> (c, Inl err)
      | Inr e \<Rightarrow>
          (case check_range (e_layout e) t f off len of
             Inl err \<Rightarrow> (c, Inl err)
           | Inr _ \<Rightarrow>
               (case file_offset (e_layout e) f of
                  None \<Rightarrow> (c, Inl (UnknownFile t f))
                | Some base \<Rightarrow>
                    (case checked_add64 base off of
                       None \<Rightarrow> (c, Inl (InvalidLayout ''demand offset overflows''))
                     | Some s \<Rightarrow>
                         (case checked_add64 s len of
                            None \<Rightarrow> (c, Inl (InvalidLayout ''demand range overflows''))
                          | Some en \<Rightarrow>
                              (case byte_range_new s en of
                                 Inl err \<Rightarrow> (c, Inl (DomainError err))
                               | Inr r \<Rightarrow>
                                   (put_entry t
                                      (e\<lparr>e_demanded := fst (extents_insert (e_demanded e) r)\<rparr>) c,
                                    Inr ())))))))"

subsection \<open>Pins\<close>

record pin =
  pin_torrent :: info_hash
  pin_id :: nat

definition cache_pin_inner ::
    "'s cache \<Rightarrow> info_hash \<Rightarrow> reader_range option \<Rightarrow> 's cache \<times> (cache_error + pin)" where
  "cache_pin_inner c t rg =
     (let i = c_next_pin c;
          c1 = c\<lparr>c_next_pin := add64 i 1\<rparr>
      in case cache_entry c1 t of
           Inl err \<Rightarrow> (c1, Inl err)
         | Inr e \<Rightarrow>
             let e1 = e\<lparr>e_pins := add64 (e_pins e) 1\<rparr>;
                 e2 = (case rg of
                         None \<Rightarrow> e1
                       | Some r \<Rightarrow> e1\<lparr>e_readers := e_readers e1 @ [(i, r)]\<rparr>)
             in (put_entry t e2 c1, Inr \<lparr>pin_torrent = t, pin_id = i\<rparr>))"

definition cache_pin :: "'s cache \<Rightarrow> info_hash \<Rightarrow> 's cache \<times> (cache_error + pin)" where
  "cache_pin c t = cache_pin_inner c t None"

definition cache_pin_range ::
    "'s cache \<Rightarrow> info_hash \<Rightarrow> reader_range \<Rightarrow> 's cache \<times> (cache_error + pin)" where
  "cache_pin_range c t r = cache_pin_inner c t (Some r)"

text \<open>\<open>Drop\<close> of a pin.\<close>

definition cache_unpin :: "'s cache \<Rightarrow> pin \<Rightarrow> 's cache" where
  "cache_unpin c p =
     (let c1 = next_tick c
      in case map_of (c_torrents c1) (pin_torrent p) of
           None \<Rightarrow> c1
         | Some e \<Rightarrow>
             put_entry (pin_torrent p)
               (e\<lparr>e_pins := sub64 (e_pins e) 1,
                  e_readers := filter (\<lambda>(i, r). i \<noteq> pin_id p) (e_readers e),
                  e_last_read := c_tick c1\<rparr>) c1)"

definition cache_set_cap_bytes :: "'s cache \<Rightarrow> nat \<Rightarrow> 's cache" where
  "cache_set_cap_bytes c cap = c\<lparr>c_cap := cap\<rparr>"

subsection \<open>Eviction and removal\<close>

definition cache_ensure_unpinned :: "'s cache \<Rightarrow> info_hash \<Rightarrow> cache_error + unit" where
  "cache_ensure_unpinned c t =
     (case cache_entry c t of
        Inl err \<Rightarrow> Inl err
      | Inr e \<Rightarrow> if 0 < e_pins e then Inl (Pinned t) else Inr ())"

fun take_victims :: "nat \<Rightarrow> (info_hash \<times> entry) list \<Rightarrow> info_hash list" where
  "take_victims excess [] = []"
| "take_victims excess ((t, e) # idle) =
     (if excess = 0 then [] else t # take_victims (sat_sub excess (e_stored e)) idle)"

definition idle_entries :: "'s cache \<Rightarrow> (info_hash \<times> entry) list" where
  "idle_entries c = filter (\<lambda>(t, e). e_pins e = 0 \<and> 0 < e_stored e) (c_torrents c)"

definition cache_stored :: "'s cache \<Rightarrow> nat" where
  "cache_stored c = sum64 (map (\<lambda>(t, e). e_stored e) (c_torrents c))"

definition cache_eviction_candidates :: "'s cache \<Rightarrow> info_hash list" where
  "cache_eviction_candidates c =
     take_victims (sat_sub (cache_stored c) (c_cap c))
       (sort_key (\<lambda>(t, e). e_last_read e) (idle_entries c))"

definition cache_remove ::
    "'s piece_store \<Rightarrow> 's cache \<Rightarrow> info_hash \<Rightarrow> 's cache \<times> (cache_error + nat)" where
  "cache_remove vt c t =
     (case cache_entry c t of
        Inl err \<Rightarrow> (c, Inl err)
      | Inr e \<Rightarrow>
          if 0 < e_pins e then (c, Inl (Pinned t))
          else (case ps_remove vt (c_store c) t of
                  (s, Inl err) \<Rightarrow> (c\<lparr>c_store := s\<rparr>, Inl err)
                | (s, Inr _) \<Rightarrow>
                    (c\<lparr>c_store := s, c_torrents := hm_remove t (c_torrents c)\<rparr>, Inr (e_stored e))))"

subsection \<open>Reports\<close>

record cache_stats =
  cs_stored_bytes :: nat
  cs_cap_bytes :: nat
  cs_torrents :: nat
  cs_pinned_torrents :: nat

definition over_cap_bytes :: "cache_stats \<Rightarrow> nat" where
  "over_cap_bytes st = sat_sub (cs_stored_bytes st) (cs_cap_bytes st)"

definition stats_of :: "'s cache \<Rightarrow> cache_stats" where
  "stats_of c =
     \<lparr>cs_stored_bytes = cache_stored c, cs_cap_bytes = c_cap c, cs_torrents = length (c_torrents c),
      cs_pinned_torrents = length (filter (\<lambda>(t, e). 0 < e_pins e) (c_torrents c))\<rparr>"

record demanded_piece =
  dp_piece :: piece_index
  dp_size :: nat
  dp_completed :: bool

text \<open>The inner loop adds one span's overlap with each piece it reaches to that piece's size.\<close>

definition span_overlap :: "torrent_layout \<Rightarrow> nat \<times> nat \<Rightarrow> nat \<Rightarrow> nat" where
  "span_overlap l sp piece =
     (let piece_start = mul64 piece (piece_length l);
          piece_end = min (add64 piece_start (piece_length l)) (total_length l)
      in sat_sub (min (snd sp) piece_end) (max (fst sp) piece_start))"

definition add_overlap :: "torrent_layout \<Rightarrow> nat \<times> nat \<Rightarrow> nat \<Rightarrow> nat list \<Rightarrow> nat list" where
  "add_overlap l sp piece sizes =
     (if piece < length sizes
      then sizes[piece := add64 (sizes ! piece) (span_overlap l sp piece)] else sizes)"

definition add_span :: "torrent_layout \<Rightarrow> nat \<times> nat \<Rightarrow> nat list \<Rightarrow> nat list" where
  "add_span l sp sizes =
     fold (add_overlap l sp)
       [fst sp div piece_length l..<Suc (sat_sub (snd sp) 1 div piece_length l)] sizes"

definition piece_actual_length :: "torrent_layout \<Rightarrow> nat \<Rightarrow> nat" where
  "piece_actual_length l piece =
     (if (piece + 1) mod U32 = piece_count l
      then sat_sub (total_length l) (mul64 piece (piece_length l)) else piece_length l)"

definition demanded_pieces :: "entry \<Rightarrow> demanded_piece list" where
  "demanded_pieces e =
     (let l = e_layout e;
          sizes = fold (add_span l) (ex_spans (e_demanded e)) (replicate (piece_count l) 0)
      in map (\<lambda>i. \<lparr>dp_piece = PieceIndex i, dp_size = sizes ! i,
                   dp_completed = (sizes ! i = piece_actual_length l i)\<rparr>)
           (filter (\<lambda>i. sizes ! i \<noteq> 0) [0..<length sizes]))"

record torrent_snapshot =
  sn_torrent :: info_hash
  sn_stored_bytes :: nat
  sn_piece_length :: nat
  sn_piece_count :: nat
  sn_completed_pieces :: "piece_index list"
  sn_demanded_bytes :: nat
  sn_demanded_pieces :: "demanded_piece list"
  sn_active_readers :: "reader_range list"

definition active_reader :: "torrent_layout \<Rightarrow> reader_range \<Rightarrow> reader_range" where
  "active_reader l r =
     (let base = (case file_offset l (rr_file r) of None \<Rightarrow> 0 | Some b \<Rightarrow> b)
      in \<lparr>rr_file = rr_file r, rr_start = sat_add64 base (rr_start r), rr_end = sat_add64 base (rr_end r)\<rparr>)"

definition snapshot_of :: "info_hash \<Rightarrow> entry \<Rightarrow> torrent_snapshot" where
  "snapshot_of t e =
     \<lparr>sn_torrent = t, sn_stored_bytes = e_stored e, sn_piece_length = piece_length (e_layout e),
      sn_piece_count = piece_count (e_layout e), sn_completed_pieces = piece_set_indexes (e_pieces e),
      sn_demanded_bytes = ex_total (e_demanded e), sn_demanded_pieces = demanded_pieces e,
      sn_active_readers = map (\<lambda>(i, r). active_reader (e_layout e) r) (e_readers e)\<rparr>"

definition cache_snapshot :: "'s cache \<Rightarrow> info_hash \<Rightarrow> cache_error + torrent_snapshot" where
  "cache_snapshot c t = (case cache_entry c t of Inl err \<Rightarrow> Inl err | Inr e \<Rightarrow> Inr (snapshot_of t e))"

definition cache_snapshots :: "'s cache \<Rightarrow> torrent_snapshot list" where
  "cache_snapshots c =
     sort_key (\<lambda>s. as_bytes (sn_torrent s)) (map (\<lambda>(t, e). snapshot_of t e) (c_torrents c))"

end
