(* ===== verification/CacheInv.thy ===== *)
theory CacheInv
  imports Cache
begin

text \<open>
  The cache together with what its callers hold: the live \<open>Pin\<close> values and the bytes that writes
  have stored but not yet added to the bookkeeping. Every operation of the cache is a step of this
  machine; the store's side is any model of \<open>piece_store_contract\<close>, one record of operations per
  step, so that a step may meet a different outcome of the outside world than the one before.
\<close>

record 's machine =
  k_cache :: "'s cache"
  k_pins :: "(pin \<times> reader_range option) list"
  k_pending :: "(info_hash \<times> nat) list"

text \<open>
  \<open>remove\<close> carries the contract its comment states, that the engine has released the torrent:
  no write of that torrent is between its store call and its bookkeeping.
\<close>

inductive cache_step :: "'s piece_store set \<Rightarrow> 's machine \<Rightarrow> 's machine \<Rightarrow> bool" for V where
  step_open: "vt \<in> V \<Longrightarrow> layout_wf l \<Longrightarrow> cache_open vt c t l = (c', res) \<Longrightarrow>
    cache_step V \<lparr>k_cache = c, k_pins = ps, k_pending = w\<rparr> \<lparr>k_cache = c', k_pins = ps, k_pending = w\<rparr>"
| step_discard: "vt \<in> V \<Longrightarrow> cache_discard_unowned vt c owned = (c', res) \<Longrightarrow>
    cache_step V \<lparr>k_cache = c, k_pins = ps, k_pending = w\<rparr> \<lparr>k_cache = c', k_pins = ps, k_pending = w\<rparr>"
| step_store: "vt \<in> V \<Longrightarrow> cache_write_store vt c t f off d = (c', Inr n) \<Longrightarrow>
    cache_step V \<lparr>k_cache = c, k_pins = ps, k_pending = w\<rparr>
      \<lparr>k_cache = c', k_pins = ps, k_pending = (t, n) # w\<rparr>"
| step_store_err: "vt \<in> V \<Longrightarrow> cache_write_store vt c t f off d = (c', Inl e) \<Longrightarrow>
    cache_step V \<lparr>k_cache = c, k_pins = ps, k_pending = w\<rparr> \<lparr>k_cache = c', k_pins = ps, k_pending = w\<rparr>"
| step_commit:
    "cache_step V \<lparr>k_cache = c, k_pins = ps, k_pending = w @ (t, n) # w'\<rparr>
      \<lparr>k_cache = cache_write_commit c t n, k_pins = ps, k_pending = w @ w'\<rparr>"
| step_read: "vt \<in> V \<Longrightarrow> cache_read vt c t f off n = (c', res) \<Longrightarrow>
    cache_step V \<lparr>k_cache = c, k_pins = ps, k_pending = w\<rparr> \<lparr>k_cache = c', k_pins = ps, k_pending = w\<rparr>"
| step_piece: "vt \<in> V \<Longrightarrow> cache_piece_completed vt c t p = (c', res) \<Longrightarrow>
    cache_step V \<lparr>k_cache = c, k_pins = ps, k_pending = w\<rparr> \<lparr>k_cache = c', k_pins = ps, k_pending = w\<rparr>"
| step_demand: "cache_record_demand c t f off n = (c', res) \<Longrightarrow>
    cache_step V \<lparr>k_cache = c, k_pins = ps, k_pending = w\<rparr> \<lparr>k_cache = c', k_pins = ps, k_pending = w\<rparr>"
| step_pin: "cache_pin_inner c t rg = (c', Inr p) \<Longrightarrow>
    cache_step V \<lparr>k_cache = c, k_pins = ps, k_pending = w\<rparr>
      \<lparr>k_cache = c', k_pins = ps @ [(p, rg)], k_pending = w\<rparr>"
| step_pin_err: "cache_pin_inner c t rg = (c', Inl e) \<Longrightarrow>
    cache_step V \<lparr>k_cache = c, k_pins = ps, k_pending = w\<rparr> \<lparr>k_cache = c', k_pins = ps, k_pending = w\<rparr>"
| step_unpin:
    "cache_step V \<lparr>k_cache = c, k_pins = ps @ (p, rg) # ps', k_pending = w\<rparr>
      \<lparr>k_cache = cache_unpin c p, k_pins = ps @ ps', k_pending = w\<rparr>"
| step_cap:
    "cache_step V \<lparr>k_cache = c, k_pins = ps, k_pending = w\<rparr>
      \<lparr>k_cache = cache_set_cap_bytes c cap, k_pins = ps, k_pending = w\<rparr>"
| step_remove: "vt \<in> V \<Longrightarrow> t \<notin> fst ` set w \<Longrightarrow> cache_remove vt c t = (c', res) \<Longrightarrow>
    cache_step V \<lparr>k_cache = c, k_pins = ps, k_pending = w\<rparr> \<lparr>k_cache = c', k_pins = ps, k_pending = w\<rparr>"

text \<open>Machines reached from a fresh cache in a number of steps.\<close>

inductive cache_run :: "'s piece_store set \<Rightarrow> 's \<Rightarrow> nat \<Rightarrow> 's machine \<Rightarrow> bool" for V s where
  run_new: "cache_run V s 0 \<lparr>k_cache = cache_new s cap, k_pins = [], k_pending = []\<rparr>"
| run_step: "cache_run V s n m \<Longrightarrow> cache_step V m m' \<Longrightarrow> cache_run V s (Suc n) m'"

subsection \<open>The invariant\<close>

definition pins_of :: "info_hash \<Rightarrow> (pin \<times> reader_range option) list \<Rightarrow> (pin \<times> reader_range option) list" where
  "pins_of t ps = filter (\<lambda>p. pin_torrent (fst p) = t) ps"

fun readers_of :: "(pin \<times> reader_range option) list \<Rightarrow> (nat \<times> reader_range) list" where
  "readers_of [] = []"
| "readers_of ((p, None) # ps) = readers_of ps"
| "readers_of ((p, Some r) # ps) = (pin_id p, r) # readers_of ps"

definition pending_of :: "info_hash \<Rightarrow> (info_hash \<times> nat) list \<Rightarrow> nat" where
  "pending_of t w = sum_list (map snd (filter (\<lambda>p. fst p = t) w))"

lemma pins_of_simps [simp]:
  "pins_of t [] = []" "pins_of t (ps @ qs) = pins_of t ps @ pins_of t qs"
  "pins_of t (p # ps) = (if pin_torrent (fst p) = t then p # pins_of t ps else pins_of t ps)"
  by (simp_all add: pins_of_def)

lemma readers_of_append [simp]: "readers_of (ps @ qs) = readers_of ps @ readers_of qs"
  by (induction ps rule: readers_of.induct) auto

lemma pending_of_simps [simp]:
  "pending_of t [] = 0" "pending_of t (v @ w) = pending_of t v + pending_of t w"
  "pending_of t (p # w) = (if fst p = t then snd p + pending_of t w else pending_of t w)"
  by (simp_all add: pending_of_def)

lemma pending_of_none: "t \<notin> fst ` set w \<Longrightarrow> pending_of t w = 0"
  by (induction w) auto

lemma readers_of_filter:
  assumes "\<forall>p \<in> set ps. pin_id (fst p) \<noteq> i"
  shows "filter (\<lambda>(j, r). j \<noteq> i) (readers_of ps) = readers_of ps"
  using assms by (induction ps rule: readers_of.induct) auto

lemma length_pins_of: "length (pins_of t ps) \<le> length ps"
  by (simp add: pins_of_def)

text \<open>What holds of one entry; \<open>exact\<close> is for stores whose failing writes change nothing.\<close>

definition entry_ok ::
    "bool \<Rightarrow> torrent_layout option \<Rightarrow> (file_index \<Rightarrow> nat \<rightharpoonup> byte) \<Rightarrow> (pin \<times> reader_range option) list
       \<Rightarrow> nat \<Rightarrow> nat \<Rightarrow> entry \<Rightarrow> bool" where
  "entry_ok exact lay cont ps pend tick e \<longleftrightarrow>
     layout_wf (e_layout e) \<and> length (e_pieces e) = piece_count (e_layout e)
     \<and> extents_wf (e_demanded e) \<and> extents_bytes (e_demanded e) \<subseteq> {..<total_length (e_layout e)}
     \<and> (lay = None \<or> lay = Some (e_layout e) \<and> e_stored e + pend \<le> held cont (e_layout e)
          \<and> (exact \<longrightarrow> e_stored e + pend = held cont (e_layout e)))
     \<and> e_stored e + pend \<le> total_length (e_layout e)
     \<and> e_pins e = length ps \<and> e_readers e = readers_of ps
     \<and> e_last_read e \<le> tick"

definition recency_ok :: "(info_hash \<rightharpoonup> entry) \<Rightarrow> bool" where
  "recency_ok m \<longleftrightarrow>
     (\<forall>t t' e e'. m t = Some e \<longrightarrow> m t' = Some e' \<longrightarrow> e_last_read e = e_last_read e' \<longrightarrow> t = t')"

lemma recency_ok_update:
  assumes "recency_ok m" "\<forall>t' e'. m t' = Some e' \<longrightarrow> t' \<noteq> t \<longrightarrow> e_last_read e' \<noteq> e_last_read e"
  shows "recency_ok (m(t \<mapsto> e))"
  using assms unfolding recency_ok_def by (metis fun_upd_apply option.inject)

lemma recency_ok_remove: "recency_ok m \<Longrightarrow> recency_ok (m(t := None))"
  unfolding recency_ok_def by (metis fun_upd_apply option.discI)

abbreviation entries :: "'s cache \<Rightarrow> info_hash \<rightharpoonup> entry" where
  "entries c \<equiv> map_of (c_torrents c)"

lemma put_entry_simps [simp]:
  "entries (put_entry t e c) = (entries c)(t \<mapsto> e)" "c_store (put_entry t e c) = c_store c"
  "c_cap (put_entry t e c) = c_cap c" "c_tick (put_entry t e c) = c_tick c"
  "c_next_pin (put_entry t e c) = c_next_pin c"
  by (simp_all add: put_entry_def)

lemma put_entry_distinct [simp]:
  "distinct (map fst (c_torrents c)) \<Longrightarrow> distinct (map fst (c_torrents (put_entry t e c)))"
  by (simp add: put_entry_def)

lemma next_tick_simps [simp]:
  "c_torrents (next_tick c) = c_torrents c" "c_store (next_tick c) = c_store c"
  "c_cap (next_tick c) = c_cap c" "c_tick (next_tick c) = add64 (c_tick c) 1"
  "c_next_pin (next_tick c) = c_next_pin c"
  by (simp_all add: next_tick_def)

lemma cache_entry_eq [simp]:
  "cache_entry c t = Inr e \<longleftrightarrow> entries c t = Some e"
  "cache_entry c t = Inl err \<longleftrightarrow> entries c t = None \<and> err = UnknownTorrent t"
  by (auto simp: cache_entry_def split: option.splits)

definition machine_ok ::
    "bool \<Rightarrow> ('s \<Rightarrow> bool) \<Rightarrow> ('s \<Rightarrow> info_hash \<rightharpoonup> torrent_layout) \<Rightarrow> ('s \<Rightarrow> content) \<Rightarrow> nat \<Rightarrow> 's machine \<Rightarrow> bool"
  where
  "machine_ok exact iv lo co n m \<longleftrightarrow>
     (let c = k_cache m; s = c_store c in
      iv s \<and> distinct (map fst (c_torrents c)) \<and> dom (lo s) \<subseteq> dom (entries c)
      \<and> (\<forall>t e. entries c t = Some e \<longrightarrow>
           entry_ok exact (lo s t) (co s t) (pins_of t (k_pins m)) (pending_of t (k_pending m))
             (c_tick c) e)
      \<and> recency_ok (entries c)
      \<and> (\<forall>p \<in> set (k_pins m). pin_torrent (fst p) \<in> dom (entries c) \<and> pin_id (fst p) < c_next_pin c)
      \<and> distinct (map (\<lambda>p. pin_id (fst p)) (k_pins m)) \<and> fst ` set (k_pending m) \<subseteq> dom (entries c)
      \<and> c_tick c \<le> n \<and> c_next_pin c \<le> Suc n \<and> length (k_pins m) \<le> n)"

lemma machine_okI:
  assumes "iv (c_store c)" "distinct (map fst (c_torrents c))" "dom (lo (c_store c)) \<subseteq> dom (entries c)"
    and "\<And>t e. entries c t = Some e \<Longrightarrow>
           entry_ok exact (lo (c_store c) t) (co (c_store c) t) (pins_of t ps) (pending_of t w)
             (c_tick c) e"
    and "recency_ok (entries c)"
    and "\<And>p. p \<in> set ps \<Longrightarrow> pin_torrent (fst p) \<in> dom (entries c)"
    and "\<And>p. p \<in> set ps \<Longrightarrow> pin_id (fst p) < c_next_pin c"
    and "distinct (map (\<lambda>p. pin_id (fst p)) ps)" "fst ` set w \<subseteq> dom (entries c)"
    and "c_tick c \<le> n" "c_next_pin c \<le> Suc n" "length ps \<le> n"
  shows "machine_ok exact iv lo co n \<lparr>k_cache = c, k_pins = ps, k_pending = w\<rparr>"
  using assms by (auto simp: machine_ok_def Let_def)

lemma machine_okD:
  assumes "machine_ok exact iv lo co n \<lparr>k_cache = c, k_pins = ps, k_pending = w\<rparr>"
  shows "iv (c_store c)" "distinct (map fst (c_torrents c))" "dom (lo (c_store c)) \<subseteq> dom (entries c)"
    and "entries c t = Some e \<Longrightarrow>
           entry_ok exact (lo (c_store c) t) (co (c_store c) t) (pins_of t ps) (pending_of t w)
             (c_tick c) e"
    and "recency_ok (entries c)"
    and "p \<in> set ps \<Longrightarrow> pin_torrent (fst p) \<in> dom (entries c)"
    and "p \<in> set ps \<Longrightarrow> pin_id (fst p) < c_next_pin c"
    and "distinct (map (\<lambda>p. pin_id (fst p)) ps)" "fst ` set w \<subseteq> dom (entries c)"
    and "c_tick c \<le> n" "c_next_pin c \<le> Suc n" "length ps \<le> n"
  using assms by (simp_all add: machine_ok_def Let_def)

text \<open>A change of the store alone, and a change of one entry next to it.\<close>

lemma machine_ok_store:
  assumes m: "machine_ok exact iv lo co n \<lparr>k_cache = c, k_pins = ps, k_pending = w\<rparr>"
    and "iv s'" "lo s' = lo (c_store c)" "fst ` set w' \<subseteq> dom (entries c)"
    and "\<And>t e. entries c t = Some e \<Longrightarrow>
           entry_ok exact (lo (c_store c) t) (co s' t) (pins_of t ps) (pending_of t w')
             (c_tick c) e"
  shows "machine_ok exact iv lo co (Suc n)
           \<lparr>k_cache = c\<lparr>c_store := s'\<rparr>, k_pins = ps, k_pending = w'\<rparr>"
proof -
  note D = machine_okD [OF m]
  show ?thesis
    using assms(2-) D(2,3,5,8,10-12) by (intro machine_okI) (simp_all add: D(6,7))
qed

lemma machine_ok_put:
  assumes m: "machine_ok exact iv lo co n \<lparr>k_cache = c, k_pins = ps, k_pending = w\<rparr>"
    and e: "entries c t = Some e" and n: "n + 2 < U64"
    and cc: "c_torrents c' = c_torrents c" "c_store c' = c_store c"
      "c_tick c' = c_tick c \<and> e_last_read e' = e_last_read e
       \<or> c_tick c' = add64 (c_tick c) 1 \<and> e_last_read e' = c_tick c'"
      "c_next_pin c' = c_next_pin c \<or> c_next_pin c' = add64 (c_next_pin c) 1"
    and ps': "length ps' \<le> Suc n" "distinct (map (\<lambda>p. pin_id (fst p)) ps')"
      "\<forall>p \<in> set ps'. pin_torrent (fst p) \<in> dom (entries c) \<and> pin_id (fst p) < c_next_pin c'"
    and others: "\<And>u. u \<noteq> t \<Longrightarrow> pins_of u ps' = pins_of u ps"
      "\<And>u. u \<noteq> t \<Longrightarrow> pending_of u w' = pending_of u w"
    and w': "fst ` set w' \<subseteq> dom (entries c)"
    and ok: "entry_ok exact (lo (c_store c) t) (co (c_store c) t) (pins_of t ps) (pending_of t w)
             (c_tick c) e \<Longrightarrow>
       entry_ok exact (lo (c_store c) t) (co (c_store c) t) (pins_of t ps') (pending_of t w')
             (c_tick c') e'"
  shows "machine_ok exact iv lo co (Suc n)
           \<lparr>k_cache = put_entry t e' c', k_pins = ps', k_pending = w'\<rparr>"
proof -
  note D = machine_okD [OF m]
  have tick: "add64 (c_tick c) 1 = Suc (c_tick c)" and nx: "add64 (c_next_pin c) 1 = Suc (c_next_pin c)"
    using D(10,11) n by (auto intro!: add64_in_range [THEN trans])
  have le: "c_tick c \<le> c_tick c'" using cc(3) tick by auto
  have bounds: "c_tick c' \<le> Suc n" "c_next_pin c' \<le> Suc (Suc n)"
    using cc(3,4) tick nx D(10,11) by auto
  have oth: "entry_ok exact (lo (c_store c) u) (co (c_store c) u) (pins_of u ps') (pending_of u w')
             (c_tick c') v" if "entries c u = Some v" "u \<noteq> t" for u v
    using D(4) [OF that(1)] le others that(2) by (auto simp: entry_ok_def)
  have rec: "recency_ok ((entries c)(t \<mapsto> e'))"
  proof (rule recency_ok_update [OF D(5)], intro allI impI)
    fix u v assume u: "entries c u = Some v" "u \<noteq> t"
    have "e_last_read v \<le> c_tick c" using D(4) [OF u(1)] by (simp add: entry_ok_def)
    moreover have "e_last_read v \<noteq> e_last_read e" using D(5) u e unfolding recency_ok_def by blast
    ultimately show "e_last_read v \<noteq> e_last_read e'" using cc(3) tick by auto
  qed
  show ?thesis
    using D(1-3) oth ok [OF D(4) [OF e]] rec bounds ps' cc(1,2) e w'
    by (intro machine_okI) (auto split: if_splits)
qed

subsection \<open>Every step keeps the invariant\<close>

lemma insert_pieces_ok:
  assumes "\<forall>p \<in> set qs. piece_get p < length ps"
  obtains ps' where "insert_pieces ps qs = Inr ps'" "length ps' = length ps"
  using assms
proof (induction qs arbitrary: ps thesis)
  case (Cons q qs)
  have q: "piece_set_insert ps q = Inr (ps[piece_get q := True])" using Cons.prems by simp
  obtain ps' where "insert_pieces (ps[piece_get q := True]) qs = Inr ps'"
    "length ps' = length (ps[piece_get q := True])"
    using Cons.IH [of "ps[piece_get q := True]"] Cons.prems by auto
  then show ?case using Cons.prems(1) [of ps'] q by simp
qed simp

lemma extents_default_ok [simp]: "extents_wf extents_default" "extents_bytes extents_default = {}"
  by (simp_all add: extents_default_def extents_wf_def extents_bytes_def gapped_simps spans_bytes_def)

lemma demand_ok:
  assumes l: "layout_wf l" and x: "extents_wf x" "extents_bytes x \<subseteq> {..<total_length l}"
    and r: "check_range l t f off len = Inr r0" "file_offset l f = Some base"
      "byte_range_new (base + off) (base + off + len) = Inr r"
  shows "extents_wf (fst (extents_insert x r))"
    "extents_bytes (fst (extents_insert x r)) = extents_bytes x \<union> {base + off..<base + off + len}"
    "base + off + len \<le> total_length l"
proof -
  from r(1) obtain n where n: "file_length l f = Some n" "off + len \<le> n" by auto
  then have i: "zero_based f \<le> file_count l" by (simp add: file_length_def file_count_def)
  have "base + n \<le> total_length l"
    using sum_list_take_le_total [OF l n(1)] file_offset_eq [OF l i] r(2) by simp
  with n(2) show le: "base + off + len \<le> total_length l" by simp
  have "r = \<lparr>br_start = base + off, br_end = base + off + len\<rparr>"
    using r(3) by (simp add: byte_range_new_def split: if_splits)
  moreover from this have "range_wf r" using le l by (auto simp: range_wf_def layout_wf_def)
  ultimately show "extents_wf (fst (extents_insert x r))"
    "extents_bytes (fst (extents_insert x r)) = extents_bytes x \<union> {base + off..<base + off + len}"
    using extents_insert_wf_bytes [OF x(1)] by (auto simp: range_set_def)
qed

lemma record_demand_cases:
  assumes o: "cache_record_demand c t f off len = (c', res)"
  shows "c' = c \<and> res \<noteq> Inr () \<or>
    (\<exists>e r0 base r. entries c t = Some e \<and> check_range (e_layout e) t f off len = Inr r0
        \<and> file_offset (e_layout e) f = Some base
        \<and> byte_range_new (base + off) (base + off + len) = Inr r \<and> base + off + len < U64
        \<and> c' = put_entry t (e\<lparr>e_demanded := fst (extents_insert (e_demanded e) r)\<rparr>) c
        \<and> res = Inr ())"
proof (cases "entries c t")
  case None
  then show ?thesis using o by (auto simp: cache_record_demand_def cache_entry_def)
next
  case (Some e)
  then have ce: "cache_entry c t = Inr e" by simp
  show ?thesis
  proof (cases "check_range (e_layout e) t f off len")
    case (Inl err)
    then show ?thesis using o by (auto simp: cache_record_demand_def ce simp del: cache_entry_eq)
  next
    case (Inr r0)
    show ?thesis
    proof (cases "file_offset (e_layout e) f")
      case None
      then show ?thesis using o unfolding cache_record_demand_def ce sum.case Inr by auto
    next
      case (Some base)
      show ?thesis
      proof (cases "base + off + len < U64")
        case False
        then show ?thesis using o unfolding cache_record_demand_def ce sum.case Inr Some option.case
          by (auto simp: checked_add64_def split: if_splits)
      next
        case True
        then have ca: "checked_add64 base off = Some (base + off)"
          "checked_add64 (base + off) len = Some (base + off + len)" by auto
        have r: "byte_range_new (base + off) (base + off + len)
            = Inr \<lparr>br_start = base + off, br_end = base + off + len\<rparr>"
          by (simp add: byte_range_new_def)
        have "c' = put_entry t (e\<lparr>e_demanded := fst (extents_insert (e_demanded e)
              \<lparr>br_start = base + off, br_end = base + off + len\<rparr>)\<rparr>) c" "res = Inr ()"
          using o unfolding cache_record_demand_def ce sum.case Inr Some option.case ca r by auto
        with \<open>entries c t = Some e\<close> Inr Some True r show ?thesis by blast
      qed
    qed
  qed
qed

context piece_store_contract
begin

lemma step_open_ok:
  assumes m: "machine_ok exact inv layout_of content n \<lparr>k_cache = c, k_pins = ps, k_pending = w\<rparr>"
    and n: "n + 2 < U64" and l: "layout_wf l" and o: "cache_open vt c t l = (c', res)"
  shows "machine_ok exact inv layout_of content (Suc n) \<lparr>k_cache = c', k_pins = ps, k_pending = w\<rparr>"
proof (cases "entries c t")
  case (Some e)
  then have "c' = c" using o by (simp add: cache_open_def)
  with m show ?thesis by (auto simp: machine_ok_def Let_def)
next
  case None
  note D = machine_okD [OF m]
  from D(3) None have lt: "layout_of (c_store c) t = None" by blast
  obtain s' r where so: "ps_open vt (c_store c) t l = (s', r)" by (rule prod.exhaust)
  show ?thesis
  proof (cases r)
    case (Inl err)
    with so have so': "ps_open vt (c_store c) t l = (s', Inl err)" by simp
    have c': "c' = c\<lparr>c_store := s'\<rparr>" using o None so' by (simp add: cache_open_def)
    from open_err [OF D(1) l lt so'] show ?thesis
      unfolding c' by (intro machine_ok_store [OF m]) (simp_all add: D(4,9))
  next
    case (Inr rc)
    with so have so': "ps_open vt (c_store c) t l = (s', Inr rc)" by simp
    note P = open_ok [OF D(1) l lt so']
    obtain pieces where pc: "insert_pieces (piece_set_new (piece_count l)) (rec_completed_pieces rc) = Inr pieces"
      "length pieces = length (piece_set_new (piece_count l))"
      using P by (auto intro: insert_pieces_ok [of "rec_completed_pieces rc" "piece_set_new (piece_count l)"]
          simp: piece_set_new_def)
    define e where "e = \<lparr>e_layout = l, e_pieces = pieces, e_stored = rec_stored_bytes rc, e_pins = 0,
      e_readers = [], e_demanded = extents_default, e_last_read = add64 (c_tick c) 1\<rparr>"
    have c': "c' = put_entry t e (next_tick (c\<lparr>c_store := s'\<rparr>))"
      using o None so' pc by (simp add: cache_open_def e_def next_tick_def)
    have tick: "add64 (c_tick c) (Suc 0) = Suc (c_tick c)"
      using D(10) n by (auto intro!: add64_in_range [THEN trans])
    have np: "p \<in> set ps \<Longrightarrow> pin_torrent (fst p) \<noteq> t" for p using D(6) [of p] None by auto
    then have pt: "pins_of t ps = []" by (auto simp: pins_of_def filter_empty_conv)
    have pw: "pending_of t w = 0" using D(9) None by (auto intro!: pending_of_none)
    have "held (content s' t) l \<le> total_length l"
      using held_bound [of s' t l] P l by simp
    then have ok: "entry_ok exact (layout_of s' t) (content s' t) (pins_of t ps) (pending_of t w) (Suc (c_tick c)) e"
      using P l pc(2) by (simp add: entry_ok_def pt pw e_def piece_set_new_def tick)
    have rec: "recency_ok ((entries c)(t \<mapsto> e))"
    proof (rule recency_ok_update [OF D(5)], intro allI impI)
      fix u v assume "entries c u = Some v"
      from D(4) [OF this] show "e_last_read v \<noteq> e_last_read e" by (auto simp: entry_ok_def e_def tick)
    qed
    have oth: "entry_ok exact (layout_of s' u) (content s' u) (pins_of u ps) (pending_of u w) (Suc (c_tick c)) v"
      if "entries c u = Some v" "u \<noteq> t" for u v
      using D(4) [OF that(1)] that(2) P by (auto simp: entry_ok_def)
    have d1: "dom (layout_of s') \<subseteq> insert t (dom (entries c))" using P D(3) by auto
    have d2: "fst ` set w \<subseteq> insert t (dom (entries c))" using D(9) by blast
    show ?thesis unfolding c'
    proof (rule machine_okI)
      fix u v assume "entries (put_entry t e (next_tick (c\<lparr>c_store := s'\<rparr>))) u = Some v"
      then show "entry_ok exact (layout_of (c_store (put_entry t e (next_tick (c\<lparr>c_store := s'\<rparr>)))) u)
        (content (c_store (put_entry t e (next_tick (c\<lparr>c_store := s'\<rparr>)))) u) (pins_of u ps) (pending_of u w)
        (c_tick (put_entry t e (next_tick (c\<lparr>c_store := s'\<rparr>)))) v"
        using oth ok by (cases "u = t") (simp_all add: tick)
    qed (use P D(2,8,10-12) rec d1 d2 in
        \<open>simp_all add: tick D(6) less_imp_le D(7) del: fun_upd_apply\<close>)
  qed
qed


lemma machine_ok_same:
  assumes m: "machine_ok exact inv layout_of content n \<lparr>k_cache = c, k_pins = ps, k_pending = w\<rparr>"
    and c': "c_store c' = c_store c" "c_torrents c' = c_torrents c"
      "c_tick c' = c_tick c \<or> c_tick c' = add64 (c_tick c) 1"
      "c_next_pin c' = c_next_pin c \<or> c_next_pin c' = add64 (c_next_pin c) 1"
    and n: "n + 2 < U64"
  shows "machine_ok exact inv layout_of content (Suc n) \<lparr>k_cache = c', k_pins = ps, k_pending = w\<rparr>"
proof -
  note D = machine_okD [OF m]
  have "add64 (c_tick c) 1 = Suc (c_tick c)" "add64 (c_next_pin c) 1 = Suc (c_next_pin c)"
    using D(10,11) n by (auto intro!: add64_in_range [THEN trans])
  then have t: "c_tick c \<le> c_tick c'" "c_tick c' \<le> Suc n" "c_next_pin c \<le> c_next_pin c'"
    "c_next_pin c' \<le> Suc (Suc n)"
    using c'(3,4) D(10,11) by auto
  have e: "entry_ok exact (layout_of (c_store c) u) (content (c_store c) u) (pins_of u ps) (pending_of u w)
      (c_tick c') v" if "entries c u = Some v" for u v
    using D(4) [OF that] t(1) by (auto simp: entry_ok_def)
  have p: "pin_id (fst p) < c_next_pin c'" if "p \<in> set ps" for p
    using D(7) [OF that] t(3) by simp
  show ?thesis
    using D(1-3,5,8,9,12) t by (intro machine_okI) (simp_all add: c' e p D(6))
qed

lemma step_discard_ok:
  assumes m: "machine_ok exact inv layout_of content n \<lparr>k_cache = c, k_pins = ps, k_pending = w\<rparr>"
    and o: "cache_discard_unowned vt c owned = (c', res)"
  shows "machine_ok exact inv layout_of content (Suc n) \<lparr>k_cache = c', k_pins = ps, k_pending = w\<rparr>"
proof -
  note D = machine_okD [OF m]
  obtain s' where s: "ps_discard_except vt (c_store c) (owned \<union> fst ` set (c_torrents c)) = (s', res)"
    and c': "c' = c\<lparr>c_store := s'\<rparr>"
    using o by (auto simp: cache_discard_unowned_def Let_def split: prod.splits)
  from discard_frame [OF D(1) s] show ?thesis
    unfolding c' by (intro machine_ok_store [OF m]) (simp_all add: D(4,9))
qed

lemma step_store_ok:
  assumes m: "machine_ok exact inv layout_of content n \<lparr>k_cache = c, k_pins = ps, k_pending = w\<rparr>"
    and o: "cache_write_store vt c t f off d = (c', Inr a)"
  shows "machine_ok exact inv layout_of content (Suc n)
           \<lparr>k_cache = c', k_pins = ps, k_pending = (t, a) # w\<rparr>"
proof -
  note D = machine_okD [OF m]
  obtain s' where s: "ps_write vt (c_store c) t f off d = (s', Inr a)" and c': "c' = c\<lparr>c_store := s'\<rparr>"
    using o by (auto simp: cache_write_store_def Let_def split: prod.splits)
  note W = write_ok [OF D(1) s]
  then obtain l where l: "layout_of (c_store c) t = Some l" by blast
  note h = write_held [OF D(1) s l]
  show ?thesis unfolding c'
  proof (rule machine_ok_store [OF m])
    fix u e assume u: "entries c u = Some e"
    show "entry_ok exact (layout_of (c_store c) u) (content s' u) (pins_of u ps) (pending_of u ((t, a) # w))
        (c_tick c) e"
    proof (cases "u = t")
      case True
      have lw: "layout_wf (e_layout e)" "l = e_layout e" using D(4) [OF u] l True by (auto simp: entry_ok_def)
      have "held (content s' t) l \<le> total_length l"
        using held_bound [of s' t l] W l lw by simp
      with D(4) [OF u] True h l lw(2) show ?thesis by (auto simp: entry_ok_def)
    next
      case False
      with D(4) [OF u] W show ?thesis by (simp add: entry_ok_def)
    qed
  qed (use W D(3,9) l in auto)
qed

lemma step_store_err_ok:
  assumes m: "machine_ok exact inv layout_of content n \<lparr>k_cache = c, k_pins = ps, k_pending = w\<rparr>"
    and o: "cache_write_store vt c t f off d = (c', Inl err)"
    and x: "\<And>s s' e. exact \<Longrightarrow> inv s \<Longrightarrow> ps_write vt s t f off d = (s', Inl e) \<Longrightarrow> s' = s"
  shows "machine_ok exact inv layout_of content (Suc n) \<lparr>k_cache = c', k_pins = ps, k_pending = w\<rparr>"
proof -
  note D = machine_okD [OF m]
  obtain s' where s: "ps_write vt (c_store c) t f off d = (s', Inl err)" and c': "c' = c\<lparr>c_store := s'\<rparr>"
    using o by (auto simp: cache_write_store_def Let_def split: prod.splits)
  note W = write_err [OF D(1) s]
  show ?thesis unfolding c'
  proof (rule machine_ok_store [OF m])
    fix u e assume u: "entries c u = Some e"
    note E = D(4) [OF u]
    have "held (content (c_store c) u) (e_layout e) \<le> held (content s' u) (e_layout e)"
      if "layout_of (c_store c) u = Some (e_layout e)"
      using write_err_held [OF D(1) s that] .
    moreover have "exact \<Longrightarrow> s' = c_store c" using x [OF _ D(1) s] .
    ultimately show "entry_ok exact (layout_of (c_store c) u) (content s' u) (pins_of u ps) (pending_of u w)
        (c_tick c) e"
      using E unfolding entry_ok_def by (metis order_trans)
  qed (use W D(9) in auto)
qed

lemma step_commit_ok:
  assumes m: "machine_ok exact inv layout_of content n \<lparr>k_cache = c, k_pins = ps, k_pending = w @ (t, a) # w'\<rparr>"
    and n: "n + 2 < U64"
  shows "machine_ok exact inv layout_of content (Suc n)
           \<lparr>k_cache = cache_write_commit c t a, k_pins = ps, k_pending = w @ w'\<rparr>"
proof -
  note D = machine_okD [OF m]
  from D(9) obtain e where e: "entries c t = Some e" by auto
  note E = D(4) [OF e]
  have "e_stored e + a < U64" using E by (auto simp: entry_ok_def layout_wf_def)
  then have st: "add64 (e_stored e) a = e_stored e + a" by (rule add64_in_range)
  have c: "cache_write_commit c t a = put_entry t (e\<lparr>e_stored := e_stored e + a\<rparr>) c"
    by (simp add: cache_write_commit_def e st)
  show ?thesis unfolding c
    using D(6-9,12) E by (intro machine_ok_put [OF m e n]) (auto simp: entry_ok_def)
qed

lemma step_read_ok:
  assumes m: "machine_ok exact inv layout_of content n \<lparr>k_cache = c, k_pins = ps, k_pending = w\<rparr>"
    and n: "n + 2 < U64" and o: "cache_read vt c t f off k = (c', res)"
  shows "machine_ok exact inv layout_of content (Suc n) \<lparr>k_cache = c', k_pins = ps, k_pending = w\<rparr>"
proof (cases "entries c t")
  case None
  then have "c' = next_tick c" using o by (auto simp: cache_read_def Let_def split: sum.splits)
  then show ?thesis by (intro machine_ok_same [OF m _ _ _ _ n]) auto
next
  case (Some e)
  note D = machine_okD [OF m]
  have c: "c' = put_entry t (e\<lparr>e_last_read := c_tick (next_tick c)\<rparr>) (next_tick c)"
    using o Some by (auto simp: cache_read_def Let_def split: sum.splits)
  show ?thesis unfolding c
    using D(6-9,12) by (intro machine_ok_put [OF m Some n]) (auto simp: entry_ok_def)
qed


lemma step_piece_ok:
  assumes m: "machine_ok exact inv layout_of content n \<lparr>k_cache = c, k_pins = ps, k_pending = w\<rparr>"
    and n: "n + 2 < U64" and o: "cache_piece_completed vt c t p = (c', res)"
  shows "machine_ok exact inv layout_of content (Suc n) \<lparr>k_cache = c', k_pins = ps, k_pending = w\<rparr>"
proof -
  note D = machine_okD [OF m]
  obtain s' r where s: "ps_piece_completed vt (c_store c) t p = (s', r)" by (rule prod.exhaust)
  note F = piece_completed_frame [OF D(1) s]
  have m': "machine_ok exact inv layout_of content k
      \<lparr>k_cache = c\<lparr>c_store := s'\<rparr>, k_pins = ps, k_pending = w\<rparr>" if "n \<le> k" for k
    using D(2,3,5,8,9,10-12) F that by (intro machine_okI) (simp_all add: D(4,6,7))
  consider "c' = c\<lparr>c_store := s'\<rparr>"
    | e ps' where "entries c t = Some e" "length ps' = length (e_pieces e)"
        "c' = put_entry t (e\<lparr>e_pieces := ps'\<rparr>) (c\<lparr>c_store := s'\<rparr>)"
  proof (cases r)
    case (Inl err)
    then show ?thesis using that(1) o s by (simp add: cache_piece_completed_def)
  next
    case (Inr u)
    show ?thesis
    proof (cases "entries c t")
      case None
      then show ?thesis using that(1) o s Inr
        by (simp add: cache_piece_completed_def Let_def cache_entry_def)
    next
      case (Some e)
      show ?thesis
      proof (cases "piece_set_insert (e_pieces e) p")
        case (Inl err)
        then show ?thesis using that(1) o s \<open>r = Inr u\<close> Some
          by (simp add: cache_piece_completed_def Let_def cache_entry_def)
      next
        case (Inr ps')
        then have len: "length ps' = length (e_pieces e)" by auto
        have "c' = put_entry t (e\<lparr>e_pieces := ps'\<rparr>) (c\<lparr>c_store := s'\<rparr>)"
          using o s \<open>r = Inr u\<close> Some Inr
          by (simp add: cache_piece_completed_def Let_def cache_entry_def del: piece_set_insert_eq_Inr)
        with that(2) [OF Some len] show ?thesis .
      qed
    qed
  qed
  then show ?thesis
  proof cases
    case 1
    then show ?thesis using m' [of "Suc n"] by simp
  next
    case 2
    show ?thesis unfolding 2(3)
      using D(6-9,12) 2(1,2)
      by (intro machine_ok_put [OF m' [OF order_refl] _ n]) (auto simp: entry_ok_def)
  qed
qed

lemma step_demand_ok:
  assumes m: "machine_ok exact inv layout_of content n \<lparr>k_cache = c, k_pins = ps, k_pending = w\<rparr>"
    and n: "n + 2 < U64" and o: "cache_record_demand c t f off len = (c', res)"
  shows "machine_ok exact inv layout_of content (Suc n) \<lparr>k_cache = c', k_pins = ps, k_pending = w\<rparr>"
proof -
  note D = machine_okD [OF m]
  consider "c' = c" | e r0 base r where "entries c t = Some e" "check_range (e_layout e) t f off len = Inr r0"
        "file_offset (e_layout e) f = Some base"
        "byte_range_new (base + off) (base + off + len) = Inr r"
        "c' = put_entry t (e\<lparr>e_demanded := fst (extents_insert (e_demanded e) r)\<rparr>) c"
    using record_demand_cases [OF o] by metis
  then show ?thesis
  proof cases
    case 1
    then show ?thesis by (intro machine_ok_same [OF m _ _ _ _ n]) auto
  next
    case 2
    note E = D(4) [OF 2(1)]
    from E have x: "layout_wf (e_layout e)" "extents_wf (e_demanded e)"
      "extents_bytes (e_demanded e) \<subseteq> {..<total_length (e_layout e)}" by (auto simp: entry_ok_def)
    note dm = demand_ok [OF x 2(2-4)]
    show ?thesis unfolding 2(5)
      using D(6-9,12) dm by (intro machine_ok_put [OF m 2(1) n]) (auto simp: entry_ok_def)
  qed
qed

lemma step_pin_ok:
  assumes m: "machine_ok exact inv layout_of content n \<lparr>k_cache = c, k_pins = ps, k_pending = w\<rparr>"
    and n: "n + 2 < U64" and o: "cache_pin_inner c t rg = (c', Inr p)"
  shows "machine_ok exact inv layout_of content (Suc n)
           \<lparr>k_cache = c', k_pins = ps @ [(p, rg)], k_pending = w\<rparr>"
proof -
  note D = machine_okD [OF m]
  from o obtain e where e: "entries c t = Some e" and p: "p = \<lparr>pin_torrent = t, pin_id = c_next_pin c\<rparr>"
    by (auto simp: cache_pin_inner_def Let_def cache_entry_def split: option.splits)
  have len: "length (pins_of t ps) \<le> n" using length_pins_of [of t ps] D(12) by linarith
  note E = D(4) [OF e]
  have np: "add64 (c_next_pin c) 1 = Suc (c_next_pin c)" "add64 (e_pins e) 1 = Suc (e_pins e)"
    using D(11) n len E by (auto intro!: add64_in_range [THEN trans] simp: entry_ok_def)
  define e' where "e' = e\<lparr>e_pins := Suc (e_pins e),
    e_readers := e_readers e @ (case rg of None \<Rightarrow> [] | Some r \<Rightarrow> [(c_next_pin c, r)])\<rparr>"
  have c: "c' = put_entry t e' (c\<lparr>c_next_pin := Suc (c_next_pin c)\<rparr>)"
    using o e np by (auto simp: cache_pin_inner_def Let_def cache_entry_def e'_def split: option.splits)
  have pin: "q \<in> set ps \<Longrightarrow> pin_id (fst q) < Suc (c_next_pin c)" for q using D(7) [of q] by simp
  have fresh: "q \<in> set ps \<Longrightarrow> pin_id (fst q) \<noteq> c_next_pin c" for q using D(7) [of q] by auto
  show ?thesis unfolding c
  proof (rule machine_ok_put [OF m e n])
    show "distinct (map (\<lambda>p. pin_id (fst p)) (ps @ [(p, rg)]))" using D(8) fresh by (force simp: p)
    show "\<forall>q\<in>set (ps @ [(p, rg)]). pin_torrent (fst q) \<in> dom (entries c)
        \<and> pin_id (fst q) < c_next_pin (c\<lparr>c_next_pin := Suc (c_next_pin c)\<rparr>)"
      using D(6) pin e by (auto simp: p)
    show "entry_ok exact (layout_of (c_store c) t) (content (c_store c) t) (pins_of t (ps @ [(p, rg)]))
        (pending_of t w) (c_tick (c\<lparr>c_next_pin := Suc (c_next_pin c)\<rparr>)) e'"
      using E by (auto simp: entry_ok_def e'_def p split: option.splits)
  qed (use D(9,12) np in \<open>auto simp: p e'_def\<close>)
qed

lemma step_pin_err_ok:
  assumes m: "machine_ok exact inv layout_of content n \<lparr>k_cache = c, k_pins = ps, k_pending = w\<rparr>"
    and n: "n + 2 < U64" and o: "cache_pin_inner c t rg = (c', Inl err)"
  shows "machine_ok exact inv layout_of content (Suc n) \<lparr>k_cache = c', k_pins = ps, k_pending = w\<rparr>"
proof -
  from o have "c' = c\<lparr>c_next_pin := add64 (c_next_pin c) 1\<rparr>"
    by (auto simp: cache_pin_inner_def Let_def split: sum.splits)
  then show ?thesis by (intro machine_ok_same [OF m _ _ _ _ n]) auto
qed

lemma step_unpin_ok:
  assumes m: "machine_ok exact inv layout_of content n
      \<lparr>k_cache = c, k_pins = ps @ (p, rg) # ps', k_pending = w\<rparr>"
    and n: "n + 2 < U64"
  shows "machine_ok exact inv layout_of content (Suc n)
           \<lparr>k_cache = cache_unpin c p, k_pins = ps @ ps', k_pending = w\<rparr>"
proof -
  note D = machine_okD [OF m]
  let ?t = "pin_torrent p"
  from D(6) [of "(p, rg)"] obtain e where e: "entries c ?t = Some e" by auto
  note E = D(4) [OF e]
  have pins: "e_pins e = Suc (length (pins_of ?t ps) + length (pins_of ?t ps'))"
    using E by (simp add: entry_ok_def)
  moreover have "e_pins e \<le> n"
    using E D(12) length_pins_of [of ?t "ps @ (p, rg) # ps'"] by (simp add: entry_ok_def)
  ultimately have sub: "sub64 (e_pins e) 1 = e_pins e - 1"
    using n by (intro sub64_in_range) auto
  have other: "q \<in> set ps \<union> set ps' \<Longrightarrow> pin_id (fst q) \<noteq> pin_id p" for q
    using D(8) by (auto simp: image_iff)
  have filt: "filter (\<lambda>(j, r). j \<noteq> pin_id p) (readers_of (pins_of ?t qs)) = readers_of (pins_of ?t qs)"
    if "set qs \<subseteq> set ps \<union> set ps'" for qs
  proof (intro readers_of_filter ballI)
    fix q assume "q \<in> set (pins_of ?t qs)"
    then have "q \<in> set ps \<union> set ps'" using that by (auto simp: pins_of_def)
    then show "pin_id (fst q) \<noteq> pin_id p" by (rule other)
  qed
  have rd: "filter (\<lambda>(j, r). j \<noteq> pin_id p) (e_readers e) = readers_of (pins_of ?t (ps @ ps'))"
    using E filt [of ps] filt [of ps'] by (cases rg) (auto simp: entry_ok_def)
  have c: "cache_unpin c p = put_entry ?t (e\<lparr>e_pins := sub64 (e_pins e) 1,
      e_readers := filter (\<lambda>(i, r). i \<noteq> pin_id p) (e_readers e),
      e_last_read := c_tick (next_tick c)\<rparr>) (next_tick c)"
    using e by (simp add: cache_unpin_def Let_def)
  show ?thesis unfolding c
  proof (rule machine_ok_put [OF m e n])
    show "\<forall>q\<in>set (ps @ ps'). pin_torrent (fst q) \<in> dom (entries c)
        \<and> pin_id (fst q) < c_next_pin (next_tick c)"
      using D(6,7) by auto
    show "entry_ok exact (layout_of (c_store c) ?t) (content (c_store c) ?t) (pins_of ?t (ps @ ps'))
        (pending_of ?t w) (c_tick (next_tick c))
        (e\<lparr>e_pins := sub64 (e_pins e) 1, e_readers := filter (\<lambda>(i, r). i \<noteq> pin_id p) (e_readers e),
           e_last_read := c_tick (next_tick c)\<rparr>)"
      using E pins sub rd by (simp add: entry_ok_def)
  qed (use D(8,9,12) in auto)
qed

lemma step_remove_ok:
  assumes m: "machine_ok exact inv layout_of content n \<lparr>k_cache = c, k_pins = ps, k_pending = w\<rparr>"
    and n: "n + 2 < U64" and idle: "t \<notin> fst ` set w" and o: "cache_remove vt c t = (c', res)"
  shows "machine_ok exact inv layout_of content (Suc n) \<lparr>k_cache = c', k_pins = ps, k_pending = w\<rparr>"
proof -
  note D = machine_okD [OF m]
  obtain s' r where s: "ps_remove vt (c_store c) t = (s', r)" by (rule prod.exhaust)
  consider "c' = c"
    | e err where "entries c t = Some e" "r = Inl err" "c' = c\<lparr>c_store := s'\<rparr>"
    | e u where "entries c t = Some e" "e_pins e = 0" "r = Inr u"
        "c' = c\<lparr>c_store := s', c_torrents := hm_remove t (c_torrents c)\<rparr>"
  proof (cases "entries c t")
    case None
    then show ?thesis using that(1) o by (simp add: cache_remove_def cache_entry_def)
  next
    case (Some e)
    show ?thesis
    proof (cases "0 < e_pins e")
      case True
      then show ?thesis using that(1) o Some by (simp add: cache_remove_def cache_entry_def)
    next
      case False
      then show ?thesis
        using that(2) [OF Some] that(3) [OF Some] o s Some
        by (cases r) (simp_all add: cache_remove_def cache_entry_def)
    qed
  qed
  then show ?thesis
  proof cases
    case 1
    then show ?thesis by (intro machine_ok_same [OF m _ _ _ _ n]) auto
  next
    case 2
    with s have s2: "ps_remove vt (c_store c) t = (s', Inl err)" by simp
    note R = remove_err [OF D(1) s2]
    have e: "entry_ok exact (layout_of s' u) (content s' u) (pins_of u ps) (pending_of u w) (c_tick c) v"
      if "entries c u = Some v" for u v
      using D(4) [OF that] R by (cases "u = t") (auto simp: entry_ok_def)
    have d: "dom (layout_of s') \<subseteq> dom (entries c)"
    proof
      fix u assume "u \<in> dom (layout_of s')"
      then have "u \<in> dom (layout_of (c_store c))" using R by (cases "u = t") (auto simp: dom_def)
      then show "u \<in> dom (entries c)" using D(3) by blast
    qed
    show ?thesis unfolding 2(3)
      using D(2,3,5,8,9,10-12) R d by (intro machine_okI) (simp_all add: e D(6,7))
  next
    case 3
    with s have s3: "ps_remove vt (c_store c) t = (s', Inr u)" by simp
    note R = remove_ok [OF D(1) s3]
    have np: "q \<in> set ps \<Longrightarrow> pin_torrent (fst q) \<noteq> t" for q
      using D(4) [OF 3(1)] 3(2) by (auto simp: entry_ok_def pins_of_def filter_empty_conv)
    have e: "entry_ok exact (layout_of s' v) (content s' v) (pins_of v ps) (pending_of v w) (c_tick c) x"
      if "entries c v = Some x" "v \<noteq> t" for v x
      using D(4) [OF that(1)] R that(2) by (auto simp: entry_ok_def)
    have d: "dom (layout_of s') \<subseteq> dom (entries c) - {t}" using R D(3) by auto
    have w: "fst ` set w \<subseteq> dom (entries c) - {t}" using D(9) idle by blast
    have p: "q \<in> set ps \<Longrightarrow> pin_torrent (fst q) \<in> dom (entries c) - {t}" for q using D(6) np by auto
    show ?thesis unfolding 3(4)
    proof (rule machine_okI)
      fix v x
      assume "entries (c\<lparr>c_store := s', c_torrents := hm_remove t (c_torrents c)\<rparr>) v = Some x"
      then show "entry_ok exact (layout_of (c_store (c\<lparr>c_store := s', c_torrents := hm_remove t (c_torrents c)\<rparr>)) v)
        (content (c_store (c\<lparr>c_store := s', c_torrents := hm_remove t (c_torrents c)\<rparr>)) v)
        (pins_of v ps) (pending_of v w)
        (c_tick (c\<lparr>c_store := s', c_torrents := hm_remove t (c_torrents c)\<rparr>)) x"
        using e by (simp split: if_splits)
    qed (use R D(2,8,10-12) d w p recency_ok_remove [OF D(5)] in
        \<open>simp_all add: D(7) del: fun_upd_apply\<close>)
  qed
qed

end

subsection \<open>Runs\<close>

text \<open>
  A family of store models that share their state and their meaning: the operations of one store
  under every outcome that the outside world may give them.
\<close>

locale store_family =
  fixes V :: "'s piece_store set"
    and exact :: bool
    and inv :: "'s \<Rightarrow> bool"
    and layout_of :: "'s \<Rightarrow> info_hash \<rightharpoonup> torrent_layout"
    and content :: "'s \<Rightarrow> content"
  assumes nonempty: "V \<noteq> {}"
    and member: "vt \<in> V \<Longrightarrow> piece_store_contract vt inv layout_of content"
    and member_exact:
      "exact \<Longrightarrow> vt \<in> V \<Longrightarrow> inv s \<Longrightarrow> ps_write vt s t f off d = (s', Inl e) \<Longrightarrow> s' = s"
begin

lemma step_preserves:
  assumes "cache_step V m m'" "machine_ok exact inv layout_of content n m" "n + 2 < U64"
  shows "machine_ok exact inv layout_of content (Suc n) m'"
proof -
  from nonempty obtain v where v: "v \<in> V" by blast
  show ?thesis
    using assms
  proof (induction rule: cache_step.induct)
    case (step_open vt l c t c' res ps w)
    from piece_store_contract.step_open_ok [OF member [OF step_open(1)] step_open(4,5,2,3)] show ?case .
  next
    case (step_discard vt c owned c' res ps w)
    from piece_store_contract.step_discard_ok [OF member [OF step_discard(1)] step_discard(3,2)] show ?case .
  next
    case (step_store vt c t f off d c' a ps w)
    from piece_store_contract.step_store_ok [OF member [OF step_store(1)] step_store(3,2)] show ?case .
  next
    case (step_store_err vt c t f off d c' e ps w)
    show ?case
      by (rule piece_store_contract.step_store_err_ok [OF member [OF step_store_err(1)] step_store_err(3,2)])
        (rule member_exact [OF _ step_store_err(1)])
  next
    case (step_commit c ps w t a w')
    from piece_store_contract.step_commit_ok [OF member [OF v] step_commit] show ?case .
  next
    case (step_read vt c t f off k c' res ps w)
    from piece_store_contract.step_read_ok [OF member [OF step_read(1)] step_read(3,4,2)] show ?case .
  next
    case (step_piece vt c t p c' res ps w)
    from piece_store_contract.step_piece_ok [OF member [OF step_piece(1)] step_piece(3,4,2)] show ?case .
  next
    case (step_demand c t f off k c' res ps w)
    from piece_store_contract.step_demand_ok [OF member [OF v] step_demand(2,3,1)] show ?case .
  next
    case (step_pin c t rg c' p ps w)
    from piece_store_contract.step_pin_ok [OF member [OF v] step_pin(2,3,1)] show ?case .
  next
    case (step_pin_err c t rg c' e ps w)
    from piece_store_contract.step_pin_err_ok [OF member [OF v] step_pin_err(2,3,1)] show ?case .
  next
    case (step_unpin c ps p rg ps' w)
    from piece_store_contract.step_unpin_ok [OF member [OF v] step_unpin] show ?case .
  next
    case (step_cap c ps w cap)
    show ?case
      by (rule piece_store_contract.machine_ok_same [OF member [OF v] step_cap(1) _ _ _ _ step_cap(2)])
        (simp_all add: cache_set_cap_bytes_def)
  next
    case (step_remove vt t w c c' res ps)
    from piece_store_contract.step_remove_ok [OF member [OF step_remove(1)] step_remove(4,5,2,3)] show ?case .
  qed
qed

lemma run_ok:
  assumes "cache_run V s n m" "inv s" "layout_of s = Map.empty" "n + 2 < U64"
  shows "machine_ok exact inv layout_of content n m"
  using assms
proof (induction rule: cache_run.induct)
  case (run_new cap)
  then show ?case by (intro machine_okI) (simp_all add: cache_new_def recency_ok_def)
next
  case (run_step n m m')
  then show ?case by (intro step_preserves) simp_all
qed

end

end
