(* ===== verification/CachePolicy.thy ===== *)
theory CachePolicy
  imports Cache
begin

text \<open>
  What the cache decides and reports from one state: the victims of the eviction policy and the
  per-piece account of the demanded bytes.
\<close>

subsection \<open>Eviction\<close>

definition stored_sum :: "(info_hash \<times> entry) list \<Rightarrow> nat" where
  "stored_sum xs = sum_list (map (\<lambda>(t, e). e_stored e) xs)"

lemma stored_sum_simps [simp]:
  "stored_sum [] = 0" "stored_sum (p # xs) = e_stored (snd p) + stored_sum xs"
  "stored_sum (xs @ ys) = stored_sum xs + stored_sum ys"
  by (simp_all add: stored_sum_def case_prod_beta)

lemma stored_sum_mset: "mset xs = mset ys \<Longrightarrow> stored_sum xs = stored_sum ys"
  unfolding stored_sum_def by (metis mset_map sum_mset_sum_list)

lemma stored_sum_filter_le: "stored_sum (filter P xs) \<le> stored_sum xs"
  by (induction xs) auto

text \<open>The victims are the shortest prefix that frees the excess.\<close>

lemma take_victims_prefix:
  obtains k where "k \<le> length xs" "take_victims ex xs = map fst (take k xs)"
    "k = length xs \<or> ex \<le> stored_sum (take k xs)"
    "\<forall>j < k. stored_sum (take j xs) < ex"
proof (induction xs arbitrary: ex thesis)
  case Nil
  then show ?case by simp
next
  case (Cons p xs)
  show ?case
  proof (cases "ex = 0")
    case True
    then show ?thesis using Cons.prems [of 0] by (cases p) simp
  next
    case False
    obtain k where k: "k \<le> length xs" "take_victims (ex - e_stored (snd p)) xs = map fst (take k xs)"
      "k = length xs \<or> ex - e_stored (snd p) \<le> stored_sum (take k xs)"
      "\<forall>j < k. stored_sum (take j xs) < ex - e_stored (snd p)"
      using Cons.IH [of "ex - e_stored (snd p)"] by metis
    show ?thesis
    proof (rule Cons.prems [of "Suc k"])
      show "take_victims ex (p # xs) = map fst (take (Suc k) (p # xs))"
        using False k(2) by (cases p) (simp add: sat_sub_def)
      show "\<forall>j < Suc k. stored_sum (take j (p # xs)) < ex"
      proof (intro allI impI)
        fix j assume "j < Suc k"
        then show "stored_sum (take j (p # xs)) < ex"
          using False k(4) by (cases j) (auto simp: less_diff_conv add.commute)
      qed
    qed (use k(1,3) in auto)
  qed
qed

lemma sum64_eq_mod: "sum64 xs = sum_list xs mod U64"
proof -
  have "fold (\<lambda>x a. add64 a x) xs acc mod U64 = (acc + sum_list xs) mod U64" for acc
    by (induction xs arbitrary: acc) (simp_all add: add64_def mod_add_left_eq add.assoc)
  then have "fold (\<lambda>x a. add64 a x) xs 0 mod U64 = sum_list xs mod U64" by simp
  moreover have "fold (\<lambda>x a. add64 a x) xs acc < U64" if "acc < U64" for acc
    using that by (induction xs arbitrary: acc) simp_all
  ultimately show ?thesis by (simp add: sum64_def)
qed

lemma cache_stored_eq: "cache_stored c = stored_sum (c_torrents c) mod U64"
  by (simp add: cache_stored_def stored_sum_def sum64_eq_mod)

lemma set_idle_entries: "distinct (map fst (c_torrents c)) \<Longrightarrow>
  (t, e) \<in> set (idle_entries c) \<longleftrightarrow> map_of (c_torrents c) t = Some e \<and> e_pins e = 0 \<and> 0 < e_stored e"
  by (auto simp: idle_entries_def)

lemma distinct_idle_entries: "distinct (map fst (c_torrents c)) \<Longrightarrow> distinct (map fst (idle_entries c))"
  by (auto simp: idle_entries_def distinct_map intro: inj_on_subset)

lemma eviction_prefix:
  fixes c :: "'s cache"
  assumes "distinct (map fst (c_torrents c))"
  obtains ys zs where "cache_eviction_candidates c = map fst ys"
    "mset (ys @ zs) = mset (idle_entries c)" "distinct (map fst (ys @ zs))"
    "sorted (map (\<lambda>p. e_last_read (snd p)) (ys @ zs))"
    "zs = [] \<or> cache_stored c - c_cap c \<le> stored_sum ys"
    "ys \<noteq> [] \<Longrightarrow> stored_sum (butlast ys) < cache_stored c - c_cap c"
proof -
  define xs where "xs = sort_key (\<lambda>(t, e). e_last_read e) (idle_entries c)"
  obtain k where k: "k \<le> length xs" "take_victims (cache_stored c - c_cap c) xs = map fst (take k xs)"
    "k = length xs \<or> cache_stored c - c_cap c \<le> stored_sum (take k xs)"
    "\<forall>j < k. stored_sum (take j xs) < cache_stored c - c_cap c"
    by (rule take_victims_prefix)
  show ?thesis
  proof (rule that [of "take k xs" "drop k xs"])
    show "cache_eviction_candidates c = map fst (take k xs)"
      using k(2) by (simp add: cache_eviction_candidates_def xs_def sat_sub_def)
    show "mset (take k xs @ drop k xs) = mset (idle_entries c)" by (simp add: xs_def)
    then have "mset (map fst (take k xs @ drop k xs)) = mset (map fst (idle_entries c))"
      by (metis mset_map)
    then show "distinct (map fst (take k xs @ drop k xs))"
      using distinct_idle_entries [OF assms] by (metis mset_eq_imp_distinct_iff)
    have "sorted (map (\<lambda>(t, e). e_last_read e) xs)" by (simp add: xs_def)
    then show "sorted (map (\<lambda>p. e_last_read (snd p)) (take k xs @ drop k xs))"
      by (simp add: case_prod_beta')
    show "drop k xs = [] \<or> cache_stored c - c_cap c \<le> stored_sum (take k xs)" using k(3) by auto
    assume "take k xs \<noteq> []"
    then show "stored_sum (butlast (take k xs)) < cache_stored c - c_cap c"
      using k(1,4) by (simp add: butlast_take)
  qed
qed

lemma eviction_member:
  assumes d: "distinct (map fst (c_torrents c))" and t: "t \<in> set (cache_eviction_candidates c)"
  shows "\<exists>e. map_of (c_torrents c) t = Some e \<and> e_pins e = 0 \<and> 0 < e_stored e"
proof -
  obtain ys zs where y: "cache_eviction_candidates c = map fst ys"
    "mset (ys @ zs) = mset (idle_entries c)"
    using eviction_prefix [OF d] by blast
  from t y(1) obtain e where "(t, e) \<in> set ys" by auto
  moreover have "set (ys @ zs) = set (idle_entries c)" using y(2) by (rule mset_eq_setD)
  ultimately have "(t, e) \<in> set (idle_entries c)" by auto
  then show ?thesis using set_idle_entries [OF d] by blast
qed

lemma stored_sum_partition:
  "stored_sum (filter P xs) + stored_sum (filter (\<lambda>p. \<not> P p) xs) = stored_sum xs"
  by (induction xs) auto

text \<open>The policy as a contract: what a list of victims must be for a given state.\<close>

definition victims_ok :: "'s cache \<Rightarrow> info_hash list \<Rightarrow> bool" where
  "victims_ok c vs \<longleftrightarrow>
     (let excess = stored_sum (c_torrents c) - c_cap c;
          idle = set (idle_entries c);
          left = filter (\<lambda>(t, e). t \<notin> set vs) (c_torrents c)
      in distinct vs
         \<and> set vs \<subseteq> fst ` idle
         \<and> (\<forall>(t, e) \<in> idle. \<forall>(u, e') \<in> idle. t \<in> set vs \<longrightarrow> u \<notin> set vs \<longrightarrow> e_last_read e \<le> e_last_read e')
         \<and> sorted (map (\<lambda>t. e_last_read (the (map_of (c_torrents c) t))) vs)
         \<and> (stored_sum left \<le> c_cap c \<or> (\<forall>(t, e) \<in> set left. 0 < e_pins e \<or> e_stored e = 0))
         \<and> (vs \<noteq> [] \<longrightarrow>
              stored_sum (filter (\<lambda>(t, e). t \<in> set (butlast vs)) (c_torrents c)) < excess))"

lemma stored_sum_select:
  assumes d: "distinct (map fst xs)" and ys: "set ys \<subseteq> set xs" "distinct (map fst ys)"
  shows "stored_sum (filter (\<lambda>(t, e). t \<in> set (map fst ys)) xs) = stored_sum ys"
proof (rule stored_sum_mset)
  have "set (filter (\<lambda>(t, e). t \<in> set (map fst ys)) xs) = set ys"
    using d ys(1) by (force dest: eq_key_imp_eq_value)
  moreover have "distinct (filter (\<lambda>(t, e). t \<in> set (map fst ys)) xs)" "distinct ys"
    using d ys(2) by (auto simp: distinct_map)
  ultimately show "mset (filter (\<lambda>(t, e). t \<in> set (map fst ys)) xs) = mset ys"
    by (metis set_eq_iff_mset_eq_distinct)
qed

lemma eviction_victims_ok:
  assumes d: "distinct (map fst (c_torrents c))" and s: "stored_sum (c_torrents c) < U64"
  shows "victims_ok c (cache_eviction_candidates c)"
proof -
  have st: "cache_stored c = stored_sum (c_torrents c)" using s by (simp add: cache_stored_eq)
  obtain ys zs where vs: "cache_eviction_candidates c = map fst ys"
    and perm: "mset (ys @ zs) = mset (idle_entries c)" and dis: "distinct (map fst (ys @ zs))"
    and srt: "sorted (map (\<lambda>p. e_last_read (snd p)) (ys @ zs))"
    and enough: "zs = [] \<or> cache_stored c - c_cap c \<le> stored_sum ys"
    and least: "ys \<noteq> [] \<Longrightarrow> stored_sum (butlast ys) < cache_stored c - c_cap c"
    using eviction_prefix [OF d] by blast
  have idle: "set (idle_entries c) = set ys \<union> set zs" using mset_eq_setD [OF perm] by auto
  then have sub: "set ys \<subseteq> set (c_torrents c)" by (auto simp: idle_entries_def)
  have sel: "stored_sum (filter (\<lambda>(t, e). t \<in> set (map fst ys)) (c_torrents c)) = stored_sum ys"
    using sub dis by (intro stored_sum_select d) auto
  have part: "stored_sum (filter (\<lambda>(t, e). t \<notin> set (map fst ys)) (c_torrents c)) + stored_sum ys
      = stored_sum (c_torrents c)"
    using stored_sum_partition [of "\<lambda>(t, e). t \<in> set (map fst ys)" "c_torrents c"] sel
    by (simp add: case_prod_beta' add.commute)
  have lru: "e_last_read e \<le> e_last_read e'"
    if "(t, e) \<in> set (idle_entries c)" "(u, e') \<in> set (idle_entries c)"
      "t \<in> set (map fst ys)" "u \<notin> set (map fst ys)" for t e u e'
  proof -
    have "(t, e) \<in> set ys" using that(1,3) idle dis by (force simp: image_iff)
    moreover have "(u, e') \<in> set zs" using that(2,4) idle by force
    ultimately show ?thesis using srt by (force simp: sorted_append)
  qed
  have look: "the (map_of (c_torrents c) (fst p)) = snd p" if "p \<in> set ys" for p
  proof -
    from that sub have "(fst p, snd p) \<in> set (c_torrents c)" by auto
    then have "map_of (c_torrents c) (fst p) = Some (snd p)" by (rule map_of_is_SomeI [OF d])
    then show ?thesis by simp
  qed
  have sorted_vs: "sorted (map (\<lambda>t. e_last_read (the (map_of (c_torrents c) t))) (map fst ys))"
  proof -
    have "map (\<lambda>t. e_last_read (the (map_of (c_torrents c) t))) (map fst ys)
        = map (\<lambda>p. e_last_read (snd p)) ys" using look by simp
    moreover have "sorted (map (\<lambda>p. e_last_read (snd p)) ys)" using srt by (simp add: sorted_append)
    ultimately show ?thesis by (simp only:)
  qed
  have rest: "stored_sum (filter (\<lambda>(t, e). t \<notin> set (map fst ys)) (c_torrents c)) \<le> c_cap c
      \<or> (\<forall>(t, e) \<in> set (filter (\<lambda>(t, e). t \<notin> set (map fst ys)) (c_torrents c)). 0 < e_pins e \<or> e_stored e = 0)"
  proof (cases "zs = []")
    case True
    with idle have "set (idle_entries c) = set ys" by simp
    then show ?thesis by (force simp: idle_entries_def)
  next
    case False
    with enough st part show ?thesis by linarith
  qed
  have prefix: "stored_sum (filter (\<lambda>(t, e). t \<in> set (butlast (map fst ys))) (c_torrents c))
      < stored_sum (c_torrents c) - c_cap c" if "map fst ys \<noteq> []"
  proof -
    have "set (butlast ys) \<subseteq> set (c_torrents c)" using sub by (auto dest: in_set_butlastD)
    moreover have "distinct (map fst (butlast ys))"
      using dis by (simp add: map_butlast distinct_butlast)
    ultimately have "stored_sum (filter (\<lambda>(t, e). t \<in> set (map fst (butlast ys))) (c_torrents c))
        = stored_sum (butlast ys)" by (intro stored_sum_select d)
    with least that st show ?thesis by (simp add: map_butlast)
  qed
  show ?thesis
    unfolding victims_ok_def vs Let_def
  proof (intro conjI)
    show "distinct (map fst ys)" using dis by simp
    show "set (map fst ys) \<subseteq> fst ` set (idle_entries c)" using idle by auto
    show "\<forall>(t, e) \<in> set (idle_entries c). \<forall>(u, e') \<in> set (idle_entries c).
        t \<in> set (map fst ys) \<longrightarrow> u \<notin> set (map fst ys) \<longrightarrow> e_last_read e \<le> e_last_read e'"
      using lru by blast
  qed (use sorted_vs rest prefix in blast)+
qed

text \<open>The iteration order of the table does not matter when no two torrents share a tick.\<close>

lemma eviction_order:
  assumes m: "mset (c_torrents c') = mset (c_torrents c)" and cap: "c_cap c' = c_cap c"
    and inj: "inj_on (\<lambda>(t, e). e_last_read e) (set (c_torrents c))"
  shows "cache_eviction_candidates c' = cache_eviction_candidates c"
proof -
  have "cache_stored c' = cache_stored c" using stored_sum_mset [OF m] by (simp add: cache_stored_eq)
  moreover have "mset (idle_entries c') = mset (idle_entries c)"
    using m by (simp add: idle_entries_def mset_filter)
  then have "sort_key (\<lambda>(t, e). e_last_read e) (idle_entries c')
      = sort_key (\<lambda>(t, e). e_last_read e) (idle_entries c)"
  proof (intro sort_key_inj_key_eq)
    show "inj_on (\<lambda>(t, e). e_last_read e) (set (idle_entries c'))"
      using inj mset_eq_setD [OF m] by (auto simp: idle_entries_def inj_on_def)
  qed simp_all
  ultimately show ?thesis by (simp add: cache_eviction_candidates_def cap)
qed

subsection \<open>Demanded pieces\<close>

definition piece_bytes :: "torrent_layout \<Rightarrow> nat \<Rightarrow> nat set" where
  "piece_bytes l i = {i * piece_length l..<min ((i + 1) * piece_length l) (total_length l)}"

text \<open>
  The reports compute \<open>piece_start + piece_length\<close> in 64 bits; \<open>layout_small\<close> is the condition
  under which that sum does not wrap for any piece.
\<close>

definition layout_small :: "torrent_layout \<Rightarrow> bool" where
  "layout_small l \<longleftrightarrow> layout_wf l \<and> total_length l + piece_length l \<le> U64"

lemma piece_bytes_card: "card (piece_bytes l i) \<le> piece_length l"
  by (simp add: piece_bytes_def)

lemma piece_start_lt:
  assumes "layout_wf l" "i < piece_count l"
  shows "i * piece_length l < total_length l"
proof -
  have "Suc i * piece_length l \<le> piece_count l * piece_length l"
    using assms(2) by (intro mult_le_mono1) simp
  also have "\<dots> < total_length l + piece_length l"
    using div_ceil_bounds(2) [of "piece_length l" "total_length l"] assms(1) by (simp add: layout_wf_def)
  finally show ?thesis by simp
qed

lemma span_overlap_eq:
  assumes l: "layout_small l" and i: "i < piece_count l" and e: "snd sp \<le> total_length l"
  shows "span_overlap l sp i = card ({fst sp..<snd sp} \<inter> piece_bytes l i)"
proof -
  have s: "i * piece_length l < total_length l"
    using l i by (simp add: layout_small_def piece_start_lt)
  moreover have "total_length l + piece_length l \<le> U64" using l by (simp add: layout_small_def)
  ultimately have "mul64 i (piece_length l) = i * piece_length l"
    "add64 (i * piece_length l) (piece_length l) = (i + 1) * piece_length l"
    by (simp_all add: u64_simps add.commute)
  moreover have "{fst sp..<snd sp} \<inter> piece_bytes l i
      = {max (fst sp) (i * piece_length l)..<min (snd sp) (min ((i + 1) * piece_length l) (total_length l))}"
    by (auto simp: piece_bytes_def)
  ultimately show ?thesis by (simp add: span_overlap_def Let_def sat_sub_def)
qed

lemma piece_bytes_div: "0 < piece_length l \<Longrightarrow> b \<in> piece_bytes l i \<Longrightarrow> b div piece_length l = i"
  by (intro div_nat_eqI) (auto simp: piece_bytes_def mult.commute)

lemma span_overlap_outside:
  assumes "0 < piece_length l" "i < fst sp div piece_length l \<or> (snd sp - 1) div piece_length l < i"
  shows "{fst sp..<snd sp} \<inter> piece_bytes l i = {}"
proof -
  have "x div piece_length l = i" if "x \<in> piece_bytes l i" for x
    by (rule piece_bytes_div [OF assms(1) that])
  moreover have "fst sp div piece_length l \<le> x div piece_length l"
    "x div piece_length l \<le> (snd sp - 1) div piece_length l" if "x \<in> {fst sp..<snd sp}" for x
    using that by (auto intro!: div_le_mono)
  ultimately show ?thesis using assms(2) by fastforce
qed

text \<open>One span: the loop adds to every size the bytes the span shares with that piece.\<close>

lemma length_add_overlap [simp]: "length (fold (add_overlap l sp) ps sizes) = length sizes"
  by (induction ps arbitrary: sizes) (simp_all add: add_overlap_def)

lemma fold_add_overlap:
  assumes "distinct ps" "i < length sizes"
  shows "fold (add_overlap l sp) ps sizes ! i
    = (if i \<in> set ps then add64 (sizes ! i) (span_overlap l sp i) else sizes ! i)"
  using assms
proof (induction ps arbitrary: sizes)
  case (Cons p ps)
  have "length (add_overlap l sp p sizes) = length sizes" by (simp add: add_overlap_def)
  with Cons show ?case by (auto simp: add_overlap_def nth_list_update)
qed simp

lemma add_span_nth:
  assumes l: "layout_small l" and e: "snd sp \<le> total_length l" and n: "length sizes = piece_count l"
    and i: "i < piece_count l"
    and fits: "sizes ! i + card ({fst sp..<snd sp} \<inter> piece_bytes l i) < U64"
  shows "add_span l sp sizes ! i = sizes ! i + card ({fst sp..<snd sp} \<inter> piece_bytes l i)"
proof -
  define ps where "ps = [fst sp div piece_length l..<Suc ((snd sp - 1) div piece_length l)]"
  have "add_span l sp sizes ! i
      = (if i \<in> set ps then add64 (sizes ! i) (span_overlap l sp i) else sizes ! i)"
    unfolding add_span_def sat_sub_def ps_def using n i by (intro fold_add_overlap) auto
  moreover have "{fst sp..<snd sp} \<inter> piece_bytes l i = {}" if "i \<notin> set ps"
  proof (rule span_overlap_outside)
    show "0 < piece_length l" using l by (simp add: layout_small_def layout_wf_def)
    show "i < fst sp div piece_length l \<or> (snd sp - 1) div piece_length l < i"
      using that by (simp only: ps_def set_upt atLeastLessThan_iff) linarith
  qed
  ultimately show ?thesis
    using span_overlap_eq [OF l i e] fits by (auto simp: add64_in_range)
qed

lemma length_add_span [simp]: "length (add_span l sp sizes) = length sizes"
  by (simp add: add_span_def)

lemma fold_add_span:
  assumes l: "layout_small l" and g: "gapped sps" "spans_bytes sps \<subseteq> {..<total_length l}"
    and n: "length sizes = piece_count l" and i: "i < piece_count l"
    and fits: "sizes ! i + card (spans_bytes sps \<inter> piece_bytes l i) < U64"
  shows "length (fold (add_span l) sps sizes) = piece_count l
    \<and> fold (add_span l) sps sizes ! i = sizes ! i + card (spans_bytes sps \<inter> piece_bytes l i)"
  using g n fits
proof (induction sps arbitrary: sizes)
  case (Cons sp sps)
  have sp: "fst sp < snd sp" "\<forall>q \<in> set sps. snd sp < fst q" and g': "gapped sps"
    using Cons.prems(1) by (auto simp: gapped_simps)
  then have "snd sp - 1 \<in> {fst sp..<snd sp}" by auto
  then have "snd sp - 1 \<in> {..<total_length l}" using Cons.prems(2) by (auto simp only: spans_bytes_simps)
  then have e: "snd sp \<le> total_length l" by auto
  have dis: "{fst sp..<snd sp} \<inter> spans_bytes sps = {}"
    using sp(2) by (fastforce simp: spans_bytes_def)
  have un: "(spans_bytes (sp # sps)) \<inter> piece_bytes l i
      = ({fst sp..<snd sp} \<inter> piece_bytes l i) \<union> (spans_bytes sps \<inter> piece_bytes l i)" by auto
  have card: "card (spans_bytes (sp # sps) \<inter> piece_bytes l i)
      = card ({fst sp..<snd sp} \<inter> piece_bytes l i) + card (spans_bytes sps \<inter> piece_bytes l i)"
    unfolding un using dis by (intro card_Un_disjoint) auto
  have first: "add_span l sp sizes ! i = sizes ! i + card ({fst sp..<snd sp} \<inter> piece_bytes l i)"
    using Cons.prems(3,4) card by (intro add_span_nth [OF l e _ i]) auto
  have "length (fold (add_span l) sps (add_span l sp sizes)) = piece_count l
    \<and> fold (add_span l) sps (add_span l sp sizes) ! i
       = add_span l sp sizes ! i + card (spans_bytes sps \<inter> piece_bytes l i)"
    using Cons.prems card first g' by (intro Cons.IH) auto
  then show ?case using first card by simp
qed simp

text \<open>The whole report.\<close>

definition demand_in :: "entry \<Rightarrow> nat \<Rightarrow> nat" where
  "demand_in e i = card (extents_bytes (e_demanded e) \<inter> piece_bytes (e_layout e) i)"

lemma piece_actual_length_eq:
  assumes l: "layout_small l" and i: "i < piece_count l"
  shows "piece_actual_length l i = card (piece_bytes l i)"
proof -
  have w: "layout_wf l" using l by (simp add: layout_small_def)
  have s: "i * piece_length l < total_length l" by (rule piece_start_lt [OF w i])
  have m: "mul64 i (piece_length l) = i * piece_length l"
    using s w by (simp add: u64_simps layout_wf_def)
  have c: "(i + 1) mod U32 = i + 1" using i w unfolding layout_wf_def by (intro mod_less) linarith
  have pc: "total_length l \<le> piece_count l * piece_length l"
    using div_ceil_bounds(1) [of "piece_length l" "total_length l"] w by (simp add: layout_wf_def)
  show ?thesis
  proof (cases "i + 1 = piece_count l")
    case True
    then have "min ((i + 1) * piece_length l) (total_length l) = total_length l" using pc by simp
    then have "card (piece_bytes l i) = total_length l - i * piece_length l"
      by (simp add: piece_bytes_def del: add_mult_distrib)
    then show ?thesis unfolding piece_actual_length_def c using True m by (simp add: sat_sub_def)
  next
    case False
    then have "i + 1 < piece_count l" using i by simp
    from piece_start_lt [OF w this] have "min ((i + 1) * piece_length l) (total_length l) = (i + 1) * piece_length l"
      by simp
    then show ?thesis using False c by (simp add: piece_actual_length_def piece_bytes_def)
  qed
qed

lemma demanded_pieces_eq:
  assumes l: "layout_small (e_layout e)" and x: "extents_wf (e_demanded e)"
    "extents_bytes (e_demanded e) \<subseteq> {..<total_length (e_layout e)}"
  shows "demanded_pieces e =
    map (\<lambda>i. \<lparr>dp_piece = PieceIndex i, dp_size = demand_in e i,
              dp_completed = (piece_bytes (e_layout e) i \<subseteq> extents_bytes (e_demanded e))\<rparr>)
      (filter (\<lambda>i. demand_in e i \<noteq> 0) [0..<piece_count (e_layout e)])"
proof -
  define l where "l = e_layout e"
  define sizes where "sizes = fold (add_span l) (ex_spans (e_demanded e)) (replicate (piece_count l) 0)"
  have g: "gapped (ex_spans (e_demanded e))" "spans_bytes (ex_spans (e_demanded e)) \<subseteq> {..<total_length l}"
    using x by (simp_all add: extents_wf_def extents_bytes_def l_def)
  have le: "demand_in e i \<le> card (piece_bytes l i)" for i
    unfolding demand_in_def l_def by (intro card_mono) (auto simp: piece_bytes_def)
  have pl: "piece_length l < U64" if "0 < total_length l"
    using l that by (simp add: layout_small_def l_def)
  have size: "length sizes = piece_count l" "sizes ! i = demand_in e i" if i: "i < piece_count l" for i
  proof -
    have "0 < total_length l"
      using piece_start_lt [of l i] l i by (simp add: layout_small_def l_def)
    then have "demand_in e i < U64" using pl le [of i] piece_bytes_card [of l i] by linarith
    then have "length sizes = piece_count l \<and> sizes ! i = replicate (piece_count l) 0 ! i + demand_in e i"
      unfolding sizes_def demand_in_def extents_bytes_def l_def [symmetric]
      using l i g by (intro fold_add_span) (simp_all add: l_def)
    then show "length sizes = piece_count l" "sizes ! i = demand_in e i" using i by simp_all
  qed
  have len: "length sizes = piece_count l"
  proof -
    have "length (fold (add_span l) sps ss) = length ss" for sps and ss :: "nat list"
      by (induction sps arbitrary: ss) simp_all
    then show ?thesis by (simp add: sizes_def)
  qed
  have done_iff: "sizes ! i = piece_actual_length l i
      \<longleftrightarrow> piece_bytes l i \<subseteq> extents_bytes (e_demanded e)" if i: "i < piece_count l" for i
  proof -
    have "demand_in e i = card (piece_bytes l i) \<longleftrightarrow> piece_bytes l i \<subseteq> extents_bytes (e_demanded e)"
    proof
      assume "demand_in e i = card (piece_bytes l i)"
      then have "extents_bytes (e_demanded e) \<inter> piece_bytes l i = piece_bytes l i"
        unfolding demand_in_def l_def [symmetric]
        by (intro card_subset_eq) (auto simp: piece_bytes_def)
      then show "piece_bytes l i \<subseteq> extents_bytes (e_demanded e)" by blast
    next
      assume "piece_bytes l i \<subseteq> extents_bytes (e_demanded e)"
      then have "extents_bytes (e_demanded e) \<inter> piece_bytes l i = piece_bytes l i" by blast
      then show "demand_in e i = card (piece_bytes l i)" by (simp add: demand_in_def l_def)
    qed
    then show ?thesis
      using size(2) [OF i] piece_actual_length_eq [of l i] l i by (simp add: l_def)
  qed
  have "demanded_pieces e =
    map (\<lambda>i. \<lparr>dp_piece = PieceIndex i, dp_size = sizes ! i,
              dp_completed = (sizes ! i = piece_actual_length l i)\<rparr>)
      (filter (\<lambda>i. sizes ! i \<noteq> 0) [0..<piece_count l])"
    by (simp add: demanded_pieces_def Let_def sizes_def [symmetric] l_def [symmetric] len
        flip: sizes_def)
  also have "\<dots> = map (\<lambda>i. \<lparr>dp_piece = PieceIndex i, dp_size = demand_in e i,
              dp_completed = (piece_bytes l i \<subseteq> extents_bytes (e_demanded e))\<rparr>)
      (filter (\<lambda>i. demand_in e i \<noteq> 0) [0..<piece_count l])"
    using size(2) done_iff by (auto intro!: map_cong filter_cong)
  finally show ?thesis by (simp add: l_def)
qed

lemma demand_sum:
  assumes l: "layout_small (e_layout e)" and x: "extents_wf (e_demanded e)"
    "extents_bytes (e_demanded e) \<subseteq> {..<total_length (e_layout e)}"
  shows "sum_list (map dp_size (demanded_pieces e)) = ex_total (e_demanded e)"
proof -
  define l where "l = e_layout e"
  have w: "layout_wf l" using l by (simp add: layout_small_def l_def)
  then have pl: "0 < piece_length l" by (simp add: layout_wf_def)
  have cover: "extents_bytes (e_demanded e)
      = (\<Union>i < piece_count l. extents_bytes (e_demanded e) \<inter> piece_bytes l i)"
  proof -
    have "\<exists>i < piece_count l. b \<in> piece_bytes l i" if "b < total_length l" for b
    proof -
      have "b < piece_count l * piece_length l"
        using that div_ceil_bounds(1) [of "piece_length l" "total_length l"] w by (simp add: layout_wf_def)
      then have "b div piece_length l < piece_count l" using pl by (simp add: less_mult_imp_div_less)
      moreover have "b \<in> piece_bytes l (b div piece_length l)"
        using that pl dividend_less_div_times [of "piece_length l" b] by (simp add: piece_bytes_def)
      ultimately show ?thesis by blast
    qed
    then show ?thesis using x(2) by (fastforce simp: l_def)
  qed
  have dis: "piece_bytes l i \<inter> piece_bytes l j = {}" if "i \<noteq> j" for i j
    using that piece_bytes_div [OF pl] by blast
  have "card (extents_bytes (e_demanded e)) = (\<Sum>i < piece_count l. demand_in e i)"
    unfolding demand_in_def l_def [symmetric]
    by (subst cover, subst card_UN_disjoint) (use dis in \<open>auto simp: finite_extents_bytes\<close>)
  also have "\<dots> = sum_list (map (demand_in e) [0..<piece_count l])"
    by (simp add: interv_sum_list_conv_sum_set_nat atLeast0LessThan)
  also have "\<dots> = sum_list (map (demand_in e) (filter (\<lambda>i. demand_in e i \<noteq> 0) [0..<piece_count l]))"
    by (rule sum_list_map_filter [symmetric]) auto
  also have "\<dots> = sum_list (map dp_size (demanded_pieces e))"
    unfolding demanded_pieces_eq [OF l x] by (simp add: o_def l_def)
  finally show ?thesis using x(1) by (simp add: extents_wf_def)
qed

end
