(* ===== verification/MemoryStore.thy ===== *)
theory MemoryStore
  imports PieceStore
begin

text \<open>
  \<open>rustorr-cache/src/memory.rs\<close>: the RAM store. Bytes live in blocks of \<open>block_size\<close> that are
  allocated as data arrives; the extents say which of them are real. The map of torrents is
  guarded by a lock that every method takes for its whole critical section, so each method is one
  state change.
\<close>

definition block_size :: nat where
  "block_size = 16 * 1024"

record mem_file =
  mf_extents :: extents
  mf_blocks :: "nat \<rightharpoonup> byte list"

record mem_torrent =
  mt_layout :: torrent_layout
  mt_files :: "mem_file list"

type_synonym memory_store = "info_hash \<rightharpoonup> mem_torrent"

definition mem_file_default :: mem_file where
  "mem_file_default = \<lparr>mf_extents = extents_default, mf_blocks = Map.empty\<rparr>"

definition memory_store_new :: memory_store where
  "memory_store_new = Map.empty"

definition mem_open ::
    "memory_store \<Rightarrow> info_hash \<Rightarrow> torrent_layout \<Rightarrow> memory_store \<times> (cache_error + recovered)" where
  "mem_open s t l =
     (s(t \<mapsto> \<lparr>mt_layout = l, mt_files = replicate (file_count l) mem_file_default\<rparr>),
      Inr recovered_default)"

text \<open>The copy loop of a write, block by block.\<close>

definition block_count :: "nat \<Rightarrow> nat \<Rightarrow> nat" where
  "block_count position rest = min rest (block_size - position mod block_size)"

lemma block_count_le: "block_count position rest \<le> rest"
  by (simp add: block_count_def)

lemma block_count_pos: "0 < rest \<Longrightarrow> 0 < block_count position rest"
  by (simp add: block_count_def block_size_def)

function mem_write_loop ::
    "nat \<Rightarrow> byte list \<Rightarrow> (nat \<rightharpoonup> byte list) \<Rightarrow> (nat \<rightharpoonup> byte list)" where
  "mem_write_loop position rest blocks =
     (if rest = [] then blocks
      else
        let within = position mod block_size;
            count = block_count position (length rest);
            block = (case blocks (position div block_size) of
                       Some b \<Rightarrow> b | None \<Rightarrow> replicate block_size 0);
            block' = take within block @ take count rest @ drop (within + count) block
        in mem_write_loop (add64 position count) (drop count rest)
             (blocks(position div block_size \<mapsto> block')))"
  by pat_completeness auto
termination
  by (relation "measure (\<lambda>(p, r, b). length r)") (auto simp: block_count_pos)

declare mem_write_loop.simps [simp del]

definition mem_write ::
    "memory_store \<Rightarrow> info_hash \<Rightarrow> file_index \<Rightarrow> nat \<Rightarrow> byte list \<Rightarrow> memory_store \<times> (cache_error + nat)"
  where
  "mem_write s t f offset data =
     (case s t of
        None \<Rightarrow> (s, Inl (UnknownTorrent t))
      | Some tor \<Rightarrow>
          (case check_range (mt_layout tor) t f offset (length data) of
             Inl e \<Rightarrow> (s, Inl e)
           | Inr r \<Rightarrow>
               let stored = mt_files tor ! zero_based f;
                   blocks = mem_write_loop offset data (mf_blocks stored);
                   (ext, added) = extents_insert (mf_extents stored) r;
                   file = \<lparr>mf_extents = ext, mf_blocks = blocks\<rparr>
               in (s(t \<mapsto> tor\<lparr>mt_files := (mt_files tor)[zero_based f := file]\<rparr>), Inr added)))"

text \<open>The copy loop of a read; \<open>None\<close> is a block that was never allocated.\<close>

function mem_read_loop :: "nat \<Rightarrow> nat \<Rightarrow> (nat \<rightharpoonup> byte list) \<Rightarrow> byte list option" where
  "mem_read_loop position remaining blocks =
     (if remaining = 0 then Some []
      else
        let within = position mod block_size;
            count = block_count position remaining
        in (case blocks (position div block_size) of
              None \<Rightarrow> None
            | Some block \<Rightarrow>
                (case mem_read_loop (add64 position count) (remaining - count) blocks of
                   None \<Rightarrow> None
                 | Some bs \<Rightarrow> Some (take count (drop within block) @ bs))))"
  by pat_completeness auto
termination
  by (relation "measure (\<lambda>(p, r, b). r)") (auto simp: block_count_pos)

declare mem_read_loop.simps [simp del]

definition mem_read ::
    "memory_store \<Rightarrow> info_hash \<Rightarrow> file_index \<Rightarrow> nat \<Rightarrow> nat \<Rightarrow> cache_error + byte list" where
  "mem_read s t f offset len =
     (case s t of
        None \<Rightarrow> Inl (UnknownTorrent t)
      | Some tor \<Rightarrow>
          (case check_range (mt_layout tor) t f offset len of
             Inl e \<Rightarrow> Inl e
           | Inr r \<Rightarrow>
               let stored = mt_files tor ! zero_based f in
               if \<not> extents_covers (mf_extents stored) r then Inl (Missing t f r)
               else (case mem_read_loop offset len (mf_blocks stored) of
                       None \<Rightarrow> Inl (Missing t f r)
                     | Some bs \<Rightarrow> Inr bs)))"

definition mem_remove :: "memory_store \<Rightarrow> info_hash \<Rightarrow> memory_store \<times> (cache_error + unit)" where
  "mem_remove s t = (s(t := None), Inr ())"

definition memory_vt :: "memory_store piece_store" where
  "memory_vt =
     \<lparr>ps_open = mem_open, ps_write = mem_write, ps_read = mem_read, ps_remove = mem_remove,
      ps_piece_completed = default_piece_completed, ps_discard_except = default_discard_except\<rparr>"

subsection \<open>Blocks as contents\<close>

definition byte_at :: "(nat \<rightharpoonup> byte list) \<Rightarrow> nat \<Rightarrow> byte" where
  "byte_at blocks i =
     (case blocks (i div block_size) of None \<Rightarrow> 0 | Some b \<Rightarrow> b ! (i mod block_size))"

definition blocks_wf :: "(nat \<rightharpoonup> byte list) \<Rightarrow> bool" where
  "blocks_wf blocks \<longleftrightarrow> (\<forall>b \<in> ran blocks. length b = block_size)"

lemma block_size_pos [simp]: "0 < block_size"
  by (simp add: block_size_def)

lemma block_count_fits: "position mod block_size + block_count position n \<le> block_size"
proof -
  have "block_count position n \<le> block_size - position mod block_size"
    unfolding block_count_def by (rule min.cobounded2)
  moreover have "position mod block_size < block_size" by (rule mod_less_divisor [OF block_size_pos])
  ultimately show ?thesis by linarith
qed

text \<open>A chunk that stays inside the block of its first byte.\<close>

lemma chunk_block:
  assumes "i < position + block_count position n" "position \<le> i"
  shows "i div block_size = position div block_size" "i mod block_size = position mod block_size + (i - position)"
proof -
  define w where "w = position mod block_size"
  have "position = position div block_size * block_size + w" by (simp add: w_def)
  moreover have "w + (i - position) < block_size"
    using assms by (auto simp: block_count_def w_def)
  ultimately have i: "i = position div block_size * block_size + (w + (i - position))"
    and lt: "w + (i - position) < block_size" using assms by linarith+
  show "i div block_size = position div block_size"
    by (subst i) (simp add: lt)
  show "i mod block_size = position mod block_size + (i - position)"
    by (subst i) (simp add: lt flip: w_def)
qed

lemma block_step:
  fixes position :: nat and rest :: "byte list" and blocks :: "nat \<rightharpoonup> byte list"
  assumes wf: "blocks_wf blocks"
  defines "c \<equiv> block_count position (length rest)"
    and "w \<equiv> position mod block_size"
    and "old \<equiv> (case blocks (position div block_size) of Some b \<Rightarrow> b | None \<Rightarrow> replicate block_size 0)"
  defines "new \<equiv> take w old @ take c rest @ drop (w + c) old"
  defines "blocks' \<equiv> blocks(position div block_size \<mapsto> new)"
  shows "blocks_wf blocks'"
    and "byte_at blocks' i =
      (if position \<le> i \<and> i < position + c then rest ! (i - position) else byte_at blocks i)"
proof -
  have old: "length old = block_size"
    using wf by (auto simp: old_def blocks_wf_def ran_def split: option.splits)
  have wc: "w + c \<le> block_size" "c \<le> length rest"
    unfolding c_def w_def by (rule block_count_fits, rule block_count_le)
  have new: "length new = block_size" using old wc by (simp add: new_def)
  then show "blocks_wf blocks'"
    using wf by (auto simp: blocks_wf_def blocks'_def ran_def)
  have nth: "new ! m = (if w \<le> m \<and> m < w + c then rest ! (m - w) else old ! m)" if "m < block_size" for m
    using that old wc by (auto simp: new_def nth_append)
  have pos: "position = position div block_size * block_size + w" by (simp add: w_def)
  show "byte_at blocks' i =
      (if position \<le> i \<and> i < position + c then rest ! (i - position) else byte_at blocks i)"
  proof (cases "i div block_size = position div block_size")
    case True
    define m where "m = i mod block_size"
    have i: "i = position div block_size * block_size + m"
      using True by (metis div_mult_mod_eq m_def)
    have m: "m < block_size" by (simp add: m_def)
    have old_at: "byte_at blocks i = old ! m"
      using True m by (auto simp: byte_at_def old_def m_def split: option.splits)
    have "byte_at blocks' i = new ! m"
      using True by (simp add: byte_at_def blocks'_def m_def)
    moreover have "(position \<le> i \<and> i < position + c) = (w \<le> m \<and> m < w + c)" "i - position = m - w"
      using i pos by linarith+
    ultimately show ?thesis using nth [OF m] old_at by simp
  next
    case False
    then have "\<not> (position \<le> i \<and> i < position + c)"
      using chunk_block(1) [of i position "length rest"] by (auto simp: c_def)
    moreover have "byte_at blocks' i = byte_at blocks i"
      using False by (simp add: byte_at_def blocks'_def)
    ultimately show ?thesis by auto
  qed
qed

lemma mem_write_loop_props:
  "position + length rest < U64 \<Longrightarrow> blocks_wf blocks \<Longrightarrow>
   blocks_wf (mem_write_loop position rest blocks)
   \<and> (\<forall>i. byte_at (mem_write_loop position rest blocks) i =
        (if position \<le> i \<and> i < position + length rest then rest ! (i - position) else byte_at blocks i))
   \<and> (\<forall>k. blocks k \<noteq> None \<longrightarrow> mem_write_loop position rest blocks k \<noteq> None)
   \<and> (\<forall>i. position \<le> i \<and> i < position + length rest
        \<longrightarrow> mem_write_loop position rest blocks (i div block_size) \<noteq> None)"
proof (induction position rest blocks rule: mem_write_loop.induct)
  case (1 position rest blocks)
  show ?case
  proof (cases "rest = []")
    case True
    then have "mem_write_loop position rest blocks = blocks" by (simp add: mem_write_loop.simps)
    with True "1.prems" show ?thesis by auto
  next
    case False
    define c where "c = block_count position (length rest)"
    define w where "w = position mod block_size"
    define old where
      "old = (case blocks (position div block_size) of Some b \<Rightarrow> b | None \<Rightarrow> replicate block_size 0)"
    define blocks' where
      "blocks' = blocks(position div block_size \<mapsto> take w old @ take c rest @ drop (w + c) old)"
    have c: "0 < c" "c \<le> length rest"
      using False block_count_pos block_count_le by (auto simp: c_def)
    have a: "add64 position c = position + c" using c "1.prems" by (simp add: u64_simps)
    have loop: "mem_write_loop position rest blocks = mem_write_loop (position + c) (drop c rest) blocks'"
      using False a
      by (subst mem_write_loop.simps) (simp add: Let_def c_def w_def old_def blocks'_def)
    note step = block_step [OF "1.prems"(2), of position rest, folded c_def w_def old_def, folded blocks'_def]
    have IH: "blocks_wf (mem_write_loop (position + c) (drop c rest) blocks')
       \<and> (\<forall>i. byte_at (mem_write_loop (position + c) (drop c rest) blocks') i =
        (if position + c \<le> i \<and> i < position + c + length (drop c rest)
         then drop c rest ! (i - (position + c)) else byte_at blocks' i))
       \<and> (\<forall>k. blocks' k \<noteq> None \<longrightarrow> mem_write_loop (position + c) (drop c rest) blocks' k \<noteq> None)
       \<and> (\<forall>i. position + c \<le> i \<and> i < position + c + length (drop c rest)
        \<longrightarrow> mem_write_loop (position + c) (drop c rest) blocks' (i div block_size) \<noteq> None)"
    proof (rule "1.IH" [OF False refl refl refl refl, folded w_def, folded c_def old_def,
          folded blocks'_def, unfolded a])
      show "position + c + length (drop c rest) < U64" using c "1.prems"(1) by simp
    qed (rule step(1))
    have b: "blocks' (i div block_size) \<noteq> None" if "position \<le> i" "i < position + c" for i
      using chunk_block(1) [of i position "length rest"] that by (simp add: c_def blocks'_def)
    have k: "blocks' k \<noteq> None" if "blocks k \<noteq> None" for k using that by (simp add: blocks'_def)
    show ?thesis unfolding loop
    proof (intro conjI allI impI)
      fix i
      show "byte_at (mem_write_loop (position + c) (drop c rest) blocks') i =
        (if position \<le> i \<and> i < position + length rest then rest ! (i - position) else byte_at blocks i)"
        using IH c step(2) [of i] by auto
      assume "position \<le> i \<and> i < position + length rest"
      then show "mem_write_loop (position + c) (drop c rest) blocks' (i div block_size) \<noteq> None"
        using IH b [of i] c by (cases "i < position + c") auto
    qed (use IH k in blast)+
  qed
qed

lemma mem_read_loop_props:
  "position + n < U64 \<Longrightarrow> blocks_wf blocks \<Longrightarrow>
   (\<And>i. position \<le> i \<Longrightarrow> i < position + n \<Longrightarrow> blocks (i div block_size) \<noteq> None) \<Longrightarrow>
   mem_read_loop position n blocks = Some (map (byte_at blocks) [position..<position + n])"
proof (induction position n blocks rule: mem_read_loop.induct)
  case (1 position n blocks)
  show ?case
  proof (cases "n = 0")
    case True
    then show ?thesis by (simp add: mem_read_loop.simps)
  next
    case False
    define c where "c = block_count position n"
    have c: "0 < c" "c \<le> n" "position mod block_size + c \<le> block_size"
      using False block_count_pos block_count_le block_count_fits by (auto simp: c_def)
    have a: "add64 position c = position + c" using c "1.prems"(1) by (simp add: u64_simps)
    from "1.prems"(3) [of position] False obtain b where b: "blocks (position div block_size) = Some b"
      by auto
    then have lb: "length b = block_size" using "1.prems"(2) by (auto simp: blocks_wf_def ran_def)
    have IH: "mem_read_loop (position + c) (n - c) blocks
        = Some (map (byte_at blocks) [position + c..<position + n])"
      using "1.IH" [OF False refl refl b] "1.prems" c a by (simp add: c_def)
    have chunk: "take c (drop (position mod block_size) b) = map (byte_at blocks) [position..<position + c]"
    proof (rule nth_equalityI)
      fix i assume "i < length (take c (drop (position mod block_size) b))"
      then have i: "i < c" by simp
      with chunk_block [of "position + i" position n] b
      show "take c (drop (position mod block_size) b) ! i = map (byte_at blocks) [position..<position + c] ! i"
        using lb c by (simp add: byte_at_def c_def)
    qed (use lb c in simp)
    have "[position..<position + n] = [position..<position + c] @ [position + c..<position + n]"
      using c by (metis le_add1 le_add_diff_inverse upt_add_eq_append add.assoc)
    then show ?thesis
      using False b IH chunk a
      by (subst mem_read_loop.simps) (simp add: Let_def c_def)
  qed
qed

subsection \<open>The memory store keeps the contract\<close>

definition mem_file_wf :: "mem_file \<Rightarrow> nat \<Rightarrow> bool" where
  "mem_file_wf fl n \<longleftrightarrow>
     extents_wf (mf_extents fl) \<and> extents_bytes (mf_extents fl) \<subseteq> {..<n} \<and> blocks_wf (mf_blocks fl)
     \<and> (\<forall>i \<in> extents_bytes (mf_extents fl). mf_blocks fl (i div block_size) \<noteq> None)"

definition mem_inv :: "memory_store \<Rightarrow> bool" where
  "mem_inv s \<longleftrightarrow>
     (\<forall>t tor. s t = Some tor \<longrightarrow>
        length (mt_files tor) = file_count (mt_layout tor)
        \<and> (\<forall>f < file_count (mt_layout tor).
              mem_file_wf (mt_files tor ! f) (file_lengths (mt_layout tor) ! f)))"

definition mem_layout :: "memory_store \<Rightarrow> info_hash \<rightharpoonup> torrent_layout" where
  "mem_layout s t = map_option mt_layout (s t)"

definition file_content :: "mem_file \<Rightarrow> nat \<rightharpoonup> byte" where
  "file_content fl i = (if i \<in> extents_bytes (mf_extents fl) then Some (byte_at (mf_blocks fl) i) else None)"

definition mem_content :: "memory_store \<Rightarrow> content" where
  "mem_content s t f =
     (case s t of
        None \<Rightarrow> Map.empty
      | Some tor \<Rightarrow>
          if zero_based f < length (mt_files tor) then file_content (mt_files tor ! zero_based f)
          else Map.empty)"

lemma mem_invD:
  assumes "mem_inv s" "s t = Some tor" "file_length (mt_layout tor) f = Some n"
  shows "zero_based f < length (mt_files tor)" "mem_file_wf (mt_files tor ! zero_based f) n"
    and "mem_content s t f = file_content (mt_files tor ! zero_based f)"
  using assms by (auto simp: mem_inv_def file_length_def file_count_def mem_content_def)

lemma dom_file_content [simp]: "dom (file_content fl) = extents_bytes (mf_extents fl)"
  by (auto simp: file_content_def dom_def split: if_splits)

lemma mem_inv_new [simp]: "mem_inv memory_store_new"
  by (simp add: mem_inv_def memory_store_new_def)

lemma mem_file_default_wf [simp]: "mem_file_wf mem_file_default n"
  by (simp add: mem_file_wf_def mem_file_default_def blocks_wf_def)

lemma mem_file_write:
  assumes wf: "mem_file_wf fl n" and b: "off + length d \<le> n" "off + length d < U64"
  defines "r \<equiv> \<lparr>br_start = off, br_end = off + length d\<rparr>"
  defines "fl' \<equiv> \<lparr>mf_extents = fst (extents_insert (mf_extents fl) r),
                   mf_blocks = mem_write_loop off d (mf_blocks fl)\<rparr>"
  shows "mem_file_wf fl' n" "file_content fl' = overlay (file_content fl) off d"
    and "snd (extents_insert (mf_extents fl) r) = card ({off..<off + length d} - dom (file_content fl))"
proof -
  have r: "range_wf r" "range_set r = {off..<off + length d}"
    using b by (auto simp: r_def range_wf_def range_set_def)
  have x: "extents_wf (mf_extents fl)" using wf by (simp add: mem_file_wf_def)
  note ins = extents_insert_wf_bytes [OF x r(1)]
  have bw: "blocks_wf (mf_blocks fl)" using wf by (simp add: mem_file_wf_def)
  note loop = mem_write_loop_props [OF b(2) bw]
  show "mem_file_wf fl' n"
    using wf ins loop b(1) r(2) by (auto simp: mem_file_wf_def fl'_def)
  show "file_content fl' = overlay (file_content fl) off d"
    using ins loop r(2) by (auto simp: file_content_def fl'_def overlay_def)
  show "snd (extents_insert (mf_extents fl) r) = card ({off..<off + length d} - dom (file_content fl))"
    using ins(3) r(2) by simp
qed


lemma mem_write_ok:
  assumes inv: "mem_inv s" and w: "mem_write s t f off d = (s', Inr n)"
  obtains l r where "mem_inv s'" "mem_layout s' = mem_layout s" "mem_layout s t = Some l"
    "check_range l t f off (length d) = Inr r"
    "mem_content s' = (mem_content s)(t := (mem_content s t)(f := overlay (mem_content s t f) off d))"
    "n = card ({off..<off + length d} - dom (mem_content s t f))"
proof -
  from w obtain tor where tor: "s t = Some tor"
    by (auto simp: mem_write_def split: option.splits)
  with w obtain r where r: "check_range (mt_layout tor) t f off (length d) = Inr r"
    by (auto simp: mem_write_def split: sum.splits)
  then obtain m where m: "file_length (mt_layout tor) f = Some m" "off + length d \<le> m" "off + length d < U64"
    and rr: "r = \<lparr>br_start = off, br_end = off + length d\<rparr>" by auto
  note fl = mem_invD [OF inv tor m(1)]
  define fl' where "fl' = \<lparr>mf_extents = fst (extents_insert (mf_extents (mt_files tor ! zero_based f)) r),
     mf_blocks = mem_write_loop off d (mf_blocks (mt_files tor ! zero_based f))\<rparr>"
  note wr = mem_file_write [OF fl(2) m(2,3), folded rr, folded fl'_def]
  have s': "s' = s(t \<mapsto> tor\<lparr>mt_files := (mt_files tor)[zero_based f := fl']\<rparr>)"
    and n: "n = card ({off..<off + length d} - dom (mem_content s t f))"
    using w wr(3) r unfolding fl(3)
    by (auto simp: mem_write_def tor fl'_def Let_def split: prod.splits)
  have "mem_inv s'"
    using inv wr(1) m(1) tor fl(1) unfolding mem_inv_def s'
    by (auto simp: nth_list_update file_length_def)
  moreover have "mem_layout s' = mem_layout s" by (auto simp: s' mem_layout_def tor)
  moreover have "mem_content s' = (mem_content s)(t := (mem_content s t)(f := overlay (mem_content s t f) off d))"
  proof (intro ext)
    fix t' f' i
    show "mem_content s' t' f' i
        = ((mem_content s)(t := (mem_content s t)(f := overlay (mem_content s t f) off d))) t' f' i"
      using fl(1) unfolding fl(3) wr(2) [symmetric]
      by (cases f; cases f') (auto simp: s' mem_content_def tor nth_list_update)
  qed
  ultimately show ?thesis using that tor r n by (auto simp: mem_layout_def)
qed

lemma mem_write_err: "mem_write s t f off d = (s', Inl e) \<Longrightarrow> s' = s"
  by (auto simp: mem_write_def Let_def split: option.splits sum.splits prod.splits)

lemma mem_read_cases:
  assumes inv: "mem_inv s" and tor: "s t = Some tor"
    and r: "check_range (mt_layout tor) t f off n = Inr r"
  shows "mem_read s t f off n =
    (if range_set r \<subseteq> dom (mem_content s t f)
     then Inr (map (\<lambda>i. the (mem_content s t f i)) [off..<off + n]) else Inl (Missing t f r))"
proof -
  from r obtain m where m: "file_length (mt_layout tor) f = Some m" "off + n < U64"
    and rr: "r = \<lparr>br_start = off, br_end = off + n\<rparr>" by auto
  define fl where "fl = mt_files tor ! zero_based f"
  note fd = mem_invD [OF inv tor m(1), folded fl_def]
  from fd(2) have x: "extents_wf (mf_extents fl)" and b: "blocks_wf (mf_blocks fl)"
    and res: "\<forall>i \<in> extents_bytes (mf_extents fl). mf_blocks fl (i div block_size) \<noteq> None"
    by (auto simp: mem_file_wf_def)
  have w: "range_wf r" using m by (simp add: rr range_wf_def)
  have cov: "extents_covers (mf_extents fl) r \<longleftrightarrow> range_set r \<subseteq> dom (mem_content s t f)"
    using extents_covers_iff [OF x w] by (simp add: fd(3))
  have rs: "range_set r = {off..<off + n}" by (simp add: rr range_set_def)
  show ?thesis
  proof (cases "extents_covers (mf_extents fl) r")
    case True
    then have sub: "{off..<off + n} \<subseteq> extents_bytes (mf_extents fl)" using cov by (simp add: fd(3) rs)
    have "mem_read_loop off n (mf_blocks fl) = Some (map (byte_at (mf_blocks fl)) [off..<off + n])"
      using sub res m(2) b by (intro mem_read_loop_props) auto
    moreover have "map (byte_at (mf_blocks fl)) [off..<off + n]
        = map (\<lambda>i. the (mem_content s t f i)) [off..<off + n]"
      using sub by (auto simp: fd(3) file_content_def)
    moreover have "mem_read s t f off n = (case mem_read_loop off n (mf_blocks fl) of
        None \<Rightarrow> Inl (Missing t f r) | Some bs \<Rightarrow> Inr bs)"
      using True by (simp only: mem_read_def tor r option.case sum.case Let_def fl_def if_False not_True_eq_False simp_thms)
    ultimately show ?thesis using True cov by simp
  next
    case False
    have "mem_read s t f off n = Inl (Missing t f r)"
      using False by (simp only: mem_read_def tor r option.case sum.case Let_def fl_def if_True not_False_eq_True simp_thms)
    then show ?thesis using False cov by simp
  qed
qed

lemma mem_read_ok:
  assumes inv: "mem_inv s" and rd: "mem_read s t f off n = Inr bs"
  shows "length bs = n \<and> (\<forall>k < n. mem_content s t f (off + k) = Some (bs ! k))"
proof -
  from rd obtain tor where tor: "s t = Some tor"
    by (auto simp: mem_read_def split: option.splits)
  with rd obtain r where r: "check_range (mt_layout tor) t f off n = Inr r"
    by (cases "check_range (mt_layout tor) t f off n") (auto simp: mem_read_def)
  from mem_read_cases [OF inv tor r] rd
  have sub: "range_set r \<subseteq> dom (mem_content s t f)"
    and bs: "bs = map (\<lambda>i. the (mem_content s t f i)) [off..<off + n]" by (auto split: if_splits)
  have "off + k \<in> dom (mem_content s t f)" if "k < n" for k
    using subsetD [OF sub, of "off + k"] r that by (simp add: range_set_def)
  then show ?thesis by (force simp: bs)
qed

lemma mem_open_props:
  assumes "mem_inv s" "mem_open s t l = (s', res)"
  shows "mem_inv s'" "mem_layout s' = (mem_layout s)(t \<mapsto> l)" "t' \<noteq> t \<Longrightarrow> mem_content s' t' = mem_content s t'"
    "mem_content s' t f = Map.empty" "res = Inr recovered_default"
proof -
  have s': "s' = s(t \<mapsto> \<lparr>mt_layout = l, mt_files = replicate (file_count l) mem_file_default\<rparr>)"
    and res: "res = Inr recovered_default" using assms(2) by (auto simp: mem_open_def)
  show "mem_inv s'" using assms(1) unfolding mem_inv_def s' by simp
  show "mem_layout s' = (mem_layout s)(t \<mapsto> l)" by (auto simp: s' mem_layout_def)
  show "t' \<noteq> t \<Longrightarrow> mem_content s' t' = mem_content s t'" by (intro ext) (simp add: s' mem_content_def)
  show "mem_content s' t f = Map.empty"
    by (auto simp: s' mem_content_def file_content_def mem_file_default_def)
  show "res = Inr recovered_default" by (rule res)
qed

lemma mem_remove_props:
  assumes "mem_inv s" "mem_remove s t = (s', res)"
  shows "mem_inv s'" "mem_layout s' = (mem_layout s)(t := None)"
    "t' \<noteq> t \<Longrightarrow> mem_content s' t' = mem_content s t'" "res = Inr ()"
proof -
  have s': "s' = s(t := None)" and res: "res = Inr ()" using assms(2) by (auto simp: mem_remove_def)
  show "mem_inv s'" using assms(1) unfolding mem_inv_def s' by (metis fun_upd_apply option.discI)
  show "mem_layout s' = (mem_layout s)(t := None)" by (auto simp: s' mem_layout_def)
  show "t' \<noteq> t \<Longrightarrow> mem_content s' t' = mem_content s t'" by (intro ext) (simp add: s' mem_content_def)
  show "res = Inr ()" by (rule res)
qed

interpretation mem: exact_piece_store memory_vt mem_inv mem_layout mem_content
proof (unfold_locales, unfold memory_vt_def piece_store.select_convs)
  fix s t l f n
  assume inv: "mem_inv s" and l: "mem_layout s t = Some l" and n: "file_length l f = Some n"
  from l obtain tor where tor: "s t = Some tor" "mt_layout tor = l" by (auto simp: mem_layout_def)
  with mem_invD [OF inv tor(1)] n show "dom (mem_content s t f) \<subseteq> {..<n}"
    by (simp add: mem_file_wf_def)
next
  fix s l t s' rc
  assume "mem_inv s" "mem_open s t l = (s', Inr rc)"
  from mem_open_props [OF this]
  show "mem_inv s' \<and> mem_layout s' = (mem_layout s)(t \<mapsto> l)
      \<and> (\<forall>t'. t' \<noteq> t \<longrightarrow> mem_content s' t' = mem_content s t')
      \<and> rec_stored_bytes rc = held (mem_content s' t) l
      \<and> (\<forall>p \<in> set (rec_completed_pieces rc). piece_get p < piece_count l)"
    by (simp add: recovered_default_def held_def)
next
  fix s l t s' e
  assume "mem_inv s" "mem_open s t l = (s', Inl e)"
  from mem_open_props(5) [OF this]
  show "mem_inv s' \<and> mem_layout s' = mem_layout s \<and> mem_content s' = mem_content s"
    by simp
next
  fix s t f off d s' n
  assume "mem_inv s" "mem_write s t f off d = (s', Inr n)"
  then show "mem_inv s' \<and> mem_layout s' = mem_layout s
      \<and> (\<exists>l r. mem_layout s t = Some l \<and> check_range l t f off (length d) = Inr r)
      \<and> mem_content s' = (mem_content s)(t := (mem_content s t)(f := overlay (mem_content s t f) off d))
      \<and> n = card ({off..<off + length d} - dom (mem_content s t f))"
    by (rule mem_write_ok) blast
next
  fix s t f off d s' e
  assume "mem_inv s" "mem_write s t f off d = (s', Inl e)"
  then show "mem_inv s' \<and> mem_layout s' = mem_layout s
      \<and> (\<forall>t' f'. dom (mem_content s t' f') \<subseteq> dom (mem_content s' t' f'))
      \<and> (\<forall>t' f' i. \<not> (t' = t \<and> f' = f \<and> off \<le> i \<and> i < off + length d)
            \<longrightarrow> mem_content s' t' f' i = mem_content s t' f' i)"
    using mem_write_err by blast
next
  fix s t f off n bs
  assume "mem_inv s" "mem_read s t f off n = Inr bs"
  then show "length bs = n \<and> (\<forall>k < n. mem_content s t f (off + k) = Some (bs ! k))"
    by (rule mem_read_ok)
next
  fix s t l f off n r i
  assume "mem_inv s" "mem_layout s t = Some l" "check_range l t f off n = Inr r"
    "i \<in> range_set r" "mem_content s t f i = None"
  then show "mem_read s t f off n = Inl (Missing t f r)"
    using mem_read_cases [of s t _ f off n r] by (auto simp: mem_layout_def)
next
  fix s t s' u
  assume "mem_inv s" "mem_remove s t = (s', Inr u)"
  from mem_remove_props [OF this]
  show "mem_inv s' \<and> mem_layout s' = (mem_layout s)(t := None)
      \<and> (\<forall>t'. t' \<noteq> t \<longrightarrow> mem_content s' t' = mem_content s t')" by simp
next
  fix s t s' e
  assume "mem_inv s" "mem_remove s t = (s', Inl e)"
  from mem_remove_props(4) [OF this]
  show "mem_inv s'
      \<and> (mem_layout s' t = mem_layout s t \<and> mem_content s' t = mem_content s t \<or> mem_layout s' t = None)
      \<and> (\<forall>t'. t' \<noteq> t \<longrightarrow> mem_layout s' t' = mem_layout s t' \<and> mem_content s' t' = mem_content s t')"
    by simp
next
  fix s t p s' res
  assume "mem_inv s" "default_piece_completed s t p = (s', res)"
  then show "mem_inv s' \<and> mem_layout s' = mem_layout s \<and> mem_content s' = mem_content s"
    by (simp add: default_piece_completed_def)
next
  fix s keep s' res
  assume "mem_inv s" "default_discard_except s keep = (s', res)"
  then show "mem_inv s' \<and> mem_layout s' = mem_layout s \<and> mem_content s' = mem_content s"
    by (simp add: default_discard_except_def)
next
  fix s t f off d s' e
  assume "mem_write s t f off d = (s', Inl e)"
  then show "s' = s" by (rule mem_write_err)
qed

subsection \<open>Properties\<close>

lemma mem_read_total:
  assumes "mem_inv s" "mem_layout s t = Some l"
  shows "mem_read s t f off n =
    (case check_range l t f off n of
       Inl e \<Rightarrow> Inl e
     | Inr r \<Rightarrow>
         if {off..<off + n} \<subseteq> dom (mem_content s t f)
         then Inr (map (\<lambda>i. the (mem_content s t f i)) [off..<off + n])
         else Inl (Missing t f r))"
proof -
  from assms(2) obtain tor where tor: "s t = Some tor" "mt_layout tor = l" by (auto simp: mem_layout_def)
  show ?thesis
  proof (cases "check_range l t f off n")
    case (Inl e)
    then show ?thesis using tor by (simp add: mem_read_def)
  next
    case (Inr r)
    then have rs: "range_set r = {off..<off + n}" by (auto simp: range_set_def)
    note rd = mem_read_cases [OF assms(1) tor(1), unfolded tor(2), OF Inr]
    show ?thesis unfolding Inr sum.case using rd unfolding rs .
  qed
qed

text \<open>
  C3. A read from the RAM store never invents bytes: it fails with the range check's error, or
  with \<open>Missing\<close> when some offset of the range was never written, and otherwise returns exactly
  the bytes written last at each offset, across block boundaries.
\<close>

theorem memory_read_exact:
  assumes "mem_inv s" "mem_layout s t = Some l"
  shows "mem_read s t f off n =
    (case check_range l t f off n of
       Inl e \<Rightarrow> Inl e
     | Inr r \<Rightarrow>
         if {off..<off + n} \<subseteq> dom (mem_content s t f)
         then Inr (map (\<lambda>i. the (mem_content s t f i)) [off..<off + n])
         else Inl (Missing t f r))"
  using assms by (rule mem_read_total)

definition sample_layout :: torrent_layout where
  "sample_layout = \<lparr>piece_length = 4, file_lengths = [10, 6], total_length = 16, piece_count = 4\<rparr>"

definition sample_hash :: info_hash where
  "sample_hash = InfoHash (replicate 20 171)"

definition sample_memory :: memory_store where
  "sample_memory = fst (mem_open memory_store_new sample_hash sample_layout)"

lemma sample_memory_props [simp]:
  "mem_inv sample_memory" "mem_layout sample_memory sample_hash = Some sample_layout"
  "mem_content sample_memory sample_hash f = Map.empty" "layout_wf sample_layout"
  using mem_open_props [OF mem_inv_new, of sample_hash sample_layout sample_memory "Inr recovered_default"]
  by (simp_all add: sample_memory_def mem_open_def layout_wf_def sample_layout_def div_ceil_def
      U64_def U32_def)

theorem memory_read_exact_witness:
  "mem_read sample_memory sample_hash (FileIndex 0) 3 2
     = Inl (Missing sample_hash (FileIndex 0) \<lparr>br_start = 3, br_end = 5\<rparr>)
   \<and> mem_read sample_memory sample_hash (FileIndex 2) 0 0 = Inl (UnknownFile sample_hash (FileIndex 2))"
  using memory_read_exact [OF sample_memory_props(1,2), of "FileIndex 0" 3 2]
    memory_read_exact [OF sample_memory_props(1,2), of "FileIndex 2" 0 0]
  by (simp add: check_range_def file_length_def sample_layout_def get_opt_def from_start_len_def
      checked_add64_def fits_within_def U64_def)

text \<open>
  A write to the RAM store that is in bounds succeeds, overlays exactly its range of exactly
  its file with the data, and returns the number of bytes that were not there before; one that is
  not in bounds changes nothing. The representation invariant (blocks of full size, every stored
  offset in an allocated block, canonical extents within the file) is kept either way.
\<close>

theorem memory_write_exact:
  assumes "mem_inv s" "mem_layout s t = Some l" "mem_write s t f off d = (s', res)"
  shows "mem_inv s' \<and> mem_layout s' = mem_layout s \<and>
    (case check_range l t f off (length d) of
       Inl e \<Rightarrow> res = Inl e \<and> s' = s
     | Inr r \<Rightarrow>
         res = Inr (card ({off..<off + length d} - dom (mem_content s t f)))
         \<and> mem_content s' = (mem_content s)(t := (mem_content s t)(f := overlay (mem_content s t f) off d)))"
proof -
  from assms(2) obtain tor where tor: "s t = Some tor" "mt_layout tor = l" by (auto simp: mem_layout_def)
  show ?thesis
  proof (cases "check_range l t f off (length d)")
    case (Inl e)
    then show ?thesis using assms tor by (simp add: mem_write_def)
  next
    case (Inr r)
    obtain n where "res = Inr n"
      using assms(3) unfolding mem_write_def tor option.case Inr sum.case Let_def
      by (auto split: prod.splits)
    with assms(3) have w: "mem_write s t f off d = (s', Inr n)" by simp
    show ?thesis using mem.write_ok [of s t f off d s' n] w assms(1) \<open>res = Inr n\<close>
      unfolding Inr sum.case by (simp add: memory_vt_def)
  qed
qed

theorem memory_write_exact_witness:
  "snd (mem_write sample_memory sample_hash (FileIndex 1) 2 [7, 8, 9]) = Inr 3"
proof -
  have r: "check_range sample_layout sample_hash (FileIndex 1) 2 (length [7::byte, 8, 9])
      = Inr \<lparr>br_start = 2, br_end = 5\<rparr>"
    by (simp add: file_length_def sample_layout_def get_opt_def U64_def)
  have d: "card ({2..<2 + length [7::byte, 8, 9]} - dom (mem_content sample_memory sample_hash (FileIndex 1))) = 3"
    by simp
  obtain s' res where w: "mem_write sample_memory sample_hash (FileIndex 1) 2 [7, 8, 9] = (s', res)"
    by (rule prod.exhaust)
  from memory_write_exact [OF sample_memory_props(1,2) w] show ?thesis
    unfolding w r sum.case d by simp
qed

end
