(* ===== verification/CacheProps.thy ===== *)
theory CacheProps
  imports CacheInv CachePolicy MemoryStore
begin

text \<open>
  The cache over the RAM store: the contract interpreted on \<open>memory_vt\<close>, a sample run, and the
  properties of the cache that hold in every state its operations reach. The bound on the length
  of a run, two short of \<open>U64\<close>, is what keeps the logical clock and the pin counter from wrapping.
\<close>

interpretation cmem: store_family "{memory_vt}" True mem_inv mem_layout mem_content
  by (intro store_family.intro) (use mem.piece_store_contract_axioms mem.write_err_same in auto)

lemmas mem_run_ok = cmem.run_ok [OF _ mem_inv_new]

lemma mem_layout_new [simp]: "mem_layout memory_store_new = Map.empty"
  by (auto simp: mem_layout_def memory_store_new_def)

lemma mem_reachable:
  assumes "cache_run {memory_vt} memory_store_new n m" "n + 2 < U64"
  shows "machine_ok True mem_inv mem_layout mem_content n
           \<lparr>k_cache = k_cache m, k_pins = k_pins m, k_pending = k_pending m\<rparr>"
  using mem_run_ok [OF assms(1) mem_layout_new assms(2)] by (cases m) simp

subsection \<open>A sample run\<close>

text \<open>Open a torrent, write three bytes of its second file, deliver six to a reader, and pin it.\<close>

definition sample_opened :: "memory_store cache" where
  "sample_opened = fst (cache_open memory_vt (cache_new memory_store_new 8) sample_hash sample_layout)"

definition sample_stored :: "memory_store cache" where
  "sample_stored = fst (cache_write_store memory_vt sample_opened sample_hash (FileIndex 1) 2 [7, 8, 9])"

definition sample_committed :: "memory_store cache" where
  "sample_committed = cache_write_commit sample_stored sample_hash 3"

definition sample_demanded :: "memory_store cache" where
  "sample_demanded = fst (cache_record_demand sample_committed sample_hash (FileIndex 1) 0 6)"

definition sample_reader :: reader_range where
  "sample_reader = \<lparr>rr_file = FileIndex 1, rr_start = 0, rr_end = 6\<rparr>"

definition sample_pinned :: "memory_store cache" where
  "sample_pinned = fst (cache_pin_range sample_demanded sample_hash sample_reader)"

definition sample_entry :: "nat \<Rightarrow> nat \<Rightarrow> (nat \<times> reader_range) list \<Rightarrow> extents \<Rightarrow> entry" where
  "sample_entry stored pins readers demanded =
     \<lparr>e_layout = sample_layout, e_pieces = replicate 4 False, e_stored = stored, e_pins = pins,
      e_readers = readers, e_demanded = demanded, e_last_read = 1\<rparr>"

definition sample_demand :: extents where
  "sample_demand = \<lparr>ex_spans = [(10, 16)], ex_total = 6\<rparr>"

lemma sample_opened_eq:
  "cache_open memory_vt (cache_new memory_store_new 8) sample_hash sample_layout =
     (\<lparr>c_store = sample_memory, c_cap = 8, c_next_pin = 1, c_tick = 1,
       c_torrents = [(sample_hash, sample_entry 0 0 [] extents_default)]\<rparr>, Inr ())"
  by (simp add: cache_open_def cache_new_def memory_vt_def mem_open_def recovered_default_def
      next_tick_def put_entry_def add64_def U64_def sample_memory_def sample_entry_def piece_set_new_def
      sample_layout_def)

lemma sample_opened_simp:
  "sample_opened = \<lparr>c_store = sample_memory, c_cap = 8, c_next_pin = 1, c_tick = 1,
     c_torrents = [(sample_hash, sample_entry 0 0 [] extents_default)]\<rparr>"
  by (simp only: sample_opened_def sample_opened_eq fst_conv)

definition sample_final_store :: memory_store where
  "sample_final_store = fst (mem_write sample_memory sample_hash (FileIndex 1) 2 [7, 8, 9])"

lemma sample_mem_write:
  "mem_write sample_memory sample_hash (FileIndex 1) 2 [7, 8, 9] = (sample_final_store, Inr 3)"
  "mem_layout sample_final_store sample_hash = Some sample_layout"
proof -
  obtain s' res where w: "mem_write sample_memory sample_hash (FileIndex 1) 2 [7, 8, 9] = (s', res)"
    by (rule prod.exhaust)
  obtain tor where tor: "sample_memory sample_hash = Some tor" "mt_layout tor = sample_layout"
    using sample_memory_props(2) by (auto simp: mem_layout_def)
  have r: "check_range sample_layout sample_hash (FileIndex 1) 2 (length [7::byte, 8, 9])
      = Inr \<lparr>br_start = 2, br_end = 5\<rparr>"
    by (simp add: file_length_def sample_layout_def get_opt_def U64_def)
  obtain n where n: "res = Inr n"
    using w unfolding mem_write_def tor option.case r sum.case Let_def by (auto split: prod.splits)
  from mem_write_ok [OF sample_memory_props(1) w [unfolded n]]
  have "n = 3" "mem_layout s' = mem_layout sample_memory" by simp_all
  moreover have "sample_final_store = s'" unfolding sample_final_store_def w by simp
  ultimately show "mem_write sample_memory sample_hash (FileIndex 1) 2 [7, 8, 9] = (sample_final_store, Inr 3)"
    "mem_layout sample_final_store sample_hash = Some sample_layout"
    using w n by simp_all
qed

lemma sample_stored_eq:
  "cache_write_store memory_vt sample_opened sample_hash (FileIndex 1) 2 [7, 8, 9] =
     (\<lparr>c_store = sample_final_store, c_cap = 8, c_next_pin = 1, c_tick = 1,
       c_torrents = [(sample_hash, sample_entry 0 0 [] extents_default)]\<rparr>, Inr 3)"
  unfolding cache_write_store_def sample_opened_simp cache.select_convs
  unfolding memory_vt_def piece_store.select_convs sample_mem_write by simp

lemma sample_committed_eq:
  "sample_committed =
     \<lparr>c_store = sample_final_store, c_cap = 8, c_next_pin = 1, c_tick = 1,
      c_torrents = [(sample_hash, sample_entry 3 0 [] extents_default)]\<rparr>"
  unfolding sample_committed_def sample_stored_def sample_stored_eq
  by (simp add: put_entry_def cache_write_commit_def sample_entry_def add64_def U64_def)

lemma sample_demanded_eq:
  "cache_record_demand sample_committed sample_hash (FileIndex 1) 0 6 =
     (\<lparr>c_store = sample_final_store, c_cap = 8, c_next_pin = 1, c_tick = 1,
       c_torrents = [(sample_hash, sample_entry 3 0 [] sample_demand)]\<rparr>, Inr ())"
proof -
  note c = sample_committed_eq
  have r: "check_range sample_layout sample_hash (FileIndex 1) 0 6 = Inr \<lparr>br_start = 0, br_end = 6\<rparr>"
    by (simp add: file_length_def sample_layout_def get_opt_def U64_def)
  have o: "file_offset sample_layout (FileIndex 1) = Some 10"
    by (simp add: file_offset_def sample_layout_def U64_def checked_add64_def)
  have a: "checked_add64 10 0 = Some 10" "checked_add64 10 6 = Some 16"
    by (simp_all add: U64_def)
  have i: "extents_insert extents_default \<lparr>br_start = 10, br_end = 16\<rparr> = (sample_demand, 6)"
    by (simp add: extents_insert_def extents_default_def br_is_empty_def bm_last_le_def last_opt_def
        bm_range_excl_incl_def sample_demand_def sub64_def add64_def U64_def)
  have e: "cache_entry sample_committed sample_hash = Inr (sample_entry 3 0 [] extents_default)"
    by (simp add: c)
  have l: "e_layout (sample_entry 3 0 [] extents_default) = sample_layout"
    "e_demanded (sample_entry 3 0 [] extents_default) = extents_default"
    by (simp_all add: sample_entry_def)
  have b: "byte_range_new 10 16 = Inr \<lparr>br_start = 10, br_end = 16\<rparr>" by (simp add: byte_range_new_def)
  show ?thesis
    unfolding cache_record_demand_def e sum.case l r o option.case a b i fst_conv
    by (simp add: c put_entry_def sample_entry_def)
qed

lemma sample_pinned_eq:
  "cache_pin_inner sample_demanded sample_hash (Some sample_reader) =
     (\<lparr>c_store = sample_final_store, c_cap = 8, c_next_pin = 2, c_tick = 1,
       c_torrents = [(sample_hash, sample_entry 3 1 [(1, sample_reader)] sample_demand)]\<rparr>,
      Inr \<lparr>pin_torrent = sample_hash, pin_id = 1\<rparr>)"
  unfolding sample_demanded_def sample_demanded_eq
  by (simp add: cache_pin_inner_def cache_entry_def Let_def put_entry_def sample_entry_def add64_def U64_def)

lemma sample_pinned_simp:
  "sample_pinned =
     \<lparr>c_store = sample_final_store, c_cap = 8, c_next_pin = 2, c_tick = 1,
      c_torrents = [(sample_hash, sample_entry 3 1 [(1, sample_reader)] sample_demand)]\<rparr>"
  by (simp only: sample_pinned_def cache_pin_range_def sample_pinned_eq fst_conv)

definition sample_pin :: pin where
  "sample_pin = \<lparr>pin_torrent = sample_hash, pin_id = 1\<rparr>"

definition sample_machine :: "memory_store machine" where
  "sample_machine = \<lparr>k_cache = sample_pinned,
     k_pins = [(sample_pin, Some sample_reader)], k_pending = []\<rparr>"

lemma sample_run: "cache_run {memory_vt} memory_store_new 5 sample_machine"
proof -
  have r0: "cache_run {memory_vt} memory_store_new 0
      \<lparr>k_cache = cache_new memory_store_new 8, k_pins = [], k_pending = []\<rparr>" by (rule run_new)
  have "cache_step {memory_vt} \<lparr>k_cache = cache_new memory_store_new 8, k_pins = [], k_pending = []\<rparr>
      \<lparr>k_cache = sample_opened, k_pins = [], k_pending = []\<rparr>"
    unfolding sample_opened_def sample_opened_eq fst_conv
    by (rule step_open [OF _ _ sample_opened_eq]) simp_all
  with r0 have r1: "cache_run {memory_vt} memory_store_new 1
      \<lparr>k_cache = sample_opened, k_pins = [], k_pending = []\<rparr>"
    by (metis run_step One_nat_def)
  have "cache_step {memory_vt} \<lparr>k_cache = sample_opened, k_pins = [], k_pending = []\<rparr>
      \<lparr>k_cache = sample_stored, k_pins = [], k_pending = [(sample_hash, 3)]\<rparr>"
    unfolding sample_stored_def sample_stored_eq fst_conv
    by (rule step_store [OF _ sample_stored_eq]) simp
  with r1 have r2: "cache_run {memory_vt} memory_store_new 2
      \<lparr>k_cache = sample_stored, k_pins = [], k_pending = [(sample_hash, 3)]\<rparr>"
    by (metis run_step Suc_1)
  have "cache_step {memory_vt} \<lparr>k_cache = sample_stored, k_pins = [], k_pending = [] @ (sample_hash, 3) # []\<rparr>
      \<lparr>k_cache = cache_write_commit sample_stored sample_hash 3, k_pins = [], k_pending = [] @ []\<rparr>"
    by (rule step_commit)
  with r2 have r3: "cache_run {memory_vt} memory_store_new 3
      \<lparr>k_cache = sample_committed, k_pins = [], k_pending = []\<rparr>"
    using run_step by (fastforce simp: sample_committed_def numeral_3_eq_3 numeral_2_eq_2)
  have "cache_step {memory_vt} \<lparr>k_cache = sample_committed, k_pins = [], k_pending = []\<rparr>
      \<lparr>k_cache = sample_demanded, k_pins = [], k_pending = []\<rparr>"
    by (rule step_demand [OF surjective_pairing,
          where c = sample_committed and t = sample_hash and f = "FileIndex 1" and off = 0 and n = 6,
          folded sample_demanded_def])
  with r3 have r4: "cache_run {memory_vt} memory_store_new 4
      \<lparr>k_cache = sample_demanded, k_pins = [], k_pending = []\<rparr>"
    using run_step by (fastforce simp: eval_nat_numeral)
  have "cache_pin_inner sample_demanded sample_hash (Some sample_reader) = (sample_pinned, Inr sample_pin)"
    by (simp only: sample_pinned_eq sample_pinned_simp sample_pin_def)
  then have "cache_step {memory_vt} \<lparr>k_cache = sample_demanded, k_pins = [], k_pending = []\<rparr>
      \<lparr>k_cache = sample_pinned, k_pins = [] @ [(sample_pin, Some sample_reader)], k_pending = []\<rparr>"
    by (rule step_pin)
  then have "cache_step {memory_vt} \<lparr>k_cache = sample_demanded, k_pins = [], k_pending = []\<rparr> sample_machine"
    by (simp add: sample_machine_def)
  with r4 show ?thesis using run_step by (fastforce simp: eval_nat_numeral)
qed

lemmas sample_reachable = mem_reachable [OF sample_run]

lemma bound5 [simp]: "5 + 2 < U64"
  by (simp add: U64_def)

lemma sample_entries:
  "entries (k_cache sample_machine) sample_hash =
     Some (sample_entry 3 1 [(1, sample_reader)] sample_demand)"
  by (simp add: sample_machine_def sample_pinned_simp)

lemma distinct_keysD:
  "machine_ok x iv lo co n m \<Longrightarrow> distinct (map fst (c_torrents (k_cache m)))"
  by (simp add: machine_ok_def Let_def)

subsection \<open>Accounting\<close>



subsection \<open>Pins\<close>

text \<open>
  C5. A live view protects its torrent. In every reachable state the pin count of a torrent is the
  number of live pins on it and the reader list holds exactly the ranges of its live ranged pins,
  in the order they were opened; a torrent with a live pin is registered, is never named for
  eviction, and \<open>remove\<close> refuses it without touching anything.
\<close>

theorem pins_protect:
  assumes "cache_run {memory_vt} memory_store_new n m" "n + 2 < U64"
  shows "(\<forall>t e. entries (k_cache m) t = Some e \<longrightarrow>
            e_pins e = length (pins_of t (k_pins m)) \<and> e_readers e = readers_of (pins_of t (k_pins m)))
    \<and> (\<forall>p \<in> set (k_pins m). let t = pin_torrent (fst p) in
          entries (k_cache m) t \<noteq> None
          \<and> t \<notin> set (cache_eviction_candidates (k_cache m))
          \<and> cache_ensure_unpinned (k_cache m) t = Inl (Pinned t)
          \<and> cache_remove memory_vt (k_cache m) t = (k_cache m, Inl (Pinned t)))"
proof (intro conjI allI impI ballI)
  note D = machine_okD [OF mem_reachable [OF assms]]
  fix p assume p: "p \<in> set (k_pins m)"
  from D(6) [OF p] obtain e where e: "entries (k_cache m) (pin_torrent (fst p)) = Some e" by blast
  have "pins_of (pin_torrent (fst p)) (k_pins m) \<noteq> []"
    using p by (auto simp: pins_of_def filter_empty_conv)
  then have pos: "0 < e_pins e" using D(4) [OF e] by (simp add: entry_ok_def)
  have "pin_torrent (fst p) \<notin> set (cache_eviction_candidates (k_cache m))"
    using eviction_member [OF D(2)] e pos by fastforce
  with e pos show "let t = pin_torrent (fst p) in
          entries (k_cache m) t \<noteq> None
          \<and> t \<notin> set (cache_eviction_candidates (k_cache m))
          \<and> cache_ensure_unpinned (k_cache m) t = Inl (Pinned t)
          \<and> cache_remove memory_vt (k_cache m) t = (k_cache m, Inl (Pinned t))"
    by (simp add: Let_def cache_ensure_unpinned_def cache_remove_def cache_entry_def)
next
  note D = machine_okD [OF mem_reachable [OF assms]]
  fix t e assume "entries (k_cache m) t = Some e"
  from D(4) [OF this] show "e_pins e = length (pins_of t (k_pins m))" "e_readers e = readers_of (pins_of t (k_pins m))"
    by (simp_all add: entry_ok_def)
qed

theorem pins_protect_witness:
  "sample_hash \<notin> set (cache_eviction_candidates (k_cache sample_machine))
   \<and> cache_ensure_unpinned (k_cache sample_machine) sample_hash = Inl (Pinned sample_hash)"
  using pins_protect [OF sample_run bound5]
  by (simp add: sample_machine_def sample_pin_def Let_def)

subsection \<open>Eviction\<close>

text \<open>
  C6. The eviction policy. In every reachable state whose byte counts add up below \<open>2^64\<close> the
  candidates are distinct, unpinned and not empty; they are the least recently read of the idle
  torrents, oldest first; removing them brings the cache under its cap unless nothing that could
  be evicted is left; and they are no more than needed, since without the last one the excess
  would remain. The answer does not depend on the iteration order of the hash map.
\<close>

theorem eviction_policy:
  assumes "cache_run {memory_vt} memory_store_new n m" "n + 2 < U64"
    and "stored_sum (c_torrents (k_cache m)) < U64"
  shows "victims_ok (k_cache m) (cache_eviction_candidates (k_cache m))
    \<and> (\<forall>xs. mset xs = mset (c_torrents (k_cache m)) \<longrightarrow>
         cache_eviction_candidates ((k_cache m)\<lparr>c_torrents := xs\<rparr>) = cache_eviction_candidates (k_cache m))"
proof (intro conjI allI impI)
  note D = machine_okD [OF mem_reachable [OF assms(1,2)]]
  show "victims_ok (k_cache m) (cache_eviction_candidates (k_cache m))"
    by (rule eviction_victims_ok [OF D(2) assms(3)])
  fix xs assume xs: "mset xs = mset (c_torrents (k_cache m))"
  have inj: "inj_on (\<lambda>(t, e). e_last_read e) (set (c_torrents (k_cache m)))"
  proof (rule inj_onI, clarify)
    fix t e u e'
    assume a: "(t, e) \<in> set (c_torrents (k_cache m))" "(u, e') \<in> set (c_torrents (k_cache m))"
      "e_last_read e = e_last_read e'"
    then have "entries (k_cache m) t = Some e" "entries (k_cache m) u = Some e'"
      using D(2) by (simp_all add: map_of_is_SomeI)
    with D(5) a(3) have "t = u" unfolding recency_ok_def by blast
    with a D(2) show "t = u \<and> e = e'" by (auto dest: eq_key_imp_eq_value)
  qed
  show "cache_eviction_candidates ((k_cache m)\<lparr>c_torrents := xs\<rparr>) = cache_eviction_candidates (k_cache m)"
    by (rule eviction_order [OF _ _ inj]) (simp_all add: xs)
qed

theorem eviction_policy_witness:
  "victims_ok (k_cache sample_machine) (cache_eviction_candidates (k_cache sample_machine))"
proof -
  have "stored_sum (c_torrents (k_cache sample_machine)) < U64"
    by (simp add: sample_machine_def sample_pinned_simp sample_entry_def U64_def)
  from eviction_policy [OF sample_run bound5 this] show ?thesis by blast
qed

subsection \<open>Reading\<close>

text \<open>
  C7. Reading through the cache. In every reachable state a read of an unregistered torrent is
  \<open>UnknownTorrent\<close>; a read that succeeds returns exactly the bytes the store holds; bytes the
  store does not hold make it fail; and a registered torrent becomes the most recently read one,
  whatever the outcome, while nothing else of the cache changes.
\<close>

theorem cache_read_spec:
  assumes "cache_run {memory_vt} memory_store_new n m" "n + 2 < U64"
    and "cache_read memory_vt (k_cache m) t f off k = (c', res)"
  shows "(entries (k_cache m) t = None \<longrightarrow> res = Inl (UnknownTorrent t))
    \<and> (\<forall>bs. res = Inr bs \<longrightarrow> length bs = k
          \<and> (\<forall>j < k. mem_content (c_store (k_cache m)) t f (off + j) = Some (bs ! j)))
    \<and> (\<forall>e. entries (k_cache m) t = Some e \<longrightarrow>
          (\<exists>e'. entries c' t = Some e' \<and> e' = e\<lparr>e_last_read := c_tick c'\<rparr>
             \<and> (\<forall>u v. u \<noteq> t \<longrightarrow> entries c' u = Some v \<longrightarrow> e_last_read v < e_last_read e')))
    \<and> (\<forall>u. u \<noteq> t \<longrightarrow> entries c' u = entries (k_cache m) u)
    \<and> c_store c' = c_store (k_cache m)"
proof -
  note D = machine_okD [OF mem_reachable [OF assms(1,2)]]
  have tick: "add64 (c_tick (k_cache m)) 1 = Suc (c_tick (k_cache m))"
    using D(10) assms(2) by (auto intro!: add64_in_range [THEN trans])
  have tick': "c_tick (next_tick (k_cache m)) = Suc (c_tick (k_cache m))" by (simp only: next_tick_simps tick)
  show ?thesis
  proof (cases "entries (k_cache m) t")
    case None
    then have "c' = next_tick (k_cache m)" "res = Inl (UnknownTorrent t)"
      using assms(3) by (simp_all add: cache_read_def Let_def cache_entry_def)
    then show ?thesis using None by simp
  next
    case (Some e)
    then have c: "c' = put_entry t (e\<lparr>e_last_read := Suc (c_tick (k_cache m))\<rparr>) (next_tick (k_cache m))"
      and res: "res = mem_read (c_store (k_cache m)) t f off k"
      using assms(3) tick' by (simp_all add: cache_read_def Let_def cache_entry_def memory_vt_def)
    have old: "e_last_read v < Suc (c_tick (k_cache m))" if "entries (k_cache m) u = Some v" for u v
      using D(4) [OF that] by (simp add: entry_ok_def)
    have bytes: "length bs = k
          \<and> (\<forall>j < k. mem_content (c_store (k_cache m)) t f (off + j) = Some (bs ! j))" if "res = Inr bs" for bs
      using mem_read_ok [OF D(1), of t f off k bs] that res by simp
    have tc: "c_tick c' = Suc (c_tick (k_cache m))" by (simp only: c put_entry_simps tick')
    show ?thesis
      using Some old bytes tc by (simp add: c del: next_tick_simps(4))
  qed
qed

theorem cache_read_spec_witness:
  "snd (cache_read memory_vt (k_cache sample_machine) (InfoHash []) (FileIndex 0) 0 1)
     = Inl (UnknownTorrent (InfoHash []))"
proof -
  have "entries (k_cache sample_machine) (InfoHash []) = None"
    by (simp add: sample_machine_def sample_pinned_simp sample_hash_def)
  then show ?thesis
    using cache_read_spec [OF sample_run bound5, of "InfoHash []" "FileIndex 0" 0 1] by (metis prod.collapse)
qed

subsection \<open>Reports\<close>

text \<open>
  The report of demanded bytes. In every reachable state, for a registered torrent whose
  length plus piece length stays within 64 bits, the report lists exactly the pieces of which
  something was delivered to a reader, in order, each with the exact number of delivered bytes
  inside it, and calls a piece completed exactly when all of it was delivered; the sizes add up
  to the demanded total.
\<close>

theorem demand_report_exact:
  assumes "cache_run {memory_vt} memory_store_new n m" "n + 2 < U64"
    and "entries (k_cache m) t = Some e" "layout_small (e_layout e)"
  shows "demanded_pieces e =
      map (\<lambda>i. \<lparr>dp_piece = PieceIndex i, dp_size = demand_in e i,
                dp_completed = (piece_bytes (e_layout e) i \<subseteq> extents_bytes (e_demanded e))\<rparr>)
        (filter (\<lambda>i. demand_in e i \<noteq> 0) [0..<piece_count (e_layout e)])
    \<and> sum_list (map dp_size (demanded_pieces e)) = ex_total (e_demanded e)"
proof -
  have x: "extents_wf (e_demanded e)" "extents_bytes (e_demanded e) \<subseteq> {..<total_length (e_layout e)}"
    using machine_okD(4) [OF mem_reachable [OF assms(1,2)] assms(3)] by (auto simp: entry_ok_def)
  show ?thesis using demanded_pieces_eq [OF assms(4) x] demand_sum [OF assms(4) x] by blast
qed

theorem demand_report_exact_witness:
  "sum_list (map dp_size (demanded_pieces (sample_entry 3 1 [(1, sample_reader)] sample_demand))) = 6"
proof -
  have "layout_small (e_layout (sample_entry 3 1 [(1, sample_reader)] sample_demand))"
    using sample_memory_props(4) by (simp add: layout_small_def sample_entry_def sample_layout_def U64_def)
  from conjunct2 [OF demand_report_exact [OF sample_run bound5 sample_entries this]] show ?thesis
    by (simp add: sample_entry_def sample_demand_def)
qed

end
