(* ===== verification/DiskManifest.thy ===== *)
theory DiskManifest
  imports PieceStore RustStr "HOL-Library.Monad_Syntax"
begin

text \<open>
  \<open>rustorr-cache/src/disk.rs\<close>, the manifest: the text file next to a torrent's data that says
  which ranges of it are stored. \<open>manifest\<close> prints the state of a torrent, \<open>restore\<close> reads it back
  and accepts it only if it fits the layout and the files. The lemmas are the round trip and what
  an accepted manifest guarantees.
\<close>

subsection \<open>Files\<close>

text \<open>A directory maps names to contents. Bytes and characters correspond one to one.\<close>

type_synonym dir = "string \<rightharpoonup> byte list"

definition to_bytes :: "string \<Rightarrow> byte list" where
  "to_bytes s = map (\<lambda>c. word_of_nat (byte_val c)) s"

definition of_bytes :: "byte list \<Rightarrow> string" where
  "of_bytes bs = map (\<lambda>b. char_of (unat b)) bs"

text \<open>
  What the operating system does at one call: which operations succeed, how many bytes a failing
  write has put in the file, and which files a failing recursive removal has left.
\<close>

datatype io_op =
    RemoveDir string
  | CreateDir
  | OpenWrite
  | WriteFile
  | ManifestCreate
  | ManifestWrite
  | ManifestSync
  | ManifestRename
  | ManifestRead
  | StatFile string
  | OpenRead
  | ReadFile
  | ListDir
  | ListEntry string

record disk_env =
  env_ok :: "io_op \<Rightarrow> bool"
  env_written :: nat
  env_spared :: "string \<Rightarrow> bool"

definition env_fine :: disk_env where
  "env_fine = \<lparr>env_ok = \<lambda>_. True, env_written = 0, env_spared = \<lambda>_. False\<rparr>"

subsection \<open>Printing\<close>

record disk_torrent =
  dt_layout :: torrent_layout
  dt_dir :: string
  dt_extents :: "extents list"
  dt_completed :: "bool list"

definition manifest_name :: string where
  "manifest_name = ''.rustorr-cache-v1''"

definition manifest_temporary :: string where
  "manifest_temporary = ''.rustorr-cache-v1.tmp''"

abbreviation newline :: char where
  "newline \<equiv> CHR 0x0A"

definition joined_numbers :: "nat list \<Rightarrow> string" where
  "joined_numbers ns = join '','' (map decimal ns)"

definition print_span :: "nat \<times> nat \<Rightarrow> string" where
  "print_span p = decimal (fst p) @ ''-'' @ decimal (snd p)"

definition print_extents :: "nat \<Rightarrow> extents \<Rightarrow> string" where
  "print_extents index x =
     ''extents.'' @ decimal index @ ''='' @ join '','' (map print_span (ex_spans x)) @ [newline]"

definition manifest :: "disk_torrent \<Rightarrow> string" where
  "manifest t =
     ''version=1'' @ [newline]
     @ ''piece_length='' @ decimal (piece_length (dt_layout t)) @ [newline]
     @ ''files='' @ joined_numbers (file_lengths (dt_layout t)) @ [newline]
     @ ''pieces='' @ joined_numbers (true_indexes (dt_completed t)) @ [newline]
     @ concat (map (\<lambda>i. print_extents i (dt_extents t ! i)) [0..<length (dt_extents t)])"

subsection \<open>Reading back\<close>

definition parse_numbers :: "string \<Rightarrow> nat list option" where
  "parse_numbers s = (if s = [] then Some [] else map_option_all parse_u64 (split_on CHR '','' s))"

type_synonym fields = "(string \<times> string) list"

fun read_fields :: "string list \<Rightarrow> fields \<Rightarrow> fields option" where
  "read_fields [] vs = Some vs"
| "read_fields (l # ls) vs =
     (case split_once CHR ''='' l of
        None \<Rightarrow> None
      | Some (k, v) \<Rightarrow> if map_of vs k \<noteq> None then None else read_fields ls (hm_insert k v vs))"

definition take_field :: "string \<Rightarrow> fields \<Rightarrow> (string \<times> fields) option" where
  "take_field k vs = map_option (\<lambda>v. (v, hm_remove k vs)) (map_of vs k)"

definition require :: "bool \<Rightarrow> unit option" where
  "require b = (if b then Some () else None)"

fun mark_pieces :: "bool list \<Rightarrow> nat list \<Rightarrow> bool list option" where
  "mark_pieces c [] = Some c"
| "mark_pieces c (p # ps) =
     (case get_opt c p of
        None \<Rightarrow> None
      | Some old \<Rightarrow> if old then None else mark_pieces (c[p := True]) ps)"

definition parse_span :: "string \<Rightarrow> (nat \<times> nat) option" where
  "parse_span s = do {
     (a, b) \<leftarrow> split_once CHR ''-'' s;
     m \<leftarrow> parse_u64 a;
     n \<leftarrow> parse_u64 b;
     Some (m, n)
   }"

definition parse_spans :: "string \<Rightarrow> (nat \<times> nat) list option" where
  "parse_spans s = (if s = [] then Some [] else map_option_all parse_span (split_on CHR '','' s))"

definition restore_file ::
    "disk_env \<Rightarrow> dir \<Rightarrow> torrent_layout \<Rightarrow> nat \<Rightarrow> fields \<Rightarrow> (extents \<times> fields) option" where
  "restore_file env d l i vs = do {
     (raw, vs) \<leftarrow> take_field (''extents.'' @ decimal i) vs;
     spans \<leftarrow> parse_spans raw;
     x \<leftarrow> from_spans spans;
     len \<leftarrow> file_length l (FileIndex i);
     require (\<not> (\<exists>p \<in> set (ex_spans x). len < snd p));
     (if 0 < ex_total x then do {
        file \<leftarrow> (if env_ok env (StatFile (decimal i)) then d (decimal i) else None);
        require (\<not> (\<exists>p \<in> set (ex_spans x). length file < snd p))
      } else Some ());
     Some (x, vs)
   }"

fun restore_files ::
    "disk_env \<Rightarrow> dir \<Rightarrow> torrent_layout \<Rightarrow> nat list \<Rightarrow> fields \<Rightarrow> nat \<Rightarrow> extents list
       \<Rightarrow> (extents list \<times> nat \<times> fields) option" where
  "restore_files env d l [] vs stored xs = Some (xs, stored, vs)"
| "restore_files env d l (i # is) vs stored xs = do {
     (x, vs) \<leftarrow> restore_file env d l i vs;
     stored \<leftarrow> checked_add64 stored (ex_total x);
     restore_files env d l is vs stored (xs @ [x])
   }"

definition read_to_string :: "disk_env \<Rightarrow> dir \<Rightarrow> string option" where
  "read_to_string env d =
     (case d manifest_name of
        None \<Rightarrow> None
      | Some bs \<Rightarrow>
          if env_ok env ManifestRead \<and> valid_utf8 (map unat bs) then Some (of_bytes bs) else None)"

definition restore ::
    "disk_env \<Rightarrow> dir \<Rightarrow> torrent_layout \<Rightarrow> (extents list \<times> bool list \<times> nat) option" where
  "restore env d l = do {
     s \<leftarrow> read_to_string env d;
     vs \<leftarrow> read_fields (lines s) [];
     (version, vs) \<leftarrow> take_field ''version'' vs;
     require (version = ''1'');
     (pl, vs) \<leftarrow> take_field ''piece_length'' vs;
     pl \<leftarrow> parse_u64 pl;
     require (pl = piece_length l);
     (files, vs) \<leftarrow> take_field ''files'' vs;
     files \<leftarrow> parse_numbers files;
     require (files = file_lengths l);
     (pieces, vs) \<leftarrow> take_field ''pieces'' vs;
     pieces \<leftarrow> parse_numbers pieces;
     completed \<leftarrow> mark_pieces (replicate (piece_count l) False) pieces;
     (xs, stored, vs) \<leftarrow> restore_files env d l [0..<file_count l] vs 0 [];
     require (vs = []);
     Some (xs, completed, stored)
   }"

subsection \<open>What an accepted manifest guarantees\<close>

definition extents_fit :: "dir \<Rightarrow> torrent_layout \<Rightarrow> nat \<Rightarrow> extents \<Rightarrow> bool" where
  "extents_fit d l i x \<longleftrightarrow>
     extents_wf x \<and> (\<forall>n. file_length l (FileIndex i) = Some n \<longrightarrow> extents_bytes x \<subseteq> {..<n})
     \<and> (\<forall>b \<in> extents_bytes x. \<exists>fl. d (decimal i) = Some fl \<and> b < length fl)"

lemma require_eq_Some [simp]: "require b = Some u \<longleftrightarrow> b"
  by (simp add: require_def)

lemma spans_bound: "\<not> (\<exists>p \<in> set (ex_spans x). n < snd p) \<longleftrightarrow> (\<forall>p \<in> set (ex_spans x). snd p \<le> n)"
  by (auto simp: not_less)

lemma extents_bytes_below:
  "\<forall>p \<in> set (ex_spans x). snd p \<le> n \<Longrightarrow> extents_bytes x \<subseteq> {..<n}"
  by (force simp: extents_bytes_def spans_bytes_def)

lemma parse_spans_lt: "parse_spans s = Some ps \<Longrightarrow> \<forall>p \<in> set ps. snd p < U64"
proof -
  have one: "snd p < U64" if "parse_span x = Some p" for x p
    using that by (auto simp: parse_span_def dest: parse_u64_lt split: Option.bind_splits prod.splits)
  have "\<forall>p \<in> set ps. snd p < U64" if "map_option_all parse_span xs = Some ps" for xs
    using that
  proof (induction xs arbitrary: ps)
    case (Cons a xs)
    then obtain p qs where "ps = p # qs" "parse_span a = Some p" "map_option_all parse_span xs = Some qs"
      by (auto split: option.splits)
    with Cons.IH one show ?case by auto
  qed simp
  then show "parse_spans s = Some ps \<Longrightarrow> \<forall>p \<in> set ps. snd p < U64"
    by (auto simp: parse_spans_def split: if_splits)
qed

lemma restore_file_fit:
  assumes "restore_file env d l i vs = Some (x, vs')"
  shows "extents_fit d l i x"
proof -
  from assms obtain raw vs1 spans n where
    1: "parse_spans raw = Some spans" "from_spans spans = Some x" "file_length l (FileIndex i) = Some n"
      "\<not> (\<exists>p \<in> set (ex_spans x). n < snd p)"
    and 2: "0 < ex_total x \<Longrightarrow> \<exists>fl. d (decimal i) = Some fl \<and> \<not> (\<exists>p \<in> set (ex_spans x). length fl < snd p)"
    by (auto simp: restore_file_def bind_eq_Some_conv split: if_splits prod.splits)
  have wf: "extents_wf x" using from_spans_iff [OF parse_spans_lt [OF 1(1)]] 1(2) by blast
  moreover have "extents_bytes x \<subseteq> {..<n}"
    using 1(4) by (intro extents_bytes_below) (auto simp: not_less)
  moreover have "\<exists>fl. d (decimal i) = Some fl \<and> b < length fl" if b: "b \<in> extents_bytes x" for b
  proof -
    have "0 < ex_total x" using wf b by (auto simp: extents_wf_def card_gt_0_iff)
    from 2 [OF this] obtain fl where f: "d (decimal i) = Some fl"
      "\<not> (\<exists>p \<in> set (ex_spans x). length fl < snd p)" by blast
    from extents_bytes_below [of x "length fl"] f(2) b f(1) show ?thesis by (auto simp: not_less)
  qed
  ultimately show ?thesis using 1(3) by (simp add: extents_fit_def)
qed

lemma restore_files_fit:
  assumes "restore_files env d l is vs stored xs = Some (ys, total', vs')" "stored < U64"
  shows "\<exists>zs. ys = xs @ zs \<and> length zs = length is
    \<and> (\<forall>k < length is. extents_fit d l (is ! k) (zs ! k))
    \<and> total' = stored + sum_list (map ex_total zs) \<and> total' < U64"
  using assms
proof (induction "is" arbitrary: vs stored xs)
  case (Cons i "is")
  from Cons.prems obtain x vs1 where x: "restore_file env d l i vs = Some (x, vs1)"
    "stored + ex_total x < U64"
    "restore_files env d l is vs1 (stored + ex_total x) (xs @ [x]) = Some (ys, total', vs')"
    by (auto simp: bind_eq_Some_conv split: prod.splits)
  from Cons.IH [OF x(3,2)] obtain zs where zs: "ys = (xs @ [x]) @ zs" "length zs = length is"
    "\<forall>k < length is. extents_fit d l (is ! k) (zs ! k)"
    "total' = stored + ex_total x + sum_list (map ex_total zs)" "total' < U64" by blast
  have "\<forall>k < length (i # is). extents_fit d l ((i # is) ! k) ((x # zs) ! k)"
    using zs(3) restore_file_fit [OF x(1)] by (simp add: nth_Cons split: nat.splits)
  then show ?case using zs by (intro exI [of _ "x # zs"]) simp
qed simp

lemma mark_pieces_length: "mark_pieces c ps = Some c' \<Longrightarrow> length c' = length c"
  by (induction ps arbitrary: c) (auto split: option.splits if_splits)

lemma restore_fit:
  assumes "restore env d l = Some (xs, completed, stored)"
  shows "length xs = file_count l" "length completed = piece_count l"
    "i < file_count l \<Longrightarrow> extents_fit d l i (xs ! i)" "stored = sum_list (map ex_total xs)"
proof -
  from assms obtain vs vs' ps where m: "mark_pieces (replicate (piece_count l) False) ps = Some completed"
    and f: "restore_files env d l [0..<file_count l] vs 0 [] = Some (xs, stored, vs')"
    by (auto simp: restore_def bind_eq_Some_conv split: prod.splits)
  from mark_pieces_length [OF m] show "length completed = piece_count l" by simp
  from restore_files_fit [OF f] show "length xs = file_count l"
    "i < file_count l \<Longrightarrow> extents_fit d l i (xs ! i)" "stored = sum_list (map ex_total xs)" by auto
qed

subsection \<open>The round trip\<close>

lemma lines_newlines:
  assumes "\<forall>l \<in> set ls. newline \<notin> set l \<and> (l = [] \<or> last l \<noteq> CHR 0x0D)"
  shows "lines (concat (map (\<lambda>l. l @ [newline]) ls)) = ls"
proof -
  have "split_on newline (concat (map (\<lambda>l. l @ [newline]) ls)) = ls @ [[]]"
    using assms by (induction ls) (simp_all add: split_on_append)
  moreover have "map strip_cr ls = ls"
    using assms by (intro map_idI) (auto simp: strip_cr_def)
  ultimately show ?thesis by (simp add: lines_def)
qed

lemma read_fields_distinct:
  assumes "distinct (map fst vs @ map fst kvs)" "\<forall>(k, v) \<in> set kvs. CHR ''='' \<notin> set k"
  shows "read_fields (map (\<lambda>(k, v). k @ ''='' @ v) kvs) vs = Some (vs @ kvs)"
  using assms
proof (induction kvs arbitrary: vs)
  case (Cons kv kvs)
  obtain k v where kv: "kv = (k, v)" by (cases kv)
  have none: "map_of vs k = None" using Cons.prems(1) kv by (auto simp: map_of_eq_None_iff)
  then have ins: "hm_insert k v vs = vs @ [(k, v)]"
    by (induction vs) (auto split: if_splits)
  have IH: "read_fields (map (\<lambda>(k, v). k @ ''='' @ v) kvs) (vs @ [kv]) = Some ((vs @ [kv]) @ kvs)"
    using Cons.prems by (intro Cons.IH) auto
  have "split_once CHR ''='' (k @ ''='' @ v) = Some (k, v)"
    using Cons.prems(2) kv by (simp add: split_once_append)
  then show ?case using IH none ins by (simp add: kv)
qed simp

lemma take_field_head [simp]:
  "k \<notin> fst ` set vs \<Longrightarrow> take_field k ((k, v) # vs) = Some (v, vs)"
  by (simp add: take_field_def delete_id)

lemma parse_numbers_joined [codec]:
  assumes "\<forall>n \<in> set ns. n < U64"
  shows "parse_numbers (joined_numbers ns) = Some ns"
proof (cases "ns = []")
  case False
  then obtain n ns' where n: "ns = n # ns'" by (cases ns) auto
  have "joined_numbers ns \<noteq> []" by (cases ns') (simp_all add: n joined_numbers_def)
  moreover have "split_on CHR '','' (joined_numbers ns) = map decimal ns"
    unfolding joined_numbers_def using False by (intro split_on_join) auto
  moreover have "map_option_all parse_u64 (map decimal ns) = Some (map id ns)"
    using assms by (intro map_option_all_map) simp
  ultimately show ?thesis by (simp add: parse_numbers_def)
qed (simp add: joined_numbers_def parse_numbers_def)

lemma parse_print_span [codec]:
  "fst p < U64 \<Longrightarrow> snd p < U64 \<Longrightarrow> parse_span (print_span p) = Some p"
  by (simp add: parse_span_def print_span_def split_once_append)

lemma print_span_props [simp]: "print_span p \<noteq> []" "CHR '','' \<notin> set (print_span p)"
  by (simp_all add: print_span_def)

lemma parse_print_spans [codec]:
  assumes "\<forall>p \<in> set ps. fst p < U64 \<and> snd p < U64"
  shows "parse_spans (join '','' (map print_span ps)) = Some ps"
proof (cases "ps = []")
  case False
  then obtain p ps' where p: "ps = p # ps'" by (cases ps) auto
  have "join '','' (map print_span ps) \<noteq> []" by (cases ps') (simp_all add: p)
  moreover have "split_on CHR '','' (join '','' (map print_span ps)) = map print_span ps"
    using False by (intro split_on_join) auto
  moreover have "map_option_all parse_span (map print_span ps) = Some (map id ps)"
    using assms by (intro map_option_all_map) (simp add: parse_print_span)
  ultimately show ?thesis by (simp add: parse_spans_def)
qed (simp add: parse_spans_def)

lemma mark_pieces_fresh:
  assumes "distinct ps" "\<forall>p \<in> set ps. p < length c \<and> \<not> c ! p"
  shows "mark_pieces c ps = Some (map (\<lambda>i. c ! i \<or> i \<in> set ps) [0..<length c])"
  using assms
proof (induction ps arbitrary: c)
  case Nil
  have "map (\<lambda>i. c ! i) [0..<length c] = c" by (rule map_nth)
  then show ?case by simp
next
  case (Cons p ps)
  have "map (\<lambda>i. c[p := True] ! i \<or> i \<in> set ps) [0..<length c]
      = map (\<lambda>i. c ! i \<or> i \<in> set (p # ps)) [0..<length c]"
    using Cons.prems(2) by (auto simp: nth_list_update)
  moreover have "mark_pieces (c[p := True]) ps
      = Some (map (\<lambda>i. c[p := True] ! i \<or> i \<in> set ps) [0..<length (c[p := True])])"
    using Cons.prems by (intro Cons.IH) (auto simp: nth_list_update)
  ultimately show ?case using Cons.prems(2) by (simp add: get_opt_def)
qed

lemma mark_pieces_true_indexes:
  "mark_pieces (replicate (length c) False) (true_indexes c) = Some c"
proof -
  have "mark_pieces (replicate (length c) False) (true_indexes c)
      = Some (map (\<lambda>i. replicate (length c) False ! i \<or> i \<in> set (true_indexes c)) [0..<length (replicate (length c) False)])"
    by (intro mark_pieces_fresh) auto
  also have "map (\<lambda>i. replicate (length c) False ! i \<or> i \<in> set (true_indexes c)) [0..<length (replicate (length c) False)]
      = map (\<lambda>i. c ! i) [0..<length c]" by auto
  also have "\<dots> = c" by (rule map_nth)
  finally show ?thesis .
qed

text \<open>The fields of a printed manifest, in the order in which \<open>restore\<close> takes them.\<close>

definition extents_field :: "disk_torrent \<Rightarrow> nat \<Rightarrow> string \<times> string" where
  "extents_field t i =
     (''extents.'' @ decimal i, join '','' (map print_span (ex_spans (dt_extents t ! i))))"

definition manifest_fields :: "disk_torrent \<Rightarrow> fields" where
  "manifest_fields t =
     [(''version'', ''1''), (''piece_length'', decimal (piece_length (dt_layout t))),
      (''files'', joined_numbers (file_lengths (dt_layout t))),
      (''pieces'', joined_numbers (true_indexes (dt_completed t)))]
     @ map (extents_field t) [0..<length (dt_extents t)]"

lemma manifest_lines:
  "manifest t = concat (map (\<lambda>l. l @ [newline]) (map (\<lambda>(k, v). k @ ''='' @ v) (manifest_fields t)))"
  by (simp add: manifest_def manifest_fields_def extents_field_def print_extents_def o_def)

definition plain_char :: "char \<Rightarrow> bool" where
  "plain_char c \<longleftrightarrow> is_ascii c \<and> c \<noteq> newline \<and> c \<noteq> CHR 0x0D"

lemma plain_decimal: "c \<in> set (decimal n) \<Longrightarrow> plain_char c"
  using decimal_ascii [of c n] decimal_no_sep [of n] by (auto simp: plain_char_def)

lemma plain_sep [simp]: "plain_char CHR '',''" "plain_char CHR ''-''" "plain_char CHR ''=''"
  by (simp_all add: plain_char_def is_ascii_def byte_val_def)

lemma plain_join:
  assumes "\<forall>x \<in> set xs. \<forall>c \<in> set x. plain_char c" "c \<in> set (join '','' xs)"
  shows "plain_char c"
proof -
  have "c \<in> set '','' \<union> (\<Union>x \<in> set xs. set x)" using assms(2) set_join by blast
  then show ?thesis using assms(1) by auto
qed

lemma plain_key [simp]:
  "\<forall>c \<in> set ''version''. plain_char c" "\<forall>c \<in> set ''1''. plain_char c"
  "\<forall>c \<in> set ''piece_length''. plain_char c" "\<forall>c \<in> set ''files''. plain_char c"
  "\<forall>c \<in> set ''pieces''. plain_char c" "\<forall>c \<in> set ''extents.''. plain_char c"
  by (simp_all add: plain_char_def is_ascii_def byte_val_def)

lemma manifest_fields_plain:
  assumes "(k, v) \<in> set (manifest_fields t)" "c \<in> set (k @ ''='' @ v)"
  shows "plain_char c"
proof -
  have num: "\<forall>c \<in> set (joined_numbers ns). plain_char c" for ns
    unfolding joined_numbers_def by (intro ballI, rule plain_join) (auto dest: plain_decimal)
  have span: "\<forall>c \<in> set (print_span p). plain_char c" for p
    by (auto simp: print_span_def dest: plain_decimal)
  have spans: "\<forall>c \<in> set (join '','' (map print_span ps)). plain_char c" for ps
    using span by (intro ballI, intro plain_join) auto
  have key: "(\<forall>c \<in> set k. plain_char c) \<and> (\<forall>c \<in> set v. plain_char c)"
  proof -
    from assms(1) consider "(k, v) = (''version'', ''1'')"
      | "(k, v) = (''piece_length'', decimal (piece_length (dt_layout t)))"
      | "(k, v) = (''files'', joined_numbers (file_lengths (dt_layout t)))"
      | "(k, v) = (''pieces'', joined_numbers (true_indexes (dt_completed t)))"
      | i where "(k, v) = extents_field t i"
      unfolding manifest_fields_def by auto
    then show ?thesis
    proof cases
      case 5
      then have "k = ''extents.'' @ decimal i" "v = join '','' (map print_span (ex_spans (dt_extents t ! i)))"
        by (simp_all add: extents_field_def)
      then show ?thesis using spans plain_key(6) by (auto simp only: set_append dest: plain_decimal)
    qed (use num plain_key plain_decimal in \<open>auto simp only: prod.inject\<close>)
  qed
  with assms(2) show ?thesis using plain_sep(3) by auto
qed

lemma manifest_fields_keys:
  "distinct (map fst (manifest_fields t))" "\<forall>(k, v) \<in> set (manifest_fields t). CHR ''='' \<notin> set k"
proof -
  have e: "map fst (map (extents_field t) is) = map (\<lambda>i. ''extents.'' @ decimal i) is" for "is"
    by (simp add: extents_field_def)
  have "inj_on (\<lambda>i. ''extents.'' @ decimal i) A" for A by (auto intro: inj_onI simp: decimal_eq_iff)
  then have "distinct (map (\<lambda>i. ''extents.'' @ decimal i) [0..<n])" for n
    by (simp add: distinct_map del: append.simps)
  then have d: "distinct (map (\<lambda>i. ''extents.'' @ decimal i) [0..<length (dt_extents t)])" .
  have k: "map fst (manifest_fields t)
      = [''version'', ''piece_length'', ''files'', ''pieces'']
        @ map (\<lambda>i. ''extents.'' @ decimal i) [0..<length (dt_extents t)]"
    by (simp add: manifest_fields_def extents_field_def)
  show "distinct (map fst (manifest_fields t))"
    unfolding k distinct_append
  proof (intro conjI)
    show "distinct (map (\<lambda>i. ''extents.'' @ decimal i) [0..<length (dt_extents t)])" by (rule d)
    show "set [''version'', ''piece_length'', ''files'', ''pieces'']
        \<inter> set (map (\<lambda>i. ''extents.'' @ decimal i) [0..<length (dt_extents t)]) = {}"
      by auto
  qed simp
  show "\<forall>(k, v) \<in> set (manifest_fields t). CHR ''='' \<notin> set k"
    by (auto simp: manifest_fields_def extents_field_def)
qed

lemma read_manifest_fields: "read_fields (lines (manifest t)) [] = Some (manifest_fields t)"
proof -
  have "lines (manifest t) = map (\<lambda>(k, v). k @ ''='' @ v) (manifest_fields t)"
    unfolding manifest_lines
  proof (rule lines_newlines, intro ballI)
    fix l assume "l \<in> set (map (\<lambda>(k, v). k @ ''='' @ v) (manifest_fields t))"
    then obtain k v where l: "l = k @ ''='' @ v" "(k, v) \<in> set (manifest_fields t)" by auto
    then have p: "\<forall>c \<in> set l. plain_char c" using manifest_fields_plain by blast
    then have "newline \<notin> set l" by (auto simp: plain_char_def)
    moreover have "plain_char (last l)" if "l \<noteq> []" using p last_in_set [OF that] by blast
    then have "l = [] \<or> last l \<noteq> CHR 0x0D" unfolding plain_char_def by blast
    ultimately show "newline \<notin> set l \<and> (l = [] \<or> last l \<noteq> CHR 0x0D)" ..
  qed
  then show ?thesis
    using read_fields_distinct [of "[]" "manifest_fields t"] manifest_fields_keys by simp
qed

lemma of_to_bytes [simp]: "of_bytes (to_bytes s) = s"
proof -
  have "char_of (unat (word_of_nat (byte_val c) :: byte)) = c" for c
  proof -
    have "byte_val c < 256" by (simp add: byte_val_def)
    then have "unat (word_of_nat (byte_val c) :: byte) = byte_val c"
      by (simp add: unat_of_nat take_bit_nat_eq_self)
    then show ?thesis by (simp add: byte_val_def)
  qed
  then show ?thesis by (simp add: of_bytes_def to_bytes_def o_def)
qed

lemma valid_utf8_plain:
  assumes "\<forall>c \<in> set s. is_ascii c"
  shows "valid_utf8 (map unat (to_bytes s))"
proof (rule valid_utf8_ascii, intro ballI)
  fix b assume "b \<in> set (map unat (to_bytes s))"
  then obtain c where c: "c \<in> set s" "b = unat (word_of_nat (byte_val c) :: byte)"
    by (auto simp: to_bytes_def)
  moreover from assms c(1) have "byte_val c < 128" by (simp add: is_ascii_def)
  ultimately show "b < 128" by (simp add: unat_of_nat take_bit_nat_eq_self)
qed

lemma manifest_ascii: "\<forall>c \<in> set (manifest t). is_ascii c"
proof
  fix c assume "c \<in> set (manifest t)"
  then consider "c = newline" | k v where "(k, v) \<in> set (manifest_fields t)" "c \<in> set (k @ ''='' @ v)"
    unfolding manifest_lines by (fastforce split: if_splits)
  then show "is_ascii c"
  proof cases
    case 1
    then show ?thesis by (simp add: is_ascii_def byte_val_def)
  next
    case 2
    from manifest_fields_plain [OF this] show ?thesis by (simp add: plain_char_def)
  qed
qed

text \<open>A torrent state that its own directory bears out.\<close>

definition torrent_fits :: "dir \<Rightarrow> disk_torrent \<Rightarrow> bool" where
  "torrent_fits d t \<longleftrightarrow>
     layout_wf (dt_layout t) \<and> length (dt_extents t) = file_count (dt_layout t)
     \<and> length (dt_completed t) = piece_count (dt_layout t)
     \<and> (\<forall>i < file_count (dt_layout t). extents_fit d (dt_layout t) i (dt_extents t ! i))"

lemma spans_within:
  assumes "extents_wf x" "p \<in> set (ex_spans x)"
  shows "fst p < snd p" "snd p < U64" "snd p - 1 \<in> extents_bytes x"
proof -
  show p: "fst p < snd p" "snd p < U64" using assms by (auto simp: extents_wf_def gapped_def)
  then have "snd p - 1 \<in> {fst p..<snd p}" by auto
  then show "snd p - 1 \<in> extents_bytes x"
    using assms(2) by (force simp: extents_bytes_def spans_bytes_def)
qed

lemma restore_file_printed:
  assumes fit: "extents_fit d (dt_layout t) i (dt_extents t ! i)" and i: "i < file_count (dt_layout t)"
    and env: "\<forall>k. env_ok env (StatFile k)" and new: "fst (extents_field t i) \<notin> fst ` set vs"
  shows "restore_file env d (dt_layout t) i (extents_field t i # vs) = Some (dt_extents t ! i, vs)"
proof -
  define x where "x = dt_extents t ! i"
  have wf: "extents_wf x" using fit by (simp add: extents_fit_def x_def)
  note sp = spans_within [OF wf]
  obtain n where n: "file_length (dt_layout t) (FileIndex i) = Some n"
    using i by (simp add: file_length_def file_count_def)
  then have sub: "extents_bytes x \<subseteq> {..<n}" using fit by (simp add: extents_fit_def x_def)
  have len: "\<not> (\<exists>p \<in> set (ex_spans x). n < snd p)"
  proof
    assume "\<exists>p \<in> set (ex_spans x). n < snd p"
    then obtain p where p: "p \<in> set (ex_spans x)" "n < snd p" by blast
    with sp(1,3) [OF p(1)] sub show False by auto
  qed
  have parsed: "parse_spans (join '','' (map print_span (ex_spans x))) = Some (ex_spans x)"
    using sp by (intro parse_print_spans) (force intro: less_trans)
  have stat: "\<exists>fl. d (decimal i) = Some fl \<and> \<not> (\<exists>p \<in> set (ex_spans x). length fl < snd p)" if "0 < ex_total x"
  proof -
    have "extents_bytes x \<noteq> {}" using that wf by (auto simp: extents_wf_def card_gt_0_iff)
    then obtain fl where fl: "d (decimal i) = Some fl" using fit by (auto simp: extents_fit_def x_def)
    have "snd p \<le> length fl" if "p \<in> set (ex_spans x)" for p
    proof -
      from fit sp(3) [OF that] fl have "snd p - 1 < length fl" by (auto simp: extents_fit_def x_def)
      with sp(1) [OF that] show ?thesis by linarith
    qed
    with fl show ?thesis by (auto simp: not_less)
  qed
  have take: "take_field (''extents.'' @ decimal i) (extents_field t i # vs)
      = Some (join '','' (map print_span (ex_spans x)), vs)"
    using new by (simp add: extents_field_def x_def del: append.simps)
  show ?thesis
    using parsed from_spans_spans [OF wf] n len stat env take
    unfolding restore_file_def x_def [symmetric]
    by (auto simp: require_def del: )
qed

lemma restore_files_printed:
  assumes fit: "torrent_fits d t" and env: "\<forall>k. env_ok env (StatFile k)"
    and "is": "set is \<subseteq> {..<file_count (dt_layout t)}" "distinct is"
    and bound: "stored + sum_list (map (\<lambda>i. ex_total (dt_extents t ! i)) is) < U64"
  shows "restore_files env d (dt_layout t) is (map (extents_field t) is) stored xs
    = Some (xs @ map (\<lambda>i. dt_extents t ! i) is,
            stored + sum_list (map (\<lambda>i. ex_total (dt_extents t ! i)) is), [])"
  using "is" bound
proof (induction "is" arbitrary: stored xs)
  case (Cons i "is")
  have "extents_fit d (dt_layout t) i (dt_extents t ! i)" "i < file_count (dt_layout t)"
    using fit Cons.prems(1) by (auto simp: torrent_fits_def)
  moreover have "fst (extents_field t i) \<notin> fst ` set (map (extents_field t) is)"
    using Cons.prems(2) by (auto simp: extents_field_def decimal_eq_iff)
  ultimately have "restore_file env d (dt_layout t) i (map (extents_field t) (i # is))
      = Some (dt_extents t ! i, map (extents_field t) is)"
    using env by (simp add: restore_file_printed)
  moreover have "checked_add64 stored (ex_total (dt_extents t ! i)) = Some (stored + ex_total (dt_extents t ! i))"
    using Cons.prems(3) by simp
  ultimately show ?case
    using Cons.IH [of "stored + ex_total (dt_extents t ! i)" "xs @ [dt_extents t ! i]"] Cons.prems
    by (simp add: add.assoc del: checked_add64_eq_Some)
qed simp

lemma sum_list_mono_nth:
  fixes xs ys :: "nat list"
  shows "length xs = length ys \<Longrightarrow> \<forall>i < length ys. xs ! i \<le> ys ! i \<Longrightarrow> sum_list xs \<le> sum_list ys"
proof (induction ys arbitrary: xs)
  case (Cons y ys)
  then obtain x xs' where x: "xs = x # xs'" by (cases xs) auto
  have "x \<le> y" using Cons.prems(2) x by (auto dest: spec [of _ 0])
  moreover have "\<forall>i < length ys. xs' ! i \<le> ys ! i" using Cons.prems(2) x by (auto dest: spec [of _ "Suc _"])
  ultimately show ?case using Cons x by (auto intro: add_mono)
qed simp

lemma torrent_total_bound:
  assumes "torrent_fits d t"
  shows "sum_list (map ex_total (dt_extents t)) \<le> total_length (dt_layout t)"
proof -
  have "ex_total (dt_extents t ! i) \<le> file_lengths (dt_layout t) ! i" if "i < file_count (dt_layout t)" for i
  proof -
    have "extents_wf (dt_extents t ! i)" "extents_bytes (dt_extents t ! i) \<subseteq> {..<file_lengths (dt_layout t) ! i}"
      using assms that by (auto simp: torrent_fits_def extents_fit_def file_length_def file_count_def)
    then show ?thesis using card_mono [of "{..<file_lengths (dt_layout t) ! i}"] by (simp add: extents_wf_def)
  qed
  with assms show ?thesis
    using sum_list_mono_nth [of "map ex_total (dt_extents t)" "file_lengths (dt_layout t)"]
    by (simp add: torrent_fits_def layout_wf_def file_count_def)
qed

lemma restore_manifest:
  assumes fit: "torrent_fits d t" and d: "d manifest_name = Some (to_bytes (manifest t))"
    and env: "env_ok env ManifestRead" "\<forall>k. env_ok env (StatFile k)"
  shows "restore env d (dt_layout t) =
    Some (dt_extents t, dt_completed t, sum_list (map ex_total (dt_extents t)))"
proof -
  from fit have l: "layout_wf (dt_layout t)" and len: "length (dt_extents t) = file_count (dt_layout t)"
    "length (dt_completed t) = piece_count (dt_layout t)" by (auto simp: torrent_fits_def)
  have rd: "read_to_string env d = Some (manifest t)"
    using d env(1) valid_utf8_plain [OF manifest_ascii] by (simp add: read_to_string_def)
  have "\<forall>n \<in> set (file_lengths (dt_layout t)). n < U64"
    using l member_le_sum_list by (fastforce simp: layout_wf_def)
  then have files: "parse_numbers (joined_numbers (file_lengths (dt_layout t))) = Some (file_lengths (dt_layout t))"
    by (rule parse_numbers_joined)
  have "piece_count (dt_layout t) < U64"
    using l U32_lt_U64 unfolding layout_wf_def by linarith
  then have pieces: "parse_numbers (joined_numbers (true_indexes (dt_completed t)))
      = Some (true_indexes (dt_completed t))"
    using len by (intro parse_numbers_joined) auto
  have mark: "mark_pieces (replicate (piece_count (dt_layout t)) False) (true_indexes (dt_completed t))
      = Some (dt_completed t)"
    using mark_pieces_true_indexes [of "dt_completed t"] len by simp
  have ids: "map (\<lambda>i. dt_extents t ! i) [0..<file_count (dt_layout t)] = dt_extents t"
    using map_nth [of "dt_extents t"] len by simp
  have tot: "map (\<lambda>i. ex_total (dt_extents t ! i)) [0..<file_count (dt_layout t)] = map ex_total (dt_extents t)"
    using arg_cong [OF ids, of "map ex_total"] by (simp add: o_def)
  have lt: "sum_list (map ex_total (dt_extents t)) < U64"
    using torrent_total_bound [OF fit] l by (simp add: layout_wf_def)
  have rf: "restore_files env d (dt_layout t) [0..<file_count (dt_layout t)]
      (map (extents_field t) [0..<file_count (dt_layout t)]) 0 []
      = Some (dt_extents t, sum_list (map ex_total (dt_extents t)), [])"
    using restore_files_printed [OF fit env(2), of "[0..<file_count (dt_layout t)]" 0 "[]"] lt
    by (simp add: ids tot atLeast0LessThan)
  define vs where "vs = map (extents_field t) [0..<file_count (dt_layout t)]"
  have nk: "k \<notin> fst ` set vs" if "k \<in> {''version'', ''piece_length'', ''files'', ''pieces''}" for k
    using that by (auto simp: vs_def extents_field_def)
  have pl: "parse_u64 (decimal (piece_length (dt_layout t))) = Some (piece_length (dt_layout t))"
    using l by (simp add: layout_wf_def)
  let ?pl = "(''piece_length'', decimal (piece_length (dt_layout t)))"
  let ?fs = "(''files'', joined_numbers (file_lengths (dt_layout t)))"
  let ?ps = "(''pieces'', joined_numbers (true_indexes (dt_completed t)))"
  have mf: "manifest_fields t = (''version'', ''1'') # ?pl # ?fs # ?ps # vs"
    by (simp add: manifest_fields_def vs_def len)
  have t1: "take_field ''version'' ((''version'', ''1'') # ?pl # ?fs # ?ps # vs) = Some (''1'', ?pl # ?fs # ?ps # vs)"
    using nk by (intro take_field_head) auto
  have t2: "take_field ''piece_length'' (?pl # ?fs # ?ps # vs) = Some (snd ?pl, ?fs # ?ps # vs)"
    using nk by (simp only: snd_conv, intro take_field_head) auto
  have t3: "take_field ''files'' (?fs # ?ps # vs) = Some (snd ?fs, ?ps # vs)"
    using nk by (simp only: snd_conv, intro take_field_head) auto
  have t4: "take_field ''pieces'' (?ps # vs) = Some (snd ?ps, vs)"
    using nk by (simp only: snd_conv, intro take_field_head) auto
  have r: "require True = Some ()" by (simp add: require_def)
  show ?thesis
    unfolding restore_def rd
    by (simp only: bind.bind_lunit read_manifest_fields mf t1 t2 t3 t4 prod.case snd_conv pl files pieces
        mark rf [folded vs_def] r simp_thms)
qed

end
