(* ===== verification/DiskStore.thy ===== *)
theory DiskStore
  imports DiskManifest
begin

text \<open>
  \<open>rustorr-cache/src/disk.rs\<close>, the store: one directory per torrent under the root, one sparse file
  per torrent file, and the manifest. The outcome of the calls to the operating system is an
  argument, \<open>disk_env\<close>, so that every error branch is a value of the model; a failing write may
  have put a prefix of its data in the file, and a failing recursive removal may have removed any
  of the files. Storage is not modelled beyond the process (no loss of power).
\<close>

subsection \<open>State\<close>

record disk_store =
  ds_dirs :: "(string \<times> dir) list"
  ds_torrents :: "info_hash \<rightharpoonup> disk_torrent"

definition disk_store_new :: "(string \<times> dir) list \<Rightarrow> disk_store" where
  "disk_store_new dirs = \<lparr>ds_dirs = dirs, ds_torrents = Map.empty\<rparr>"

definition file_name :: "file_index \<Rightarrow> string" where
  "file_name f = decimal (zero_based f)"

definition remove_dir ::
    "disk_env \<Rightarrow> (string \<times> dir) list \<Rightarrow> string \<Rightarrow> (string \<times> dir) list \<times> (cache_error + unit)" where
  "remove_dir env dirs name =
     (case map_of dirs name of
        None \<Rightarrow> (dirs, Inr ())
      | Some d \<Rightarrow>
          if env_ok env (RemoveDir name) then (hm_remove name dirs, Inr ())
          else (hm_insert name (\<lambda>k. if env_spared env k then d k else None) dirs,
                Inl (IoError ''remove cache directory'')))"

definition empty_extents :: "torrent_layout \<Rightarrow> extents list" where
  "empty_extents l = replicate (file_count l) extents_default"

definition write_manifest ::
    "disk_env \<Rightarrow> (string \<times> dir) list \<Rightarrow> disk_torrent \<Rightarrow> (string \<times> dir) list \<times> (cache_error + unit)" where
  "write_manifest env dirs t =
     (case map_of dirs (dt_dir t) of
        None \<Rightarrow> (dirs, Inl (IoError ''create cache manifest''))
      | Some d \<Rightarrow>
          let bytes = to_bytes (manifest t);
              put = (\<lambda>d'. hm_insert (dt_dir t) d' dirs)
          in if \<not> env_ok env ManifestCreate then (dirs, Inl (IoError ''create cache manifest''))
             else if \<not> env_ok env ManifestWrite then
               (put (d(manifest_temporary \<mapsto> take (env_written env) bytes)),
                Inl (IoError ''write cache manifest''))
             else if \<not> env_ok env ManifestSync then
               (put (d(manifest_temporary \<mapsto> bytes)), Inl (IoError ''sync cache manifest''))
             else if \<not> env_ok env ManifestRename then
               (put (d(manifest_temporary \<mapsto> bytes)), Inl (IoError ''replace cache manifest''))
             else (put (d(manifest_temporary := None, manifest_name \<mapsto> bytes)), Inr ()))"

subsection \<open>Operations\<close>

fun discard_dirs ::
    "disk_env \<Rightarrow> (info_hash \<rightharpoonup> disk_torrent) \<Rightarrow> info_hash set \<Rightarrow> string list \<Rightarrow> (string \<times> dir) list
       \<Rightarrow> (string \<times> dir) list \<times> (cache_error + unit)" where
  "discard_dirs env open_torrents keep [] dirs = (dirs, Inr ())"
| "discard_dirs env open_torrents keep (name # names) dirs =
     (if \<not> env_ok env (ListEntry name) then (dirs, Inl (IoError ''list cache directory''))
      else (case info_hash_from_str name of
              Inl _ \<Rightarrow> discard_dirs env open_torrents keep names dirs
            | Inr t \<Rightarrow>
                if t \<notin> keep \<and> open_torrents t = None then
                  (case remove_dir env dirs name of
                     (dirs', Inl e) \<Rightarrow> (dirs', Inl e)
                   | (dirs', Inr _) \<Rightarrow> discard_dirs env open_torrents keep names dirs')
                else discard_dirs env open_torrents keep names dirs))"

definition disk_discard_except ::
    "disk_env \<Rightarrow> disk_store \<Rightarrow> info_hash set \<Rightarrow> disk_store \<times> (cache_error + unit)" where
  "disk_discard_except env s keep =
     (if \<not> env_ok env ListDir then (s, Inl (IoError ''list cache directory''))
      else (case discard_dirs env (ds_torrents s) keep (map fst (ds_dirs s)) (ds_dirs s) of
              (dirs, res) \<Rightarrow> (s\<lparr>ds_dirs := dirs\<rparr>, res)))"

definition disk_restored ::
    "disk_env \<Rightarrow> disk_store \<Rightarrow> info_hash \<Rightarrow> torrent_layout \<Rightarrow> (extents list \<times> bool list \<times> nat) option" where
  "disk_restored env s t l =
     (if ds_torrents s t \<noteq> None then None
      else (case map_of (ds_dirs s) (info_hash_to_string t) of
              None \<Rightarrow> None
            | Some d \<Rightarrow> restore env d l))"

definition disk_open ::
    "disk_env \<Rightarrow> disk_store \<Rightarrow> info_hash \<Rightarrow> torrent_layout \<Rightarrow> disk_store \<times> (cache_error + recovered)" where
  "disk_open env s t l =
     (case (if disk_restored env s t l = None then remove_dir env (ds_dirs s) (info_hash_to_string t)
            else (ds_dirs s, Inr ())) of
        (dirs, Inl e) \<Rightarrow> (s\<lparr>ds_dirs := dirs\<rparr>, Inl e)
      | (dirs, Inr _) \<Rightarrow>
          if \<not> env_ok env CreateDir then
            (s\<lparr>ds_dirs := dirs\<rparr>, Inl (IoError ''create cache directory''))
          else
            (case (case disk_restored env s t l of
                     Some r \<Rightarrow> r
                   | None \<Rightarrow> (empty_extents l, replicate (piece_count l) False, 0)) of
               (xs, completed, stored) \<Rightarrow>
                 (\<lparr>ds_dirs =
                     (if map_of dirs (info_hash_to_string t) = None
                      then hm_insert (info_hash_to_string t) Map.empty dirs else dirs),
                   ds_torrents = (ds_torrents s)(t \<mapsto>
                     \<lparr>dt_layout = l, dt_dir = info_hash_to_string t, dt_extents = xs,
                      dt_completed = completed\<rparr>)\<rparr>,
                  Inr \<lparr>rec_stored_bytes = stored,
                       rec_completed_pieces = map PieceIndex (true_indexes completed)\<rparr>)))"

text \<open>A positioned write into a sparse file.\<close>

definition write_at :: "byte list \<Rightarrow> nat \<Rightarrow> byte list \<Rightarrow> byte list" where
  "write_at fl off d =
     (if d = [] then fl
      else take off (fl @ replicate (off - length fl) 0) @ d @ drop (off + length d) fl)"

definition disk_write ::
    "disk_env \<Rightarrow> disk_store \<Rightarrow> info_hash \<Rightarrow> file_index \<Rightarrow> nat \<Rightarrow> byte list
       \<Rightarrow> disk_store \<times> (cache_error + nat)" where
  "disk_write env s t f off data =
     (case ds_torrents s t of
        None \<Rightarrow> (s, Inl (UnknownTorrent t))
      | Some tor \<Rightarrow>
          (case check_range (dt_layout tor) t f off (length data) of
             Inl e \<Rightarrow> (s, Inl e)
           | Inr r \<Rightarrow>
               if data = [] then (s, Inr 0)
               else (case map_of (ds_dirs s) (dt_dir tor) of
                       None \<Rightarrow> (s, Inl (IoError ''open cache file for writing''))
                     | Some d \<Rightarrow>
                         if \<not> env_ok env OpenWrite then (s, Inl (IoError ''open cache file for writing''))
                         else
                           let old = (case d (file_name f) of Some fl \<Rightarrow> fl | None \<Rightarrow> []);
                               put = (\<lambda>fl. hm_insert (dt_dir tor) (d(file_name f \<mapsto> fl)) (ds_dirs s))
                           in if \<not> env_ok env WriteFile then
                                (s\<lparr>ds_dirs := put (write_at old off (take (env_written env) data))\<rparr>,
                                 Inl (IoError ''write cache file''))
                              else
                                let (x, added) = extents_insert (dt_extents tor ! zero_based f) r;
                                    tor' = tor\<lparr>dt_extents := (dt_extents tor)[zero_based f := x]\<rparr>;
                                    (dirs, res) = write_manifest env (put (write_at old off data)) tor';
                                    s' = \<lparr>ds_dirs = dirs, ds_torrents = (ds_torrents s)(t \<mapsto> tor')\<rparr>
                                in (case res of Inl e \<Rightarrow> (s', Inl e) | Inr _ \<Rightarrow> (s', Inr added)))))"

definition disk_read ::
    "disk_env \<Rightarrow> disk_store \<Rightarrow> info_hash \<Rightarrow> file_index \<Rightarrow> nat \<Rightarrow> nat \<Rightarrow> cache_error + byte list" where
  "disk_read env s t f off n =
     (case ds_torrents s t of
        None \<Rightarrow> Inl (UnknownTorrent t)
      | Some tor \<Rightarrow>
          (case check_range (dt_layout tor) t f off n of
             Inl e \<Rightarrow> Inl e
           | Inr r \<Rightarrow>
               if \<not> extents_covers (dt_extents tor ! zero_based f) r then Inl (Missing t f r)
               else if n = 0 then Inr []
               else (case (case map_of (ds_dirs s) (dt_dir tor) of None \<Rightarrow> None | Some d \<Rightarrow> d (file_name f)) of
                       None \<Rightarrow> Inl (IoError ''open cache file for reading'')
                     | Some fl \<Rightarrow>
                         if \<not> env_ok env OpenRead then Inl (IoError ''open cache file for reading'')
                         else if \<not> env_ok env ReadFile \<or> length fl < off + n
                         then Inl (IoError ''read cache file'')
                         else Inr (take n (drop off fl)))))"

definition disk_remove ::
    "disk_env \<Rightarrow> disk_store \<Rightarrow> info_hash \<Rightarrow> disk_store \<times> (cache_error + unit)" where
  "disk_remove env s t =
     (let s1 = s\<lparr>ds_torrents := (ds_torrents s)(t := None)\<rparr>
      in case ds_torrents s t of
           None \<Rightarrow> (s1, Inr ())
         | Some tor \<Rightarrow>
             (case remove_dir env (ds_dirs s1) (dt_dir tor) of
                (dirs, res) \<Rightarrow> (s1\<lparr>ds_dirs := dirs\<rparr>, res)))"

definition disk_piece_completed ::
    "disk_env \<Rightarrow> disk_store \<Rightarrow> info_hash \<Rightarrow> piece_index \<Rightarrow> disk_store \<times> (cache_error + unit)" where
  "disk_piece_completed env s t p =
     (case ds_torrents s t of
        None \<Rightarrow> (s, Inl (UnknownTorrent t))
      | Some tor \<Rightarrow>
          if piece_get p < length (dt_completed tor) then
            let tor' = tor\<lparr>dt_completed := (dt_completed tor)[piece_get p := True]\<rparr>;
                (dirs, res) = write_manifest env (ds_dirs s) tor'
            in (\<lparr>ds_dirs = dirs, ds_torrents = (ds_torrents s)(t \<mapsto> tor')\<rparr>, res)
          else (s, Inl (PieceOutOfRange p (length (dt_completed tor) mod U32))))"

definition disk_vt :: "disk_env \<Rightarrow> disk_store piece_store" where
  "disk_vt env =
     \<lparr>ps_open = disk_open env, ps_write = disk_write env, ps_read = disk_read env,
      ps_remove = disk_remove env, ps_piece_completed = disk_piece_completed env,
      ps_discard_except = disk_discard_except env\<rparr>"

subsection \<open>Meaning and invariant\<close>

definition disk_inv :: "disk_store \<Rightarrow> bool" where
  "disk_inv s \<longleftrightarrow>
     (\<forall>t tor. ds_torrents s t = Some tor \<longrightarrow>
        dt_dir tor = info_hash_to_string t
        \<and> (\<exists>d. map_of (ds_dirs s) (dt_dir tor) = Some d \<and> torrent_fits d tor))"

definition disk_layout :: "disk_store \<Rightarrow> info_hash \<rightharpoonup> torrent_layout" where
  "disk_layout s t = map_option dt_layout (ds_torrents s t)"

definition disk_file_content :: "dir \<Rightarrow> disk_torrent \<Rightarrow> file_index \<Rightarrow> nat \<rightharpoonup> byte" where
  "disk_file_content d tor f i =
     (if zero_based f < length (dt_extents tor) \<and> i \<in> extents_bytes (dt_extents tor ! zero_based f)
      then map_option (\<lambda>fl. fl ! i) (d (file_name f)) else None)"

definition disk_content :: "disk_store \<Rightarrow> content" where
  "disk_content s t =
     (case ds_torrents s t of
        None \<Rightarrow> (\<lambda>f. Map.empty)
      | Some tor \<Rightarrow>
          (case map_of (ds_dirs s) (dt_dir tor) of
             None \<Rightarrow> (\<lambda>f. Map.empty)
           | Some d \<Rightarrow> disk_file_content d tor))"

lemma disk_invD:
  assumes "disk_inv s" "ds_torrents s t = Some tor"
  obtains d where "dt_dir tor = info_hash_to_string t" "map_of (ds_dirs s) (info_hash_to_string t) = Some d"
    "torrent_fits d tor" "disk_content s t = disk_file_content d tor"
proof -
  from assms have d: "dt_dir tor = info_hash_to_string t"
    "\<exists>d. map_of (ds_dirs s) (dt_dir tor) = Some d \<and> torrent_fits d tor"
    unfolding disk_inv_def by blast+
  then obtain d where "map_of (ds_dirs s) (info_hash_to_string t) = Some d" "torrent_fits d tor" by auto
  with d(1) assms(2) that show ?thesis by (simp add: disk_content_def)
qed

lemma disk_inv_new [simp]: "disk_inv (disk_store_new dirs)" "disk_layout (disk_store_new dirs) = Map.empty"
  by (auto simp: disk_inv_def disk_store_new_def disk_layout_def)

text \<open>
  A change of one torrent and its directory: the frame that the operations share. Directories of
  different torrents have different names.
\<close>

lemma disk_update:
  assumes inv: "disk_inv s"
    and others: "\<And>u. u \<noteq> t \<Longrightarrow> ds_torrents s' u = ds_torrents s u"
      "\<And>n. n \<noteq> info_hash_to_string t \<Longrightarrow> map_of (ds_dirs s') n = map_of (ds_dirs s) n"
    and own: "ds_torrents s' t = None \<or> (\<exists>tor d. ds_torrents s' t = Some tor
        \<and> dt_dir tor = info_hash_to_string t \<and> map_of (ds_dirs s') (info_hash_to_string t) = Some d
        \<and> torrent_fits d tor)"
  shows "disk_inv s'" "u \<noteq> t \<Longrightarrow> disk_content s' u = disk_content s u"
    "u \<noteq> t \<Longrightarrow> disk_layout s' u = disk_layout s u"
proof -
  have names: "info_hash_to_string u \<noteq> info_hash_to_string t" if "u \<noteq> t" for u
    using that by (simp add: info_hash_to_string_inj)
  show "disk_inv s'"
    unfolding disk_inv_def
  proof (intro allI impI)
    fix u tor assume u: "ds_torrents s' u = Some tor"
    show "dt_dir tor = info_hash_to_string u
        \<and> (\<exists>d. map_of (ds_dirs s') (dt_dir tor) = Some d \<and> torrent_fits d tor)"
    proof (cases "u = t")
      case True
      with own u show ?thesis by auto
    next
      case False
      with u others(1) have "ds_torrents s u = Some tor" by simp
      from disk_invD [OF inv this] others(2) [OF names [OF False]] show ?thesis by metis
    qed
  qed
  show "disk_content s' u = disk_content s u" if u: "u \<noteq> t"
  proof (cases "ds_torrents s u")
    case None
    with others(1) [OF u] show ?thesis by (simp add: disk_content_def)
  next
    case (Some tor)
    from disk_invD [OF inv Some] have "dt_dir tor = info_hash_to_string u" by blast
    with others(1) [OF u] others(2) [OF names [OF u]] Some show ?thesis by (simp add: disk_content_def)
  qed
  show "u \<noteq> t \<Longrightarrow> disk_layout s' u = disk_layout s u" using others(1) by (simp add: disk_layout_def)
qed

subsection \<open>Directories and files\<close>

lemma dot_not_decimal: "CHR ''.'' \<notin> set (decimal i)"
  by (rule decimal_not_sep) (simp add: byte_val_def)

lemma manifest_not_decimal [simp]:
  "decimal i \<noteq> manifest_name" "decimal i \<noteq> manifest_temporary" "manifest_name \<noteq> manifest_temporary"
proof -
  have "CHR ''.'' \<in> set manifest_name" "CHR ''.'' \<in> set manifest_temporary"
    by (simp_all add: manifest_name_def manifest_temporary_def)
  then show "decimal i \<noteq> manifest_name" "decimal i \<noteq> manifest_temporary"
    using dot_not_decimal [of i] by metis+
  show "manifest_name \<noteq> manifest_temporary" by (simp add: manifest_name_def manifest_temporary_def)
qed

lemma write_manifest_props:
  assumes "write_manifest env dirs t = (dirs', res)" "map_of dirs (dt_dir t) = Some d"
  obtains d' where "map_of dirs' (dt_dir t) = Some d'" "\<And>i. d' (decimal i) = d (decimal i)"
    "\<And>n. n \<noteq> dt_dir t \<Longrightarrow> map_of dirs' n = map_of dirs n"
    "res = Inr () \<Longrightarrow> d' manifest_name = Some (to_bytes (manifest t))"
proof -
  have "(\<exists>d'. map_of dirs' (dt_dir t) = Some d' \<and> (\<forall>i. d' (decimal i) = d (decimal i))
      \<and> (res = Inr () \<longrightarrow> d' manifest_name = Some (to_bytes (manifest t))))
    \<and> (\<forall>n. n \<noteq> dt_dir t \<longrightarrow> map_of dirs' n = map_of dirs n)"
    using assms by (auto simp: write_manifest_def Let_def split: if_splits)
  with that show ?thesis by blast
qed

lemma remove_dir_props:
  assumes "remove_dir env dirs name = (dirs', res)"
  shows "n \<noteq> name \<Longrightarrow> map_of dirs' n = map_of dirs n" "res = Inr u \<Longrightarrow> map_of dirs' name = None"
  using assms by (auto simp: remove_dir_def split: option.splits if_splits)

lemma length_write_at: "d \<noteq> [] \<Longrightarrow> length (write_at fl off d) = max (length fl) (off + length d)"
  by (auto simp: write_at_def max_def)

lemma write_at_longer: "length fl \<le> length (write_at fl off d)"
  by (cases "d = []") (simp_all add: length_write_at, simp add: write_at_def)

lemma write_at_inside:
  assumes "off \<le> i" "i < off + length d"
  shows "write_at fl off d ! i = d ! (i - off)"
proof -
  have "length (take off (fl @ replicate (off - length fl) 0)) = off" by simp
  then show ?thesis using assms by (auto simp: write_at_def nth_append)
qed

lemma write_at_outside:
  "i < length fl \<Longrightarrow> i < off \<or> off + length d \<le> i \<Longrightarrow> write_at fl off d ! i = fl ! i"
  by (auto simp: write_at_def nth_append)

definition file_bytes :: "dir \<Rightarrow> nat \<Rightarrow> byte list" where
  "file_bytes d i = (case d (decimal i) of Some fl \<Rightarrow> fl | None \<Rightarrow> [])"

lemma extents_fit_same:
  "extents_fit d l i x \<Longrightarrow> d' (decimal i) = d (decimal i) \<Longrightarrow> extents_fit d' l i x"
  by (simp add: extents_fit_def)

lemma torrent_fits_same:
  "torrent_fits d t \<Longrightarrow> (\<And>i. d' (decimal i) = d (decimal i)) \<Longrightarrow> torrent_fits d' t"
  by (simp add: torrent_fits_def extents_fit_def)

lemma extents_fit_write:
  assumes "extents_fit d l i x" "d' (decimal i) = Some (write_at (file_bytes d i) off w)"
  shows "extents_fit d' l i x"
proof -
  have "b < length (write_at (file_bytes d i) off w)" if "b \<in> extents_bytes x" for b
  proof -
    from assms(1) that have "b < length (file_bytes d i)" by (auto simp: extents_fit_def file_bytes_def)
    with write_at_longer [of "file_bytes d i" off w] show ?thesis by linarith
  qed
  with assms show ?thesis by (simp add: extents_fit_def)
qed

lemma extents_fit_insert:
  assumes fit: "extents_fit d l i x" and d': "d' (decimal i) = Some (write_at (file_bytes d i) off w)"
    and r: "check_range l t (FileIndex i) off (length w) = Inr r" and w: "w \<noteq> []"
  shows "extents_fit d' l i (fst (extents_insert x r))"
proof -
  have x: "extents_wf x" and rw: "range_wf r" and rs: "range_set r = {off..<off + length w}"
    using fit r check_range_wf [OF r] by (auto simp: extents_fit_def range_set_def)
  note ins = extents_insert_wf_bytes [OF x rw]
  have "b < length (write_at (file_bytes d i) off w)" if "b \<in> extents_bytes x \<union> range_set r" for b
  proof (cases "b \<in> range_set r")
    case True
    then show ?thesis using w rs by (simp add: length_write_at less_max_iff_disj)
  next
    case False
    with that fit have "b < length (file_bytes d i)" by (auto simp: extents_fit_def file_bytes_def)
    with write_at_longer [of "file_bytes d i" off w] show ?thesis by linarith
  qed
  with fit d' r ins rs show ?thesis by (auto simp: extents_fit_def)
qed

lemma torrent_fits_update:
  assumes "torrent_fits d tor" "extents_fit d' (dt_layout tor) i x"
    and "\<And>j. j \<noteq> i \<Longrightarrow> d' (decimal j) = d (decimal j)"
  shows "torrent_fits d' (tor\<lparr>dt_extents := (dt_extents tor)[i := x]\<rparr>)"
proof -
  have "extents_fit d' (dt_layout tor) j ((dt_extents tor)[i := x] ! j)" if j: "j < file_count (dt_layout tor)" for j
  proof (cases "j = i")
    case True
    with assms(1,2) j show ?thesis by (simp add: torrent_fits_def)
  next
    case False
    from assms(1) j have "extents_fit d (dt_layout tor) j (dt_extents tor ! j)" by (simp add: torrent_fits_def)
    with False assms(3) show ?thesis by (simp add: extents_fit_def)
  qed
  with assms(1) show ?thesis by (simp add: torrent_fits_def)
qed

text \<open>Content after a write, complete or not.\<close>

lemma content_write_outside:
  assumes fit: "extents_fit d (dt_layout tor) i (dt_extents tor ! i)"
    and d': "d' (decimal i) = Some (write_at (file_bytes d i) off w)" "length w \<le> n"
    and b: "b < off \<or> off + n \<le> b" and xs: "b \<in> extents_bytes (dt_extents tor ! i) \<or> b \<notin> extents_bytes x"
    and x: "b \<in> extents_bytes (dt_extents tor ! i) \<Longrightarrow> b \<in> extents_bytes x"
    and len: "i < length (dt_extents tor)"
  shows "disk_file_content d' (tor\<lparr>dt_extents := (dt_extents tor)[i := x]\<rparr>) (FileIndex i) b
    = disk_file_content d tor (FileIndex i) b"
proof (cases "b \<in> extents_bytes (dt_extents tor ! i)")
  case True
  with fit obtain fl where fl: "d (decimal i) = Some fl" "b < length fl" by (auto simp: extents_fit_def)
  have "write_at fl off w ! b = fl ! b" using fl(2) b d'(2) by (intro write_at_outside) auto
  with fl True x len d'(1) show ?thesis by (simp add: disk_file_content_def file_name_def file_bytes_def)
next
  case False
  with xs len show ?thesis by (simp add: disk_file_content_def)
qed

lemma content_insert:
  assumes fit: "extents_fit d (dt_layout tor) i (dt_extents tor ! i)"
    and d': "d' (decimal i) = Some (write_at (file_bytes d i) off w)"
    and r: "check_range (dt_layout tor) t (FileIndex i) off (length w) = Inr r"
    and len: "i < length (dt_extents tor)"
  shows "disk_file_content d' (tor\<lparr>dt_extents := (dt_extents tor)[i := fst (extents_insert (dt_extents tor ! i) r)]\<rparr>)
      (FileIndex i) = overlay (disk_file_content d tor (FileIndex i)) off w"
proof
  fix b
  have x: "extents_wf (dt_extents tor ! i)" and rw: "range_wf r" and rs: "range_set r = {off..<off + length w}"
    using fit r check_range_wf [OF r] by (auto simp: extents_fit_def range_set_def)
  note ins = extents_insert_wf_bytes [OF x rw]
  show "disk_file_content d' (tor\<lparr>dt_extents := (dt_extents tor)[i := fst (extents_insert (dt_extents tor ! i) r)]\<rparr>)
      (FileIndex i) b = overlay (disk_file_content d tor (FileIndex i)) off w b"
  proof (cases "off \<le> b \<and> b < off + length w")
    case True
    then show ?thesis using ins rs len d' by (simp add: disk_file_content_def file_name_def write_at_inside)
  next
    case False
    then have o: "b < off \<or> off + length w \<le> b" by auto
    have "disk_file_content d' (tor\<lparr>dt_extents := (dt_extents tor)[i := fst (extents_insert (dt_extents tor ! i) r)]\<rparr>)
      (FileIndex i) b = disk_file_content d tor (FileIndex i) b"
      by (rule content_write_outside [where d = d and w = w and off = off and n = "length w"])
        (use fit d' len ins rs o in auto)
    with o show ?thesis by simp
  qed
qed

lemma content_other_file:
  assumes "j \<noteq> i" "d' (decimal j) = d (decimal j)" "length xs = length (dt_extents tor)"
    "xs ! j = dt_extents tor ! j"
  shows "disk_file_content d' (tor\<lparr>dt_extents := xs\<rparr>) (FileIndex j) = disk_file_content d tor (FileIndex j)"
  using assms by (auto simp: disk_file_content_def file_name_def)

lemma dom_disk_file_content:
  assumes "torrent_fits d tor" "i < file_count (dt_layout tor)"
  shows "dom (disk_file_content d tor (FileIndex i)) = extents_bytes (dt_extents tor ! i)"
proof (rule set_eqI)
  fix b
  have fit: "extents_fit d (dt_layout tor) i (dt_extents tor ! i)" "i < length (dt_extents tor)"
    using assms by (simp_all add: torrent_fits_def)
  show "b \<in> dom (disk_file_content d tor (FileIndex i)) \<longleftrightarrow> b \<in> extents_bytes (dt_extents tor ! i)"
  proof (cases "b \<in> extents_bytes (dt_extents tor ! i)")
    case True
    with fit obtain fl where "d (decimal i) = Some fl" by (auto simp: extents_fit_def)
    with True fit(2) show ?thesis by (simp add: disk_file_content_def file_name_def domIff)
  qed (simp add: disk_file_content_def domIff)
qed

lemma dom_disk_file_content_none:
  assumes "torrent_fits d tor" "\<not> i < file_count (dt_layout tor)"
  shows "disk_file_content d tor (FileIndex i) = Map.empty"
  using assms by (auto simp: disk_file_content_def torrent_fits_def)

subsection \<open>The operations keep the contract\<close>

lemma disk_write_ok:
  assumes inv: "disk_inv s" and w: "disk_write env s t f off data = (s', Inr n)"
  obtains l r where "disk_inv s'" "disk_layout s' = disk_layout s" "disk_layout s t = Some l"
    "check_range l t f off (length data) = Inr r"
    "disk_content s' = (disk_content s)(t := (disk_content s t)(f := overlay (disk_content s t f) off data))"
    "n = card ({off..<off + length data} - dom (disk_content s t f))"
    "data \<noteq> [] \<Longrightarrow> \<exists>tor' d'. ds_torrents s' t = Some tor' \<and> map_of (ds_dirs s') (dt_dir tor') = Some d'
       \<and> d' manifest_name = Some (to_bytes (manifest tor'))"
proof -
  from w obtain tor where tor: "ds_torrents s t = Some tor"
    by (auto simp: disk_write_def split: option.splits)
  with w obtain r where r: "check_range (dt_layout tor) t f off (length data) = Inr r"
    by (auto simp: disk_write_def split: sum.splits)
  obtain d where d: "dt_dir tor = info_hash_to_string t" "map_of (ds_dirs s) (info_hash_to_string t) = Some d"
    "torrent_fits d tor" "disk_content s t = disk_file_content d tor"
    by (rule disk_invD [OF inv tor])
  obtain i where i: "f = FileIndex i" by (cases f)
  from r obtain m where m: "file_length (dt_layout tor) f = Some m" by auto
  then have il: "i < file_count (dt_layout tor)" by (simp add: i file_length_def file_count_def)
  then have ix: "i < length (dt_extents tor)" using d(3) by (simp add: torrent_fits_def)
  have fit: "extents_fit d (dt_layout tor) i (dt_extents tor ! i)"
    using d(3) il by (simp add: torrent_fits_def)
  have rw: "extents_wf (dt_extents tor ! i)" "range_wf r" "range_set r = {off..<off + length data}"
    using fit r check_range_wf [OF r] by (auto simp: extents_fit_def range_set_def)
  have lay: "disk_layout s t = Some (dt_layout tor)" by (simp add: disk_layout_def tor)
  show ?thesis
  proof (cases "data = []")
    case True
    then have e: "s' = s" "n = 0"
      using w unfolding disk_write_def tor option.case r sum.case by simp_all
    have "overlay (disk_content s t f) off data = disk_content s t f"
      using True by (intro ext) (auto simp: overlay_def)
    then show ?thesis
      using that [of "dt_layout tor" r] inv lay r e True by simp
  next
    case False
    define x where "x = fst (extents_insert (dt_extents tor ! i) r)"
    define tor' where "tor' = tor\<lparr>dt_extents := (dt_extents tor)[i := x]\<rparr>"
    define dirs1 where "dirs1 = hm_insert (info_hash_to_string t)
      (d(file_name f \<mapsto> write_at (file_bytes d i) off data)) (ds_dirs s)"
    have fn: "file_name f = decimal i" by (simp add: file_name_def i)
    obtain dirs res where wm: "write_manifest env dirs1 tor' = (dirs, res)" by (rule prod.exhaust)
    have ws: "res = Inr ()" "s' = \<lparr>ds_dirs = dirs, ds_torrents = (ds_torrents s)(t \<mapsto> tor')\<rparr>"
      "n = snd (extents_insert (dt_extents tor ! i) r)"
      using w wm False d(1,2) unfolding disk_write_def tor option.case r sum.case
      by (auto simp: Let_def tor'_def x_def dirs1_def file_bytes_def file_name_def i
          split: if_splits prod.splits sum.splits)
    have dir1: "map_of dirs1 (dt_dir tor') = Some (d(decimal i \<mapsto> write_at (file_bytes d i) off data))"
      by (simp add: dirs1_def tor'_def d(1) fn)
    obtain d' where d': "map_of dirs (dt_dir tor') = Some d'"
      "\<And>k. d' (decimal k) = (d(decimal i \<mapsto> write_at (file_bytes d i) off data)) (decimal k)"
      "\<And>k. k \<noteq> dt_dir tor' \<Longrightarrow> map_of dirs k = map_of dirs1 k"
      "res = Inr () \<Longrightarrow> d' manifest_name = Some (to_bytes (manifest tor'))"
      using write_manifest_props [OF wm dir1] by metis
    have di: "d' (decimal i) = Some (write_at (file_bytes d i) off data)" using d'(2) [of i] by simp
    have dj: "d' (decimal j) = d (decimal j)" if "j \<noteq> i" for j
      using d'(2) [of j] that by (simp add: decimal_eq_iff)
    have ins: "extents_fit d' (dt_layout tor) i x"
      unfolding x_def using r False fit di
      by (intro extents_fit_insert [where d = d and w = data and off = off and t = t]) (simp_all add: i)
    have fits: "torrent_fits d' tor'"
      by (unfold tor'_def, rule torrent_fits_update [OF d(3) ins dj])
    have others: "map_of (ds_dirs s') k = map_of (ds_dirs s) k" if "k \<noteq> info_hash_to_string t" for k
      using that d'(3) [of k] by (simp add: ws(2) dirs1_def tor'_def d(1))
    have own: "ds_torrents s' t = Some tor'" "dt_dir tor' = info_hash_to_string t"
      "map_of (ds_dirs s') (info_hash_to_string t) = Some d'"
      using d'(1) by (simp_all add: ws(2) tor'_def d(1))
    note upd = disk_update [of s t s', OF inv _ others]
    have inv': "disk_inv s'" using own fits by (intro upd(1)) (auto simp: ws(2))
    have lay': "disk_layout s' = disk_layout s"
      by (auto simp: disk_layout_def ws(2) tor tor'_def)
    have own_content: "disk_content s' t = disk_file_content d' tor'"
      using own by (simp add: disk_content_def)
    have "disk_content s' t = (disk_content s t)(f := overlay (disk_content s t f) off data)"
    proof
      fix g
      obtain j where j: "g = FileIndex j" by (cases g)
      show "disk_content s' t g = ((disk_content s t)(f := overlay (disk_content s t f) off data)) g"
      proof (cases "j = i")
        case True
        have "disk_file_content d' tor' (FileIndex i) = overlay (disk_file_content d tor (FileIndex i)) off data"
          unfolding tor'_def x_def using r fit di ix
          by (intro content_insert [where t = t]) (simp_all add: i)
        with True j i show ?thesis by (simp add: own_content d(4))
      next
        case False
        have "disk_file_content d' tor' (FileIndex j) = disk_file_content d tor (FileIndex j)"
          unfolding tor'_def using False dj by (intro content_other_file) auto
        with False j i show ?thesis by (simp add: own_content d(4))
      qed
    qed
    moreover have "disk_content s' u = disk_content s u" if "u \<noteq> t" for u
      using that own fits by (intro upd(2)) (auto simp: ws(2))
    ultimately have cont: "disk_content s'
        = (disk_content s)(t := (disk_content s t)(f := overlay (disk_content s t f) off data))" by auto
    have n: "n = card ({off..<off + length data} - dom (disk_content s t f))"
      using extents_insert_wf_bytes(3) [OF rw(1,2)] rw(3) ws(3)
        dom_disk_file_content [OF d(3) il] by (simp add: d(4) i)
    have man: "\<exists>tor' d'. ds_torrents s' t = Some tor' \<and> map_of (ds_dirs s') (dt_dir tor') = Some d'
       \<and> d' manifest_name = Some (to_bytes (manifest tor'))"
      using own d'(4) ws(1) by auto
    show ?thesis using that [OF inv' lay' lay r cont n] man by blast
  qed
qed

text \<open>A write that touched the file: the data, or a prefix of it, is in place.\<close>

lemma disk_write_partial:
  assumes inv: "disk_inv s" and tor: "ds_torrents s t = Some tor"
    and r: "check_range (dt_layout tor) t f off (length data) = Inr r" and i: "f = FileIndex i"
    and d: "map_of (ds_dirs s) (info_hash_to_string t) = Some d" "dt_dir tor = info_hash_to_string t"
    and w: "length w \<le> length data"
    and x: "x = dt_extents tor ! i \<or> w = data \<and> data \<noteq> [] \<and> x = fst (extents_insert (dt_extents tor ! i) r)"
    and s': "ds_torrents s' = (ds_torrents s)(t \<mapsto> tor\<lparr>dt_extents := (dt_extents tor)[i := x]\<rparr>)"
      "map_of (ds_dirs s') (info_hash_to_string t) = Some d'"
      "d' (decimal i) = Some (write_at (file_bytes d i) off w)"
      "\<And>j. j \<noteq> i \<Longrightarrow> d' (decimal j) = d (decimal j)"
      "\<And>k. k \<noteq> info_hash_to_string t \<Longrightarrow> map_of (ds_dirs s') k = map_of (ds_dirs s) k"
  shows "disk_inv s'" "disk_layout s' = disk_layout s"
    "dom (disk_content s u g) \<subseteq> dom (disk_content s' u g)"
    "\<not> (u = t \<and> g = f \<and> off \<le> b \<and> b < off + length data) \<Longrightarrow> disk_content s' u g b = disk_content s u g b"
proof -
  define tor' where "tor' = tor\<lparr>dt_extents := (dt_extents tor)[i := x]\<rparr>"
  obtain d0 where d0: "map_of (ds_dirs s) (info_hash_to_string t) = Some d0"
    "torrent_fits d0 tor" "disk_content s t = disk_file_content d0 tor"
    using disk_invD [OF inv tor] by metis
  then have dd: "torrent_fits d tor" "disk_content s t = disk_file_content d tor" using d(1) by simp_all
  from r obtain m where "file_length (dt_layout tor) f = Some m" by auto
  then have il: "i < file_count (dt_layout tor)" by (simp add: i file_length_def file_count_def)
  then have ix: "i < length (dt_extents tor)" and fit: "extents_fit d (dt_layout tor) i (dt_extents tor ! i)"
    using dd(1) by (simp_all add: torrent_fits_def)
  have rw: "extents_wf (dt_extents tor ! i)" "range_wf r" "range_set r = {off..<off + length data}"
    using fit r check_range_wf [OF r] by (auto simp: extents_fit_def range_set_def)
  have xfit: "extents_fit d' (dt_layout tor) i x"
    using x r s'(3) fit extents_fit_write [where d = d and d' = d' and w = w]
      extents_fit_insert [where d = d and d' = d' and w = w and t = t and r = r] by (auto simp: i)
  have xb: "extents_bytes (dt_extents tor ! i) \<subseteq> extents_bytes x"
    "extents_bytes x \<subseteq> extents_bytes (dt_extents tor ! i) \<union> {off..<off + length data}"
    using x extents_insert_wf_bytes(2) [OF rw(1,2)] rw(3) by auto
  have fits: "torrent_fits d' tor'"
    by (unfold tor'_def, rule torrent_fits_update [OF dd(1) xfit s'(4)])
  have others: "ds_torrents s' v = ds_torrents s v" if "v \<noteq> t" for v using that by (simp add: s'(1))
  have own: "\<exists>tor d. ds_torrents s' t = Some tor \<and> dt_dir tor = info_hash_to_string t
      \<and> map_of (ds_dirs s') (info_hash_to_string t) = Some d \<and> torrent_fits d tor"
    using fits s'(2) d(2) unfolding s'(1) tor'_def by auto
  note upd = disk_update [of s t s', OF inv others s'(5) disjI2 [OF own]]
  show "disk_inv s'" by (rule upd(1))
  show "disk_layout s' = disk_layout s"
    by (auto simp: disk_layout_def s'(1) tor)
  have own_content: "disk_content s' t = disk_file_content d' tor'"
    using s'(1,2) d(2) by (simp add: disk_content_def tor'_def)
  have outside: "disk_content s' u g b = disk_content s u g b"
    if o: "\<not> (u = t \<and> g = f \<and> off \<le> b \<and> b < off + length data)" for u g b
  proof (cases "u = t")
    case False
    then show ?thesis using upd(2) by simp
  next
    case True
    obtain j where j: "g = FileIndex j" by (cases g)
    show ?thesis
    proof (cases "j = i")
      case True
      have "b < off \<or> off + length data \<le> b" using o True j i \<open>u = t\<close> by auto
      then have "disk_file_content d' tor' (FileIndex i) b = disk_file_content d tor (FileIndex i) b"
        unfolding tor'_def using fit s'(3) w ix xb
        by (intro content_write_outside [where d = d and w = w and off = off and n = "length data"]) auto
      with True j \<open>u = t\<close> show ?thesis by (simp add: own_content dd(2))
    next
      case False
      have "disk_file_content d' tor' (FileIndex j) = disk_file_content d tor (FileIndex j)"
        unfolding tor'_def using False s'(4) by (intro content_other_file) auto
      with j \<open>u = t\<close> show ?thesis by (simp add: own_content dd(2))
    qed
  qed
  then show "\<not> (u = t \<and> g = f \<and> off \<le> b \<and> b < off + length data)
      \<Longrightarrow> disk_content s' u g b = disk_content s u g b" .
  show "dom (disk_content s u g) \<subseteq> dom (disk_content s' u g)"
  proof (cases "u = t \<and> g = f")
    case True
    have "dom (disk_file_content d' tor' (FileIndex i)) = extents_bytes x"
      using dom_disk_file_content [OF fits, of i] il ix by (simp add: tor'_def)
    moreover have "dom (disk_file_content d tor (FileIndex i)) = extents_bytes (dt_extents tor ! i)"
      by (rule dom_disk_file_content [OF dd(1) il])
    ultimately show ?thesis using True xb(1) by (simp add: own_content dd(2) i)
  next
    case False
    then have "disk_content s' u g = disk_content s u g" using outside by blast
    then show ?thesis by simp
  qed
qed

lemma disk_write_err:
  assumes inv: "disk_inv s" and w: "disk_write env s t f off data = (s', Inl e)"
  shows "disk_inv s' \<and> disk_layout s' = disk_layout s
    \<and> (\<forall>u g. dom (disk_content s u g) \<subseteq> dom (disk_content s' u g))
    \<and> (\<forall>u g b. \<not> (u = t \<and> g = f \<and> off \<le> b \<and> b < off + length data)
         \<longrightarrow> disk_content s' u g b = disk_content s u g b)"
proof (cases "s' = s")
  case True
  then show ?thesis using inv by simp
next
  case False
  from w False obtain tor where tor: "ds_torrents s t = Some tor"
    by (auto simp: disk_write_def split: option.splits)
  with w False obtain r where r: "check_range (dt_layout tor) t f off (length data) = Inr r"
    by (auto simp: disk_write_def split: sum.splits)
  obtain d where d: "dt_dir tor = info_hash_to_string t" "map_of (ds_dirs s) (info_hash_to_string t) = Some d"
    by (rule disk_invD [OF inv tor])
  obtain i where i: "f = FileIndex i" by (cases f)
  have fn: "file_name f = decimal i" by (simp add: file_name_def i)
  have ne: "data \<noteq> []" and opn: "env_ok env OpenWrite"
    using w False unfolding disk_write_def tor option.case r sum.case
    by (auto simp: d split: if_splits)
  show ?thesis
  proof (cases "env_ok env WriteFile")
    case False
    define d' where "d' = d(decimal i \<mapsto> write_at (file_bytes d i) off (take (env_written env) data))"
    have s': "s' = s\<lparr>ds_dirs := hm_insert (info_hash_to_string t) d' (ds_dirs s)\<rparr>"
      using w False ne opn unfolding disk_write_def tor option.case r sum.case
      by (simp add: d Let_def i file_name_def d'_def file_bytes_def)
    have tr: "ds_torrents s' = (ds_torrents s)(t \<mapsto> tor\<lparr>dt_extents := (dt_extents tor)[i := dt_extents tor ! i]\<rparr>)"
      by (auto simp: s' tor)
    note P = disk_write_partial [OF inv tor r i d(2,1), of "take (env_written env) data" "dt_extents tor ! i" s' d', OF _ _ tr]
    have "disk_inv s'" "disk_layout s' = disk_layout s"
      "dom (disk_content s u g) \<subseteq> dom (disk_content s' u g)"
      "\<not> (u = t \<and> g = f \<and> off \<le> b \<and> b < off + length data) \<Longrightarrow> disk_content s' u g b = disk_content s u g b"
      for u g b
      by (rule P; simp add: s' d'_def decimal_eq_iff)+
    then show ?thesis by blast
  next
    case True
    define x where "x = fst (extents_insert (dt_extents tor ! i) r)"
    define tor' where "tor' = tor\<lparr>dt_extents := (dt_extents tor)[i := x]\<rparr>"
    define dirs1 where "dirs1 = hm_insert (info_hash_to_string t)
      (d(decimal i \<mapsto> write_at (file_bytes d i) off data)) (ds_dirs s)"
    obtain dirs res where wm: "write_manifest env dirs1 tor' = (dirs, res)" by (rule prod.exhaust)
    have ws: "s' = \<lparr>ds_dirs = dirs, ds_torrents = (ds_torrents s)(t \<mapsto> tor')\<rparr>"
      using w wm True ne opn d(1,2) unfolding disk_write_def tor option.case r sum.case
      by (auto simp: Let_def tor'_def x_def dirs1_def file_bytes_def file_name_def i
          split: if_splits prod.splits sum.splits)
    have dir1: "map_of dirs1 (dt_dir tor') = Some (d(decimal i \<mapsto> write_at (file_bytes d i) off data))"
      by (simp add: dirs1_def tor'_def d(1))
    obtain d' where d': "map_of dirs (dt_dir tor') = Some d'"
      "\<And>k. d' (decimal k) = (d(decimal i \<mapsto> write_at (file_bytes d i) off data)) (decimal k)"
      "\<And>k. k \<noteq> dt_dir tor' \<Longrightarrow> map_of dirs k = map_of dirs1 k"
      using write_manifest_props [OF wm dir1] by metis
    have tr: "ds_torrents s' = (ds_torrents s)(t \<mapsto> tor\<lparr>dt_extents := (dt_extents tor)[i := x]\<rparr>)"
      by (simp add: ws tor'_def)
    have own: "map_of (ds_dirs s') (info_hash_to_string t) = Some d'"
      "d' (decimal i) = Some (write_at (file_bytes d i) off data)"
      "\<And>j. j \<noteq> i \<Longrightarrow> d' (decimal j) = d (decimal j)"
      "\<And>k. k \<noteq> info_hash_to_string t \<Longrightarrow> map_of (ds_dirs s') k = map_of (ds_dirs s) k"
      using d'(1,3) d'(2) by (simp_all add: ws tor'_def d(1) dirs1_def decimal_eq_iff)
    note P = disk_write_partial [OF inv tor r i d(2,1), of data x s' d', OF order_refl _ tr own]
    have "disk_inv s'" "disk_layout s' = disk_layout s"
      "dom (disk_content s u g) \<subseteq> dom (disk_content s' u g)"
      "\<not> (u = t \<and> g = f \<and> off \<le> b \<and> b < off + length data) \<Longrightarrow> disk_content s' u g b = disk_content s u g b"
      for u g b
      by (rule P; simp add: x_def ne)+
    then show ?thesis by blast
  qed
qed

lemma disk_read_ok:
  assumes inv: "disk_inv s" and rd: "disk_read env s t f off n = Inr bs"
  shows "length bs = n \<and> (\<forall>k < n. disk_content s t f (off + k) = Some (bs ! k))"
proof (cases "n = 0")
  case True
  then show ?thesis using rd by (auto simp: disk_read_def split: option.splits sum.splits if_splits)
next
  case False
  from rd obtain tor where tor: "ds_torrents s t = Some tor"
    by (auto simp: disk_read_def split: option.splits)
  with rd obtain r where r: "check_range (dt_layout tor) t f off n = Inr r"
    by (auto simp: disk_read_def split: sum.splits)
  obtain d where d: "dt_dir tor = info_hash_to_string t" "map_of (ds_dirs s) (info_hash_to_string t) = Some d"
    "torrent_fits d tor" "disk_content s t = disk_file_content d tor"
    by (rule disk_invD [OF inv tor])
  from r obtain m where m: "file_length (dt_layout tor) f = Some m" by auto
  then have il: "zero_based f < file_count (dt_layout tor)" by (simp add: file_length_def file_count_def)
  then have ix: "zero_based f < length (dt_extents tor)" and wf: "extents_wf (dt_extents tor ! zero_based f)"
    using d(3) by (simp_all add: torrent_fits_def extents_fit_def)
  from rd False obtain fl where fl: "extents_covers (dt_extents tor ! zero_based f) r" "d (file_name f) = Some fl"
    "off + n \<le> length fl" "bs = take n (drop off fl)"
    unfolding disk_read_def tor option.case r sum.case
    by (auto simp: d not_less split: if_splits option.splits)
  have cov: "{off..<off + n} \<subseteq> extents_bytes (dt_extents tor ! zero_based f)"
    using fl(1) extents_covers_iff [OF wf check_range_wf [OF r]] r by (auto simp: range_set_def)
  show ?thesis
    using fl(2-4) cov ix by (auto simp: d(4) disk_file_content_def subset_iff)
qed

lemma disk_read_missing:
  assumes inv: "disk_inv s" and l: "disk_layout s t = Some l" and r: "check_range l t f off n = Inr r"
    and b: "b \<in> range_set r" "disk_content s t f b = None"
  shows "disk_read env s t f off n = Inl (Missing t f r)"
proof -
  from l obtain tor where tor: "ds_torrents s t = Some tor" "dt_layout tor = l" by (auto simp: disk_layout_def)
  obtain d where d: "torrent_fits d tor" "disk_content s t = disk_file_content d tor"
    by (rule disk_invD [OF inv tor(1)])
  from r obtain m where m: "file_length l f = Some m" by auto
  then have il: "zero_based f < file_count (dt_layout tor)"
    by (simp add: file_length_def file_count_def tor(2))
  then have wf: "extents_wf (dt_extents tor ! zero_based f)"
    using d(1) by (simp add: torrent_fits_def extents_fit_def)
  have "dom (disk_content s t f) = extents_bytes (dt_extents tor ! zero_based f)"
    using dom_disk_file_content [OF d(1) il] by (simp add: d(2))
  then have "b \<notin> extents_bytes (dt_extents tor ! zero_based f)" using b(2) by auto
  then have "\<not> extents_covers (dt_extents tor ! zero_based f) r"
    using extents_covers_iff [OF wf check_range_wf [OF r]] b(1) by auto
  then show ?thesis unfolding disk_read_def tor option.case r sum.case by simp
qed

lemma extents_default_fit [simp]: "extents_fit d l i extents_default"
  by (simp add: extents_fit_def)

lemma held_disk_content:
  assumes "torrent_fits d tor"
  shows "held (disk_file_content d tor) (dt_layout tor) = sum_list (map ex_total (dt_extents tor))"
proof -
  have "card (dom (disk_file_content d tor (FileIndex i))) = ex_total (dt_extents tor ! i)"
    if "i < file_count (dt_layout tor)" for i
    using dom_disk_file_content [OF assms that] assms that
    by (simp add: torrent_fits_def extents_fit_def extents_wf_def)
  then have "held (disk_file_content d tor) (dt_layout tor)
      = (\<Sum>i < file_count (dt_layout tor). ex_total (dt_extents tor ! i))"
    by (simp add: held_def)
  also have "\<dots> = sum_list (map ex_total (dt_extents tor))"
    using assms by (simp add: torrent_fits_def sum_list_sum_nth atLeast0LessThan)
  finally show ?thesis .
qed

text \<open>An open of a torrent that is not open: what is registered, and what the directory holds.\<close>

lemma disk_open_cases:
  assumes inv: "disk_inv s" and l: "layout_wf l" and fresh: "ds_torrents s t = None"
    and o: "disk_open env s t l = (s', res)"
  shows "\<And>k. k \<noteq> info_hash_to_string t \<Longrightarrow> map_of (ds_dirs s') k = map_of (ds_dirs s) k"
    and "\<And>u. u \<noteq> t \<Longrightarrow> ds_torrents s' u = ds_torrents s u"
    and "res = Inl e \<Longrightarrow> ds_torrents s' t = None"
    and "res = Inr rc \<Longrightarrow> \<exists>tor d. ds_torrents s' t = Some tor \<and> dt_layout tor = l
        \<and> dt_dir tor = info_hash_to_string t
        \<and> map_of (ds_dirs s') (info_hash_to_string t) = Some d \<and> torrent_fits d tor
        \<and> rec_stored_bytes rc = sum_list (map ex_total (dt_extents tor))
        \<and> rec_completed_pieces rc = map PieceIndex (true_indexes (dt_completed tor))"
proof -
  define name where "name = info_hash_to_string t"
  define restored where "restored = disk_restored env s t l"
  obtain dirs1 res1 where rm:
    "(if restored = None then remove_dir env (ds_dirs s) name else (ds_dirs s, Inr ())) = (dirs1, res1)"
    by (rule prod.exhaust)
  have dirs1: "\<And>k. k \<noteq> name \<Longrightarrow> map_of dirs1 k = map_of (ds_dirs s) k"
    "restored = None \<Longrightarrow> res1 = Inr u \<Longrightarrow> map_of dirs1 name = None"
    "restored \<noteq> None \<Longrightarrow> dirs1 = ds_dirs s" for u
  proof -
    show "map_of dirs1 k = map_of (ds_dirs s) k" if "k \<noteq> name" for k
    proof (cases "restored = None")
      case True
      with rm have "remove_dir env (ds_dirs s) name = (dirs1, res1)" by simp
      from remove_dir_props(1) [OF this that] show ?thesis .
    next
      case False
      with rm show ?thesis by simp
    qed
    show "map_of dirs1 name = None" if "restored = None" "res1 = Inr u"
    proof -
      from rm that have "remove_dir env (ds_dirs s) name = (dirs1, Inr u)" by simp
      from remove_dir_props(2) [OF this refl] show ?thesis .
    qed
    show "dirs1 = ds_dirs s" if "restored \<noteq> None" using rm that by simp
  qed
  define dirs2 where "dirs2 = (if map_of dirs1 name = None then hm_insert name Map.empty dirs1 else dirs1)"
  define r where "r = (case restored of Some r \<Rightarrow> r | None \<Rightarrow> (empty_extents l, replicate (piece_count l) False, 0))"
  obtain xs completed stored where rr: "r = (xs, completed, stored)" by (cases r)
  define tor where "tor = \<lparr>dt_layout = l, dt_dir = name, dt_extents = xs, dt_completed = completed\<rparr>"
  have eq: "disk_open env s t l =
     (case res1 of
        Inl e \<Rightarrow> (s\<lparr>ds_dirs := dirs1\<rparr>, Inl e)
      | Inr _ \<Rightarrow>
          if \<not> env_ok env CreateDir then (s\<lparr>ds_dirs := dirs1\<rparr>, Inl (IoError ''create cache directory''))
          else (\<lparr>ds_dirs = dirs2, ds_torrents = (ds_torrents s)(t \<mapsto> tor)\<rparr>,
                Inr \<lparr>rec_stored_bytes = stored,
                     rec_completed_pieces = map PieceIndex (true_indexes completed)\<rparr>))"
    unfolding disk_open_def restored_def [symmetric] name_def [symmetric] rm prod.case
      r_def [symmetric] rr dirs2_def [symmetric] tor_def ..
  have dirs2: "k \<noteq> name \<Longrightarrow> map_of dirs2 k = map_of (ds_dirs s) k" for k
    using dirs1(1) by (simp add: dirs2_def)
  show "\<And>k. k \<noteq> info_hash_to_string t \<Longrightarrow> map_of (ds_dirs s') k = map_of (ds_dirs s) k"
    "\<And>u. u \<noteq> t \<Longrightarrow> ds_torrents s' u = ds_torrents s u"
    "res = Inl e \<Longrightarrow> ds_torrents s' t = None"
    using o fresh dirs1(1) dirs2 unfolding eq name_def [symmetric]
    by (auto split: sum.splits if_splits)
  assume "res = Inr rc"
  with o have s': "s' = \<lparr>ds_dirs = dirs2, ds_torrents = (ds_torrents s)(t \<mapsto> tor)\<rparr>"
    "rc = \<lparr>rec_stored_bytes = stored, rec_completed_pieces = map PieceIndex (true_indexes completed)\<rparr>"
    and r1: "\<exists>u. res1 = Inr u"
    unfolding eq by (auto split: sum.splits if_splits)
  obtain d where d: "map_of dirs2 name = Some d" by (cases "map_of dirs1 name") (auto simp: dirs2_def)
  have "torrent_fits d tor \<and> stored = sum_list (map ex_total xs)"
  proof (cases restored)
    case None
    then show ?thesis
      using rr l by (auto simp: torrent_fits_def tor_def r_def empty_extents_def file_count_def
          extents_default_def sum_list_replicate) (simp add: extents_fit_def extents_default_def [symmetric])
  next
    case (Some q)
    then obtain d0 where d0: "map_of (ds_dirs s) name = Some d0" "restore env d0 l = Some q"
      by (auto simp: restored_def disk_restored_def name_def split: option.splits if_splits)
    have "d = d0" using d d0(1) dirs1(3) Some by (simp add: dirs2_def)
    moreover have "q = (xs, completed, stored)" using rr Some by (simp add: r_def)
    ultimately have "restore env d l = Some (xs, completed, stored)" using d0(2) by simp
    from restore_fit [OF this] l show ?thesis by (simp add: torrent_fits_def tor_def)
  qed
  then show "\<exists>tor d. ds_torrents s' t = Some tor \<and> dt_layout tor = l
        \<and> dt_dir tor = info_hash_to_string t
        \<and> map_of (ds_dirs s') (info_hash_to_string t) = Some d \<and> torrent_fits d tor
        \<and> rec_stored_bytes rc = sum_list (map ex_total (dt_extents tor))
        \<and> rec_completed_pieces rc = map PieceIndex (true_indexes (dt_completed tor))"
    using d by (intro exI [of _ tor] exI [of _ d]) (simp add: s' tor_def name_def)
qed

lemma disk_open_ok:
  assumes inv: "disk_inv s" and l: "layout_wf l" and fresh: "disk_layout s t = None"
    and o: "disk_open env s t l = (s', Inr rc)"
  shows "disk_inv s' \<and> disk_layout s' = (disk_layout s)(t \<mapsto> l)
    \<and> (\<forall>u. u \<noteq> t \<longrightarrow> disk_content s' u = disk_content s u)
    \<and> rec_stored_bytes rc = held (disk_content s' t) l
    \<and> (\<forall>p \<in> set (rec_completed_pieces rc). piece_get p < piece_count l)"
proof -
  from fresh have f: "ds_torrents s t = None" by (simp add: disk_layout_def)
  note C = disk_open_cases [OF inv l f o]
  from C(4) [OF refl] obtain tor d where t: "ds_torrents s' t = Some tor" "dt_layout tor = l"
    "dt_dir tor = info_hash_to_string t" "map_of (ds_dirs s') (info_hash_to_string t) = Some d"
    "torrent_fits d tor" "rec_stored_bytes rc = sum_list (map ex_total (dt_extents tor))"
    "rec_completed_pieces rc = map PieceIndex (true_indexes (dt_completed tor))" by blast
  have own: "ds_torrents s' t = None \<or> (\<exists>tor d. ds_torrents s' t = Some tor
      \<and> dt_dir tor = info_hash_to_string t \<and> map_of (ds_dirs s') (info_hash_to_string t) = Some d
      \<and> torrent_fits d tor)" using t by blast
  note upd = disk_update [of s t s', OF inv C(2,1) own]
  have "disk_layout s' = (disk_layout s)(t \<mapsto> l)"
  proof
    fix u show "disk_layout s' u = ((disk_layout s)(t \<mapsto> l)) u"
      using upd(3) [of u] t(1,2) by (cases "u = t") (simp_all add: disk_layout_def)
  qed
  moreover have "disk_content s' t = disk_file_content d tor" using t by (simp add: disk_content_def)
  moreover have "\<forall>p \<in> set (rec_completed_pieces rc). piece_get p < piece_count l"
    using t(2,5,7) by (auto simp: torrent_fits_def)
  ultimately show ?thesis using upd(1,2) held_disk_content [OF t(5)] t(2,6) by simp
qed

lemma disk_open_err:
  assumes inv: "disk_inv s" and l: "layout_wf l" and fresh: "disk_layout s t = None"
    and o: "disk_open env s t l = (s', Inl e)"
  shows "disk_inv s' \<and> disk_layout s' = disk_layout s \<and> disk_content s' = disk_content s"
proof -
  from fresh have f: "ds_torrents s t = None" by (simp add: disk_layout_def)
  note C = disk_open_cases [OF inv l f o]
  note upd = disk_update [of s t s', OF inv C(2,1) disjI1 [OF C(3) [OF refl]]]
  have "disk_layout s' = disk_layout s"
  proof
    fix u show "disk_layout s' u = disk_layout s u"
      using upd(3) [of u] C(3) f by (cases "u = t") (simp_all add: disk_layout_def)
  qed
  moreover have "disk_content s' = disk_content s"
  proof
    fix u show "disk_content s' u = disk_content s u"
      using upd(2) [of u] C(3) f by (cases "u = t") (simp_all add: disk_content_def)
  qed
  ultimately show ?thesis using upd(1) by simp
qed

lemma disk_remove_props:
  assumes inv: "disk_inv s" and o: "disk_remove env s t = (s', res)"
  shows "disk_inv s'" "disk_layout s' = (disk_layout s)(t := None)"
    "u \<noteq> t \<Longrightarrow> disk_content s' u = disk_content s u"
proof -
  have t: "ds_torrents s' = (ds_torrents s)(t := None)"
    using o by (auto simp: disk_remove_def Let_def split: option.splits prod.splits)
  have d: "map_of (ds_dirs s') k = map_of (ds_dirs s) k" if "k \<noteq> info_hash_to_string t" for k
  proof (cases "ds_torrents s t")
    case None
    then show ?thesis using o by (auto simp: disk_remove_def Let_def)
  next
    case (Some tor)
    have "dt_dir tor = info_hash_to_string t" using disk_invD [OF inv Some] by metis
    with Some o obtain dirs where "remove_dir env (ds_dirs s) (info_hash_to_string t) = (dirs, res)"
      "ds_dirs s' = dirs" by (auto simp: disk_remove_def Let_def split: prod.splits)
    with remove_dir_props(1) that show ?thesis by metis
  qed
  have o1: "v \<noteq> t \<Longrightarrow> ds_torrents s' v = ds_torrents s v" for v by (simp add: t)
  have o2: "ds_torrents s' t = None" by (simp add: t)
  note upd = disk_update [of s t s', OF inv o1 d disjI1 [OF o2]]
  show "disk_inv s'" by (rule upd(1))
  show "u \<noteq> t \<Longrightarrow> disk_content s' u = disk_content s u" by (rule upd(2))
  show "disk_layout s' = (disk_layout s)(t := None)" by (auto simp: disk_layout_def t)
qed

lemma disk_piece_completed_frame:
  assumes inv: "disk_inv s" and o: "disk_piece_completed env s t p = (s', res)"
  shows "disk_inv s' \<and> disk_layout s' = disk_layout s \<and> disk_content s' = disk_content s"
proof (cases "s' = s")
  case True
  then show ?thesis using inv by simp
next
  case False
  from o False obtain tor where tor: "ds_torrents s t = Some tor"
    by (auto simp: disk_piece_completed_def split: option.splits)
  obtain d where d: "dt_dir tor = info_hash_to_string t" "map_of (ds_dirs s) (info_hash_to_string t) = Some d"
    "torrent_fits d tor" "disk_content s t = disk_file_content d tor"
    by (rule disk_invD [OF inv tor])
  define tor' where "tor' = tor\<lparr>dt_completed := (dt_completed tor)[piece_get p := True]\<rparr>"
  have d1: "map_of (ds_dirs s) (dt_dir tor') = Some d" by (simp add: tor'_def d)
  from o False obtain dirs where wm: "write_manifest env (ds_dirs s) tor' = (dirs, res)"
    and s': "s' = \<lparr>ds_dirs = dirs, ds_torrents = (ds_torrents s)(t \<mapsto> tor')\<rparr>"
    by (auto simp: disk_piece_completed_def tor Let_def tor'_def split: if_splits prod.splits)
  obtain d' where d': "map_of dirs (dt_dir tor') = Some d'" "\<And>i. d' (decimal i) = d (decimal i)"
    "\<And>n. n \<noteq> dt_dir tor' \<Longrightarrow> map_of dirs n = map_of (ds_dirs s) n"
    using write_manifest_props [OF wm d1] by metis
  have "torrent_fits d tor'" using d(3) by (simp add: torrent_fits_def tor'_def)
  then have fits: "torrent_fits d' tor'" using d'(2) by (rule torrent_fits_same)
  have o1: "v \<noteq> t \<Longrightarrow> ds_torrents s' v = ds_torrents s v" for v by (simp add: s')
  have o2: "k \<noteq> info_hash_to_string t \<Longrightarrow> map_of (ds_dirs s') k = map_of (ds_dirs s) k" for k
    using d'(3) by (simp add: s' tor'_def d(1))
  have own: "\<exists>tor d. ds_torrents s' t = Some tor
      \<and> dt_dir tor = info_hash_to_string t \<and> map_of (ds_dirs s') (info_hash_to_string t) = Some d
      \<and> torrent_fits d tor"
    using fits d'(1) by (simp add: s' tor'_def d(1))
  note upd = disk_update [of s t s', OF inv o1 o2 disjI2 [OF own]]
  have "disk_content s' t = disk_content s t"
  proof (intro ext)
    fix f i show "disk_content s' t f i = disk_content s t f i"
      using d' d by (simp add: disk_content_def s' tor'_def tor disk_file_content_def file_name_def)
  qed
  moreover have "disk_layout s' = disk_layout s" by (auto simp: disk_layout_def s' tor'_def tor)
  ultimately show ?thesis using upd(1,2) by (metis ext)
qed

lemma discard_dirs_open:
  assumes "discard_dirs env op keep names dirs = (dirs', res)" "op u \<noteq> None"
  shows "map_of dirs' (info_hash_to_string u) = map_of dirs (info_hash_to_string u)"
  using assms
proof (induction names arbitrary: dirs)
  case (Cons name names)
  show ?case
  proof (cases "\<exists>t. env_ok env (ListEntry name) \<and> info_hash_from_str name = Inr t \<and> t \<notin> keep \<and> op t = None")
    case False
    with Cons.prems(1) have "dirs' = dirs \<or> discard_dirs env op keep names dirs = (dirs', res)"
      by (auto split: if_splits sum.splits)
    then show ?thesis using Cons.IH Cons.prems(2) by auto
  next
    case True
    then obtain t where t: "env_ok env (ListEntry name)" "info_hash_from_str name = Inr t" "t \<notin> keep" "op t = None"
      by blast
    have other: "name \<noteq> info_hash_to_string u"
    proof
      assume "name = info_hash_to_string u"
      with print_parse_hash(2) [OF t(2)] have "info_hash_to_string t = info_hash_to_string u"
        by (simp add: info_hash_to_string_lower)
      with t(4) Cons.prems(2) show False by (simp add: info_hash_to_string_inj)
    qed
    obtain dirs1 r where rm: "remove_dir env dirs name = (dirs1, r)" by (rule prod.exhaust)
    have "map_of dirs1 (info_hash_to_string u) = map_of dirs (info_hash_to_string u)"
      using remove_dir_props(1) [OF rm] other by metis
    moreover have "dirs' = dirs1 \<or> discard_dirs env op keep names dirs1 = (dirs', res)"
      using Cons.prems(1) t rm by (auto split: sum.splits)
    ultimately show ?thesis using Cons.IH Cons.prems(2) by auto
  qed
qed simp

lemma disk_discard_frame:
  assumes inv: "disk_inv s" and o: "disk_discard_except env s keep = (s', res)"
  shows "disk_inv s' \<and> disk_layout s' = disk_layout s \<and> disk_content s' = disk_content s"
proof (cases "s' = s")
  case True
  then show ?thesis using inv by simp
next
  case False
  then obtain dirs where dd: "discard_dirs env (ds_torrents s) keep (map fst (ds_dirs s)) (ds_dirs s) = (dirs, res)"
    and s': "s' = s\<lparr>ds_dirs := dirs\<rparr>"
    using o by (auto simp: disk_discard_except_def split: if_splits prod.splits)
  have same: "map_of dirs (info_hash_to_string u) = map_of (ds_dirs s) (info_hash_to_string u)"
    if "ds_torrents s u \<noteq> None" for u
    by (rule discard_dirs_open [OF dd that])
  have nm: "dt_dir tor = info_hash_to_string u" if "ds_torrents s u = Some tor" for u tor
    using disk_invD [OF inv that] by metis
  have "disk_inv s'"
    using inv same nm unfolding disk_inv_def s' by auto
  moreover have "disk_content s' = disk_content s"
  proof
    fix u show "disk_content s' u = disk_content s u"
      using same nm by (cases "ds_torrents s u") (auto simp: disk_content_def s')
  qed
  ultimately show ?thesis by (simp add: disk_layout_def s' fun_eq_iff)
qed

lemma disk_content_bounds:
  assumes inv: "disk_inv s" and l: "disk_layout s t = Some l" and f: "file_length l f = Some n"
  shows "dom (disk_content s t f) \<subseteq> {..<n}"
proof -
  from l obtain tor where tor: "ds_torrents s t = Some tor" "dt_layout tor = l" by (auto simp: disk_layout_def)
  obtain d where d: "torrent_fits d tor" "disk_content s t = disk_file_content d tor"
    by (rule disk_invD [OF inv tor(1)])
  obtain i where i: "f = FileIndex i" by (cases f)
  from f have il: "i < file_count (dt_layout tor)"
    by (simp add: file_length_def file_count_def tor(2) i)
  then have "extents_fit d (dt_layout tor) i (dt_extents tor ! i)" using d(1) by (simp add: torrent_fits_def)
  with f show ?thesis
    using dom_disk_file_content [OF d(1) il] by (simp add: d(2) i tor(2) extents_fit_def)
qed

interpretation disk: piece_store_contract "disk_vt env" disk_inv disk_layout disk_content for env
proof (unfold_locales, unfold disk_vt_def piece_store.select_convs)
  fix s t l f n
  assume "disk_inv s" "disk_layout s t = Some l" "file_length l f = Some n"
  then show "dom (disk_content s t f) \<subseteq> {..<n}" by (rule disk_content_bounds)
next
  fix s l t s' rc
  assume "disk_inv s" "layout_wf l" "disk_layout s t = None" "disk_open env s t l = (s', Inr rc)"
  then show "disk_inv s' \<and> disk_layout s' = (disk_layout s)(t \<mapsto> l)
      \<and> (\<forall>t'. t' \<noteq> t \<longrightarrow> disk_content s' t' = disk_content s t')
      \<and> rec_stored_bytes rc = held (disk_content s' t) l
      \<and> (\<forall>p \<in> set (rec_completed_pieces rc). piece_get p < piece_count l)"
    by (rule disk_open_ok)
next
  fix s l t s' e
  assume "disk_inv s" "layout_wf l" "disk_layout s t = None" "disk_open env s t l = (s', Inl e)"
  then show "disk_inv s' \<and> disk_layout s' = disk_layout s \<and> disk_content s' = disk_content s"
    by (rule disk_open_err)
next
  fix s t f off d s' n
  assume "disk_inv s" "disk_write env s t f off d = (s', Inr n)"
  then show "disk_inv s' \<and> disk_layout s' = disk_layout s
      \<and> (\<exists>l r. disk_layout s t = Some l \<and> check_range l t f off (length d) = Inr r)
      \<and> disk_content s' = (disk_content s)(t := (disk_content s t)(f := overlay (disk_content s t f) off d))
      \<and> n = card ({off..<off + length d} - dom (disk_content s t f))"
    by (rule disk_write_ok) blast
next
  fix s t f off d s' e
  assume "disk_inv s" "disk_write env s t f off d = (s', Inl e)"
  then show "disk_inv s' \<and> disk_layout s' = disk_layout s
      \<and> (\<forall>t' f'. dom (disk_content s t' f') \<subseteq> dom (disk_content s' t' f'))
      \<and> (\<forall>t' f' i. \<not> (t' = t \<and> f' = f \<and> off \<le> i \<and> i < off + length d)
            \<longrightarrow> disk_content s' t' f' i = disk_content s t' f' i)"
    by (rule disk_write_err)
next
  fix s t f off n bs
  assume "disk_inv s" "disk_read env s t f off n = Inr bs"
  then show "length bs = n \<and> (\<forall>k < n. disk_content s t f (off + k) = Some (bs ! k))"
    by (rule disk_read_ok)
next
  fix s t l f off n r i
  assume "disk_inv s" "disk_layout s t = Some l" "check_range l t f off n = Inr r"
    "i \<in> range_set r" "disk_content s t f i = None"
  then show "disk_read env s t f off n = Inl (Missing t f r)" by (rule disk_read_missing)
next
  fix s t s' u
  assume "disk_inv s" "disk_remove env s t = (s', Inr u)"
  from disk_remove_props [OF this]
  show "disk_inv s' \<and> disk_layout s' = (disk_layout s)(t := None)
      \<and> (\<forall>t'. t' \<noteq> t \<longrightarrow> disk_content s' t' = disk_content s t')" by simp
next
  fix s t s' e
  assume "disk_inv s" "disk_remove env s t = (s', Inl e)"
  from disk_remove_props [OF this]
  show "disk_inv s'
      \<and> (disk_layout s' t = disk_layout s t \<and> disk_content s' t = disk_content s t \<or> disk_layout s' t = None)
      \<and> (\<forall>t'. t' \<noteq> t \<longrightarrow> disk_layout s' t' = disk_layout s t' \<and> disk_content s' t' = disk_content s t')"
    by simp
next
  fix s t p s' res
  assume "disk_inv s" "disk_piece_completed env s t p = (s', res)"
  then show "disk_inv s' \<and> disk_layout s' = disk_layout s \<and> disk_content s' = disk_content s"
    by (rule disk_piece_completed_frame)
next
  fix s keep s' res
  assume "disk_inv s" "disk_discard_except env s keep = (s', res)"
  then show "disk_inv s' \<and> disk_layout s' = disk_layout s \<and> disk_content s' = disk_content s"
    by (rule disk_discard_frame)
qed

end
