(* ===== verification/DiskProps.thy ===== *)
theory DiskProps
  imports DiskStore CacheInv MemoryStore
begin

text \<open>
  Properties of the disk store and of the cache over it, with the sample state their witnesses use.
\<close>

interpretation cdisk: store_family "range disk_vt" False disk_inv disk_layout disk_content
  by (intro store_family.intro) (auto intro: disk.piece_store_contract_axioms)

definition sample_disk :: disk_store where
  "sample_disk = fst (disk_open env_fine (disk_store_new []) sample_hash sample_layout)"

definition sample_disk_torrent :: disk_torrent where
  "sample_disk_torrent =
     \<lparr>dt_layout = sample_layout, dt_dir = info_hash_to_string sample_hash,
      dt_extents = empty_extents sample_layout, dt_completed = replicate (piece_count sample_layout) False\<rparr>"

lemma env_fine_ok [simp]: "env_ok env_fine op"
  by (simp add: env_fine_def)

lemma sample_disk_open:
  "disk_open env_fine (disk_store_new []) sample_hash sample_layout =
     (\<lparr>ds_dirs = [(info_hash_to_string sample_hash, Map.empty)],
       ds_torrents = [sample_hash \<mapsto> sample_disk_torrent]\<rparr>,
      Inr \<lparr>rec_stored_bytes = 0, rec_completed_pieces = []\<rparr>)"
  by (simp add: disk_open_def disk_restored_def disk_store_new_def remove_dir_def sample_disk_torrent_def
      true_indexes_def filter_empty_conv)

lemma sample_disk_eq:
  "sample_disk = \<lparr>ds_dirs = [(info_hash_to_string sample_hash, Map.empty)],
     ds_torrents = [sample_hash \<mapsto> sample_disk_torrent]\<rparr>"
  by (simp only: sample_disk_def sample_disk_open fst_conv)

lemma sample_disk_props [simp]:
  "disk_inv sample_disk" "disk_layout sample_disk sample_hash = Some sample_layout"
proof -
  have "disk_layout (disk_store_new []) sample_hash = None" by simp
  from disk_open_ok [OF disk_inv_new(1) sample_memory_props(4) this sample_disk_open]
  show "disk_inv sample_disk" "disk_layout sample_disk sample_hash = Some sample_layout"
    unfolding sample_disk_eq by auto
qed

lemma sample_disk_content: "disk_content sample_disk sample_hash f = Map.empty"
  by (rule ext) (simp add: disk_content_def sample_disk_eq disk_file_content_def sample_disk_torrent_def
      empty_extents_def file_count_def)

text \<open>A write that meets no failure succeeds.\<close>

lemma disk_write_fine:
  assumes inv: "disk_inv s" and l: "disk_layout s t = Some l"
    and r: "check_range l t f off (length data) = Inr r"
  obtains s' where "disk_write env_fine s t f off data
    = (s', Inr (card ({off..<off + length data} - dom (disk_content s t f))))"
proof -
  obtain s' res where w: "disk_write env_fine s t f off data = (s', res)" by (rule prod.exhaust)
  from l obtain tor where tor: "ds_torrents s t = Some tor" "dt_layout tor = l" by (auto simp: disk_layout_def)
  obtain d where d: "dt_dir tor = info_hash_to_string t" "map_of (ds_dirs s) (info_hash_to_string t) = Some d"
    by (rule disk_invD [OF inv tor(1)])
  have "\<exists>n. res = Inr n"
    using w unfolding disk_write_def tor option.case r sum.case d
    by (auto simp: Let_def write_manifest_def d split: if_splits prod.splits sum.splits)
  then obtain n where n: "disk_write env_fine s t f off data = (s', Inr n)" using w by auto
  have "n = card ({off..<off + length data} - dom (disk_content s t f))"
    using disk_write_ok [OF inv n] by metis
  with n that show ?thesis by simp
qed

subsection \<open>Reading\<close>

text \<open>
  C8. A read from the disk store never invents bytes, whatever the operating system does: it
  fails with the range check's error; or with \<open>Missing\<close> if some offset was never stored; or with
  an I/O error; or it returns exactly the bytes stored last at each offset. When the operating
  system reports no error, the read of stored bytes succeeds.
\<close>

theorem disk_read_exact:
  assumes "disk_inv s" "disk_layout s t = Some l"
  shows "(case check_range l t f off n of
       Inl e \<Rightarrow> disk_read env s t f off n = Inl e
     | Inr r \<Rightarrow>
         if {off..<off + n} \<subseteq> dom (disk_content s t f)
         then disk_read env s t f off n = Inr (map (\<lambda>i. the (disk_content s t f i)) [off..<off + n])
              \<or> (\<exists>c. disk_read env s t f off n = Inl (IoError c)
                   \<and> \<not> (env_ok env OpenRead \<and> env_ok env ReadFile))
         else disk_read env s t f off n = Inl (Missing t f r))"
proof -
  from assms(2) obtain tor where tor: "ds_torrents s t = Some tor" "dt_layout tor = l"
    by (auto simp: disk_layout_def)
  show ?thesis
  proof (cases "check_range l t f off n")
    case (Inl e)
    then show ?thesis unfolding disk_read_def tor option.case Inl sum.case by simp
  next
    case (Inr r)
    then have rs: "range_set r = {off..<off + n}" by (auto simp: range_set_def)
    show ?thesis
    proof (cases "{off..<off + n} \<subseteq> dom (disk_content s t f)")
      case False
      then obtain b where "b \<in> range_set r" "disk_content s t f b = None"
        unfolding rs by (meson domIff subsetI)
      from disk_read_missing [OF assms Inr this] False show ?thesis unfolding Inr sum.case by simp
    next
      case True
      obtain d where d: "dt_dir tor = info_hash_to_string t" "map_of (ds_dirs s) (info_hash_to_string t) = Some d"
        "torrent_fits d tor" "disk_content s t = disk_file_content d tor"
        by (rule disk_invD [OF assms(1) tor(1)])
      from Inr obtain m where m: "file_length (dt_layout tor) f = Some m" by (auto simp: tor(2))
      then have il: "zero_based f < file_count (dt_layout tor)" by (simp add: file_length_def file_count_def)
      then have fit: "extents_fit d (dt_layout tor) (zero_based f) (dt_extents tor ! zero_based f)"
        using d(3) by (simp add: torrent_fits_def)
      then have wf: "extents_wf (dt_extents tor ! zero_based f)" by (simp add: extents_fit_def)
      have "dom (disk_content s t f) = extents_bytes (dt_extents tor ! zero_based f)"
        using dom_disk_file_content [OF d(3) il] by (simp add: d(4))
      then have cov: "extents_covers (dt_extents tor ! zero_based f) r"
        using extents_covers_iff [OF wf check_range_wf [OF Inr]] True rs by simp
      have all: "\<exists>fl. d (file_name f) = Some fl \<and> off + n \<le> length fl" if "n \<noteq> 0"
      proof -
        have "off + n - 1 \<in> {off..<off + n}" using that by auto
        then have "off + n - 1 \<in> extents_bytes (dt_extents tor ! zero_based f)"
          using True dom_disk_file_content [OF d(3) il] by (auto simp: d(4))
        then show ?thesis using fit that by (fastforce simp: extents_fit_def file_name_def)
      qed
      have good: "disk_read env s t f off n = Inr (map (\<lambda>i. the (disk_content s t f i)) [off..<off + n])"
        if bs: "disk_read env s t f off n = Inr bs" for bs
        using disk_read_ok [OF assms(1) bs] bs by (auto intro!: nth_equalityI)
      have "(\<exists>bs. disk_read env s t f off n = Inr bs)
          \<or> (\<exists>c. disk_read env s t f off n = Inl (IoError c) \<and> \<not> (env_ok env OpenRead \<and> env_ok env ReadFile))"
        unfolding disk_read_def tor option.case Inr sum.case
        using cov all by (cases "n = 0") (auto simp: d)
      then show ?thesis unfolding Inr sum.case using True good by auto
    qed
  qed
qed

theorem disk_read_exact_witness:
  "disk_read env_fine sample_disk sample_hash (FileIndex 0) 3 2
     = Inl (Missing sample_hash (FileIndex 0) \<lparr>br_start = 3, br_end = 5\<rparr>)"
  using disk_read_exact [OF sample_disk_props, where f = "FileIndex 0" and off = 3 and n = 2 and env = env_fine]
  by (simp add: check_range_def file_length_def sample_layout_def get_opt_def from_start_len_def
      checked_add64_def fits_within_def U64_def sample_disk_content)

subsection \<open>Recovery\<close>


lemma sample_torrent_fits: "torrent_fits d sample_disk_torrent"
  using sample_memory_props(4)
  by (simp add: torrent_fits_def sample_disk_torrent_def empty_extents_def file_count_def)

lemma sample_restore:
  "restore env_fine [manifest_name \<mapsto> to_bytes (manifest sample_disk_torrent)] sample_layout
     = Some (empty_extents sample_layout, replicate (piece_count sample_layout) False, 0)"
proof -
  have "restore env_fine [manifest_name \<mapsto> to_bytes (manifest sample_disk_torrent)] (dt_layout sample_disk_torrent)
     = Some (dt_extents sample_disk_torrent, dt_completed sample_disk_torrent,
             sum_list (map ex_total (dt_extents sample_disk_torrent)))"
    by (rule restore_manifest [OF sample_torrent_fits]) simp_all
  then show ?thesis
    by (simp add: sample_disk_torrent_def empty_extents_def extents_default_def sum_list_replicate)
qed


text \<open>
  C10. An acknowledged write survives a restart. After a write of at least one byte that the disk
  store acknowledged, a new store on the same directory that opens the torrent with the same
  layout, and meets no I/O error while reading, recovers the torrent's whole state: the same
  extents, the same completed pieces, and every byte the old store held for it.
\<close>

theorem acknowledged_write_survives_restart:
  assumes "disk_inv s" "disk_layout s t = Some l"
    and "disk_write env s t f off data = (s', Inr n)" "data \<noteq> []"
  shows "\<exists>s'' rc. disk_open env_fine (disk_store_new (ds_dirs s')) t l = (s'', Inr rc)
    \<and> ds_torrents s'' t = ds_torrents s' t
    \<and> disk_content s'' t = disk_content s' t
    \<and> disk_content s'' t f = overlay (disk_content s t f) off data
    \<and> rec_stored_bytes rc = held (disk_content s' t) l"
proof -
  obtain r tor d where w: "disk_inv s'" "disk_layout s' = disk_layout s"
    "disk_content s' t f = overlay (disk_content s t f) off data"
    "ds_torrents s' t = Some tor" "map_of (ds_dirs s') (dt_dir tor) = Some d"
    "d manifest_name = Some (to_bytes (manifest tor))"
    by (rule disk_write_ok [OF assms(1,3)]) (use assms(4) in \<open>simp, blast\<close>)
  obtain d2 where i: "dt_dir tor = info_hash_to_string t" "map_of (ds_dirs s') (info_hash_to_string t) = Some d2"
    "torrent_fits d2 tor" "disk_content s' t = disk_file_content d2 tor"
    by (rule disk_invD [OF w(1,4)])
  then have dd: "d2 = d" using w(5) by simp
  have l: "dt_layout tor = l" using w(2,4) assms(2) by (metis disk_layout_def option.inject option.simps(9))
  have rs: "restore env_fine d l = Some (dt_extents tor, dt_completed tor, sum_list (map ex_total (dt_extents tor)))"
    using restore_manifest [OF i(3) w(6) [folded dd]] by (simp add: l dd)
  have tor: "\<lparr>dt_layout = l, dt_dir = info_hash_to_string t, dt_extents = dt_extents tor,
      dt_completed = dt_completed tor\<rparr> = tor"
    using l i(1) by simp
  have restored: "disk_restored env_fine (disk_store_new (ds_dirs s')) t l
      = Some (dt_extents tor, dt_completed tor, sum_list (map ex_total (dt_extents tor)))"
    using i(2) rs by (simp add: disk_restored_def disk_store_new_def dd)
  define s'' where "s'' = \<lparr>ds_dirs = ds_dirs s', ds_torrents = [t \<mapsto> tor]\<rparr>"
  define rc where "rc = \<lparr>rec_stored_bytes = sum_list (map ex_total (dt_extents tor)),
    rec_completed_pieces = map PieceIndex (true_indexes (dt_completed tor))\<rparr>"
  have o: "disk_open env_fine (disk_store_new (ds_dirs s')) t l = (s'', Inr rc)"
    unfolding disk_open_def restored using i(2) by (simp add: tor disk_store_new_def s''_def rc_def)
  have c: "disk_content s'' t = disk_content s' t"
    using i w(4) by (simp add: disk_content_def s''_def)
  have "rec_stored_bytes rc = held (disk_content s' t) l"
    using held_disk_content [OF i(3)] by (simp add: i(4) l rc_def)
  with o c w(3,4) show ?thesis by (intro exI [of _ s''] exI [of _ rc]) (simp add: s''_def)
qed

theorem acknowledged_write_survives_restart_witness:
  "\<exists>s' s'' rc. disk_write env_fine sample_disk sample_hash (FileIndex 1) 2 [7, 8, 9] = (s', Inr 3)
     \<and> disk_open env_fine (disk_store_new (ds_dirs s')) sample_hash sample_layout = (s'', Inr rc)
     \<and> disk_content s'' sample_hash (FileIndex 1) 3 = Some 8"
proof -
  have r: "check_range sample_layout sample_hash (FileIndex 1) 2 (length [7::byte, 8, 9])
      = Inr \<lparr>br_start = 2, br_end = 5\<rparr>"
    by (simp add: file_length_def sample_layout_def get_opt_def U64_def)
  obtain s' where w: "disk_write env_fine sample_disk sample_hash (FileIndex 1) 2 [7, 8, 9] = (s', Inr 3)"
  proof (rule disk_write_fine [OF sample_disk_props r])
    fix s' assume w: "disk_write env_fine sample_disk sample_hash (FileIndex 1) 2 [7, 8, 9]
      = (s', Inr (card ({2..<2 + length [7::byte, 8, 9]} - dom (disk_content sample_disk sample_hash (FileIndex 1)))))"
    have c: "card ({2..<2 + length [7::byte, 8, 9]} - dom (disk_content sample_disk sample_hash (FileIndex 1))) = 3"
      by (simp add: sample_disk_content)
    show thesis by (rule that, rule w [unfolded c])
  qed
  have "overlay Map.empty 2 [7, 8, 9::byte] 3 = Some 8" by (simp add: overlay_def)
  then have b: "overlay (disk_content sample_disk sample_hash (FileIndex 1)) 2 [7, 8, 9] 3 = Some 8"
    by (simp only: sample_disk_content)
  have ne: "[7, 8, 9::byte] \<noteq> []" by simp
  from acknowledged_write_survives_restart [OF sample_disk_props w ne] obtain s'' rc where
    "disk_open env_fine (disk_store_new (ds_dirs s')) sample_hash sample_layout = (s'', Inr rc)"
    "disk_content s'' sample_hash (FileIndex 1)
      = overlay (disk_content sample_disk sample_hash (FileIndex 1)) 2 [7, 8, 9]" by blast
  with b w show ?thesis by metis
qed

subsection \<open>Accounting over the disk\<close>


lemma sample_disk_cache_open:
  "cache_open (disk_vt env_fine) (cache_new (disk_store_new []) 8) sample_hash sample_layout =
     (\<lparr>c_store = sample_disk, c_cap = 8, c_next_pin = 1, c_tick = 1,
       c_torrents = [(sample_hash, \<lparr>e_layout = sample_layout, e_pieces = replicate 4 False, e_stored = 0,
         e_pins = 0, e_readers = [], e_demanded = extents_default, e_last_read = 1\<rparr>)]\<rparr>, Inr ())"
proof -
  have pc: "piece_count sample_layout = 4" by (simp add: sample_layout_def)
  have o: "ps_open (disk_vt env_fine) (disk_store_new []) sample_hash sample_layout
      = (sample_disk, Inr \<lparr>rec_stored_bytes = 0, rec_completed_pieces = []\<rparr>)"
    by (simp only: disk_vt_def piece_store.select_convs sample_disk_open sample_disk_eq)
  show ?thesis
    by (simp add: cache_open_def cache_new_def o next_tick_def put_entry_def add64_def U64_def
        piece_set_new_def pc)
qed


subsection \<open>Removal\<close>

text \<open>
  C12. What a failed removal leaves. If the directory of an open torrent cannot be removed, the
  store reports the error but has already forgotten the torrent: the directory is still there,
  every later read or write of the torrent is \<open>UnknownTorrent\<close>, and a second \<open>remove\<close> reports
  success without touching the directory. Through the cache, the first call leaves the torrent
  registered and the second reports its bytes as freed.
\<close>

theorem failed_removal_is_forgotten:
  assumes "disk_inv s" "disk_layout s t = Some l" "\<not> env_ok env (RemoveDir (info_hash_to_string t))"
  shows "\<exists>s'. disk_remove env s t = (s', Inl (IoError ''remove cache directory''))
    \<and> map_of (ds_dirs s') (info_hash_to_string t) \<noteq> None
    \<and> disk_read env' s' t f off n = Inl (UnknownTorrent t)
    \<and> disk_remove env' s' t = (s', Inr ())"
proof -
  from assms(2) obtain tor where tor: "ds_torrents s t = Some tor" by (auto simp: disk_layout_def)
  obtain d where d: "dt_dir tor = info_hash_to_string t" "map_of (ds_dirs s) (info_hash_to_string t) = Some d"
    by (rule disk_invD [OF assms(1) tor])
  define s' where "s' = \<lparr>ds_dirs = hm_insert (info_hash_to_string t)
      (\<lambda>k. if env_spared env k then d k else None) (ds_dirs s), ds_torrents = (ds_torrents s)(t := None)\<rparr>"
  have "disk_remove env s t = (s', Inl (IoError ''remove cache directory''))"
    using assms(3) tor d by (simp add: disk_remove_def Let_def remove_dir_def s'_def)
  moreover have "disk_remove env' s' t = (s', Inr ())" by (simp add: disk_remove_def Let_def s'_def)
  moreover have "disk_read env' s' t f off n = Inl (UnknownTorrent t)" by (simp add: disk_read_def s'_def)
  ultimately show ?thesis by (intro exI [of _ s']) (simp add: s'_def)
qed

theorem failed_removal_is_forgotten_witness:
  "\<exists>s'. disk_remove (env_fine\<lparr>env_ok := \<lambda>_. False\<rparr>) sample_disk sample_hash
       = (s', Inl (IoError ''remove cache directory''))
     \<and> disk_remove env_fine s' sample_hash = (s', Inr ())"
proof -
  have "\<not> env_ok (env_fine\<lparr>env_ok := \<lambda>_. False\<rparr>) (RemoveDir (info_hash_to_string sample_hash))" by simp
  from failed_removal_is_forgotten [OF sample_disk_props this, of env_fine "FileIndex 0" 0 0]
  show ?thesis by blast
qed

end
