(* ===== verification/HttpRange.thy ===== *)
theory HttpRange
  imports RustStr
begin

text \<open>
  \<open>rustorr-http/src/range.rs\<close>: the parser of the \<open>Range\<close> header. Its result is a list of
  inclusive ranges or one of two refusals; the loop over the comma-separated parts is
  \<open>parse_parts\<close>, one part is \<open>parse_part\<close>.
\<close>

record http_range =
  hr_start :: nat
  hr_end :: nat

definition hr_len :: "http_range \<Rightarrow> nat" where
  "hr_len r = add64 (sub64 (hr_end r) (hr_start r)) 1"

datatype range_error = RangeInvalid | RangeUnsatisfiable

definition parse_part :: "nat \<Rightarrow> string \<Rightarrow> range_error + http_range" where
  "parse_part len part =
     (case split_once CHR ''-'' (trim part) of
        None \<Rightarrow> Inl RangeInvalid
      | Some (s, e) \<Rightarrow>
          if s = [] then
            (case parse_u64 e of
               None \<Rightarrow> Inl RangeInvalid
             | Some suffix \<Rightarrow>
                 if suffix = 0 then Inl RangeUnsatisfiable
                 else Inr \<lparr>hr_start = sat_sub len suffix, hr_end = sub64 len 1\<rparr>)
          else
            (case parse_u64 s of
               None \<Rightarrow> Inl RangeInvalid
             | Some start \<Rightarrow>
                 if start \<ge> len then Inl RangeUnsatisfiable
                 else (case (if e = [] then Some (sub64 len 1)
                             else map_option (\<lambda>x. min x (sub64 len 1)) (parse_u64 e)) of
                         None \<Rightarrow> Inl RangeInvalid
                       | Some en \<Rightarrow>
                           if en < start then Inl RangeUnsatisfiable
                           else Inr \<lparr>hr_start = start, hr_end = en\<rparr>)))"

fun parse_parts :: "nat \<Rightarrow> http_range list \<Rightarrow> string list \<Rightarrow> range_error + http_range list" where
  "parse_parts len acc [] = (if acc = [] then Inl RangeInvalid else Inr acc)"
| "parse_parts len acc (p # ps) =
     (case parse_part len p of
        Inl e \<Rightarrow> Inl e
      | Inr r \<Rightarrow>
          if 64 < length (acc @ [r]) then Inl RangeInvalid else parse_parts len (acc @ [r]) ps)"

definition range_parse :: "string \<Rightarrow> nat \<Rightarrow> range_error + http_range list" where
  "range_parse v len =
     (case strip_prefix v ''bytes='' of
        None \<Rightarrow> Inl RangeInvalid
      | Some vs \<Rightarrow>
          if len = 0 then Inl RangeUnsatisfiable else parse_parts len [] (split_on CHR '','' vs))"

subsection \<open>Accepted ranges\<close>

definition hr_wf :: "nat \<Rightarrow> http_range \<Rightarrow> bool" where
  "hr_wf len r = (hr_start r \<le> hr_end r \<and> hr_end r < len)"

lemma hr_len_wf:
  assumes "hr_wf len r" "len < U64"
  shows "hr_len r = hr_end r - hr_start r + 1"
proof -
  have "hr_end r - hr_start r + 1 < U64" "hr_start r \<le> hr_end r" "hr_end r < U64"
    using assms by (auto simp: hr_wf_def)
  then show ?thesis unfolding hr_len_def by (simp only: sub64_in_range add64_in_range)
qed

lemma sub64_one: "0 < len \<Longrightarrow> len < U64 \<Longrightarrow> sub64 len 1 = len - 1"
  by (simp add: u64_simps)

lemma parse_part_wf:
  assumes "0 < len" "len < U64" "parse_part len p = Inr r"
  shows "hr_wf len r"
proof -
  from assms(3) obtain s e where se: "split_once CHR ''-'' (trim p) = Some (s, e)"
    by (auto simp: parse_part_def split: option.splits)
  note unf = assms(3) [unfolded parse_part_def se sub64_one [OF assms(1,2)] option.case prod.case]
  show ?thesis
  proof (cases "s = []")
    case True
    with unf obtain k where "parse_u64 e = Some k" by (cases "parse_u64 e") auto
    with unf True assms(1) show ?thesis by (auto simp: hr_wf_def sat_sub_def split: if_splits)
  next
    case False
    with unf obtain a where a: "parse_u64 s = Some a" by (cases "parse_u64 s") auto
    note unf = unf [unfolded a option.case]
    from unf False have lt: "a < len" by (auto split: if_splits)
    show ?thesis
    proof (cases "e = []")
      case True
      with unf False lt assms(1) show ?thesis by (auto simp: hr_wf_def split: if_splits)
    next
      case e: False
      with unf False lt obtain b where b: "parse_u64 e = Some b" by (cases "parse_u64 e") auto
      from unf False lt e b assms(1) show ?thesis by (auto simp: hr_wf_def split: if_splits)
    qed
  qed
qed

lemma parse_parts_wf:
  assumes "0 < len" "len < U64" "parse_parts len acc ps = Inr rs" "\<forall>r \<in> set acc. hr_wf len r"
    "length acc \<le> 64"
  shows "rs \<noteq> [] \<and> length rs \<le> 64 \<and> (\<forall>r \<in> set rs. hr_wf len r) \<and> length rs = length acc + length ps"
  using assms(3-5)
proof (induction ps arbitrary: acc)
  case (Cons p ps)
  from Cons.prems(1) obtain r where r: "parse_part len p = Inr r" "length (acc @ [r]) \<le> 64"
      "parse_parts len (acc @ [r]) ps = Inr rs"
    by (auto split: sum.splits if_splits)
  have "hr_wf len r" by (rule parse_part_wf [OF assms(1,2) r(1)])
  with Cons.IH [OF r(3) _ r(2)] Cons.prems(2) show ?case by auto
qed (auto split: if_splits)

lemma range_parse_wf:
  assumes "len < U64" "range_parse v len = Inr rs"
  shows "rs \<noteq> []" "length rs \<le> 64" "\<And>r. r \<in> set rs \<Longrightarrow> hr_wf len r"
proof -
  from assms(2) obtain vs where "0 < len" "parse_parts len [] (split_on CHR '','' vs) = Inr rs"
    by (auto simp: range_parse_def split: option.splits if_splits)
  from parse_parts_wf [OF this(1) assms(1) this(2)]
  show "rs \<noteq> []" "length rs \<le> 64" "\<And>r. r \<in> set rs \<Longrightarrow> hr_wf len r" by auto
qed

subsection \<open>The grammar\<close>

text \<open>What a client means by one part of the header, and how it writes it.\<close>

datatype range_spec = FromTo nat nat | From nat | Suffix nat

fun spec_text :: "range_spec \<Rightarrow> string" where
  "spec_text (FromTo a b) = decimal a @ ''-'' @ decimal b"
| "spec_text (From a) = decimal a @ ''-''"
| "spec_text (Suffix k) = ''-'' @ decimal k"

fun spec_wf :: "range_spec \<Rightarrow> bool" where
  "spec_wf (FromTo a b) = (a < U64 \<and> b < U64)"
| "spec_wf (From a) = (a < U64)"
| "spec_wf (Suffix k) = (k < U64)"

text \<open>The bytes of a body of length \<open>len\<close> that a part asks for; none when it is not satisfiable.\<close>

fun spec_range :: "nat \<Rightarrow> range_spec \<Rightarrow> http_range option" where
  "spec_range len (FromTo a b) =
     (if a < len \<and> a \<le> b then Some \<lparr>hr_start = a, hr_end = min b (len - 1)\<rparr> else None)"
| "spec_range len (From a) = (if a < len then Some \<lparr>hr_start = a, hr_end = len - 1\<rparr> else None)"
| "spec_range len (Suffix k) =
     (if 0 < k then Some \<lparr>hr_start = len - min k len, hr_end = len - 1\<rparr> else None)"

definition range_header :: "range_spec list \<Rightarrow> string" where
  "range_header specs = ''bytes='' @ join '','' (map spec_text specs)"

lemma spec_text_chars: "c \<in> set (spec_text s) \<Longrightarrow> c = CHR ''-'' \<or> 48 \<le> byte_val c \<and> byte_val c \<le> 57"
  by (cases s) (auto dest: decimal_digits)

lemma spec_text_ascii: "c \<in> set (spec_text s) \<Longrightarrow> is_ascii c \<and> \<not> is_whitespace [c]"
  using spec_text_chars [of c s]
  by (auto simp: is_ascii_def is_whitespace_one) (auto simp: byte_val_def)

lemma trim_spec_text [simp]: "trim (spec_text s) = spec_text s"
  using spec_text_ascii [of _ s] by (intro trim_ascii) blast

lemma comma_not_spec [simp]: "CHR '','' \<notin> set (spec_text s)"
  using spec_text_chars [of "CHR '',''" s] by (auto simp: byte_val_def)

lemma split_once_decimal: "split_once CHR ''-'' (decimal a @ CHR ''-'' # s) = Some (decimal a, s)"
  by (simp add: split_once_append)

lemma parse_part_spec:
  assumes "0 < len" "len < U64" "spec_wf s"
  shows "parse_part len (spec_text s) =
    (case spec_range len s of None \<Rightarrow> Inl RangeUnsatisfiable | Some r \<Rightarrow> Inr r)"
proof (cases s)
  case (FromTo a b)
  then show ?thesis
    using assms sub64_one [OF assms(1,2)] trim_spec_text [of s]
    by (auto simp: parse_part_def split_once_decimal)
next
  case (From a)
  then show ?thesis
    using assms sub64_one [OF assms(1,2)] trim_spec_text [of s]
    by (auto simp: parse_part_def split_once_decimal)
next
  case (Suffix k)
  then show ?thesis
    using assms sub64_one [OF assms(1,2)] trim_spec_text [of s]
    by (auto simp: parse_part_def sat_sub_def min_def)
qed

lemma parse_parts_specs:
  assumes "0 < len" "len < U64" "\<forall>s \<in> set specs. spec_wf s" "length acc + length specs \<le> 64"
  shows "parse_parts len acc (map spec_text specs) =
    (case map_option_all (spec_range len) specs of
       None \<Rightarrow> Inl RangeUnsatisfiable
     | Some rs \<Rightarrow> if acc @ rs = [] then Inl RangeInvalid else Inr (acc @ rs))"
  using assms(3,4)
proof (induction specs arbitrary: acc)
  case (Cons s specs)
  then show ?case
    by (auto simp: parse_part_spec [OF assms(1,2)] split: option.splits)
qed simp

lemma range_parse_specs:
  assumes "0 < len" "len < U64" "specs \<noteq> []" "\<forall>s \<in> set specs. spec_wf s" "length specs \<le> 64"
  shows "range_parse (range_header specs) len =
    (case map_option_all (spec_range len) specs of None \<Rightarrow> Inl RangeUnsatisfiable | Some rs \<Rightarrow> Inr rs)"
proof -
  have "split_on CHR '','' (join '','' (map spec_text specs)) = map spec_text specs"
    using assms(3) by (intro split_on_join) auto
  moreover have "strip_prefix (range_header specs) ''bytes='' = Some (join '','' (map spec_text specs))"
    unfolding range_header_def by (rule strip_prefix_append)
  moreover have "rs \<noteq> []" if "map_option_all (spec_range len) specs = Some rs" for rs
    using map_option_all_length [OF that] assms(3) by auto
  ultimately show ?thesis
    using parse_parts_specs [of len specs "[]"] assms
    by (auto simp: range_parse_def split: option.splits)
qed

lemma map_option_all_None: "map_option_all f xs = None \<longleftrightarrow> (\<exists>x \<in> set xs. f x = None)"
  by (induction xs) (auto split: option.splits)

subsection \<open>Properties\<close>

text \<open>
  C17. Whatever the header says, an accepted one gives between 1 and 64 ranges, every one of them
  non-empty and inside the body, so that no later read leaves it; and a header written by the
  grammar is accepted exactly when every part of it is satisfiable, with the ranges it names in
  their order, an end beyond the body cut to its last byte and a suffix longer than the body
  taken as all of it.
\<close>

theorem range_parser_spec:
  assumes "len < U64"
  shows "(\<forall>v rs. range_parse v len = Inr rs \<longrightarrow>
            1 \<le> length rs \<and> length rs \<le> 64
            \<and> (\<forall>r \<in> set rs. hr_start r \<le> hr_end r \<and> hr_end r < len \<and> hr_len r = hr_end r - hr_start r + 1))
    \<and> (\<forall>specs. 0 < len \<longrightarrow> specs \<noteq> [] \<longrightarrow> (\<forall>s \<in> set specs. spec_wf s) \<longrightarrow> length specs \<le> 64 \<longrightarrow>
         range_parse (range_header specs) len =
           (case map_option_all (spec_range len) specs of None \<Rightarrow> Inl RangeUnsatisfiable | Some rs \<Rightarrow> Inr rs))"
proof (intro conjI allI impI)
  fix v rs assume p: "range_parse v len = Inr rs"
  note w = range_parse_wf [OF assms p]
  show "1 \<le> length rs" using w(1) by (cases rs) auto
  show "length rs \<le> 64" by (rule w(2))
  show "\<forall>r \<in> set rs. hr_start r \<le> hr_end r \<and> hr_end r < len \<and> hr_len r = hr_end r - hr_start r + 1"
    using w(3) hr_len_wf [OF _ assms] by (auto simp: hr_wf_def)
qed (rule range_parse_specs, use assms in auto)

theorem range_parser_spec_witness:
  "range_parse (range_header [FromTo 0 1, Suffix 3, From 8]) 10 =
     Inr [\<lparr>hr_start = 0, hr_end = 1\<rparr>, \<lparr>hr_start = 7, hr_end = 9\<rparr>, \<lparr>hr_start = 8, hr_end = 9\<rparr>]"
proof -
  have "(10 :: nat) < U64" by (simp add: U64_def)
  from range_parser_spec [OF this]
  have "range_parse (range_header specs) 10 =
      (case map_option_all (spec_range 10) specs of None \<Rightarrow> Inl RangeUnsatisfiable | Some rs \<Rightarrow> Inr rs)"
    if "specs \<noteq> []" "\<forall>s \<in> set specs. spec_wf s" "length specs \<le> 64" for specs
    using that by simp
  from this [of "[FromTo 0 1, Suffix 3, From 8]"] show ?thesis by (simp add: U64_def)
qed

text \<open>
  One part of a header that lies outside the body is enough for the whole request to be
  refused, even when other parts of it name bytes the body has. Go's \<open>http.ServeContent\<close>, which
  the callers of this parser stand for, serves the parts that overlap and refuses only when none
  does.
\<close>

theorem one_unsatisfiable_part_refuses_all:
  assumes "0 < len" "len < U64" "length specs \<le> 64" "\<forall>s \<in> set specs. spec_wf s"
    "s \<in> set specs" "spec_range len s = None"
  shows "range_parse (range_header specs) len = Inl RangeUnsatisfiable"
proof -
  have "specs \<noteq> []" using assms(5) by auto
  moreover have "map_option_all (spec_range len) specs = None"
    using assms(5,6) by (auto simp: map_option_all_None)
  ultimately show ?thesis using range_parse_specs [OF assms(1,2) _ assms(4,3)] by simp
qed

theorem one_unsatisfiable_part_refuses_all_witness:
  "range_parse (range_header [FromTo 0 1, FromTo 100 200]) 10 = Inl RangeUnsatisfiable"
  by (rule one_unsatisfiable_part_refuses_all [of 10 _ "FromTo 100 200"]) (simp_all add: U64_def)

end
