(* ===== verification/MediaType.thy ===== *)
theory MediaType
  imports RustStr
begin

text \<open>
  \<open>rustorr-http/src/media_type.rs\<close>: the media type of a file by its name. TorrServer's own table
  comes first; behind it is the \<open>mime_guess\<close> crate, the argument \<open>guess\<close> (from an extension
  without its dot to a type without parameters).
\<close>

definition media_table :: "(string \<times> string) list" where
  "media_table =
     [(''image/bmp'', ''.bmp''),
      (''image/gif'', ''.gif''),
      (''image/jpeg'', ''.jpg,.jpeg''),
      (''image/png'', ''.png''),
      (''image/tiff'', ''.tiff,.tif''),
      (''audio/x-aac'', ''.aac''),
      (''audio/dsd'', ''.dsd,.dsf,.dff''),
      (''audio/flac'', ''.flac''),
      (''audio/mpeg'', ''.mpga,.mpega,.mp2,.mp3,.m4a''),
      (''audio/ogg'', ''.oga,.ogg,.spx''),
      (''audio/opus'', ''.opus''),
      (''audio/weba'', ''.weba''),
      (''audio/x-ape'', ''.ape''),
      (''audio/x-wav'', ''.wav''),
      (''video/dv'', ''.dif,.dv''),
      (''video/fli'', ''.fli''),
      (''video/mp4'', ''.mp4''),
      (''video/mpeg'', ''.mpeg,.mpg,.mpe''),
      (''video/x-matroska'', ''.mpv,.mkv''),
      (''video/mp2t'', ''.ts,.m2ts,.mts''),
      (''video/ogg'', ''.ogv''),
      (''video/webm'', ''.webm''),
      (''video/x-ms-vob'', ''.vob''),
      (''video/x-msvideo'', ''.avi''),
      (''video/x-quicktime'', ''.qt,.mov''),
      (''text/srt'', ''.srt''),
      (''text/smi'', ''.smi''),
      (''text/ssa'', ''.ssa''),
      (''application/vnd.rn-realmedia-vbr'', ''.rmvb'')]"

definition essence :: "(string \<Rightarrow> string option) \<Rightarrow> string \<Rightarrow> string option" where
  "essence guess ext =
     (let lower = to_ascii_lowercase ext
      in case find (\<lambda>(kind, exts). \<exists>known \<in> set (split_on CHR '','' exts). known = ext \<or> known = lower) media_table of
           Some (kind, exts) \<Rightarrow> Some kind
         | None \<Rightarrow> (case strip_prefix lower ''.'' of None \<Rightarrow> None | Some e \<Rightarrow> guess e))"

text \<open>\<open>rsplit(c).next()\<close>, and the text from the last \<open>c\<close> on.\<close>

definition last_piece :: "char \<Rightarrow> string \<Rightarrow> string" where
  "last_piece c s = last (split_on c s)"

definition path_extension :: "string \<Rightarrow> string" where
  "path_extension name =
     (let base = last_piece CHR ''/'' name
      in if CHR ''.'' \<in> set base then CHR ''.'' # last_piece CHR ''.'' base else [])"

definition by_extension :: "(string \<Rightarrow> string option) \<Rightarrow> string \<Rightarrow> string option" where
  "by_extension guess name =
     (let ext = path_extension name
      in if ext = [] then None
         else map_option (\<lambda>kind. if starts_with kind ''text/'' then kind @ ''; charset=utf-8'' else kind)
                (essence guess ext))"

definition strip_suffix :: "string \<Rightarrow> string \<Rightarrow> string option" where
  "strip_suffix s p = (if ends_with s p then Some (take (length s - length p) s) else None)"

definition by_path :: "(string \<Rightarrow> string option) \<Rightarrow> string \<Rightarrow> string option" where
  "by_path guess path =
     (let base = last_piece CHR ''/'' path;
          base = (case strip_suffix base ''.part'' of None \<Rightarrow> base | Some b \<Rightarrow> b)
      in map_option
           (\<lambda>found. if found = ''video/mp2t'' then ''video/mpeg''
                    else if found = ''video/x-msvideo'' then ''video/avi'' else found)
           (by_extension guess base))"

definition is_media :: "string \<Rightarrow> bool" where
  "is_media kind =
     (starts_with kind ''video/'' \<or> starts_with kind ''audio/'' \<or> starts_with kind ''image/''
      \<or> kind = ''application/vnd.rn-realmedia-vbr'')"

definition media_major :: "string \<Rightarrow> string" where
  "media_major kind = hd (split_on CHR ''/'' kind)"

subsection \<open>Case does not matter\<close>

lemma byte_val_lt [simp]: "byte_val c < 256"
  using of_char_of [where 'a = nat, of "byte_val c"] unfolding byte_val_def
  by (metis char_of_char mod_less_divisor of_char_of zero_less_numeral)

lemma lower_lower [simp]: "to_ascii_lower (to_ascii_lower c) = to_ascii_lower c"
  by (simp add: to_ascii_lower_def byte_val_def)

lemma lowercase_idem [simp]: "to_ascii_lowercase (to_ascii_lowercase s) = to_ascii_lowercase s"
  by (simp add: to_ascii_lowercase_def)

lemma lower_eq_symbol: "byte_val c < 65 \<Longrightarrow> to_ascii_lower x = c \<longleftrightarrow> x = c"
  by (auto simp: to_ascii_lower_def byte_val_def)

lemma split_on_lower:
  assumes "byte_val c < 65"
  shows "split_on c (to_ascii_lowercase s) = map to_ascii_lowercase (split_on c s)"
  using assms
  by (induction s)
    (auto simp: to_ascii_lowercase_def lower_eq_symbol split: list.splits)

lemma last_piece_lower:
  "byte_val c < 65 \<Longrightarrow> last_piece c (to_ascii_lowercase s) = to_ascii_lowercase (last_piece c s)"
  by (simp add: last_piece_def split_on_lower last_map)

lemma path_extension_lower: "path_extension (to_ascii_lowercase s) = to_ascii_lowercase (path_extension s)"
proof -
  have slash: "byte_val CHR ''/'' < 65" and dot: "byte_val CHR ''.'' < 65" by (simp_all add: byte_val_def)
  have mem: "CHR ''.'' \<in> set (to_ascii_lowercase b) \<longleftrightarrow> CHR ''.'' \<in> set b" for b
    unfolding to_ascii_lowercase_def set_map image_iff eq_commute [of "CHR ''.''"] lower_eq_symbol [OF dot]
    by blast
  have cons: "to_ascii_lowercase (CHR ''.'' # b) = CHR ''.'' # to_ascii_lowercase b" for b
    unfolding to_ascii_lowercase_def list.map using lower_eq_symbol [OF dot, of "CHR ''.''"] by blast
  have nil: "to_ascii_lowercase [] = []" by (simp only: to_ascii_lowercase_def list.map)
  show ?thesis
    unfolding path_extension_def Let_def last_piece_lower [OF slash] last_piece_lower [OF dot] mem
    by (cases "CHR ''.'' \<in> set (last_piece CHR ''/'' s)") (simp_all only: cons nil if_True if_False)
qed

lemma table_lower: "\<forall>(k, exts) \<in> set media_table. to_ascii_lowercase exts = exts"
  by code_simp

lemma essence_lower: "essence guess (to_ascii_lowercase ext) = essence guess ext"
proof -
  have "known = to_ascii_lowercase known"
    if "known \<in> set (split_on CHR '','' exts)" "(k, exts) \<in> set media_table" for known k exts
  proof -
    have "to_ascii_lowercase exts = exts" using table_lower that(2) by auto
    then have "map to_ascii_lowercase (split_on CHR '','' exts) = split_on CHR '','' exts"
      using split_on_lower [of "CHR '',''" exts] by (simp add: byte_val_def)
    then have "map to_ascii_lowercase (split_on CHR '','' exts) = map id (split_on CHR '','' exts)" by simp
    from this [unfolded map_eq_conv] that(1) show ?thesis by simp
  qed
  then have eq: "(\<exists>known \<in> set (split_on CHR '','' exts). known = ext \<or> known = to_ascii_lowercase ext)
      \<longleftrightarrow> (\<exists>known \<in> set (split_on CHR '','' exts). known = to_ascii_lowercase ext)"
    if "(k, exts) \<in> set media_table" for k exts
    using that by metis
  have "find (\<lambda>(kind, exts). \<exists>known \<in> set (split_on CHR '','' exts). known = ext \<or> known = to_ascii_lowercase ext) media_table
      = find (\<lambda>(kind, exts). \<exists>known \<in> set (split_on CHR '','' exts). known = to_ascii_lowercase ext) media_table"
    by (rule find_cong) (auto dest: eq)
  then show ?thesis by (simp add: essence_def Let_def)
qed

text \<open>
  The media type of a name does not depend on the case of its letters, every extension of the
  table belongs to one type only, so the order of the table does not matter, and the types that
  the table gives to video, audio and image files are exactly those that count as media.
\<close>

theorem media_type_of_name:
  "by_extension guess (to_ascii_lowercase name) = by_extension guess name
   \<and> distinct (concat (map (\<lambda>(k, exts). split_on CHR '','' exts) media_table))
   \<and> filter (\<lambda>(k, exts). \<not> is_media k) media_table =
       [(''text/srt'', ''.srt''), (''text/smi'', ''.smi''), (''text/ssa'', ''.ssa'')]"
proof (intro conjI)
  show "by_extension guess (to_ascii_lowercase name) = by_extension guess name"
    by (simp add: by_extension_def path_extension_lower essence_lower Let_def)
      (simp add: to_ascii_lowercase_def essence_def)
  show "distinct (concat (map (\<lambda>(k, exts). split_on CHR '','' exts) media_table))" by code_simp
  show "filter (\<lambda>(k, exts). \<not> is_media k) media_table =
      [(''text/srt'', ''.srt''), (''text/smi'', ''.smi''), (''text/ssa'', ''.ssa'')]" by code_simp
qed

end
