(* ===== verification/ServeContent.thy ===== *)
theory ServeContent
  imports HttpRange MediaType Domain
begin

text \<open>
  \<open>rustorr-http/src/serve_content.rs\<close>: conditional requests, ranges and bodies as Go's
  \<open>http.ServeContent\<close> does them, with \<open>go_http_error\<close> of \<open>app.rs\<close>.

  A body is what its stream delivers: the bytes, and the error that ended it if one did. The
  outside world of a source, files and the playback of a torrent, is the record \<open>src_env\<close>; what
  the code uses of the \<open>http\<close>, \<open>httpdate\<close> and \<open>mime_guess\<close> crates is \<open>http_lib\<close>. Header names are
  lower-case, as the \<open>http\<close> crate keeps them, and a request's headers are a partial map to the
  first value of each name.
\<close>

subsection \<open>Sources\<close>

type_synonym http_stream = "byte list \<times> string option"

record src_env =
  se_file :: "string \<Rightarrow> nat \<Rightarrow> string + http_stream"
  se_playback :: "info_hash \<Rightarrow> nat \<Rightarrow> nat \<Rightarrow> nat option \<Rightarrow> string + http_stream"

datatype http_source =
    Memory "byte list"
  | LocalFile string
  | Torrent info_hash nat

definition SNIFF_LEN :: nat where "SNIFF_LEN = 512"

text \<open>\<open>AsyncReadExt::take\<close>, and one stream after another.\<close>

definition stream_take :: "nat \<Rightarrow> http_stream \<Rightarrow> http_stream" where
  "stream_take n s = (if n \<le> length (fst s) then (take n (fst s), None) else s)"

definition stream_then :: "http_stream \<Rightarrow> http_stream \<Rightarrow> http_stream" where
  "stream_then s t = (case snd s of Some e \<Rightarrow> s | None \<Rightarrow> (fst s @ fst t, snd t))"

definition stream_of :: "byte list \<Rightarrow> http_stream" where
  "stream_of bs = (bs, None)"

text \<open>\<open>Source::reader\<close>; slicing backwards, after the end has wrapped around, panics.\<close>

definition source_reader :: "src_env \<Rightarrow> http_source \<Rightarrow> nat \<Rightarrow> nat \<Rightarrow> string + http_stream" where
  "source_reader env src start len =
     (case src of
        Memory bs \<Rightarrow>
          (case slice_opt bs (min start (length bs)) (min (add64 start len) (length bs)) of
             None \<Rightarrow> Inl ''range start must not be greater than end''
           | Some b \<Rightarrow> Inr (stream_of b))
      | LocalFile path \<Rightarrow>
          (case se_file env path start of Inl e \<Rightarrow> Inl e | Inr s \<Rightarrow> Inr (stream_take len s))
      | Torrent h i \<Rightarrow>
          (case se_playback env h i start (checked_sub (add64 start len) 1) of
             Inl e \<Rightarrow> Inl e
           | Inr s \<Rightarrow> Inr (stream_take len s)))"

definition source_head :: "src_env \<Rightarrow> http_source \<Rightarrow> nat \<Rightarrow> string + byte list" where
  "source_head env src sz =
     (case source_reader env src 0 (min sz SNIFF_LEN) of
        Inl e \<Rightarrow> Inl e
      | Inr (bs, None) \<Rightarrow> Inr bs
      | Inr (bs, Some e) \<Rightarrow> Inl e)"

record http_content =
  ct_source :: http_source
  ct_size :: nat
  ct_name :: string
  ct_type :: "string option"
  ct_modified :: "nat option"
  ct_etag :: "string option"

subsection \<open>Headers\<close>

datatype http_method = GET | HEAD | OtherMethod string

record http_lib =
  hl_parse_date :: "string \<Rightarrow> int option"
  hl_fmt_date :: "nat \<Rightarrow> string"
  hl_to_str_ok :: "string \<Rightarrow> bool"
  hl_value_ok :: "string \<Rightarrow> bool"
  hl_guess :: "string \<Rightarrow> string option"

type_synonym req_headers = "string \<rightharpoonup> string"
type_synonym resp_headers = "(string \<times> string) list"

definition header_text :: "http_lib \<Rightarrow> req_headers \<Rightarrow> string \<Rightarrow> string" where
  "header_text lib hs name =
     (case hs name of None \<Rightarrow> [] | Some v \<Rightarrow> if hl_to_str_ok lib v then v else [])"

definition http_date :: "http_lib \<Rightarrow> req_headers \<Rightarrow> string \<Rightarrow> nat option" where
  "http_date lib hs name =
     (case hl_parse_date lib (header_text lib hs name) of
        None \<Rightarrow> None
      | Some t \<Rightarrow> if t < 0 then None else Some (nat t))"

subsection \<open>Entity tags\<close>

definition is_http_space :: "char \<Rightarrow> bool" where
  "is_http_space c = (c = CHR '' '' \<or> c = CHR 0x09 \<or> c = CHR 0x0A \<or> c = CHR 0x0D)"

definition trim_space :: "string \<Rightarrow> string" where
  "trim_space s = rev (dropWhile is_http_space (rev (dropWhile is_http_space s)))"

definition etag_char :: "char \<Rightarrow> bool" where
  "etag_char c =
     (byte_val c = 0x21 \<or> 0x23 \<le> byte_val c \<and> byte_val c \<le> 0x7e \<or> 0x80 \<le> byte_val c)"

text \<open>The position of the closing quote, counted from where the scan starts.\<close>

fun scan_quote :: "string \<Rightarrow> nat option" where
  "scan_quote [] = None"
| "scan_quote (c # cs) =
     (if etag_char c then map_option Suc (scan_quote cs)
      else if c = CHR 0x22 then Some 0 else None)"

definition scan_etag :: "string \<Rightarrow> (string \<times> string) option" where
  "scan_etag s =
     (let text = trim_space s;
          start = (if starts_with text ''W/'' then 2 else 0)
      in if length text < start + 2 \<or> text ! start \<noteq> CHR 0x22 then None
         else (case scan_quote (drop (start + 1) text) of
                 None \<Rightarrow> None
               | Some k \<Rightarrow> let i = start + 1 + k in Some (take (Suc i) text, drop (Suc i) text)))"

definition strong_match :: "string \<Rightarrow> string option \<Rightarrow> bool" where
  "strong_match tag etag =
     (case etag of None \<Rightarrow> False | Some e \<Rightarrow> tag = e \<and> starts_with tag [CHR 0x22])"

fun trim_weak :: "string \<Rightarrow> string" where
  "trim_weak (a # b # s) = (if a = CHR ''W'' \<and> b = CHR ''/'' then trim_weak s else a # b # s)"
| "trim_weak s = s"

definition weak_match :: "string \<Rightarrow> string option \<Rightarrow> bool" where
  "weak_match tag etag = (trim_weak tag = trim_weak (case etag of None \<Rightarrow> [] | Some e \<Rightarrow> e))"

datatype condition = CondNone | CondTrue | CondFalse

lemma length_trim_space: "length (trim_space s) \<le> length s"
proof -
  have "length (trim_space s) \<le> length (rev (dropWhile is_http_space s))"
    unfolding trim_space_def length_rev by (rule length_dropWhile_le [THEN order_trans]) simp
  also have "\<dots> \<le> length s" by (simp add: length_dropWhile_le)
  finally show ?thesis .
qed

lemma scan_etag_shorter: "scan_etag s = Some (tag, rest) \<Longrightarrow> length rest < length s"
proof -
  assume a: "scan_etag s = Some (tag, rest)"
  then have "length rest < length (trim_space s)"
    by (auto simp: scan_etag_def Let_def split: option.splits if_splits)
  then show ?thesis using length_trim_space [of s] by simp
qed

function tag_list :: "condition \<Rightarrow> (string \<Rightarrow> bool) \<Rightarrow> string \<Rightarrow> condition" where
  "tag_list star matches list =
     (let rest = trim_space list;
          unmatched = (if star = CondTrue then CondFalse else CondTrue)
      in if rest = [] then unmatched
         else if hd rest = CHR '','' then tag_list star matches (tl rest)
         else if hd rest = CHR ''*'' then star
         else (case scan_etag rest of
                 None \<Rightarrow> unmatched
               | Some (tag, remaining) \<Rightarrow>
                   if matches tag then (if star = CondTrue then CondTrue else CondFalse)
                   else tag_list star matches remaining))"
  by pat_completeness auto

termination
proof (relation "measure (\<lambda>(star, matches, list). length list)", goal_cases)
  case (2 star matches list)
  then show ?case using length_trim_space [of list] by (cases "trim_space list") auto
next
  case (3 star matches list)
  then show ?case using length_trim_space [of list] by (auto dest!: scan_etag_shorter)
qed simp

declare tag_list.simps [simp del]

subsection \<open>Preconditions\<close>

datatype outcome = PreconditionFailed | NotModified | Proceed "string option"

definition is_get_or_head :: "http_method \<Rightarrow> bool" where
  "is_get_or_head mt = (mt = GET \<or> mt = HEAD)"

definition if_match_check :: "http_lib \<Rightarrow> req_headers \<Rightarrow> http_content \<Rightarrow> condition" where
  "if_match_check lib hs ct =
     (let im = header_text lib hs ''if-match'';
          c = (if im = [] then CondNone else tag_list CondTrue (\<lambda>tag. strong_match tag (ct_etag ct)) im)
      in if c = CondNone then
           (case (ct_modified ct, http_date lib hs ''if-unmodified-since'') of
              (Some m, Some since) \<Rightarrow> if m \<le> since then CondTrue else CondFalse
            | _ \<Rightarrow> CondNone)
         else c)"

definition if_none_match_check :: "http_lib \<Rightarrow> req_headers \<Rightarrow> http_content \<Rightarrow> condition" where
  "if_none_match_check lib hs ct =
     (let inm = header_text lib hs ''if-none-match''
      in if inm = [] then CondNone else tag_list CondFalse (\<lambda>tag. weak_match tag (ct_etag ct)) inm)"

definition if_range_fresh :: "http_lib \<Rightarrow> req_headers \<Rightarrow> http_content \<Rightarrow> bool" where
  "if_range_fresh lib hs ct =
     (case scan_etag (header_text lib hs ''if-range'') of
        Some (tag, _) \<Rightarrow> strong_match tag (ct_etag ct)
      | None \<Rightarrow> ct_modified ct \<noteq> None \<and> http_date lib hs ''if-range'' = ct_modified ct)"

definition range_outcome :: "http_lib \<Rightarrow> http_method \<Rightarrow> req_headers \<Rightarrow> http_content \<Rightarrow> outcome" where
  "range_outcome lib mt hs ct =
     (let rg = header_text lib hs ''range''
      in if rg = [] then Proceed None
         else if is_get_or_head mt \<and> header_text lib hs ''if-range'' \<noteq> [] \<and> \<not> if_range_fresh lib hs ct
           then Proceed None
         else Proceed (Some rg))"

definition preconditions :: "http_lib \<Rightarrow> http_method \<Rightarrow> req_headers \<Rightarrow> http_content \<Rightarrow> outcome" where
  "preconditions lib mt hs ct =
     (if if_match_check lib hs ct = CondFalse then PreconditionFailed
      else (case if_none_match_check lib hs ct of
              CondFalse \<Rightarrow> if is_get_or_head mt then NotModified else PreconditionFailed
            | CondNone \<Rightarrow>
                (case (ct_modified ct, http_date lib hs ''if-modified-since'') of
                   (Some m, Some since) \<Rightarrow>
                     if is_get_or_head mt \<and> m \<le> since then NotModified else range_outcome lib mt hs ct
                 | _ \<Rightarrow> range_outcome lib mt hs ct)
            | CondTrue \<Rightarrow> range_outcome lib mt hs ct))"

subsection \<open>Responses\<close>

record http_response =
  rs_status :: nat
  rs_headers :: resp_headers
  rs_body :: http_stream

definition header_set :: "http_lib \<Rightarrow> string \<Rightarrow> string \<Rightarrow> resp_headers \<Rightarrow> resp_headers" where
  "header_set lib name v hs = (if hl_value_ok lib v then hm_insert name v hs else hs)"

definition set_last_modified :: "http_lib \<Rightarrow> nat option \<Rightarrow> resp_headers \<Rightarrow> resp_headers" where
  "set_last_modified lib modified hs =
     (case modified of None \<Rightarrow> hs | Some t \<Rightarrow> header_set lib ''last-modified'' (hl_fmt_date lib t) hs)"

definition base_headers :: "http_lib \<Rightarrow> http_content \<Rightarrow> resp_headers" where
  "base_headers lib ct =
     set_last_modified lib (ct_modified ct)
       (case ct_etag ct of None \<Rightarrow> [] | Some e \<Rightarrow> header_set lib ''etag'' e [])"

definition with_headers :: "http_response \<Rightarrow> resp_headers \<Rightarrow> http_response" where
  "with_headers r hs = r\<lparr>rs_headers := fold (\<lambda>(n, v). hm_insert n v) hs (rs_headers r)\<rparr>"

definition go_http_error :: "nat \<Rightarrow> string \<Rightarrow> http_response" where
  "go_http_error status message =
     \<lparr>rs_status = status,
      rs_headers = [(''content-type'', ''text/plain; charset=utf-8''), (''x-content-type-options'', ''nosniff'')],
      rs_body = stream_of (str_bytes (message @ [CHR 0x0A]))\<rparr>"

definition serve_error :: "http_lib \<Rightarrow> nat \<Rightarrow> string \<Rightarrow> http_content \<Rightarrow> http_response" where
  "serve_error lib status message ct =
     with_headers (go_http_error status message)
       (hm_remove ''last-modified'' (hm_remove ''etag'' (base_headers lib ct)))"

definition empty_response :: "nat \<Rightarrow> http_response" where
  "empty_response status = \<lparr>rs_status = status, rs_headers = [], rs_body = stream_of []\<rparr>"

text \<open>The first bytes of a body decide its type when neither the handler nor the name does.\<close>

definition sniff_signatures :: "(byte list \<times> string) list" where
  "sniff_signatures =
     [(str_bytes ''%PDF-'', ''application/pdf''),
      ([0x89, 0x50, 0x4e, 0x47, 0x0d, 0x0a, 0x1a, 0x0a], ''image/png''),
      ([0xff, 0xd8, 0xff], ''image/jpeg''),
      (str_bytes ''GIF87a'', ''image/gif''),
      (str_bytes ''GIF89a'', ''image/gif''),
      ([0x1a, 0x45, 0xdf, 0xa3], ''video/webm''),
      (str_bytes ''ID3'', ''audio/mpeg''),
      (str_bytes ''OggS'' @ [0], ''application/ogg''),
      ([0x50, 0x4b, 0x03, 0x04], ''application/zip''),
      ([0x1f, 0x8b, 0x08], ''application/x-gzip'')]"

definition is_control_byte :: "byte \<Rightarrow> bool" where
  "is_control_byte b =
     (b \<le> 0x08 \<or> b = 0x0b \<or> 0x0e \<le> b \<and> b \<le> 0x1a \<or> 0x1c \<le> b \<and> b \<le> 0x1f)"

definition sniff :: "byte list \<Rightarrow> string" where
  "sniff d =
     (case find (\<lambda>(sig, kind). take (length sig) d = sig) sniff_signatures of
        Some (sig, kind) \<Rightarrow> kind
      | None \<Rightarrow>
          if 12 \<le> length d \<and> take 4 (drop 4 d) = str_bytes ''ftyp'' then ''video/mp4''
          else if list_ex is_control_byte d then ''application/octet-stream''
          else ''text/plain; charset=utf-8'')"

definition sniff_source :: "src_env \<Rightarrow> http_source \<Rightarrow> nat \<Rightarrow> string" where
  "sniff_source env src sz =
     (case source_head env src sz of Inl e \<Rightarrow> sniff [] | Inr h \<Rightarrow> sniff h)"

subsection \<open>Bodies of several parts\<close>

definition hex_digit_char :: "nat \<Rightarrow> char" where
  "hex_digit_char d = char_of (if d < 10 then 48 + d else 87 + d)"

text \<open>\<open>{nanos:060x}\<close>: hexadecimal, padded with zeros to 60 digits and longer if it must be.\<close>

fun hex_text :: "nat \<Rightarrow> string" where
  "hex_text n = (if n < 16 then [hex_digit_char n] else hex_text (n div 16) @ [hex_digit_char (n mod 16)])"

declare hex_text.simps [simp del]

definition boundary :: "nat \<Rightarrow> string" where
  "boundary nanos = (let h = hex_text nanos in replicate (60 - length h) CHR ''0'' @ h)"

definition CRLF :: string where "CRLF = [CHR 0x0D, CHR 0x0A]"

definition part_head :: "string \<Rightarrow> nat \<Rightarrow> string \<Rightarrow> http_range \<Rightarrow> string" where
  "part_head bnd sz kind r =
     ''--'' @ bnd @ CRLF @ ''Content-Range: bytes '' @ decimal (hr_start r) @ ''-'' @ decimal (hr_end r)
     @ ''/'' @ decimal sz @ CRLF @ ''Content-Type: '' @ kind @ CRLF @ CRLF"

definition closing :: "string \<Rightarrow> string" where
  "closing bnd = ''--'' @ bnd @ ''--'' @ CRLF"

definition multipart_length :: "string \<Rightarrow> nat \<Rightarrow> string \<Rightarrow> http_range list \<Rightarrow> nat" where
  "multipart_length bnd sz kind rs =
     add64 (sum64 (map (\<lambda>r. add64 (add64 (length (part_head bnd sz kind r)) (hr_len r)) 2) rs))
       (length (closing bnd))"

fun multipart_stream ::
    "src_env \<Rightarrow> http_source \<Rightarrow> string \<Rightarrow> nat \<Rightarrow> string \<Rightarrow> http_range list \<Rightarrow> http_stream" where
  "multipart_stream env src bnd sz kind [] = stream_of (str_bytes (closing bnd))"
| "multipart_stream env src bnd sz kind (r # rs) =
     stream_then (stream_of (str_bytes (part_head bnd sz kind r)))
       (case source_reader env src (hr_start r) (hr_len r) of
          Inl e \<Rightarrow> ([], Some e)
        | Inr s \<Rightarrow>
            stream_then s
              (stream_then (stream_of (str_bytes CRLF)) (multipart_stream env src bnd sz kind rs)))"

definition multipart ::
    "src_env \<Rightarrow> nat \<Rightarrow> http_source \<Rightarrow> http_range list \<Rightarrow> nat \<Rightarrow> string \<Rightarrow> bool \<Rightarrow> http_response" where
  "multipart env nanos src rs sz kind is_head =
     (let bnd = boundary nanos in
      \<lparr>rs_status = 206,
       rs_headers = [(''content-type'', ''multipart/byteranges; boundary='' @ bnd),
                     (''content-length'', decimal (multipart_length bnd sz kind rs))],
       rs_body = (if is_head then stream_of [] else multipart_stream env src bnd sz kind rs)\<rparr>)"

subsection \<open>Serving\<close>

definition content_type_of :: "http_lib \<Rightarrow> src_env \<Rightarrow> http_content \<Rightarrow> string option" where
  "content_type_of lib env ct =
     (case ct_type ct of
        Some k \<Rightarrow> Some k
      | None \<Rightarrow>
          (case by_extension (hl_guess lib) (ct_name ct) of
             Some k \<Rightarrow> Some k
           | None \<Rightarrow>
               (case source_head env (ct_source ct) (ct_size ct) of
                  Inr h \<Rightarrow> Some (sniff h)
                | Inl e \<Rightarrow> None)))"

text \<open>The ranges to serve, none for the whole body, or the refusal.\<close>

definition serve_ranges :: "string option \<Rightarrow> nat \<Rightarrow> range_error + http_range list" where
  "serve_ranges rg sz =
     (case map_option (\<lambda>v. range_parse v sz) rg of
        None \<Rightarrow> Inr []
      | Some (Inr rs) \<Rightarrow> if sz < sum64 (map hr_len rs) then Inr [] else Inr rs
      | Some (Inl RangeUnsatisfiable) \<Rightarrow> if sz = 0 then Inr [] else Inl RangeUnsatisfiable
      | Some (Inl RangeInvalid) \<Rightarrow> Inl RangeInvalid)"

definition whole_response :: "http_lib \<Rightarrow> string \<Rightarrow> nat \<Rightarrow> http_stream \<Rightarrow> http_response" where
  "whole_response lib kind sz body =
     \<lparr>rs_status = 200,
      rs_headers = hm_insert ''content-length'' (decimal sz) (header_set lib ''content-type'' kind []),
      rs_body = body\<rparr>"

definition single_response :: "http_lib \<Rightarrow> string \<Rightarrow> nat \<Rightarrow> http_range \<Rightarrow> http_stream \<Rightarrow> http_response" where
  "single_response lib kind sz r body =
     \<lparr>rs_status = 206,
      rs_headers =
        header_set lib ''content-range''
          (''bytes '' @ decimal (hr_start r) @ ''-'' @ decimal (hr_end r) @ ''/'' @ decimal sz)
          (hm_insert ''content-length'' (decimal (hr_len r)) (header_set lib ''content-type'' kind [])),
      rs_body = body\<rparr>"

definition finish_response :: "http_lib \<Rightarrow> http_content \<Rightarrow> http_response \<Rightarrow> http_response" where
  "finish_response lib ct r =
     with_headers (r\<lparr>rs_headers := hm_insert ''accept-ranges'' ''bytes'' (rs_headers r)\<rparr>) (base_headers lib ct)"

definition serve_body ::
    "http_lib \<Rightarrow> src_env \<Rightarrow> nat \<Rightarrow> http_content \<Rightarrow> bool \<Rightarrow> string \<Rightarrow> http_range list \<Rightarrow> http_response" where
  "serve_body lib env nanos ct is_head kind ranges =
     (let src = ct_source ct; sz = ct_size ct in
      case ranges of
        [] \<Rightarrow>
          (case (if is_head then Inr (stream_of []) else source_reader env src 0 sz) of
             Inl e \<Rightarrow> serve_error lib 500 ''cannot read content'' ct
           | Inr body \<Rightarrow> finish_response lib ct (whole_response lib kind sz body))
      | [r] \<Rightarrow>
          (case (if is_head then Inr (stream_of []) else source_reader env src (hr_start r) (hr_len r)) of
             Inl e \<Rightarrow> serve_error lib 416 ''cannot seek'' ct
           | Inr body \<Rightarrow> finish_response lib ct (single_response lib kind sz r body))
      | rs \<Rightarrow> finish_response lib ct (multipart env nanos src rs sz kind is_head))"

definition serve ::
    "http_lib \<Rightarrow> src_env \<Rightarrow> nat \<Rightarrow> http_content \<Rightarrow> http_method \<Rightarrow> req_headers \<Rightarrow> http_response" where
  "serve lib env nanos ct mt hs =
     (case preconditions lib mt hs ct of
        PreconditionFailed \<Rightarrow> with_headers (empty_response 412) (base_headers lib ct)
      | NotModified \<Rightarrow>
          with_headers (empty_response 304)
            (if ct_etag ct \<noteq> None then hm_remove ''last-modified'' (base_headers lib ct)
             else base_headers lib ct)
      | Proceed rg \<Rightarrow>
          (case content_type_of lib env ct of
             None \<Rightarrow> serve_error lib 500 (''seeker can'' @ [CHR 0x27] @ ''t seek'') ct
           | Some kind \<Rightarrow>
               (case serve_ranges rg (ct_size ct) of
                  Inl RangeUnsatisfiable \<Rightarrow>
                    (let r = serve_error lib 416 ''invalid range: failed to overlap'' ct in
                     r\<lparr>rs_headers := header_set lib ''content-range'' (''bytes */'' @ decimal (ct_size ct)) (rs_headers r)\<rparr>)
                | Inl RangeInvalid \<Rightarrow> serve_error lib 416 ''invalid range'' ct
                | Inr ranges \<Rightarrow> serve_body lib env nanos ct (mt = HEAD) kind ranges)))"

end
