(* ===== verification/ServeProps.thy ===== *)
theory ServeProps
  imports ServeContent
begin

text \<open>
  What \<open>serve\<close> promises: the bytes and lengths of the bodies it sends, the agreement of
  \<open>HEAD\<close> with \<open>GET\<close>, and the answers to conditional requests.
\<close>

subsection \<open>Bodies\<close>

definition range_bytes :: "byte list \<Rightarrow> http_range \<Rightarrow> byte list" where
  "range_bytes bs r = take (hr_end r - hr_start r + 1) (drop (hr_start r) bs)"

lemma length_range_bytes:
  "hr_wf (length bs) r \<Longrightarrow> length (range_bytes bs r) = hr_end r - hr_start r + 1"
  by (auto simp: range_bytes_def hr_wf_def)

lemma reader_whole:
  "length bs < U64 \<Longrightarrow> source_reader env (Memory bs) 0 (length bs) = Inr (stream_of bs)"
  by (simp add: source_reader_def slice_opt_def add64_in_range)

lemma reader_range:
  assumes "length bs < U64" "hr_wf (length bs) r"
  shows "source_reader env (Memory bs) (hr_start r) (hr_len r) = Inr (stream_of (range_bytes bs r))"
proof -
  have le: "hr_start r + (hr_end r - hr_start r + 1) \<le> length bs" "hr_start r \<le> hr_end r"
    using assms(2) by (auto simp: hr_wf_def)
  then have "add64 (hr_start r) (hr_end r - hr_start r + 1) = hr_start r + (hr_end r - hr_start r + 1)"
    using assms(1) by (intro add64_in_range) simp
  then show ?thesis
    using le by (simp add: source_reader_def hr_len_wf [OF assms(2,1)] slice_opt_def range_bytes_def min_absorb1
        Suc_diff_le)
qed

lemma head_memory: "\<exists>h. source_head env (Memory bs) n = Inr h"
  by (auto simp: source_head_def source_reader_def slice_opt_def stream_of_def add64_def SNIFF_LEN_def
      U64_def)

text \<open>The framing of a body of several parts.\<close>

definition part_bytes :: "string \<Rightarrow> nat \<Rightarrow> string \<Rightarrow> byte list \<Rightarrow> http_range \<Rightarrow> byte list" where
  "part_bytes bnd sz kind bs r = str_bytes (part_head bnd sz kind r) @ range_bytes bs r @ str_bytes CRLF"

definition multipart_bytes :: "string \<Rightarrow> nat \<Rightarrow> string \<Rightarrow> byte list \<Rightarrow> http_range list \<Rightarrow> byte list" where
  "multipart_bytes bnd sz kind bs rs =
     concat (map (part_bytes bnd sz kind bs) rs) @ str_bytes (closing bnd)"

lemma stream_then_of [simp]: "stream_then (stream_of a) (stream_of b) = stream_of (a @ b)"
  by (simp add: stream_then_def stream_of_def)

lemma multipart_stream_memory:
  assumes "length bs < U64" "\<forall>r \<in> set rs. hr_wf (length bs) r"
  shows "multipart_stream env (Memory bs) bnd sz kind rs = stream_of (multipart_bytes bnd sz kind bs rs)"
  using assms(2)
  by (induction rs) (simp_all add: multipart_bytes_def part_bytes_def reader_range [OF assms(1)])

lemma multipart_length_exact:
  assumes "length bs < U64" "\<forall>r \<in> set rs. hr_wf (length bs) r"
    "length (multipart_bytes bnd sz kind bs rs) < U64"
  shows "multipart_length bnd sz kind rs = length (multipart_bytes bnd sz kind bs rs)"
proof -
  let ?n = "\<lambda>r. length (part_bytes bnd sz kind bs r)"
  have len: "length (multipart_bytes bnd sz kind bs rs) = sum_list (map ?n rs) + length (closing bnd)"
    by (simp add: multipart_bytes_def length_concat comp_def)
  have part: "add64 (add64 (length (part_head bnd sz kind r)) (hr_len r)) 2 = ?n r" if "r \<in> set rs" for r
  proof -
    have w: "hr_wf (length bs) r" using assms(2) that by blast
    have n: "?n r = length (part_head bnd sz kind r) + hr_len r + 2"
      by (simp add: part_bytes_def length_range_bytes [OF w] hr_len_wf [OF w assms(1)] CRLF_def)
    have "?n r \<le> sum_list (map ?n rs)" using that by (intro member_le_sum_list) auto
    then have "?n r < U64" using assms(3) len by linarith
    then show ?thesis using n by (simp add: add64_in_range)
  qed
  have "map (\<lambda>r. add64 (add64 (length (part_head bnd sz kind r)) (hr_len r)) 2) rs = map ?n rs"
    using part by simp
  then show ?thesis
    using assms(3) len by (simp only: multipart_length_def) (simp add: sum64_in_range add64_in_range)
qed

subsection \<open>Headers\<close>

abbreviation header :: "http_response \<Rightarrow> string \<Rightarrow> string option" where
  "header r \<equiv> map_of (rs_headers r)"

lemma fold_insert_other:
  "n \<notin> fst ` set hs \<Longrightarrow> map_of (fold (\<lambda>(n, v). hm_insert n v) hs xs) n = map_of xs n"
  by (induction hs arbitrary: xs) auto

lemma header_set_keys: "fst ` set (header_set lib n v hs) \<subseteq> insert n (fst ` set hs)"
  by (simp add: header_set_def dom_update subset_insertI)

lemma header_set_other [simp]: "m \<noteq> n \<Longrightarrow> map_of (header_set lib n v hs) m = map_of hs m"
  by (simp add: header_set_def)

lemma base_headers_keys: "fst ` set (base_headers lib ct) \<subseteq> {''etag'', ''last-modified''}"
proof -
  let ?h = "case ct_etag ct of None \<Rightarrow> [] | Some e \<Rightarrow> header_set lib ''etag'' e []"
  have h: "fst ` set ?h \<subseteq> {''etag''}"
    using header_set_keys [of lib "''etag''" _ "[]"] by (cases "ct_etag ct") auto
  show ?thesis
  proof (cases "ct_modified ct")
    case None
    then show ?thesis using h by (auto simp: base_headers_def set_last_modified_def)
  next
    case (Some t)
    have "fst ` set (base_headers lib ct) \<subseteq> insert ''last-modified'' (fst ` set ?h)"
      unfolding base_headers_def set_last_modified_def Some option.case by (rule header_set_keys)
    then show ?thesis using h by blast
  qed
qed

lemma with_headers_simps [simp]:
  "rs_status (with_headers r hs) = rs_status r" "rs_body (with_headers r hs) = rs_body r"
  by (simp_all add: with_headers_def)

lemma with_base_other:
  assumes "n \<noteq> ''etag''" "n \<noteq> ''last-modified''"
  shows "header (with_headers r (base_headers lib ct)) n = header r n"
  using assms base_headers_keys [of lib ct]
  by (auto simp: with_headers_def intro!: fold_insert_other)

lemma keys_hm_remove: "fst ` set (hm_remove k xs) = fst ` set xs - {k}"
  by (induction xs) auto

lemma serve_error_plain: "serve_error lib status message ct = go_http_error status message"
proof -
  have "fst ` set (hm_remove ''last-modified'' (hm_remove ''etag'' (base_headers lib ct))) = {}"
    using base_headers_keys [of lib ct] by (auto simp: keys_hm_remove)
  then have "hm_remove ''last-modified'' (hm_remove ''etag'' (base_headers lib ct)) = []" by simp
  then show ?thesis by (simp add: serve_error_def with_headers_def)
qed

lemma finish_simps [simp]:
  "rs_status (finish_response lib ct r) = rs_status r" "rs_body (finish_response lib ct r) = rs_body r"
  by (simp_all add: finish_response_def)

lemma finish_length [simp]:
  "header (finish_response lib ct r) ''content-length'' = header r ''content-length''"
  by (simp add: finish_response_def with_base_other)

lemma response_fields [simp]:
  "rs_status (whole_response lib kind n b) = 200" "rs_body (whole_response lib kind n b) = b"
  "header (whole_response lib kind n b) ''content-length'' = Some (decimal n)"
  "rs_status (single_response lib kind n r b) = 206" "rs_body (single_response lib kind n r b) = b"
  "header (single_response lib kind n r b) ''content-length'' = Some (decimal (hr_len r))"
  "rs_status (multipart env nanos src rs n kind h) = 206"
  by (simp_all add: whole_response_def single_response_def multipart_def Let_def)

lemma content_type_memory: "ct_source ct = Memory bs \<Longrightarrow> \<exists>kind. content_type_of lib env ct = Some kind"
  using head_memory [of env bs "ct_size ct"]
  by (auto simp: content_type_of_def split: option.splits)

text \<open>What a body of served ranges is.\<close>

definition ranges_bytes :: "string \<Rightarrow> string \<Rightarrow> byte list \<Rightarrow> http_range list \<Rightarrow> byte list" where
  "ranges_bytes bnd kind bs rs =
     (case rs of [r] \<Rightarrow> range_bytes bs r | _ \<Rightarrow> multipart_bytes bnd (length bs) kind bs rs)"

lemma serve_body_whole:
  assumes "ct_source ct = Memory bs" "ct_size ct = length bs" "length bs < U64"
  shows "serve_body lib env nanos ct False kind [] =
    finish_response lib ct (whole_response lib kind (length bs) (stream_of bs))"
  using assms by (simp add: serve_body_def reader_whole)

lemma serve_body_ranges:
  assumes "ct_source ct = Memory bs" "ct_size ct = length bs" "length bs < U64"
    "rs \<noteq> []" "\<forall>r \<in> set rs. hr_wf (length bs) r"
    and p_def: "p = serve_body lib env nanos ct False kind rs"
  shows "rs_status p = 206" "rs_body p = stream_of (ranges_bytes (boundary nanos) kind bs rs)"
    "length (fst (rs_body p)) < U64 \<Longrightarrow> header p ''content-length'' = Some (decimal (length (fst (rs_body p))))"
proof -
  have "rs_status p = 206 \<and> rs_body p = stream_of (ranges_bytes (boundary nanos) kind bs rs)
      \<and> (length (fst (rs_body p)) < U64 \<longrightarrow>
           header p ''content-length'' = Some (decimal (length (fst (rs_body p)))))"
  proof (cases rs rule: remdups_adj.cases)
    case (2 r)
    then have w: "hr_wf (length bs) r" using assms(5) by simp
    show ?thesis
      using 2 assms(1,2) reader_range [OF assms(3) w]
      by (simp add: p_def serve_body_def ranges_bytes_def stream_of_def length_range_bytes [OF w]
          hr_len_wf [OF w assms(3)])
  next
    case (3 r r' rest)
    note ms = multipart_stream_memory [OF assms(3,5)]
    have p: "p = finish_response lib ct (multipart env nanos (Memory bs) rs (length bs) kind False)"
      using 3 assms(1,2) by (simp add: p_def serve_body_def)
    have b: "rs_body p = stream_of (multipart_bytes (boundary nanos) (length bs) kind bs rs)"
      unfolding p by (simp add: multipart_def Let_def ms)
    have h: "header p ''content-length'' = Some (decimal (multipart_length (boundary nanos) (length bs) kind rs))"
      unfolding p by (simp add: multipart_def Let_def)
    show ?thesis
      using b h multipart_length_exact [OF assms(3,5), of "boundary nanos" "length bs" kind] 3
      by (simp add: p ranges_bytes_def stream_of_def)
  qed (use assms(4) in simp)
  then show "rs_status p = 206" "rs_body p = stream_of (ranges_bytes (boundary nanos) kind bs rs)"
    "length (fst (rs_body p)) < U64 \<Longrightarrow> header p ''content-length'' = Some (decimal (length (fst (rs_body p))))"
    by auto
qed

lemma serve_ranges_Inr:
  assumes "serve_ranges rg n = Inr rs" "rs \<noteq> []"
  obtains v where "rg = Some v" "range_parse v n = Inr rs"
  using assms by (auto simp: serve_ranges_def split: option.splits sum.splits if_splits range_error.splits)

lemma serve_ranges_Inl:
  assumes "serve_ranges rg n = Inl e"
  obtains v where "rg = Some v" "range_parse v n = Inl e"
  using assms by (auto simp: serve_ranges_def split: option.splits sum.splits if_splits range_error.splits)

subsection \<open>Serving content\<close>

definition sample_lib :: http_lib where
  "sample_lib =
     \<lparr>hl_parse_date = (\<lambda>s. None), hl_fmt_date = (\<lambda>t. decimal t), hl_to_str_ok = (\<lambda>s. True),
      hl_value_ok = (\<lambda>s. True), hl_guess = (\<lambda>s. None)\<rparr>"

definition sample_env :: src_env where
  "sample_env = \<lparr>se_file = (\<lambda>p n. Inl ''no files''), se_playback = (\<lambda>h i s e. Inl ''no torrents'')\<rparr>"

definition sample_content :: http_content where
  "sample_content =
     \<lparr>ct_source = Memory [10, 11, 12, 13, 14], ct_size = 5, ct_name = ''a.mkv'', ct_type = None,
      ct_modified = None, ct_etag = Some [CHR 0x22, CHR ''1'', CHR 0x22]\<rparr>"

lemma serve_range_cases:
  assumes "ct_source ct = Memory bs" "ct_size ct = length bs" "length bs < U64" "mt \<noteq> HEAD"
    "preconditions lib mt hs ct = Proceed rg"
  shows "(\<exists>kind. serve lib env nanos ct mt hs =
            finish_response lib ct (whole_response lib kind (length bs) (stream_of bs)))
    \<or> (\<exists>kind v rs. rg = Some v \<and> range_parse v (length bs) = Inr rs \<and> rs \<noteq> []
         \<and> serve lib env nanos ct mt hs = serve_body lib env nanos ct False kind rs)
    \<or> (\<exists>v e. rg = Some v \<and> range_parse v (length bs) = Inl e
         \<and> rs_status (serve lib env nanos ct mt hs) = 416
         \<and> snd (rs_body (serve lib env nanos ct mt hs)) = None
         \<and> header (serve lib env nanos ct mt hs) ''etag'' = None
         \<and> header (serve lib env nanos ct mt hs) ''last-modified'' = None)"
proof -
  obtain kind where kind: "content_type_of lib env ct = Some kind"
    using content_type_memory [OF assms(1)] by blast
  show ?thesis
  proof (cases "serve_ranges rg (length bs)")
    case (Inl e)
    then obtain v where "rg = Some v" "range_parse v (length bs) = Inl e" by (rule serve_ranges_Inl)
    then show ?thesis
      using Inl assms kind
      by (cases e) (auto simp: serve_def serve_error_plain go_http_error_def Let_def stream_of_def)
  next
    case (Inr rs)
    have s: "serve lib env nanos ct mt hs = serve_body lib env nanos ct False kind rs"
      using Inr assms kind by (simp add: serve_def)
    show ?thesis
    proof (cases "rs = []")
      case True
      then show ?thesis using s serve_body_whole [OF assms(1-3)] by auto
    next
      case False
      with Inr obtain v where "rg = Some v" "range_parse v (length bs) = Inr rs" by (rule serve_ranges_Inr)
      then show ?thesis using s False by blast
    qed
  qed
qed

text \<open>
  C18. A request that is not \<open>HEAD\<close> for content in memory is never an internal error and its body
  is never cut short. A 200 carries the whole content; a 206 carries exactly the bytes of the
  ranges the header names, one range bare and several framed as \<open>multipart/byteranges\<close>; in both
  the length header is the length of the body sent. A 304 or 412 has no body, and a 416 answers a
  range header that the parser refused and carries no validators.
\<close>

theorem serve_sends_exact_bytes:
  assumes "ct_source ct = Memory bs" "ct_size ct = length bs" "length bs < U64" "mt \<noteq> HEAD"
    and r: "r = serve lib env nanos ct mt hs"
  shows "rs_status r \<in> {200, 206, 304, 412, 416} \<and> snd (rs_body r) = None
    \<and> (rs_status r = 200 \<longrightarrow>
         fst (rs_body r) = bs \<and> header r ''content-length'' = Some (decimal (length bs)))
    \<and> (rs_status r = 206 \<longrightarrow>
         (\<exists>v rs kind. preconditions lib mt hs ct = Proceed (Some v) \<and> range_parse v (length bs) = Inr rs
            \<and> fst (rs_body r) = ranges_bytes (boundary nanos) kind bs rs)
         \<and> (length (fst (rs_body r)) < U64 \<longrightarrow>
              header r ''content-length'' = Some (decimal (length (fst (rs_body r))))))
    \<and> (rs_status r \<in> {304, 412} \<longrightarrow> fst (rs_body r) = [])
    \<and> (rs_status r = 416 \<longrightarrow>
         (\<exists>v e. preconditions lib mt hs ct = Proceed (Some v) \<and> range_parse v (length bs) = Inl e)
         \<and> header r ''etag'' = None \<and> header r ''last-modified'' = None)"
proof (cases "preconditions lib mt hs ct")
  case PreconditionFailed
  then show ?thesis by (simp add: r serve_def empty_response_def stream_of_def)
next
  case NotModified
  then show ?thesis by (simp add: r serve_def empty_response_def stream_of_def)
next
  case (Proceed rg)
  from serve_range_cases [OF assms(1-4) Proceed, where env = env and nanos = nanos]
  consider (whole) kind where "r = finish_response lib ct (whole_response lib kind (length bs) (stream_of bs))"
    | (ranges) kind v rs where "rg = Some v" "range_parse v (length bs) = Inr rs" "rs \<noteq> []"
        "r = serve_body lib env nanos ct False kind rs"
    | (refused) v e where "rg = Some v" "range_parse v (length bs) = Inl e" "rs_status r = 416"
        "snd (rs_body r) = None"
        "header r ''etag'' = None" "header r ''last-modified'' = None"
    unfolding r by blast
  then show ?thesis
  proof cases
    case whole
    then show ?thesis by (simp add: stream_of_def)
  next
    case ranges
    have "\<forall>x \<in> set rs. hr_wf (length bs) x"
      using range_parse_wf(3) [OF assms(3) ranges(2)] by blast
    note b = serve_body_ranges [OF assms(1-3) ranges(3) this ranges(4)]
    show ?thesis using b Proceed ranges(1,2) by (auto simp: stream_of_def)
  next
    case refused
    then show ?thesis using Proceed by (auto simp: stream_of_def)
  qed
qed

theorem serve_sends_exact_bytes_witness:
  "fst (rs_body (serve sample_lib sample_env 0 sample_content GET [''range'' \<mapsto> ''bytes=1-2''])) = [11, 12]
   \<and> header (serve sample_lib sample_env 0 sample_content GET [''range'' \<mapsto> ''bytes=1-2'']) ''content-length''
       = Some (decimal 2)"
proof -
  let ?r = "serve sample_lib sample_env 0 sample_content GET [''range'' \<mapsto> ''bytes=1-2'']"
  have p: "preconditions sample_lib GET [''range'' \<mapsto> ''bytes=1-2''] sample_content
      = Proceed (Some ''bytes=1-2'')"
    by (simp add: preconditions_def if_match_check_def if_none_match_check_def header_text_def http_date_def
        sample_lib_def sample_content_def range_outcome_def)
  have "decimal 1 @ ''-'' @ decimal 2 = ''1-2''"
    by code_simp
  then have h: "range_header [FromTo 1 2] = ''bytes=1-2''" by (simp add: range_header_def)
  have g: "range_parse ''bytes=1-2'' 5 = Inr [\<lparr>hr_start = 1, hr_end = 2\<rparr>]"
    using range_parse_specs [of 5 "[FromTo 1 2]"] unfolding h by (simp add: U64_def)
  have k: "content_type_of sample_lib sample_env sample_content = Some ''video/x-matroska''"
    by code_simp
  have l: "hr_len \<lparr>hr_start = 1, hr_end = 2\<rparr> = 2" by (simp add: hr_len_def add64_def sub64_def U64_def)
  have "rs_status ?r = 206"
    using p g k l
    by (simp add: serve_def serve_ranges_def serve_body_def sample_content_def source_reader_def slice_opt_def
        sum64_def add64_def U64_def)
  moreover have n: "length [10, 11, 12, 13, 14 :: byte] = 5" by simp
  have c: "ct_source sample_content = Memory [10, 11, 12, 13, 14]"
    "ct_size sample_content = length [10, 11, 12, 13, 14 :: byte]" "length [10, 11, 12, 13, 14 :: byte] < U64"
    by (simp_all add: sample_content_def U64_def)
  note e = serve_sends_exact_bytes [OF c, of GET ?r, OF _ refl, unfolded n, simplified p g]
  ultimately have "fst (rs_body ?r) = [11, 12]"
    using g by (auto simp: ranges_bytes_def range_bytes_def)
  then show ?thesis using \<open>rs_status ?r = 206\<close> e by (simp add: U64_def)
qed



subsection \<open>Conditional requests\<close>

text \<open>Entity tags as a server makes them, strong or weak, and the list of them a client sends.\<close>

definition quoted :: "string \<Rightarrow> string" where
  "quoted w = CHR 0x22 # w @ [CHR 0x22]"

definition etag_wf :: "string \<Rightarrow> bool" where
  "etag_wf t \<longleftrightarrow> (\<exists>w. (\<forall>c \<in> set w. etag_char c) \<and> (t = quoted w \<or> t = ''W/'' @ quoted w))"

definition tags_text :: "string list \<Rightarrow> string" where
  "tags_text ts = join '', '' ts"

lemma scan_quote_closed:
  "\<forall>c \<in> set w. etag_char c \<Longrightarrow> scan_quote (w @ CHR 0x22 # s) = Some (length w)"
  by (induction w) (simp_all add: etag_char_def byte_val_def)

lemma trim_space_id: "s = [] \<or> \<not> is_http_space (hd s) \<and> \<not> is_http_space (last s) \<Longrightarrow> trim_space s = s"
proof -
  assume a: "s = [] \<or> \<not> is_http_space (hd s) \<and> \<not> is_http_space (last s)"
  have d: "dropWhile P xs = xs" if "xs = [] \<or> \<not> P (hd xs)" for P and xs :: string
    using that by (cases xs) auto
  show ?thesis using a d [of s is_http_space] d [of "rev s" is_http_space]
    by (auto simp: trim_space_def hd_rev)
qed

lemma trim_space_skip [simp]: "trim_space (CHR '' '' # s) = trim_space s"
  by (simp add: trim_space_def is_http_space_def)

lemma scan_etag_closed:
  assumes "etag_wf t" "s = [] \<or> \<not> is_http_space (last s)"
  shows "scan_etag (t @ s) = Some (t, s)"
proof -
  from assms(1) obtain w where w: "\<forall>c \<in> set w. etag_char c" "t = quoted w \<or> t = ''W/'' @ quoted w"
    by (auto simp: etag_wf_def)
  have tr: "trim_space (t @ s) = t @ s"
    using assms(2) w(2)
    by (cases "s = []"; intro trim_space_id) (auto simp: quoted_def is_http_space_def)
  from w(2) show ?thesis
  proof
    assume t: "t = quoted w"
    then have "scan_quote (drop 1 (t @ s)) = Some (length w)"
      using scan_quote_closed [OF w(1), of s] by (simp add: quoted_def)
    then show ?thesis
      unfolding scan_etag_def tr by (simp add: t quoted_def starts_with_def Let_def numeral_eq_Suc)
  next
    assume t: "t = ''W/'' @ quoted w"
    then have "scan_quote (drop 3 (t @ s)) = Some (length w)"
      using scan_quote_closed [OF w(1), of s] by (simp add: quoted_def)
    then show ?thesis
      unfolding scan_etag_def tr by (simp add: t quoted_def starts_with_def Let_def numeral_eq_Suc)
  qed
qed

lemma etag_wf_ends:
  assumes "etag_wf t"
  shows "t \<noteq> []" "\<not> is_http_space (hd t)" "\<not> is_http_space (last t)" "hd t \<noteq> CHR '',''" "hd t \<noteq> CHR ''*''"
  using assms by (auto simp: etag_wf_def quoted_def is_http_space_def)

lemma tags_text_ends:
  assumes "ts \<noteq> []" "\<forall>t \<in> set ts. etag_wf t"
  shows "tags_text ts \<noteq> []" "hd (tags_text ts) = hd (hd ts)" "last (tags_text ts) = last (last ts)"
proof -
  have "tags_text ts \<noteq> [] \<and> hd (tags_text ts) = hd (hd ts) \<and> last (tags_text ts) = last (last ts)"
    using assms
  proof (induction ts)
    case (Cons t ts)
    then show ?case
      using etag_wf_ends(1) [of t] by (cases ts) (auto simp: tags_text_def)
  qed simp
  then show "tags_text ts \<noteq> []" "hd (tags_text ts) = hd (hd ts)" "last (tags_text ts) = last (last ts)"
    by auto
qed

lemma trim_tags_text:
  "ts \<noteq> [] \<Longrightarrow> \<forall>t \<in> set ts. etag_wf t \<Longrightarrow> trim_space (tags_text ts) = tags_text ts"
  using tags_text_ends [of ts] etag_wf_ends [of "hd ts"] etag_wf_ends [of "last ts"]
  by (intro trim_space_id) auto

lemma tag_list_tags:
  assumes "ts \<noteq> []" "\<forall>t \<in> set ts. etag_wf t" "star \<noteq> CondNone"
  shows "tag_list star m (tags_text ts) =
    (if (\<exists>t \<in> set ts. m t) = (star = CondTrue) then CondTrue else CondFalse)"
  using assms(1,2)
proof (induction ts)
  case (Cons t ts)
  have wf: "etag_wf t" using Cons.prems by simp
  note ends = etag_wf_ends [OF wf]
  let ?s = "if ts = [] then [] else '', '' @ tags_text ts"
  have tx: "tags_text (t # ts) = t @ ?s"
    by (cases ts) (simp_all add: tags_text_def)
  have "?s = [] \<or> \<not> is_http_space (last ?s)"
    using Cons.prems tags_text_ends [of ts] etag_wf_ends(3) [of "last ts"] by auto
  then have scan: "scan_etag (tags_text (t # ts)) = Some (t, ?s)"
    unfolding tx by (rule scan_etag_closed [OF wf])
  have tr: "trim_space (tags_text (t # ts)) = tags_text (t # ts)"
    by (rule trim_tags_text) (use Cons.prems in auto)
  have step: "tag_list star m (tags_text (t # ts)) =
      (if m t then (if star = CondTrue then CondTrue else CondFalse) else tag_list star m ?s)"
    by (subst tag_list.simps) (simp only: Let_def tr scan, simp add: tx ends)
  show ?case
  proof (cases "ts = []")
    case True
    have "tag_list star m [] = (if star = CondTrue then CondFalse else CondTrue)"
      by (subst tag_list.simps) (simp add: trim_space_def)
    then show ?thesis using step True assms(3) by (cases star) auto
  next
    case False
    then have wfs: "\<forall>t \<in> set ts. etag_wf t" using Cons.prems by simp
    note te = tags_text_ends [OF False wfs]
    have tr2: "trim_space ('', '' @ tags_text ts) = '', '' @ tags_text ts"
      using te etag_wf_ends(3) [of "last ts"] wfs False
      by (intro trim_space_id) (auto simp: is_http_space_def)
    have "tag_list star m ('', '' @ tags_text ts) = tag_list star m ('' '' @ tags_text ts)"
      by (subst tag_list.simps) (simp only: Let_def tr2, simp)
    also have "\<dots> = tag_list star m (tags_text ts)"
      by (subst (1 2) tag_list.simps) (simp add: trim_tags_text [OF False wfs])
    finally show ?thesis
      using step False Cons.IH [OF False wfs] by (cases star) auto
  qed
qed simp



end
