(* ===== verification/Action.thy ===== *)
theory Action
  imports Prelude
begin

text \<open>
  Handlers that change a state and may stop early. An action takes a state to the state it leaves
  and either an error or a result; an error keeps what was done before it, as the code has no
  transactions around its handlers. \<open>bnd\<close> is the \<open>?\<close> of the code, \<open>attempt\<close> a \<open>match\<close> on the
  result of a call, \<open>for_each\<close> a loop left at the first error.

  Two judgements carry the proofs about handlers: \<open>keeps P m\<close>, an invariant of a whole handler,
  and the triple \<open>does P m Q\<close>, where the postcondition sees the result and errors satisfy nothing.
\<close>

type_synonym ('st, 'err, 'a) act = "'st \<Rightarrow> 'st \<times> ('err + 'a)"

definition ret :: "'a \<Rightarrow> ('st, 'err, 'a) act" where
  "ret x = (\<lambda>s. (s, Inr x))"

definition raise :: "'err \<Rightarrow> ('st, 'err, 'a) act" where
  "raise e = (\<lambda>s. (s, Inl e))"

definition bnd :: "('st, 'err, 'a) act \<Rightarrow> ('a \<Rightarrow> ('st, 'err, 'b) act) \<Rightarrow> ('st, 'err, 'b) act" where
  "bnd m f = (\<lambda>s. case m s of (s', Inl e) \<Rightarrow> (s', Inl e) | (s', Inr x) \<Rightarrow> f x s')"

definition attempt :: "('st, 'err, 'a) act \<Rightarrow> ('st, 'err, 'err + 'a) act" where
  "attempt m = (\<lambda>s. case m s of (s', r) \<Rightarrow> (s', Inr r))"

definition gets :: "('st \<Rightarrow> 'a) \<Rightarrow> ('st, 'err, 'a) act" where
  "gets f = (\<lambda>s. (s, Inr (f s)))"

definition try_gets :: "('st \<Rightarrow> 'err + 'a) \<Rightarrow> ('st, 'err, 'a) act" where
  "try_gets f = (\<lambda>s. (s, f s))"

definition modify :: "('st \<Rightarrow> 'st) \<Rightarrow> ('st, 'err, unit) act" where
  "modify f = (\<lambda>s. (f s, Inr ()))"

fun for_each :: "'x list \<Rightarrow> ('x \<Rightarrow> ('st, 'err, unit) act) \<Rightarrow> ('st, 'err, unit) act" where
  "for_each [] f = ret ()"
| "for_each (x # xs) f = bnd (f x) (\<lambda>_. for_each xs f)"

abbreviation seq :: "('st, 'err, unit) act \<Rightarrow> ('st, 'err, 'b) act \<Rightarrow> ('st, 'err, 'b) act" where
  "seq m k \<equiv> bnd m (\<lambda>_. k)"

subsection \<open>Running an action\<close>

lemma act_simps [simp]:
  "ret x s = (s, Inr x)" "raise e s = (s, Inl e)" "gets f s = (s, Inr (f s))" "try_gets k s = (s, k s)"
  "modify g s = (g s, Inr ())"
  by (simp_all add: ret_def raise_def gets_def try_gets_def modify_def)

lemma bnd_step [simp]:
  "m s = (s', Inl e) \<Longrightarrow> bnd m f s = (s', Inl e)"
  "m s = (s', Inr x) \<Longrightarrow> bnd m f s = f x s'"
  by (simp_all add: bnd_def)

lemma attempt_step [simp]: "m s = (s', r) \<Longrightarrow> attempt m s = (s', Inr r)"
  by (simp add: attempt_def)

lemma bnd_assoc: "bnd (bnd m f) g = bnd m (\<lambda>x. bnd (f x) g)"
  by (auto simp: bnd_def fun_eq_iff split: prod.split sum.split)

lemma bnd_OkE:
  assumes "bnd m f s = (s', Inr y)"
  obtains t x where "m s = (t, Inr x)" "f x t = (s', Inr y)"
  using assms by (auto simp: bnd_def split: prod.splits sum.splits)

subsection \<open>Invariants of handlers\<close>

named_theorems keeping \<open>introduction rules for keeps\<close>

definition keeps :: "('st \<Rightarrow> bool) \<Rightarrow> ('st, 'err, 'a) act \<Rightarrow> bool" where
  "keeps P m \<longleftrightarrow> (\<forall>s. P s \<longrightarrow> P (fst (m s)))"

lemma keepsD: "keeps P m \<Longrightarrow> P s \<Longrightarrow> m s = (s', r) \<Longrightarrow> P s'"
  unfolding keeps_def by (metis fst_conv)

lemma keepsI: "(\<And>s s' r. P s \<Longrightarrow> m s = (s', r) \<Longrightarrow> P s') \<Longrightarrow> keeps P m"
  unfolding keeps_def by (metis prod.collapse)

lemma keeps_basic [keeping]: "keeps P (ret x)" "keeps P (raise e)" "keeps P (gets f)" "keeps P (try_gets h)"
  by (simp_all add: keeps_def)

lemma keeps_modify [keeping]: "(\<And>s. P s \<Longrightarrow> P (f s)) \<Longrightarrow> keeps P (modify f)"
  by (simp add: keeps_def)

lemma keeps_bnd [keeping]: "keeps P m \<Longrightarrow> (\<And>x. keeps P (f x)) \<Longrightarrow> keeps P (bnd m f)"
  by (rule keepsI) (auto simp: bnd_def split: prod.splits sum.splits dest: keepsD)

lemma keeps_attempt [keeping]: "keeps P m \<Longrightarrow> keeps P (attempt m)"
  by (rule keepsI) (auto simp: attempt_def split: prod.splits dest: keepsD)

lemma keeps_for_each [keeping]: "(\<And>x. keeps P (f x)) \<Longrightarrow> keeps P (for_each xs f)"
  by (induction xs) (auto intro: keeping)

lemma keeps_cases [keeping]:
  "(b \<Longrightarrow> keeps P m) \<Longrightarrow> (\<not> b \<Longrightarrow> keeps P n) \<Longrightarrow> keeps P (if b then m else n)"
  "(o1 = None \<Longrightarrow> keeps P m) \<Longrightarrow> (\<And>x. o1 = Some x \<Longrightarrow> keeps P (k x)) \<Longrightarrow> keeps P (case_option m k o1)"
  "(\<And>e. r = Inl e \<Longrightarrow> keeps P (k1 e)) \<Longrightarrow> (\<And>x. r = Inr x \<Longrightarrow> keeps P (k2 x)) \<Longrightarrow> keeps P (case_sum k1 k2 r)"
  "(\<And>x y. p = (x, y) \<Longrightarrow> keeps P (k3 x y)) \<Longrightarrow> keeps P (case_prod k3 p)"
  by (auto split: option.split sum.split prod.split)

lemma keeps_Let [keeping]: "keeps P (f x) \<Longrightarrow> keeps P (Let x f)"
  by (simp add: Let_def)

subsection \<open>What a successful handler has done\<close>

definition does :: "('st \<Rightarrow> bool) \<Rightarrow> ('st, 'err, 'a) act \<Rightarrow> ('a \<Rightarrow> 'st \<Rightarrow> bool) \<Rightarrow> bool" where
  "does P m Q \<longleftrightarrow> (\<forall>s s' x. P s \<longrightarrow> m s = (s', Inr x) \<longrightarrow> Q x s')"

lemma doesD: "does P m Q \<Longrightarrow> P s \<Longrightarrow> m s = (s', Inr x) \<Longrightarrow> Q x s'"
  unfolding does_def by blast

lemma doesI: "(\<And>s s' x. P s \<Longrightarrow> m s = (s', Inr x) \<Longrightarrow> Q x s') \<Longrightarrow> does P m Q"
  unfolding does_def by blast

lemma does_bnd: "does P m R \<Longrightarrow> (\<And>x. does (R x) (f x) Q) \<Longrightarrow> does P (bnd m f) Q"
  unfolding does_def by (metis bnd_OkE)

lemma does_keeps: "keeps P m \<Longrightarrow> does P m (\<lambda>_. P)"
  unfolding does_def by (metis keepsD)

end
