(* ===== verification/StateDb.thy ===== *)
theory StateDb
  imports Domain Complex_Main "HOL-Library.Product_Lexorder"
begin

text \<open>
  \<open>rustorr-state\<close>: the persistent state, a SQLite database of five tables. SQLite is the outside
  world; what the code relies on is what its statements say, so a table is a list of rows under
  their primary key, \<open>INSERT .. ON CONFLICT DO UPDATE\<close> is an update of that list, \<open>DELETE\<close> a
  deletion, and the \<open>CHECK\<close> constraints of the schema are tests that a statement makes.

  A statement that SQLite refuses for a reason of its own (a full disk, a lock held for longer
  than the busy timeout) is the argument \<open>fault\<close>; it changes nothing, as every statement is a
  transaction. Whether a text is JSON, which the \<open>json_valid\<close> constraint asks SQLite, is the
  argument \<open>json\<close>. The connection is behind a mutex, so every operation is one state change.
\<close>

subsection \<open>Values\<close>

datatype state_error =
    StateIo string
  | StateDatabase string
  | SchemaTooNew nat nat
  | NotRustorrDatabase
  | InvalidValue string string

text \<open>A point in time: whole seconds since 1970, negative before it, and nanoseconds past them.\<close>

record system_time =
  st_secs :: int
  st_nanos :: nat

text \<open>A floating point number as the number it stands for.\<close>

datatype f64 = Finite rat | Infinite bool | NotANumber

definition I64_MAX :: int where "I64_MAX = 2 ^ 63 - 1"

definition unix_seconds :: "system_time \<Rightarrow> state_error + int" where
  "unix_seconds t =
     (if st_secs t < 0 then Inl (InvalidValue ''timestamp'' ''is before 1970'')
      else if I64_MAX < st_secs t then Inl (InvalidValue ''timestamp'' ''does not fit in 63 bits'')
      else Inr (st_secs t))"

definition stored_time :: "int \<Rightarrow> state_error + system_time" where
  "stored_time s =
     (if s < 0 then Inl (InvalidValue ''timestamp'' ''stored value is negative'')
      else Inr \<lparr>st_secs = s, st_nanos = 0\<rparr>)"

definition stored_hash :: "byte list \<Rightarrow> state_error + info_hash" where
  "stored_hash bs =
     (if length bs = 20 then Inr (InfoHash bs)
      else Inl (InvalidValue ''info hash'' ''stored value is not 20 bytes''))"

record catalog_entry =
  ce_hash :: info_hash
  ce_title :: string
  ce_poster :: string
  ce_category :: string
  ce_data :: string
  ce_added_at :: system_time
  ce_size :: nat

record viewed_entry =
  ve_torrent :: info_hash
  ve_file :: file_index
  ve_timecode :: f64

record waf_lists =
  wl_whitelist :: string
  wl_blacklist :: string
  wl_referers :: string

definition waf_lists_default :: waf_lists where
  "waf_lists_default = \<lparr>wl_whitelist = '''', wl_blacklist = '''', wl_referers = ''''\<rparr>"

subsection \<open>The database file and its schema\<close>

record db_file =
  df_application_id :: int
  df_user_version :: nat
  df_tables :: "string list"

definition APPLICATION_ID :: int where
  "APPLICATION_ID = 0x52535452"

text \<open>A batch of statements either takes the file to a new state or fails.\<close>

type_synonym 'z migration = "'z db_file_scheme \<Rightarrow> 'z db_file_scheme option"

definition create_table :: "string \<Rightarrow> 'z migration" where
  "create_table n d =
     (if n \<in> set (df_tables d) then None else Some (d\<lparr>df_tables := df_tables d @ [n]\<rparr>))"

definition migration_v1 :: "'z migration" where
  "migration_v1 d =
     Option.bind (create_table ''torrents'' (d\<lparr>df_application_id := 1381192786\<rparr>))
       (\<lambda>d. Option.bind (create_table ''settings'' d) (create_table ''viewed''))"

definition migration_v2 :: "'z migration" where
  "migration_v2 = create_table ''waf''"

definition migration_v3 :: "'z migration" where
  "migration_v3 = create_table ''module_settings''"

definition MIGRATIONS :: "'z migration list" where
  "MIGRATIONS = [migration_v1, migration_v2, migration_v3]"

datatype check_fault = ReadVersionFails | InspectFails | ReadIdFails

definition schema_check :: "check_fault option \<Rightarrow> 'z db_file_scheme \<Rightarrow> nat \<Rightarrow> state_error + nat" where
  "schema_check fault d latest =
     (if fault = Some ReadVersionFails then Inl (StateDatabase ''read schema version'')
      else
        let found = df_user_version d;
            ours =
              (if found = 0 then
                 (if fault = Some InspectFails then Inl (StateDatabase ''inspect database'')
                  else if df_tables d \<noteq> [] then Inl NotRustorrDatabase else Inr ())
               else
                 (if fault = Some ReadIdFails then Inl (StateDatabase ''read application id'')
                  else if df_application_id d \<noteq> APPLICATION_ID then Inl NotRustorrDatabase
                  else Inr ()))
        in case ours of
             Inl e \<Rightarrow> Inl e
           | Inr _ \<Rightarrow> if found > latest then Inl (SchemaTooNew found latest) else Inr found)"

datatype step_fault = BeginFails | VersionFails | BatchFails | RecordFails | CommitFails

text \<open>
  One transaction per step. While this process waits for the write lock of a step, others may
  have changed the file: \<open>others\<close> is what they did by then. A transaction that is dropped without
  a commit leaves the file as it was.
\<close>

fun migrate_steps ::
    "(nat \<Rightarrow> 'z db_file_scheme \<Rightarrow> 'z db_file_scheme) \<Rightarrow> (nat \<Rightarrow> step_fault option)
       \<Rightarrow> 'z migration list \<Rightarrow> nat list \<Rightarrow> 'z db_file_scheme \<Rightarrow> 'z db_file_scheme \<times> (state_error + unit)"
  where
  "migrate_steps others fault ms [] d = (d, Inr ())"
| "migrate_steps others fault ms (target # targets) d =
     (let d1 = others target d in
      if fault target = Some BeginFails then (d1, Inl (StateDatabase ''begin migration''))
      else if fault target = Some VersionFails then (d1, Inl (StateDatabase ''read schema version''))
      else if df_user_version d1 \<ge> target then migrate_steps others fault ms targets d1
      else (case (if fault target = Some BatchFails then None else (ms ! (target - 1)) d1) of
              None \<Rightarrow> (d1, Inl (StateDatabase ''apply migration''))
            | Some d2 \<Rightarrow>
                if fault target = Some RecordFails then (d1, Inl (StateDatabase ''record schema version''))
                else if fault target = Some CommitFails then (d1, Inl (StateDatabase ''commit migration''))
                else migrate_steps others fault ms targets (d2\<lparr>df_user_version := target\<rparr>)))"

definition migrate ::
    "(nat \<Rightarrow> 'z db_file_scheme \<Rightarrow> 'z db_file_scheme) \<Rightarrow> check_fault option \<Rightarrow> (nat \<Rightarrow> step_fault option)
       \<Rightarrow> 'z migration list \<Rightarrow> 'z db_file_scheme \<Rightarrow> 'z db_file_scheme \<times> (state_error + unit)" where
  "migrate others cf fault ms d =
     (case schema_check cf d (length ms) of
        Inl e \<Rightarrow> (d, Inl e)
      | Inr found \<Rightarrow> migrate_steps others fault ms [found + 1..<length ms + 1] d)"

subsection \<open>The tables\<close>

record torrent_row =
  tr_title :: string
  tr_poster :: string
  tr_category :: string
  tr_data :: string
  tr_added_at :: int
  tr_size :: int
  tr_metainfo :: "byte list"

record state_db = db_file +
  db_torrents :: "(byte list \<times> torrent_row) list"
  db_settings :: "string option"
  db_viewed :: "((byte list \<times> int) \<times> rat) list"
  db_waf :: "waf_lists option"
  db_modules :: "(string \<times> string) list"

definition empty_db :: state_db where
  "empty_db =
     \<lparr>df_application_id = 0, df_user_version = 0, df_tables = [], db_torrents = [], db_settings = None,
      db_viewed = [], db_waf = None, db_modules = []\<rparr>"

text \<open>\<open>State::initialise\<close>; \<open>fault\<close> is the pragma before the migration and the one after it.\<close>

definition state_initialise ::
    "bool \<times> bool \<Rightarrow> (nat \<Rightarrow> state_db \<Rightarrow> state_db) \<Rightarrow> check_fault option \<Rightarrow> (nat \<Rightarrow> step_fault option)
       \<Rightarrow> state_db \<Rightarrow> state_db \<times> (state_error + unit)" where
  "state_initialise fault others cf sf d =
     (if fst fault then (d, Inl (StateDatabase ''set busy timeout''))
      else (case migrate others cf sf MIGRATIONS d of
              (d1, Inl e) \<Rightarrow> (d1, Inl e)
            | (d1, Inr _) \<Rightarrow>
                if snd fault then (d1, Inl (StateDatabase ''enable write-ahead logging'')) else (d1, Inr ())))"

subsection \<open>The catalog\<close>

definition into_entry :: "byte list \<times> torrent_row \<Rightarrow> state_error + catalog_entry" where
  "into_entry p =
     (case stored_hash (fst p) of
        Inl e \<Rightarrow> Inl e
      | Inr h \<Rightarrow>
          (case stored_time (tr_added_at (snd p)) of
             Inl e \<Rightarrow> Inl e
           | Inr t \<Rightarrow>
               if tr_size (snd p) < 0 then Inl (InvalidValue ''torrent size'' ''stored value is negative'')
               else Inr \<lparr>ce_hash = h, ce_title = tr_title (snd p), ce_poster = tr_poster (snd p),
                         ce_category = tr_category (snd p), ce_data = tr_data (snd p), ce_added_at = t,
                         ce_size = nat (tr_size (snd p))\<rparr>))"

definition entry_row :: "catalog_entry \<Rightarrow> int \<Rightarrow> int \<Rightarrow> byte list \<Rightarrow> torrent_row" where
  "entry_row en added_at sz metainfo =
     \<lparr>tr_title = ce_title en, tr_poster = ce_poster en, tr_category = ce_category en, tr_data = ce_data en,
      tr_added_at = added_at, tr_size = sz, tr_metainfo = metainfo\<rparr>"

definition save_torrent ::
    "bool \<Rightarrow> state_db \<Rightarrow> catalog_entry \<Rightarrow> byte list \<Rightarrow> state_db \<times> (state_error + unit)" where
  "save_torrent fault d en metainfo =
     (case unix_seconds (ce_added_at en) of
        Inl e \<Rightarrow> (d, Inl e)
      | Inr added_at \<Rightarrow>
          if I64_MAX < int (ce_size en) then (d, Inl (InvalidValue ''torrent size'' ''does not fit in 63 bits''))
          else if fault \<or> length (as_bytes (ce_hash en)) \<noteq> 20 then (d, Inl (StateDatabase ''save torrent''))
          else (d\<lparr>db_torrents :=
                    hm_insert (as_bytes (ce_hash en)) (entry_row en added_at (int (ce_size en)) metainfo)
                      (db_torrents d)\<rparr>,
                Inr ()))"

definition db_torrent :: "bool \<Rightarrow> state_db \<Rightarrow> info_hash \<Rightarrow> state_error + catalog_entry option" where
  "db_torrent fault d h =
     (if fault then Inl (StateDatabase ''load torrent'')
      else (case map_of (db_torrents d) (as_bytes h) of
              None \<Rightarrow> Inr None
            | Some r \<Rightarrow> (case into_entry (as_bytes h, r) of Inl e \<Rightarrow> Inl e | Inr en \<Rightarrow> Inr (Some en))))"

definition db_metainfo :: "bool \<Rightarrow> state_db \<Rightarrow> info_hash \<Rightarrow> state_error + byte list option" where
  "db_metainfo fault d h =
     (if fault then Inl (StateDatabase ''load torrent metadata'')
      else Inr (map_option tr_metainfo (map_of (db_torrents d) (as_bytes h))))"

definition list_torrents :: "bool \<Rightarrow> state_db \<Rightarrow> state_error + catalog_entry list" where
  "list_torrents fault d =
     (if fault then Inl (StateDatabase ''list torrents'')
      else map_result_all into_entry (sort_key (\<lambda>(h, r). (tr_added_at r, h)) (db_torrents d)))"

definition db_remove_torrent :: "bool \<Rightarrow> state_db \<Rightarrow> info_hash \<Rightarrow> state_db \<times> (state_error + bool)" where
  "db_remove_torrent fault d h =
     (if fault then (d, Inl (StateDatabase ''remove torrent''))
      else (d\<lparr>db_torrents := hm_remove (as_bytes h) (db_torrents d)\<rparr>,
            Inr (map_of (db_torrents d) (as_bytes h) \<noteq> None)))"

subsection \<open>Settings\<close>

definition db_settings_get :: "bool \<Rightarrow> state_db \<Rightarrow> state_error + string option" where
  "db_settings_get fault d = (if fault then Inl (StateDatabase ''load settings'') else Inr (db_settings d))"

definition db_set_settings ::
    "(string \<Rightarrow> bool) \<Rightarrow> bool \<Rightarrow> state_db \<Rightarrow> string \<Rightarrow> state_db \<times> (state_error + unit)" where
  "db_set_settings json fault d doc =
     (if fault then (d, Inl (StateDatabase ''save settings''))
      else if \<not> json doc then (d, Inl (InvalidValue ''settings document'' ''is not valid JSON''))
      else (d\<lparr>db_settings := Some doc\<rparr>, Inr ()))"

definition db_module_settings :: "bool \<Rightarrow> state_db \<Rightarrow> string \<Rightarrow> state_error + string option" where
  "db_module_settings fault d mdl =
     (if fault then Inl (StateDatabase ''load module settings'') else Inr (map_of (db_modules d) mdl))"

definition db_set_module_settings ::
    "(string \<Rightarrow> bool) \<Rightarrow> bool \<Rightarrow> state_db \<Rightarrow> string \<Rightarrow> string \<Rightarrow> state_db \<times> (state_error + unit)" where
  "db_set_module_settings json fault d mdl doc =
     (if fault then (d, Inl (StateDatabase ''save module settings''))
      else if \<not> json doc then (d, Inl (InvalidValue ''module settings document'' ''is not valid JSON''))
      else (d\<lparr>db_modules := hm_insert mdl doc (db_modules d)\<rparr>, Inr ()))"

definition db_reset_settings :: "bool \<Rightarrow> state_db \<Rightarrow> state_db \<times> (state_error + unit)" where
  "db_reset_settings fault d =
     (if fault then (d, Inl (StateDatabase ''reset settings'')) else (d\<lparr>db_settings := None\<rparr>, Inr ()))"

subsection \<open>Viewed history and WAF lists\<close>

definition set_viewed :: "bool \<Rightarrow> state_db \<Rightarrow> viewed_entry \<Rightarrow> state_db \<times> (state_error + unit)" where
  "set_viewed fault d v =
     (case ve_timecode v of
        Finite x \<Rightarrow>
          if fault \<or> length (as_bytes (ve_torrent v)) \<noteq> 20 then (d, Inl (StateDatabase ''save viewed file''))
          else (d\<lparr>db_viewed := hm_insert (as_bytes (ve_torrent v), int (zero_based (ve_file v))) x (db_viewed d)\<rparr>,
                Inr ())
      | _ \<Rightarrow> (d, Inl (InvalidValue ''timecode'' ''is not a finite number'')))"

definition viewed_row :: "(byte list \<times> int) \<times> rat \<Rightarrow> state_error + viewed_entry" where
  "viewed_row p =
     (case p of ((h, f), x) \<Rightarrow>
        if f < 0 \<or> int U32 \<le> f then Inl (InvalidValue ''file index'' ''stored value is out of range'')
        else (case stored_hash h of
                Inl e \<Rightarrow> Inl e
              | Inr t \<Rightarrow> Inr \<lparr>ve_torrent = t, ve_file = FileIndex (nat f), ve_timecode = Finite x\<rparr>))"

definition list_viewed :: "bool \<Rightarrow> state_db \<Rightarrow> state_error + viewed_entry list" where
  "list_viewed fault d =
     (if fault then Inl (StateDatabase ''list viewed files'')
      else map_result_all viewed_row (sort_key fst (db_viewed d)))"

definition viewed_matches :: "info_hash \<Rightarrow> file_index option \<Rightarrow> byte list \<times> int \<Rightarrow> bool" where
  "viewed_matches t f k =
     (fst k = as_bytes t \<and> (case f of None \<Rightarrow> True | Some i \<Rightarrow> snd k = int (zero_based i)))"

definition remove_viewed ::
    "bool \<Rightarrow> state_db \<Rightarrow> info_hash \<Rightarrow> file_index option \<Rightarrow> state_db \<times> (state_error + nat)" where
  "remove_viewed fault d t f =
     (if fault then (d, Inl (StateDatabase ''remove viewed files''))
      else (d\<lparr>db_viewed := filter (\<lambda>p. \<not> viewed_matches t f (fst p)) (db_viewed d)\<rparr>,
            Inr (length (filter (\<lambda>p. viewed_matches t f (fst p)) (db_viewed d)))))"

definition db_waf_lists :: "bool \<Rightarrow> state_db \<Rightarrow> state_error + waf_lists" where
  "db_waf_lists fault d =
     (if fault then Inl (StateDatabase ''load WAF lists'')
      else Inr (case db_waf d of None \<Rightarrow> waf_lists_default | Some w \<Rightarrow> w))"

definition db_set_waf_lists :: "bool \<Rightarrow> state_db \<Rightarrow> waf_lists \<Rightarrow> state_db \<times> (state_error + unit)" where
  "db_set_waf_lists fault d w =
     (if fault then (d, Inl (StateDatabase ''save WAF lists'')) else (d\<lparr>db_waf := Some w\<rparr>, Inr ()))"

subsection \<open>What the database holds\<close>

text \<open>
  The contract of the crate: a catalog and a history as maps over domain values, and three kinds
  of documents. \<open>state_abs\<close> reads them off a database; \<open>state_ok\<close> is what the \<open>CHECK\<close>
  constraints and the conversions on the way in keep true of one that only this code has written.
\<close>

record state_view =
  sv_catalog :: "info_hash \<rightharpoonup> catalog_entry \<times> byte list"
  sv_viewed :: "info_hash \<times> file_index \<rightharpoonup> rat"
  sv_settings :: "string option"
  sv_modules :: "string \<rightharpoonup> string"
  sv_waf :: waf_lists

definition row_entry :: "info_hash \<Rightarrow> torrent_row \<Rightarrow> catalog_entry" where
  "row_entry h r =
     \<lparr>ce_hash = h, ce_title = tr_title r, ce_poster = tr_poster r, ce_category = tr_category r,
      ce_data = tr_data r, ce_added_at = \<lparr>st_secs = tr_added_at r, st_nanos = 0\<rparr>, ce_size = nat (tr_size r)\<rparr>"

definition state_abs :: "state_db \<Rightarrow> state_view" where
  "state_abs d =
     \<lparr>sv_catalog = (\<lambda>h. map_option (\<lambda>r. (row_entry h r, tr_metainfo r)) (map_of (db_torrents d) (as_bytes h))),
      sv_viewed = (\<lambda>(h, f). map_of (db_viewed d) (as_bytes h, int (zero_based f))),
      sv_settings = db_settings d, sv_modules = map_of (db_modules d),
      sv_waf = (case db_waf d of None \<Rightarrow> waf_lists_default | Some w \<Rightarrow> w)\<rparr>"

definition torrents_ok :: "(byte list \<times> torrent_row) list \<Rightarrow> bool" where
  "torrents_ok rows \<longleftrightarrow>
     distinct (map fst rows)
     \<and> (\<forall>p \<in> set rows. length (fst p) = 20 \<and> 0 \<le> tr_added_at (snd p) \<and> 0 \<le> tr_size (snd p))"

definition viewed_ok :: "((byte list \<times> int) \<times> rat) list \<Rightarrow> bool" where
  "viewed_ok rows \<longleftrightarrow>
     distinct (map fst rows)
     \<and> (\<forall>p \<in> set rows. length (fst (fst p)) = 20 \<and> 0 \<le> snd (fst p) \<and> snd (fst p) < int U32)"

definition state_ok :: "state_db \<Rightarrow> bool" where
  "state_ok d \<longleftrightarrow> torrents_ok (db_torrents d) \<and> viewed_ok (db_viewed d) \<and> distinct (map fst (db_modules d))"

lemma set_hm_insert: "set (hm_insert k v xs) \<subseteq> insert (k, v) (set xs)"
  by (induction xs) auto

lemma set_hm_remove: "set (hm_remove k xs) \<subseteq> set xs"
  by (induction xs) auto

lemma torrents_ok_insert:
  assumes "torrents_ok rows" "length h = 20" "0 \<le> tr_added_at r" "0 \<le> tr_size r"
  shows "torrents_ok (hm_insert h r rows)"
  using assms set_hm_insert [of h r rows] unfolding torrents_ok_def by fastforce

lemma torrents_ok_remove: "torrents_ok rows \<Longrightarrow> torrents_ok (hm_remove h rows)"
  using set_hm_remove [of h rows] unfolding torrents_ok_def by fastforce

lemma viewed_ok_insert:
  assumes "viewed_ok rows" "length h = 20" "f < U32"
  shows "viewed_ok (hm_insert (h, int f) x rows)"
  using assms set_hm_insert [of "(h, int f)" x rows] unfolding viewed_ok_def by fastforce

lemma viewed_ok_filter: "viewed_ok rows \<Longrightarrow> viewed_ok (filter q rows)"
  by (auto simp: viewed_ok_def distinct_map_filter)

lemma into_entry_ok:
  assumes "torrents_ok rows" "p \<in> set rows"
  shows "into_entry p = Inr (row_entry (InfoHash (fst p)) (snd p))"
  using assms by (auto simp: torrents_ok_def into_entry_def stored_hash_def stored_time_def row_entry_def)

lemma viewed_row_ok:
  assumes "viewed_ok rows" "p \<in> set rows"
  shows "viewed_row p =
    Inr \<lparr>ve_torrent = InfoHash (fst (fst p)), ve_file = FileIndex (nat (snd (fst p))), ve_timecode = Finite (snd p)\<rparr>"
  using assms by (fastforce simp: viewed_ok_def viewed_row_def stored_hash_def split: prod.splits)

lemma as_bytes_eq_iff [simp]: "as_bytes h = as_bytes k \<longleftrightarrow> h = k"
  by (auto intro: info_hash.expand)

lemma zero_based_eq_iff [simp]: "zero_based f = zero_based g \<longleftrightarrow> f = g"
  by (auto intro: file_index.expand)

lemma torrents_ok_lookup:
  assumes "torrents_ok rows" "map_of rows k = Some r"
  shows "length k = 20" "0 \<le> tr_added_at r" "0 \<le> tr_size r"
  using assms(1) map_of_SomeD [OF assms(2)] by (auto simp: torrents_ok_def)

lemma db_torrent_abs:
  assumes "state_ok d"
  shows "db_torrent False d h = Inr (map_option fst (sv_catalog (state_abs d) h))"
  using assms torrents_ok_lookup [of "db_torrents d" "as_bytes h"]
  by (auto simp: db_torrent_def state_abs_def state_ok_def into_entry_def stored_hash_def stored_time_def
      row_entry_def split: option.split)

lemma db_metainfo_abs: "db_metainfo False d h = Inr (map_option snd (sv_catalog (state_abs d) h))"
  by (simp add: db_metainfo_def state_abs_def option.map_comp comp_def)

definition truncated :: "catalog_entry \<Rightarrow> catalog_entry" where
  "truncated en = en\<lparr>ce_added_at := \<lparr>st_secs = st_secs (ce_added_at en), st_nanos = 0\<rparr>\<rparr>"

lemma save_torrent_cases:
  assumes "hash_wf (ce_hash en)"
  shows "save_torrent fault d en mi =
    (if st_secs (ce_added_at en) < 0 then (d, Inl (InvalidValue ''timestamp'' ''is before 1970''))
     else if I64_MAX < st_secs (ce_added_at en)
       then (d, Inl (InvalidValue ''timestamp'' ''does not fit in 63 bits''))
     else if I64_MAX < int (ce_size en) then (d, Inl (InvalidValue ''torrent size'' ''does not fit in 63 bits''))
     else if fault then (d, Inl (StateDatabase ''save torrent''))
     else (d\<lparr>db_torrents := hm_insert (as_bytes (ce_hash en))
             (entry_row en (st_secs (ce_added_at en)) (int (ce_size en)) mi) (db_torrents d)\<rparr>, Inr ()))"
  using assms by (auto simp: save_torrent_def unix_seconds_def hash_wf_def)

lemma save_torrent_abs:
  assumes "hash_wf (ce_hash en)" "save_torrent fault d en mi = (d', Inr u)"
  shows "state_abs d' =
      state_abs d\<lparr>sv_catalog := (sv_catalog (state_abs d))(ce_hash en \<mapsto> (truncated en, mi))\<rparr>"
    "state_ok d \<Longrightarrow> state_ok d'"
proof -
  from assms have d': "d' = d\<lparr>db_torrents := hm_insert (as_bytes (ce_hash en))
      (entry_row en (st_secs (ce_added_at en)) (int (ce_size en)) mi) (db_torrents d)\<rparr>"
    and t: "0 \<le> st_secs (ce_added_at en)"
    by (auto simp: save_torrent_cases split: if_splits)
  show "state_abs d' =
      state_abs d\<lparr>sv_catalog := (sv_catalog (state_abs d))(ce_hash en \<mapsto> (truncated en, mi))\<rparr>"
    by (auto simp: d' state_abs_def row_entry_def entry_row_def truncated_def fun_eq_iff)
  show "state_ok d'" if "state_ok d"
    using that assms(1) t
    by (auto simp: d' state_ok_def hash_wf_def entry_row_def intro!: torrents_ok_insert)
qed

lemma list_torrents_abs:
  assumes "state_ok d"
  shows "list_torrents False d =
    Inr (map (\<lambda>p. row_entry (InfoHash (fst p)) (snd p)) (sort_key (\<lambda>(h, r). (tr_added_at r, h)) (db_torrents d)))"
  unfolding list_torrents_def using assms
  by (auto intro!: map_result_all_ok into_entry_ok simp: state_ok_def)

fun upgrade :: "'z migration list \<Rightarrow> nat list \<Rightarrow> 'z db_file_scheme \<Rightarrow> 'z db_file_scheme option" where
  "upgrade ms [] d = Some d"
| "upgrade ms (t # ts) d = Option.bind ((ms ! (t - 1)) d) (\<lambda>d2. upgrade ms ts (d2\<lparr>df_user_version := t\<rparr>))"

lemma migrate_steps_alone:
  assumes "df_user_version d = a" "a \<le> n" "migrate_steps (\<lambda>_ d. d) fault ms [a + 1..<n + 1] d = (d', res)"
  shows "\<exists>v. a \<le> v \<and> v \<le> n \<and> upgrade ms [a + 1..<v + 1] d = Some d' \<and> df_user_version d' = v
      \<and> (res = Inr () \<longleftrightarrow> v = n)"
  using assms
proof (induction "n - a" arbitrary: a d)
  case 0
  then show ?case by (intro exI [of _ a]) auto
next
  case (Suc k)
  then have l: "[a + 1..<n + 1] = (a + 1) # [a + 1 + 1..<n + 1]" by (auto simp: upt_conv_Cons)
  have stay: ?case if "d' = d" "res \<noteq> Inr ()"
    using that Suc.hyps Suc.prems by (intro exI [of _ a]) auto
  show ?case
  proof (cases "fault (a + 1) = None")
    case False
    then obtain x where x: "fault (a + 1) = Some x" by auto
    then have "d' = d \<and> res \<noteq> Inr ()"
      using Suc.prems unfolding l by (cases x) (auto split: option.splits)
    then show ?thesis using stay by simp
  next
    case True
    note nf = this
    show ?thesis
    proof (cases "(ms ! a) d")
      case None
      then have "d' = d \<and> res \<noteq> Inr ()"
        using Suc.prems nf unfolding l by auto
      then show ?thesis using stay by simp
    next
      case (Some d2)
      let ?d = "d2\<lparr>df_user_version := a + 1\<rparr>"
      have "migrate_steps (\<lambda>_ d. d) fault ms [a + 1 + 1..<n + 1] ?d = (d', res)"
        using Suc.prems nf Some unfolding l by (simp del: upt_Suc)
      note run = this
      have "k = n - (a + 1)" "df_user_version ?d = a + 1" "a + 1 \<le> n"
        using Suc.hyps(2) by auto
      from Suc.hyps(1) [OF this run] obtain v where v:
          "a + 1 \<le> v" "v \<le> n" "upgrade ms [a + 1 + 1..<v + 1] ?d = Some d'" "df_user_version d' = v"
          "res = Inr () \<longleftrightarrow> v = n" by blast
      have "[a + 1..<v + 1] = (a + 1) # [a + 1 + 1..<v + 1]" using v(1) by (auto simp: upt_conv_Cons)
      with v Some show ?thesis by (intro exI [of _ v]) (auto simp del: upt_Suc)
    qed
  qed
qed

lemma migrate_steps_others:
  assumes "\<And>t d. df_user_version d \<le> df_user_version (others t d)"
    and "migrate_steps others fault ms ts d = (d', Inr ())" "sorted ts"
  shows "\<forall>t \<in> set ts. t \<le> df_user_version d'" "df_user_version d \<le> df_user_version d'"
proof -
  have "(\<forall>t \<in> set ts. t \<le> df_user_version d') \<and> df_user_version d \<le> df_user_version d'"
    if "migrate_steps others fault ms ts d = (d', Inr ())" "sorted ts" for ts d
    using that
  proof (induction ts arbitrary: d)
    case (Cons t ts)
    let ?d1 = "others t d"
    note le = assms(1) [of d t]
    show ?case
    proof (cases "t \<le> df_user_version ?d1")
      case True
      with Cons.prems have "migrate_steps others fault ms ts ?d1 = (d', Inr ())"
        by (auto simp: Let_def split: if_splits)
      from Cons.IH [OF this] Cons.prems(2) True le show ?thesis by auto
    next
      case False
      with Cons.prems(1) obtain d2 where
          "migrate_steps others fault ms ts (d2\<lparr>df_user_version := t\<rparr>) = (d', Inr ())"
        by (auto simp: Let_def split: if_splits option.splits)
      from Cons.IH [OF this] Cons.prems(2) False le show ?thesis by auto
    qed
  qed simp
  from this [OF assms(2,3)]
  show "\<forall>t \<in> set ts. t \<le> df_user_version d'" "df_user_version d \<le> df_user_version d'" by auto
qed

subsection \<open>Properties\<close>

definition sample_entry :: catalog_entry where
  "sample_entry =
     \<lparr>ce_hash = InfoHash (replicate 20 7), ce_title = ''t'', ce_poster = '''', ce_category = ''movie'',
      ce_data = '''', ce_added_at = \<lparr>st_secs = 50, st_nanos = 900000000\<rparr>, ce_size = 8388608\<rparr>"

lemma sample_hash_wf: "hash_wf (ce_hash sample_entry)"
  by (simp add: sample_entry_def hash_wf_def)

lemma sample_saved:
  "save_torrent False empty_db sample_entry mi =
     (empty_db\<lparr>db_torrents := [(replicate 20 7, entry_row sample_entry 50 8388608 mi)]\<rparr>, Inr ())"
  by (simp add: save_torrent_def unix_seconds_def sample_entry_def empty_db_def I64_MAX_def)

lemma empty_db_ok: "state_ok empty_db"
  by (simp add: state_ok_def empty_db_def torrents_ok_def viewed_ok_def)

text \<open>
  C13. Saving a torrent succeeds exactly when SQLite takes the statement, the time is not before
  1970 and both the time and the size fit in 63 bits. A refused save changes nothing. After an
  accepted one the catalog is the old one with this entry replaced, and asking for the hash gives
  the entry field for field, its time cut to whole seconds, and the \<open>.torrent\<close> bytes verbatim.
\<close>

theorem catalog_save_roundtrip:
  assumes "state_ok d" "hash_wf (ce_hash en)" "save_torrent fault d en mi = (d', res)"
  shows "state_ok d'
    \<and> (res = Inr () \<longleftrightarrow> \<not> fault \<and> 0 \<le> st_secs (ce_added_at en) \<and> st_secs (ce_added_at en) \<le> I64_MAX
          \<and> int (ce_size en) \<le> I64_MAX)
    \<and> (res \<noteq> Inr () \<longrightarrow> d' = d)
    \<and> (res = Inr () \<longrightarrow>
         state_abs d' =
           state_abs d\<lparr>sv_catalog := (sv_catalog (state_abs d))(ce_hash en \<mapsto> (truncated en, mi))\<rparr>
         \<and> db_torrent False d' (ce_hash en) = Inr (Some (truncated en))
         \<and> db_metainfo False d' (ce_hash en) = Inr (Some mi))"
proof -
  have acc: "res = Inr () \<longleftrightarrow> \<not> fault \<and> 0 \<le> st_secs (ce_added_at en) \<and> st_secs (ce_added_at en) \<le> I64_MAX
      \<and> int (ce_size en) \<le> I64_MAX" and rej: "res \<noteq> Inr () \<Longrightarrow> d' = d"
    using assms(3) by (auto simp: save_torrent_cases [OF assms(2)] split: if_splits)
  show ?thesis
  proof (cases "res = Inr ()")
    case True
    with assms(3) have s: "save_torrent fault d en mi = (d', Inr ())" by simp
    note sv = save_torrent_abs [OF assms(2) s]
    show ?thesis using acc True sv(1) sv(2) [OF assms(1)]
      by (simp add: db_torrent_abs db_metainfo_abs)
  next
    case False
    then show ?thesis using acc rej assms(1) by blast
  qed
qed

theorem catalog_save_roundtrip_witness:
  "\<exists>d'. save_torrent False empty_db sample_entry [1, 2] = (d', Inr ()) \<and> state_ok d'
     \<and> db_metainfo False d' (ce_hash sample_entry) = Inr (Some [1, 2])"
proof -
  obtain d' res where s: "save_torrent False empty_db sample_entry [1, 2] = (d', res)" by fastforce
  note c = catalog_save_roundtrip [OF empty_db_ok sample_hash_wf s]
  have "res = Inr ()" using c by (simp add: sample_entry_def I64_MAX_def)
  then show ?thesis using c s by auto
qed

text \<open>
  C14. On a database that only this code has written, listing never fails on a stored value and
  gives every saved torrent once and nothing else, oldest first, equal times in hash order.
\<close>

theorem catalog_listing_complete:
  assumes "state_ok d"
  shows "\<exists>es. list_torrents False d = Inr es
    \<and> sorted (map (\<lambda>e. (st_secs (ce_added_at e), ce_hash e)) es) \<and> distinct (map ce_hash es)
    \<and> (\<forall>e. e \<in> set es \<longleftrightarrow> (\<exists>mi. sv_catalog (state_abs d) (ce_hash e) = Some (e, mi)))"
proof -
  let ?k = "\<lambda>(h, r). (tr_added_at r, h)" and ?f = "\<lambda>p. row_entry (InfoHash (fst p)) (snd p)"
  let ?rows = "sort_key ?k (db_torrents d)"
  have dist: "distinct (map fst (db_torrents d))" using assms by (simp add: state_ok_def torrents_ok_def)
  have s: "sorted (map (\<lambda>e. (st_secs (ce_added_at e), ce_hash e)) (map ?f ?rows))"
  proof -
    have "sorted (map ?k ?rows)" by (rule sorted_sort_key)
    then have "sorted_wrt (\<lambda>p q. ?k p \<le> ?k q) ?rows" by (simp add: sorted_map)
    then have "sorted_wrt (\<lambda>p q. (st_secs (ce_added_at (?f p)), ce_hash (?f p))
        \<le> (st_secs (ce_added_at (?f q)), ce_hash (?f q))) ?rows"
      by (rule sorted_wrt_mono_rel [rotated])
        (auto simp: row_entry_def less_eq_info_hash_def split: prod.splits)
    then show ?thesis by (simp add: sorted_map comp_def)
  qed
  have "distinct (map fst ?rows)"
    using dist by (metis distinct_map distinct_sort set_sort)
  then have u: "distinct (map ce_hash (map ?f ?rows))"
    by (simp add: row_entry_def comp_def distinct_map inj_on_def)
  have m: "e \<in> set (map ?f ?rows) \<longleftrightarrow> (\<exists>mi. sv_catalog (state_abs d) (ce_hash e) = Some (e, mi))" for e
  proof
    assume "e \<in> set (map ?f ?rows)"
    then obtain h r where p: "(h, r) \<in> set (db_torrents d)" "e = row_entry (InfoHash h) r" by auto
    then have "map_of (db_torrents d) h = Some r" using dist by simp
    then show "\<exists>mi. sv_catalog (state_abs d) (ce_hash e) = Some (e, mi)"
      by (auto simp: state_abs_def p(2) row_entry_def)
  next
    assume "\<exists>mi. sv_catalog (state_abs d) (ce_hash e) = Some (e, mi)"
    then obtain r where "map_of (db_torrents d) (as_bytes (ce_hash e)) = Some r" "e = row_entry (ce_hash e) r"
      by (auto simp: state_abs_def)
    then show "e \<in> set (map ?f ?rows)"
      using map_of_SomeD [of "db_torrents d"] by force
  qed
  show ?thesis
    by (intro exI [of _ "map ?f ?rows"] conjI allI list_torrents_abs [OF assms] s u m)
qed

definition sample_db :: state_db where
  "sample_db = fst (save_torrent False empty_db sample_entry [1, 2])"

lemma sample_db_ok: "state_ok sample_db"
  unfolding sample_db_def
  using save_torrent_abs(2) [OF sample_hash_wf sample_saved [of "[1, 2]"] empty_db_ok]
  by (simp add: sample_saved)

theorem catalog_listing_complete_witness:
  "\<exists>es. list_torrents False sample_db = Inr es \<and> truncated sample_entry \<in> set es"
proof -
  have "sv_catalog (state_abs sample_db) (ce_hash sample_entry) = Some (truncated sample_entry, [1, 2])"
    by (simp add: sample_db_def sample_saved)
      (simp add: sample_entry_def state_abs_def truncated_def row_entry_def entry_row_def)
  moreover have "ce_hash (truncated sample_entry) = ce_hash sample_entry" by (simp add: truncated_def)
  ultimately show ?thesis using catalog_listing_complete [OF sample_db_ok] by metis
qed





end
