(* ===== verification/Settings.thy ===== *)
theory Settings
  imports StateDb
begin

text \<open>
  \<open>rustorr-lifecycle/src/model.rs\<close> and \<open>trackers.rs\<close>: the settings document, its normal form, the
  views of torrents, and the policy that decides which trackers a torrent announces to. An
  \<open>i32\<close> or \<open>i64\<close> is an integer.
\<close>

record torznab_config =
  tz_host :: string
  tz_key :: string
  tz_name :: string
  tz_categories :: string
  tz_category_type :: string

record tmdb_config =
  tm_api_key :: string
  tm_api_url :: string
  tm_image_url :: string
  tm_image_url_ru :: string

definition tmdb_default :: tmdb_config where
  "tmdb_default =
     \<lparr>tm_api_key = [], tm_api_url = ''https://api.themoviedb.org'', tm_image_url = ''https://image.tmdb.org'',
      tm_image_url_ru = ''https://imagetmdb.com''\<rparr>"

record settings =
  cache_size :: int
  reader_read_ahead :: int
  preload_cache :: int
  use_disk :: bool
  torrents_save_path :: string
  remove_cache_on_drop :: bool
  force_encrypt :: bool
  retrackers_mode :: int
  trackers_list_url :: string
  default_trackers_text :: string
  torrent_disconnect_timeout :: int
  enable_debug :: bool
  enable_dlna :: bool
  enable_bonjour :: bool
  friendly_name :: string
  enable_rutor_search :: bool
  enable_torznab_search :: bool
  torznab_urls :: "torznab_config list option"
  tmdb_settings :: tmdb_config
  enable_ipv6 :: bool
  disable_tcp :: bool
  disable_utp :: bool
  disable_upnp :: bool
  disable_dht :: bool
  disable_pex :: bool
  disable_upload :: bool
  download_rate_limit :: int
  upload_rate_limit :: int
  connections_limit :: int
  peers_listen_port :: int
  enable_lpd :: bool
  lpd_ipv6 :: bool
  ssl_port :: int
  ssl_cert :: string
  ssl_key :: string
  responsive_mode :: bool
  show_fs_active_torr :: bool
  store_settings_in_json :: bool
  store_viewed_in_json :: bool
  track_timecode :: bool
  merge_all_m3u :: bool

text \<open>The built-in tracker list, a newline between two trackers.\<close>

definition builtin_trackers :: "string list" where
  "builtin_trackers =
     [''http://retracker.local/announce'', ''http://bt4.t-ru.org/ann?magnet'',
      ''http://retracker.mgts.by:80/announce'', ''http://tracker.city9x.com:2710/announce'',
      ''http://tracker.electro-torrent.pl:80/announce'', ''http://tracker.internetwarriors.net:1337/announce'',
      ''http://tracker2.itzmx.com:6961/announce'', ''udp://opentor.org:2710'',
      ''udp://public.popcorn-tracker.org:6969/announce'', ''udp://tracker.opentrackr.org:1337/announce'',
      ''http://bt.svao-ix.ru/announce'', ''udp://explodie.org:6969/announce'',
      ''wss://tracker.btorrent.xyz'', ''wss://tracker.openwebtorrent.com'']"

definition settings_default :: settings where
  "settings_default =
     \<lparr>cache_size = 64 * 2 ^ 20, reader_read_ahead = 95, preload_cache = 50, use_disk = False,
      torrents_save_path = [], remove_cache_on_drop = False, force_encrypt = False, retrackers_mode = 1,
      trackers_list_url = [], default_trackers_text = join [CHR 0x0A] builtin_trackers,
      torrent_disconnect_timeout = 30, enable_debug = False, enable_dlna = False, enable_bonjour = True,
      friendly_name = [], enable_rutor_search = False, enable_torznab_search = False, torznab_urls = None,
      tmdb_settings = tmdb_default, enable_ipv6 = False, disable_tcp = False, disable_utp = False,
      disable_upnp = False, disable_dht = False, disable_pex = False, disable_upload = False,
      download_rate_limit = 0, upload_rate_limit = 0, connections_limit = 25, peers_listen_port = 0,
      enable_lpd = True, lpd_ipv6 = False, ssl_port = 0, ssl_cert = [], ssl_key = [],
      responsive_mode = True, show_fs_active_torr = True, store_settings_in_json = True,
      store_viewed_in_json = False, track_timecode = False, merge_all_m3u = False\<rparr>"

definition clamp :: "int \<Rightarrow> int \<Rightarrow> int \<Rightarrow> int" where
  "clamp lo hi x = (if x < lo then lo else if hi < x then hi else x)"

definition normalized :: "settings \<Rightarrow> settings" where
  "normalized s =
     (let s = (if cache_size s = 0 then s\<lparr>cache_size := 64 * 2 ^ 20\<rparr> else s);
          s = (if connections_limit s = 0 then s\<lparr>connections_limit := 25\<rparr> else s);
          s = (if torrent_disconnect_timeout s = 0 then s\<lparr>torrent_disconnect_timeout := 30\<rparr> else s);
          s = s\<lparr>reader_read_ahead := clamp 5 100 (reader_read_ahead s)\<rparr>;
          s = s\<lparr>preload_cache := clamp 0 100 (preload_cache s)\<rparr>
      in if torrents_save_path s = [] then s\<lparr>use_disk := False\<rparr> else s)"

definition cache_cap :: "settings \<Rightarrow> nat" where
  "cache_cap s = (if cache_size s < 0 then 0 else nat (cache_size s))"

lemma normalized_eq:
  "normalized s =
     s\<lparr>cache_size := if cache_size s = 0 then 64 * 2 ^ 20 else cache_size s,
       connections_limit := if connections_limit s = 0 then 25 else connections_limit s,
       torrent_disconnect_timeout :=
         if torrent_disconnect_timeout s = 0 then 30 else torrent_disconnect_timeout s,
       reader_read_ahead := clamp 5 100 (reader_read_ahead s),
       preload_cache := clamp 0 100 (preload_cache s),
       use_disk := use_disk s \<and> torrents_save_path s \<noteq> []\<rparr>"
proof -
  have "(if b then t\<lparr>cache_size := v\<rparr> else t) = t\<lparr>cache_size := if b then v else cache_size t\<rparr>"
    "(if b then t\<lparr>connections_limit := v\<rparr> else t) = t\<lparr>connections_limit := if b then v else connections_limit t\<rparr>"
    "(if b then t\<lparr>torrent_disconnect_timeout := v\<rparr> else t) =
       t\<lparr>torrent_disconnect_timeout := if b then v else torrent_disconnect_timeout t\<rparr>"
    "(if b then t\<lparr>use_disk := w\<rparr> else t) = t\<lparr>use_disk := if b then w else use_disk t\<rparr>"
    for b v w and t :: settings
    by simp_all
  then show ?thesis by (simp add: normalized_def Let_def)
qed

lemma normalized_fields:
  "cache_size (normalized s) = (if cache_size s = 0 then 64 * 2 ^ 20 else cache_size s)"
  "connections_limit (normalized s) = (if connections_limit s = 0 then 25 else connections_limit s)"
  "torrent_disconnect_timeout (normalized s) =
     (if torrent_disconnect_timeout s = 0 then 30 else torrent_disconnect_timeout s)"
  "reader_read_ahead (normalized s) = clamp 5 100 (reader_read_ahead s)"
  "preload_cache (normalized s) = clamp 0 100 (preload_cache s)"
  "torrents_save_path (normalized s) = torrents_save_path s"
  "use_disk (normalized s) \<longleftrightarrow> use_disk s \<and> torrents_save_path s \<noteq> []"
  "remove_cache_on_drop (normalized s) = remove_cache_on_drop s"
  "retrackers_mode (normalized s) = retrackers_mode s"
  unfolding normalized_eq by simp_all

lemma normalized_idem: "normalized (normalized s) = normalized s"
  by (subst (1 2 3) normalized_eq) (simp add: clamp_def)

subsection \<open>Trackers\<close>

definition parse_default_lines :: "string \<Rightarrow> string list" where
  "parse_default_lines s =
     filter (\<lambda>l. starts_with l ''udp'' \<or> starts_with l ''http'' \<or> starts_with l ''wss'')
       (filter (\<lambda>l. \<not> starts_with l ''#'') (map trim (lines s)))"

definition default_trackers :: "settings \<Rightarrow> string list" where
  "default_trackers s =
     (let parsed = parse_default_lines (default_trackers_text s)
      in if parsed = [] then parse_default_lines (default_trackers_text settings_default) else parsed)"

definition parse_trackers_file :: "string \<Rightarrow> string list" where
  "parse_trackers_file s =
     filter (\<lambda>l. starts_with l ''udp'' \<or> starts_with l ''http'') (map trim (split_on CHR 0x0A s))"

text \<open>\<open>retain(|x| seen.insert(x))\<close> keeps the first occurrence of every element.\<close>

fun keep_first :: "'a list \<Rightarrow> 'a list \<Rightarrow> 'a list" where
  "keep_first seen [] = []"
| "keep_first seen (x # xs) = (if x \<in> set seen then keep_first seen xs else x # keep_first (x # seen) xs)"

definition announce_list :: "string list \<Rightarrow> settings \<Rightarrow> string list \<Rightarrow> string list" where
  "announce_list own s fl =
     (let tiers = (if retrackers_mode s = 1 then own @ default_trackers s
                   else if retrackers_mode s = 2 then []
                   else if retrackers_mode s = 3 then default_trackers s
                   else own)
      in keep_first [] (tiers @ fl))"

lemma set_keep_first: "set (keep_first seen xs) = set xs - set seen"
  by (induction xs arbitrary: seen) auto

lemma distinct_keep_first: "distinct (keep_first seen xs)"
  by (induction xs arbitrary: seen) (auto simp: set_keep_first)

lemma keep_first_id: "distinct xs \<Longrightarrow> set xs \<inter> set seen = {} \<Longrightarrow> keep_first seen xs = xs"
  by (induction xs arbitrary: seen) auto

subsection \<open>Views\<close>

record torrent_file_view =
  fv_id :: nat
  fv_path :: string
  fv_length :: nat
  fv_engine_index :: nat

record torrent_view =
  tv_title :: string
  tv_category :: string
  tv_poster :: string
  tv_data :: "string option"
  tv_timestamp :: int
  tv_name :: "string option"
  tv_hash :: "string option"
  tv_torrs_hash :: "string option"
  tv_stat :: nat
  tv_stat_string :: string
  tv_loaded_size :: "nat option"
  tv_torrent_size :: "nat option"
  tv_download_speed :: "nat option"
  tv_upload_speed :: "nat option"
  tv_total_peers :: "nat option"
  tv_active_peers :: "nat option"
  tv_connected_seeders :: "nat option"
  tv_bytes_written :: "nat option"
  tv_bytes_read :: "nat option"
  tv_file_stats :: "torrent_file_view list"

definition view_hash :: "torrent_view \<Rightarrow> info_hash option" where
  "view_hash v =
     (case tv_hash v of None \<Rightarrow> None
      | Some s \<Rightarrow> (case info_hash_from_str s of Inl e \<Rightarrow> None | Inr h \<Rightarrow> Some h))"

definition view_seconds :: "system_time \<Rightarrow> int" where
  "view_seconds t = (if st_secs t < 0 then 0 else if I64_MAX < st_secs t then 0 else st_secs t)"

record magnet_view =
  mv_hash :: info_hash
  mv_name :: string
  mv_trackers :: "string list"

subsection \<open>Properties\<close>



text \<open>
  Which trackers a torrent announces to: never one twice, the torrent's own before the default
  list before the file, the file in every mode, and the others as the mode says. The built-in list
  stands in for a default list with no usable line, so modes 1 and 3 always have trackers.
\<close>

theorem tracker_policy:
  "distinct (announce_list own s fl)
   \<and> set (announce_list own s fl) =
       set fl \<union> (if retrackers_mode s = 2 then {} else if retrackers_mode s = 3 then {} else set own)
       \<union> (if retrackers_mode s = 1 \<or> retrackers_mode s = 3 then set (default_trackers s) else {})
   \<and> (retrackers_mode s = 1 \<and> distinct (own @ default_trackers s @ fl) \<longrightarrow>
        announce_list own s fl = own @ default_trackers s @ fl)
   \<and> default_trackers s \<noteq> [] \<and> default_trackers settings_default = builtin_trackers"
proof (intro conjI impI)
  show "distinct (announce_list own s fl)" by (simp add: announce_list_def distinct_keep_first Let_def)
  show "set (announce_list own s fl) =
      set fl \<union> (if retrackers_mode s = 2 then {} else if retrackers_mode s = 3 then {} else set own)
      \<union> (if retrackers_mode s = 1 \<or> retrackers_mode s = 3 then set (default_trackers s) else {})"
    by (auto simp: announce_list_def set_keep_first Let_def)
  show "announce_list own s fl = own @ default_trackers s @ fl"
    if "retrackers_mode s = 1 \<and> distinct (own @ default_trackers s @ fl)"
    using that keep_first_id [of "own @ default_trackers s @ fl" "[]"] by (simp add: announce_list_def Let_def)
  have b: "parse_default_lines (default_trackers_text settings_default) = builtin_trackers"
  proof -
    have vis: "list_all (list_all is_visible) builtin_trackers"
      and udp: "list_all (\<lambda>l. (starts_with l ''udp'' \<or> starts_with l ''http'' \<or> starts_with l ''wss'')
          \<and> \<not> starts_with l ''#'' \<and> l \<noteq> []) builtin_trackers"
      by code_simp+
    have nl: "\<not> is_visible CHR 0x0A" "\<not> is_visible CHR 0x0D" by (simp_all add: is_visible_def byte_val_def)
    have "lines (join [CHR 0x0A] builtin_trackers) = builtin_trackers"
      using vis udp nl by (intro lines_join) (auto simp: list_all_iff builtin_trackers_def)
    moreover have "map trim builtin_trackers = builtin_trackers"
      using vis by (intro map_idI trim_visible) (auto simp: list_all_iff)
    moreover have "default_trackers_text settings_default = join [CHR 0x0A] builtin_trackers"
      by (simp only: settings_default_def settings.simps)
    ultimately show ?thesis
      using udp by (simp add: parse_default_lines_def list_all_iff)
  qed
  then show "default_trackers settings_default = builtin_trackers"
    by (simp add: default_trackers_def builtin_trackers_def Let_def)
  show "default_trackers s \<noteq> []"
    using b by (simp add: default_trackers_def builtin_trackers_def Let_def)
qed

theorem tracker_policy_witness:
  "announce_list [''udp://own''] settings_default [''udp://listed''] =
     ''udp://own'' # builtin_trackers @ [''udp://listed'']"
proof -
  have mode: "retrackers_mode settings_default = 1" by (simp only: settings_default_def settings.simps)
  have d: "default_trackers settings_default = builtin_trackers"
    using tracker_policy [of "[]" settings_default "[]"] by blast
  have "distinct (''udp://own'' # builtin_trackers @ [''udp://listed''])" by code_simp
  then show ?thesis
    using tracker_policy [of "[''udp://own'']" settings_default "[''udp://listed'']"] mode
    unfolding d by simp
qed

end
