(* ===== verification/TorrsHash.thy ===== *)
theory TorrsHash
  imports Settings
begin

text \<open>
  \<open>rustorr-lifecycle/src/torrs_hash.rs\<close>: the text token that stands for a torrent in links,
  base 62 over zlib over a list of tagged fields. The zlib codec is the argument \<open>zlib\<close>: \<open>z_pack\<close>
  is what the encoder gives after a flush and a finish, \<open>z_inflate\<close> what a decoder reads to the
  end of a stream. A \<open>BigUint\<close> is a natural number.
\<close>

record zlib =
  z_pack :: "byte list \<Rightarrow> byte list option"
  z_inflate :: "byte list \<Rightarrow> byte list option"

subsection \<open>Base 62\<close>

definition alphabet :: string where
  "alphabet = ''0123456789ABCDEFGHIJKLMNOPQRSTUVWXYZabcdefghijklmnopqrstuvwxyz''"

definition from_bytes_be :: "byte list \<Rightarrow> nat" where
  "from_bytes_be bs = fold (\<lambda>b v. v * 256 + unat b) bs 0"

fun digits_of :: "nat \<Rightarrow> nat \<Rightarrow> nat list" where
  "digits_of r n = (if n = 0 \<or> r < 2 then [] else digits_of r (n div r) @ [n mod r])"

declare digits_of.simps [simp del]

definition to_bytes_be :: "nat \<Rightarrow> byte list" where
  "to_bytes_be n = (if n = 0 then [0] else map of_nat (digits_of 256 n))"

definition base62 :: "byte list \<Rightarrow> string" where
  "base62 bs = map (\<lambda>d. alphabet ! d) (digits_of 62 (from_bytes_be bs))"

definition alphabet_position :: "char \<Rightarrow> nat option" where
  "alphabet_position c = map_of (zip alphabet [0..<62]) c"

definition unbase62 :: "string \<Rightarrow> byte list option" where
  "unbase62 token =
     (case map_option_all alphabet_position (trim token) of
        None \<Rightarrow> None
      | Some ds \<Rightarrow> Some (to_bytes_be (fold (\<lambda>d v. v * 62 + d) ds 0)))"

subsection \<open>Fields\<close>

text \<open>\<open>field\<close>: nothing for a blank value; the length of one that is too long is the largest \<open>u16\<close>.\<close>

definition field :: "nat \<Rightarrow> string \<Rightarrow> byte list" where
  "field tag value =
     (let v = trim value;
          n = (if length v < 2 ^ 16 then length v else 2 ^ 16 - 1)
      in if v = [] then [] else of_nat tag # of_nat (n mod 256) # of_nat (n div 256) # str_bytes v)"

fun le_bytes :: "nat \<Rightarrow> nat \<Rightarrow> byte list" where
  "le_bytes 0 n = []"
| "le_bytes (Suc k) n = of_nat (n mod 256) # le_bytes k (n div 256)"

text \<open>The encoder's stream with its framing made the reference's; \<open>find_bit\<close> is the loop over the bits.\<close>

fun find_bit :: "zlib \<Rightarrow> byte list \<Rightarrow> nat \<Rightarrow> byte list \<Rightarrow> nat list \<Rightarrow> byte list option" where
  "find_bit z packed header plain [] = None"
| "find_bit z packed header plain (b # bits) =
     (let candidate = packed[header := packed ! header OR push_bit b 1]
      in if packed ! header AND push_bit b 1 = 0 \<and> z_inflate z candidate = Some plain then Some candidate
         else find_bit z packed header plain bits)"

definition matrix_zlib :: "zlib \<Rightarrow> byte list \<Rightarrow> byte list option" where
  "matrix_zlib z plain =
     (case z_pack z plain of
        None \<Rightarrow> None
      | Some packed \<Rightarrow>
          (case checked_sub (length packed) 6 of
             None \<Rightarrow> None
           | Some sync_len \<Rightarrow>
               if slice_opt packed sync_len (sync_len + 2) \<noteq> Some [0x03, 0x00] then None
               else
                 (let packed = take sync_len packed @ drop (sync_len + 2) packed
                  in case checked_sub sync_len 5 of
                       None \<Rightarrow> None
                     | Some header \<Rightarrow> find_bit z packed header plain [0..<8])))"

record torrs_decoded =
  td_hash :: info_hash
  td_title :: string
  td_poster :: string
  td_category :: string
  td_trackers :: "string list"

definition decoded_field :: "nat \<Rightarrow> string \<Rightarrow> torrs_decoded \<Rightarrow> torrs_decoded" where
  "decoded_field tag v d =
     (if tag = 0 then d\<lparr>td_title := v\<rparr>
      else if tag = 1 then d\<lparr>td_poster := v\<rparr>
      else if tag = 2 then d\<lparr>td_trackers := td_trackers d @ [v]\<rparr>
      else if tag = 3 then d\<lparr>td_category := v\<rparr>
      else d)"

text \<open>The loop of \<open>decode\<close> over the bytes from the current position on.\<close>

function decode_fields :: "byte list \<Rightarrow> torrs_decoded \<Rightarrow> torrs_decoded option" where
  "decode_fields bs d =
     (case bs of
        [] \<Rightarrow> Some d
      | tag # rest \<Rightarrow>
          if tag = 4 then (if length rest < 8 then None else decode_fields (drop 8 rest) d)
          else (case rest of
                  a # b # tail \<Rightarrow>
                    let len = unat a + 256 * unat b
                    in if length tail < len \<or> \<not> valid_utf8 (map unat (take len tail)) then None
                       else decode_fields (drop len tail) (decoded_field (unat tag) (bytes_text (take len tail)) d)
                | _ \<Rightarrow> None))"
  by pat_completeness auto

termination
  by (relation "measure (\<lambda>(bs, d). length bs)") auto

declare decode_fields.simps [simp del]

definition torrs_decode :: "zlib \<Rightarrow> string \<Rightarrow> torrs_decoded option" where
  "torrs_decode z token =
     (let token = (case strip_prefix token ''torrs://'' of None \<Rightarrow> token | Some t \<Rightarrow> t)
      in case unbase62 token of
           None \<Rightarrow> None
         | Some packed \<Rightarrow>
             (case z_inflate z packed of
                None \<Rightarrow> None
              | Some plain \<Rightarrow>
                  if length plain < 20 then None
                  else decode_fields (drop 20 plain)
                         \<lparr>td_hash = InfoHash (take 20 plain), td_title = [], td_poster = [], td_category = [],
                          td_trackers = []\<rparr>))"

definition torrs_plain :: "info_hash \<Rightarrow> torrent_view \<Rightarrow> string list \<Rightarrow> byte list option" where
  "torrs_plain h v trackers =
     (case (case tv_torrent_size v of
              None \<Rightarrow> Some []
            | Some n \<Rightarrow> if n = 0 then Some []
                        else if I64_MAX < int n then None else Some (4 # le_bytes 8 n)) of
        None \<Rightarrow> None
      | Some sz \<Rightarrow>
          Some (as_bytes h @ field 0 (tv_title v) @ field 1 (tv_poster v) @ field 3 (tv_category v) @ sz
                @ concat (map (field 2) trackers)))"

definition torrs_encode :: "zlib \<Rightarrow> torrent_view \<Rightarrow> string list \<Rightarrow> string option" where
  "torrs_encode z v trackers =
     (case view_hash v of
        None \<Rightarrow> None
      | Some h \<Rightarrow>
          (case torrs_plain h v trackers of
             None \<Rightarrow> None
           | Some plain \<Rightarrow> map_option base62 (matrix_zlib z plain)))"

subsection \<open>Base 62 is lossless but for leading zeros\<close>

lemma digits_of_lt: "2 \<le> r \<Longrightarrow> d \<in> set (digits_of r n) \<Longrightarrow> d < r"
  by (induction r n rule: digits_of.induct) (subst (asm) (2) digits_of.simps, auto split: if_splits)

lemma value_digits: "2 \<le> r \<Longrightarrow> fold (\<lambda>d v. v * r + d) (digits_of r n) 0 = n"
proof (induction r n rule: digits_of.induct)
  case (1 r n)
  then show ?case
    by (cases "n = 0") (subst digits_of.simps, simp add: mult.commute [of _ r])+
qed

lemma digits_of_value:
  assumes "2 \<le> r" "\<forall>d \<in> set ds. d < r" "ds = [] \<or> hd ds \<noteq> 0"
  shows "digits_of r (fold (\<lambda>d v. v * r + d) ds 0) = ds"
  using assms(2,3)
proof (induction ds rule: rev_induct)
  case (snoc d ds)
  let ?v = "fold (\<lambda>d v. v * r + d) ds 0"
  have d: "d < r" using snoc.prems by simp
  have ih: "digits_of r ?v = ds" using snoc by (cases ds) auto
  have nz: "?v * r + d \<noteq> 0"
  proof (cases "ds = []")
    case True
    then show ?thesis using snoc.prems by simp
  next
    case False
    have "?v \<noteq> 0"
    proof
      assume "?v = 0"
      then have "digits_of r ?v = []" by (subst digits_of.simps) simp
      then show False using ih False by simp
    qed
    then show ?thesis using assms(1) by simp
  qed
  have "digits_of r (?v * r + d) = digits_of r ((?v * r + d) div r) @ [(?v * r + d) mod r]"
    using nz assms(1) by (subst digits_of.simps) simp
  also have "(?v * r + d) div r = ?v" using d by simp
  also have "(?v * r + d) mod r = d" using d by simp
  finally show ?case using ih by simp
qed (subst digits_of.simps, simp)

lemma from_bytes_be_fold: "from_bytes_be bs = fold (\<lambda>d v. v * 256 + d) (map unat bs) 0"
  by (simp add: from_bytes_be_def fold_map comp_def)

lemma unat_byte_lt: "unat (b :: byte) < 256"
  using unsigned_less [of b] by simp

lemma to_bytes_from_bytes:
  assumes "bs \<noteq> []" "hd bs \<noteq> 0"
  shows "to_bytes_be (from_bytes_be bs) = bs"
proof -
  have d: "digits_of 256 (from_bytes_be bs) = map unat bs"
    unfolding from_bytes_be_fold using assms
    by (intro digits_of_value) (auto simp: hd_map unat_byte_lt unat_eq_0)
  have "from_bytes_be bs \<noteq> 0"
  proof
    assume "from_bytes_be bs = 0"
    then have "digits_of 256 (from_bytes_be bs) = []" by (subst digits_of.simps) simp
    then show False using d assms(1) by simp
  qed
  then show ?thesis using d by (simp add: to_bytes_be_def comp_def)
qed

lemma alphabet_facts: "length alphabet = 62" "distinct alphabet" "list_all is_visible alphabet"
    "CHR '':'' \<notin> set alphabet"
  by code_simp+

lemma alphabet_position_nth: "d < 62 \<Longrightarrow> alphabet_position (alphabet ! d) = Some d"
proof -
  assume d: "d < 62"
  have "map_of (zip alphabet [0..<62]) (alphabet ! d) = Some ([0..<62] ! d)"
    using d alphabet_facts(1,2) by (intro map_of_zip_nth) auto
  then show ?thesis using d by (simp add: alphabet_position_def)
qed

lemma unbase62_base62:
  assumes "bs \<noteq> []" "hd bs \<noteq> 0"
  shows "unbase62 (base62 bs) = Some bs"
proof -
  let ?ds = "digits_of 62 (from_bytes_be bs)"
  have lt: "d < 62" if "d \<in> set ?ds" for d using that digits_of_lt by simp
  have vis: "\<forall>c \<in> set (base62 bs). is_visible c"
    using lt alphabet_facts(1,3) by (auto simp: base62_def list_all_length)
  have "map_option_all alphabet_position (base62 bs) = Some (map id ?ds)"
    unfolding base62_def using lt by (intro map_option_all_map) (auto simp: alphabet_position_nth)
  then show ?thesis
    by (simp add: unbase62_def trim_visible [OF vis] value_digits to_bytes_from_bytes [OF assms])
qed

lemma base62_no_colon: "CHR '':'' \<notin> set (base62 bs)"
proof
  assume "CHR '':'' \<in> set (base62 bs)"
  then obtain d where "d \<in> set (digits_of 62 (from_bytes_be bs))" "alphabet ! d = CHR '':''"
    by (auto simp: base62_def)
  then have "d < length alphabet" using digits_of_lt [of 62 d] alphabet_facts(1) by simp
  then have "alphabet ! d \<in> set alphabet" by (rule nth_mem)
  then show False using \<open>alphabet ! d = CHR '':''\<close> alphabet_facts(4) by simp
qed

subsection \<open>Fields are read back\<close>

definition text_ok :: "string \<Rightarrow> bool" where
  "text_ok s \<longleftrightarrow> valid_utf8 (map byte_val (trim s))"

lemma map_unat_str_bytes: "map unat (str_bytes s) = map byte_val s"
  by (simp add: str_bytes_def comp_def unat_of_byte_val)

lemma decode_field:
  assumes "text_ok v" "length (trim v) < 2 ^ 16" "tag < 4"
  shows "decode_fields (field tag v @ bs) d =
    decode_fields bs (if trim v = [] then d else decoded_field tag (trim v) d)"
proof (cases "trim v = []")
  case True
  then show ?thesis by (simp add: field_def)
next
  case False
  let ?n = "length (trim v)"
  have tag: "(of_nat tag :: byte) \<noteq> 4" "unat (of_nat tag :: byte) = tag"
  proof -
    show t: "unat (of_nat tag :: byte) = tag" using assms(3) by (simp add: unat_of_nat)
    show "(of_nat tag :: byte) \<noteq> 4"
    proof
      assume "(of_nat tag :: byte) = 4"
      then have "unat (of_nat tag :: byte) = 4" by simp
      then show False using t assms(3) by simp
    qed
  qed
  have len: "unat (of_nat (?n mod 256) :: byte) + 256 * unat (of_nat (?n div 256) :: byte) = ?n"
    using assms(2) by (simp add: unat_of_nat)
  have f: "field tag v = of_nat tag # of_nat (?n mod 256) # of_nat (?n div 256) # str_bytes (trim v)"
    using False assms(2) by (simp add: field_def Let_def)
  show ?thesis
    using False assms(1) tag len
    by (subst decode_fields.simps) (simp add: f Let_def text_ok_def map_unat_str_bytes)
qed

lemma decode_size:
  "length sz = 8 \<Longrightarrow> decode_fields (4 # sz @ bs) d = decode_fields bs d"
  by (subst decode_fields.simps) simp

lemma length_le_bytes [simp]: "length (le_bytes k n) = k"
  by (induction k arbitrary: n) auto

lemma decode_trackers:
  assumes "\<forall>t \<in> set ts. text_ok t \<and> length (trim t) < 2 ^ 16"
  shows "decode_fields (concat (map (field 2) ts)) d =
    Some (d\<lparr>td_trackers := td_trackers d @ filter (\<lambda>t. t \<noteq> []) (map trim ts)\<rparr>)"
  using assms
proof (induction ts arbitrary: d)
  case Nil
  show ?case by (subst decode_fields.simps) simp
next
  case (Cons t ts)
  then have "decode_fields (concat (map (field 2) (t # ts))) d =
      decode_fields (concat (map (field 2) ts)) (if trim t = [] then d else decoded_field 2 (trim t) d)"
    by (simp add: decode_field)
  also have "\<dots> = Some (d\<lparr>td_trackers := td_trackers d @ filter (\<lambda>t. t \<noteq> []) (map trim (t # ts))\<rparr>)"
    using Cons by (simp add: decoded_field_def)
  finally show ?case .
qed

lemma find_bit_Some: "find_bit z packed header plain bits = Some p \<Longrightarrow> z_inflate z p = Some plain"
  by (induction bits) (auto simp: Let_def split: if_splits)

lemma matrix_zlib_Some:
  assumes "matrix_zlib z plain = Some p"
  shows "z_inflate z p = Some plain"
proof -
  obtain packed header where "find_bit z packed header plain [0..<8] = Some p"
    using assms by (auto simp: matrix_zlib_def Let_def split: option.splits if_splits)
  then show ?thesis by (rule find_bit_Some)
qed

text \<open>A zlib stream is not empty and does not begin with a zero byte.\<close>

definition zlib_header :: "zlib \<Rightarrow> bool" where
  "zlib_header z \<longleftrightarrow> (\<forall>bs. z_inflate z bs \<noteq> None \<longrightarrow> bs \<noteq> [] \<and> hd bs \<noteq> 0)"

lemma strip_prefix_no_colon:
  assumes "CHR '':'' \<notin> set s"
  shows "strip_prefix s ''torrs://'' = None"
proof (rule ccontr)
  assume "strip_prefix s ''torrs://'' \<noteq> None"
  then obtain t where "s = ''torrs://'' @ t" by (auto simp: strip_prefix_eq_Some)
  then show False using assms by simp
qed

lemma torrs_decode_encode:
  assumes "zlib_header z" "matrix_zlib z plain = Some p" "length plain \<ge> 20"
    and pre: "pre \<in> {[], ''torrs://''}"
  shows "torrs_decode z (pre @ base62 p) =
    decode_fields (drop 20 plain)
      \<lparr>td_hash = InfoHash (take 20 plain), td_title = [], td_poster = [], td_category = [], td_trackers = []\<rparr>"
proof -
  have i: "z_inflate z p = Some plain" by (rule matrix_zlib_Some [OF assms(2)])
  then have "p \<noteq> []" "hd p \<noteq> 0" using assms(1) by (auto simp: zlib_header_def)
  then have u: "unbase62 (base62 p) = Some p" by (rule unbase62_base62)
  have s: "(case strip_prefix (pre @ base62 p) ''torrs://'' of None \<Rightarrow> pre @ base62 p | Some t \<Rightarrow> t) = base62 p"
    using pre strip_prefix_no_colon [OF base62_no_colon] strip_prefix_append [of "''torrs://''" "base62 p"] by auto
  show ?thesis unfolding torrs_decode_def Let_def s using u i assms(3) by simp
qed

text \<open>
  C22. A token carries what was put into it: decoding the token of a torrent gives back its hash,
  and its title, poster, category and trackers without the blanks around them, blank trackers left
  out, as long as none of these is longer than 65535 bytes. A prefix \<open>torrs://\<close> changes nothing.
  Of the codec this uses that a zlib stream does not begin with a zero byte.
\<close>

theorem torrs_token_roundtrip:
  assumes "zlib_header z" "view_hash v = Some h" "hash_wf h" "torrs_encode z v trackers = Some token"
    and "\<forall>s \<in> {tv_title v, tv_poster v, tv_category v} \<union> set trackers. text_ok s \<and> length (trim s) < 2 ^ 16"
    and "pre \<in> {[], ''torrs://''}"
  shows "torrs_decode z (pre @ token) =
    Some \<lparr>td_hash = h, td_title = trim (tv_title v), td_poster = trim (tv_poster v),
          td_category = trim (tv_category v), td_trackers = filter (\<lambda>t. t \<noteq> []) (map trim trackers)\<rparr>"
proof -
  from assms(2,4) obtain plain p where p: "torrs_plain h v trackers = Some plain" "matrix_zlib z plain = Some p"
      "token = base62 p"
    by (auto simp: torrs_encode_def split: option.splits)
  from p(1) obtain sz where sz: "sz = [] \<or> (\<exists>n. sz = 4 # le_bytes 8 n)"
    and plain: "plain = as_bytes h @ field 0 (tv_title v) @ field 1 (tv_poster v) @ field 3 (tv_category v) @ sz
        @ concat (map (field 2) trackers)"
    by (auto simp: torrs_plain_def split: option.splits if_splits)
  have h: "length (as_bytes h) = 20" using assms(3) by (simp add: hash_wf_def)
  have size: "decode_fields (sz @ bs) d = decode_fields bs d" for bs d
    using sz decode_size by auto
  have "drop 20 plain = field 0 (tv_title v) @ field 1 (tv_poster v) @ field 3 (tv_category v) @ sz
      @ concat (map (field 2) trackers)" "take 20 plain = as_bytes h" "20 \<le> length plain"
    using h by (simp_all add: plain)
  note d = torrs_decode_encode [OF assms(1) p(2) this(3) assms(6), unfolded this(1,2)]
  show ?thesis
    unfolding p(3) d using assms(5)
    by (simp add: decode_field size decode_trackers decoded_field_def)
qed

definition sample_zlib :: zlib where
  "sample_zlib =
     \<lparr>z_pack = (\<lambda>plain. Some (1 # plain @ [0, 0, 0, 0, 0, 3, 0, 9, 9, 9, 9])),
      z_inflate = (\<lambda>bs. if bs \<noteq> [] \<and> hd bs = 1 \<and> 10 \<le> length bs then Some (take (length bs - 10) (tl bs)) else None)\<rparr>"

lemma sample_zlib_header: "zlib_header sample_zlib"
  by (auto simp: zlib_header_def sample_zlib_def)

lemma sample_matrix_zlib: "matrix_zlib sample_zlib plain = Some (1 # plain @ [1, 0, 0, 0, 0, 9, 9, 9, 9])"
proof -
  let ?q = "1 # plain @ [0, 0, 0, 0, 0, 9, 9, 9, 9]" and ?n = "Suc (length plain)"
  have up: "[0..<8] = 0 # [1..<8]" by (simp add: upt_conv_Cons)
  have at: "?q ! ?n = (0 :: byte)" and set: "?q[?n := 1] = 1 # plain @ [1, 0, 0, 0, 0, 9, 9, 9, 9]"
    by (simp_all add: nth_append list_update_append)
  have inf: "z_inflate sample_zlib (1 # plain @ [1, 0, 0, 0, 0, 9, 9, 9, 9]) = Some plain"
    by (simp add: sample_zlib_def)
  have "find_bit sample_zlib ?q ?n plain [0..<8] = Some (1 # plain @ [1, 0, 0, 0, 0, 9, 9, 9, 9])"
    unfolding up find_bit.simps Let_def at by (simp add: set inf del: list_update.simps)
  moreover have take: "take (length plain + 6) (1 # plain @ [0, 0, 0, 0, 0, 3, 0, 9, 9, 9, 9]) = 1 # plain @ [0, 0, 0, 0, 0]"
    and drop: "drop (length plain + 6) (1 # plain @ [0, 0, 0, 0, 0, 3, 0, 9, 9, 9, 9]) = [3, 0, 9, 9, 9, 9 :: byte]"
    by (simp_all add: eval_nat_numeral)
  moreover have "drop (length plain + 6 + 2) (1 # plain @ [0, 0, 0, 0, 0, 3, 0, 9, 9, 9, 9]) = [9, 9, 9, 9 :: byte]"
    using arg_cong [OF drop, of "drop 2"] by (simp add: add.commute)
  moreover have "z_pack sample_zlib plain = Some (1 # plain @ [0, 0, 0, 0, 0, 3, 0, 9, 9, 9, 9])"
    by (simp add: sample_zlib_def)
  ultimately show ?thesis
    by (simp add: matrix_zlib_def checked_sub_def slice_opt_def)
qed

definition sample_view :: torrent_view where
  "sample_view =
     \<lparr>tv_title = '' single.bin'', tv_category = ''movie'', tv_poster = [], tv_data = None, tv_timestamp = 0,
      tv_name = None, tv_hash = Some (info_hash_to_string (InfoHash (replicate 20 7))), tv_torrs_hash = None,
      tv_stat = 3, tv_stat_string = [], tv_loaded_size = None, tv_torrent_size = Some 8388608,
      tv_download_speed = None, tv_upload_speed = None, tv_total_peers = None, tv_active_peers = None,
      tv_connected_seeders = None, tv_bytes_written = None, tv_bytes_read = None, tv_file_stats = []\<rparr>"

theorem torrs_token_roundtrip_witness:
  "\<exists>token. torrs_encode sample_zlib sample_view [''udp://t''] = Some token
     \<and> torrs_decode sample_zlib (''torrs://'' @ token) =
         Some \<lparr>td_hash = InfoHash (replicate 20 7), td_title = ''single.bin'', td_poster = [],
               td_category = ''movie'', td_trackers = [''udp://t'']\<rparr>"
proof -
  have wf: "hash_wf (InfoHash (replicate 20 7))" by (simp add: hash_wf_def)
  have h: "view_hash sample_view = Some (InfoHash (replicate 20 7))"
    using parse_print_hash [OF wf] by (simp add: view_hash_def sample_view_def)
  have sz: "tv_torrent_size sample_view = Some 8388608" by (simp add: sample_view_def)
  have "torrs_plain (InfoHash (replicate 20 7)) sample_view [''udp://t''] \<noteq> None"
    unfolding torrs_plain_def sz by (simp add: I64_MAX_def del: field_def le_bytes.simps)
  then obtain plain where "torrs_plain (InfoHash (replicate 20 7)) sample_view [''udp://t''] = Some plain"
    by blast
  then obtain token where t: "torrs_encode sample_zlib sample_view [''udp://t''] = Some token"
    by (simp add: torrs_encode_def h sample_matrix_zlib)
  have trims: "trim '' single.bin'' = ''single.bin''" "trim ''movie'' = ''movie''" "trim [] = []"
      "trim ''udp://t'' = ''udp://t''"
    by code_simp+
  have oks: "text_ok '' single.bin''" "text_ok []" "text_ok ''movie''" "text_ok ''udp://t''"
    by code_simp+
  have fields: "tv_title sample_view = '' single.bin''" "tv_poster sample_view = []"
      "tv_category sample_view = ''movie''"
    by (simp_all add: sample_view_def)
  have "\<forall>s \<in> {tv_title sample_view, tv_poster sample_view, tv_category sample_view} \<union> set [''udp://t''].
      text_ok s \<and> length (trim s) < 2 ^ 16"
    unfolding fields using oks by (simp add: trims)
  from torrs_token_roundtrip [OF sample_zlib_header h wf t this, of "''torrs://''"] t show ?thesis
    by (simp add: fields trims)
qed

text \<open>
  A title of 65536 bytes is written with the largest length a \<open>u16\<close> holds but in full, so its
  token cannot be read back at all, although it was made without an error.
\<close>

theorem long_title_breaks_token:
  assumes "zlib_header z" "hash_wf h" "matrix_zlib z (as_bytes h @ field 0 title) = Some p"
    "length title = 2 ^ 16" "\<forall>c \<in> set title. is_visible c"
  shows "torrs_decode z (base62 p) = None"
proof -
  let ?b = "str_bytes title"
  have t: "trim title = title" by (rule trim_visible [OF assms(5)])
  have f: "field 0 title = 0 # 255 # 255 # ?b"
  proof -
    have "(of_nat ((2 ^ 16 - 1) mod 256) :: byte) = 255" "(of_nat ((2 ^ 16 - 1) div 256) :: byte) = 255"
      by simp_all
    moreover have "title \<noteq> []" using assms(4) by auto
    ultimately show ?thesis using t assms(4) by (simp add: field_def Let_def)
  qed
  have h: "length (as_bytes h) = 20" using assms(2) by (simp add: hash_wf_def)
  have b: "length ?b = 65536" using assms(4) by simp
  have ne: "last ?b \<noteq> 4"
  proof
    assume l: "last ?b = 4"
    have "title \<noteq> []" using assms(4) by auto
    then have "last ?b = of_nat (byte_val (last title))" by (simp add: str_bytes_def last_map)
    then have "byte_val (last title) = 4" using l unat_of_byte_val [of "last title"] by simp
    then show False using bspec [OF assms(5) last_in_set [OF \<open>title \<noteq> []\<close>]] by (simp add: is_visible_def)
  qed
  have dr: "drop 65535 ?b = [last ?b]"
  proof -
    have "?b = butlast ?b @ [last ?b]" using b by (metis append_butlast_last_id list.size(3) zero_neq_numeral)
    moreover have "length (butlast ?b) = 65535" using b by simp
    ultimately show ?thesis by (metis append_eq_conv_conj)
  qed
  have one: "decode_fields [x] d = None" if "x \<noteq> 4" for x d
    using that by (subst decode_fields.simps) simp
  have "decode_fields (0 # 255 # 255 # ?b) d = None" for d
    by (subst decode_fields.simps) (simp add: b dr one [OF ne] Let_def)
  then show ?thesis
    using torrs_decode_encode [OF assms(1,3), of "[]"] h by (simp add: f)
qed

theorem long_title_breaks_token_witness:
  "torrs_decode sample_zlib
     (base62 (1 # (as_bytes (InfoHash (replicate 20 7)) @ field 0 (replicate (2 ^ 16) CHR ''a''))
        @ [1, 0, 0, 0, 0, 9, 9, 9, 9])) = None"
proof (rule long_title_breaks_token [OF sample_zlib_header _ sample_matrix_zlib])
  show "hash_wf (InfoHash (replicate 20 7))" by (simp add: hash_wf_def)
  show "length (replicate (2 ^ 16) CHR ''a'') = 2 ^ 16" by (rule length_replicate)
  have "is_visible CHR ''a''" by code_simp
  then show "\<forall>c \<in> set (replicate (2 ^ 16) CHR ''a''). is_visible c"
    by (metis in_set_replicate)
qed

end
