(* ===== verification/CacheStorage.thy ===== *)
theory CacheStorage
  imports CacheInv
begin

text \<open>
  \<open>rustorr-engine/src/cache_storage.rs\<close>: the engine's storage traits over the cache. Everything
  the engine does to the cache it does through these methods, so what a call of the engine, or
  its background work, does to the cache is a list of such calls: \<open>apply_call\<close> is one of them,
  \<open>apply_calls\<close> a list. Each call may meet its own outcome of the outside world, so it comes
  with the store operations it meets.
\<close>

datatype storage_error =
    FileIdTooLarge
  | LengthsDiffer nat nat nat
  | StorageCache cache_error

definition lift_cache :: "cache_error + 'a \<Rightarrow> storage_error + 'a" where
  "lift_cache r = (case r of Inl e \<Rightarrow> Inl (StorageCache e) | Inr x \<Rightarrow> Inr x)"

definition storage_file_index :: "nat \<Rightarrow> storage_error + file_index" where
  "storage_file_index i = (if i < U32 then Inr (from_zero_based i) else Inl FileIdTooLarge)"

definition storage_create ::
    "'s piece_store \<Rightarrow> 's cache \<Rightarrow> info_hash \<Rightarrow> nat \<Rightarrow> nat list \<Rightarrow> 's cache \<times> (storage_error + unit)" where
  "storage_create vt c t pl lens =
     (case layout_new pl lens of
        Inl e \<Rightarrow> (c, Inl (StorageCache e))
      | Inr l \<Rightarrow> map_prod id lift_cache (cache_open vt c t l))"

definition storage_pread ::
    "'s piece_store \<Rightarrow> 's cache \<Rightarrow> info_hash \<Rightarrow> nat \<Rightarrow> nat \<Rightarrow> nat \<Rightarrow> 's cache \<times> (storage_error + byte list)"
  where
  "storage_pread vt c t i off n =
     (case storage_file_index i of
        Inl e \<Rightarrow> (c, Inl e)
      | Inr f \<Rightarrow> map_prod id lift_cache (cache_read vt c t f off n))"

definition storage_pwrite ::
    "'s piece_store \<Rightarrow> 's cache \<Rightarrow> info_hash \<Rightarrow> nat \<Rightarrow> nat \<Rightarrow> byte list \<Rightarrow> 's cache \<times> (storage_error + unit)"
  where
  "storage_pwrite vt c t i off d =
     (case storage_file_index i of
        Inl e \<Rightarrow> (c, Inl e)
      | Inr f \<Rightarrow> map_prod id lift_cache (cache_write vt c t f off d))"

definition storage_remove_file :: "'s cache \<Rightarrow> info_hash \<Rightarrow> nat \<Rightarrow> 's cache \<times> (storage_error + unit)" where
  "storage_remove_file c t i = (c, Inr ())"

definition storage_remove_directory :: "'s cache \<Rightarrow> info_hash \<Rightarrow> 's cache \<times> (storage_error + unit)" where
  "storage_remove_directory c t = (c, Inr ())"

definition storage_ensure_length :: "'s cache \<Rightarrow> info_hash \<Rightarrow> nat \<Rightarrow> nat \<Rightarrow> storage_error + unit" where
  "storage_ensure_length c t i len =
     (case storage_file_index i of
        Inl e \<Rightarrow> Inl e
      | Inr f \<Rightarrow>
          (case cache_file_length c t f of
             Inl e \<Rightarrow> Inl (StorageCache e)
           | Inr known \<Rightarrow> if known \<noteq> len then Inl (LengthsDiffer i len known) else Inr ()))"

definition storage_piece_completed ::
    "'s piece_store \<Rightarrow> 's cache \<Rightarrow> info_hash \<Rightarrow> nat \<Rightarrow> 's cache \<times> (storage_error + unit)" where
  "storage_piece_completed vt c t p = map_prod id lift_cache (cache_piece_completed vt c t (PieceIndex p))"

datatype storage_call =
    CreateStorage info_hash nat "nat list"
  | ReadExact info_hash nat nat nat
  | WriteAll info_hash nat nat "byte list"
  | RemoveFile info_hash nat
  | RemoveDirectory info_hash
  | EnsureLength info_hash nat nat
  | PieceDone info_hash nat

fun call_torrent :: "storage_call \<Rightarrow> info_hash" where
  "call_torrent (CreateStorage t pl lens) = t"
| "call_torrent (ReadExact t i off n) = t"
| "call_torrent (WriteAll t i off d) = t"
| "call_torrent (RemoveFile t i) = t"
| "call_torrent (RemoveDirectory t) = t"
| "call_torrent (EnsureLength t i len) = t"
| "call_torrent (PieceDone t p) = t"

fun apply_call :: "'s piece_store \<Rightarrow> 's cache \<Rightarrow> storage_call \<Rightarrow> 's cache" where
  "apply_call vt c (CreateStorage t pl lens) = fst (storage_create vt c t pl lens)"
| "apply_call vt c (ReadExact t i off n) = fst (storage_pread vt c t i off n)"
| "apply_call vt c (WriteAll t i off d) = fst (storage_pwrite vt c t i off d)"
| "apply_call vt c (RemoveFile t i) = fst (storage_remove_file c t i)"
| "apply_call vt c (RemoveDirectory t) = fst (storage_remove_directory c t)"
| "apply_call vt c (EnsureLength t i len) = c"
| "apply_call vt c (PieceDone t p) = fst (storage_piece_completed vt c t p)"

definition apply_calls :: "'s cache \<Rightarrow> ('s piece_store \<times> storage_call) list \<Rightarrow> 's cache" where
  "apply_calls c calls = fold (\<lambda>(vt, call) c. apply_call vt c call) calls c"

subsection \<open>What the engine cannot do to the cache\<close>

text \<open>
  Whatever the engine stores, it never takes a torrent out of the cache, never touches a pin and
  never changes the cap: a cache \<open>grows\<close>.
\<close>

definition same_pins :: "entry \<Rightarrow> entry \<Rightarrow> bool" where
  "same_pins e e' \<longleftrightarrow> e_pins e' = e_pins e \<and> e_readers e' = e_readers e \<and> e_layout e' = e_layout e"

definition grows :: "'s cache \<Rightarrow> 's cache \<Rightarrow> bool" where
  "grows c c' \<longleftrightarrow>
     c_cap c' = c_cap c \<and> c_next_pin c' = c_next_pin c
     \<and> (distinct (map fst (c_torrents c)) \<longrightarrow> distinct (map fst (c_torrents c')))
     \<and> (\<forall>t e. entries c t = Some e \<longrightarrow> (\<exists>e'. entries c' t = Some e' \<and> same_pins e e'))
     \<and> (\<forall>t e'. entries c t = None \<longrightarrow> entries c' t = Some e' \<longrightarrow> e_pins e' = 0)"

lemma growsD:
  assumes "grows c c'"
  shows "c_cap c' = c_cap c" "c_next_pin c' = c_next_pin c"
    "distinct (map fst (c_torrents c)) \<Longrightarrow> distinct (map fst (c_torrents c'))"
    "entries c t = Some e \<Longrightarrow> \<exists>e'. entries c' t = Some e' \<and> same_pins e e'"
    "entries c t = None \<Longrightarrow> entries c' t = Some e' \<Longrightarrow> e_pins e' = 0"
  using assms unfolding grows_def by blast+

lemma grows_refl [simp]: "grows c c"
  by (auto simp: grows_def same_pins_def)

lemma grows_trans:
  assumes "grows c1 c2" "grows c2 c3"
  shows "grows c1 c3"
proof -
  have old: "\<exists>e3. entries c3 t = Some e3 \<and> same_pins e1 e3" if e1: "entries c1 t = Some e1" for t e1
  proof -
    obtain e2 where e2: "entries c2 t = Some e2" "same_pins e1 e2" using growsD(4) [OF assms(1) e1] by blast
    obtain e3 where "entries c3 t = Some e3" "same_pins e2 e3" using growsD(4) [OF assms(2) e2(1)] by blast
    with e2 show ?thesis by (auto simp: same_pins_def)
  qed
  have new: "e_pins e3 = 0" if n: "entries c1 t = None" and e3: "entries c3 t = Some e3" for t e3
  proof (cases "entries c2 t")
    case None
    then show ?thesis using growsD(5) [OF assms(2) None e3] by blast
  next
    case (Some e2)
    then have "e_pins e2 = 0" using growsD(5) [OF assms(1) n Some] by blast
    moreover obtain e3' where "entries c3 t = Some e3'" "same_pins e2 e3'"
      using growsD(4) [OF assms(2) Some] by blast
    ultimately show ?thesis using e3 by (simp add: same_pins_def)
  qed
  show ?thesis
    unfolding grows_def using old new growsD(1-3) [OF assms(1)] growsD(1-3) [OF assms(2)] by simp
qed

lemma grows_put:
  assumes "entries c t = Some e" "same_pins e e'"
  shows "grows c (put_entry t e' c)"
  using assms by (auto simp: grows_def same_pins_def)

lemma grows_new:
  assumes "entries c t = None" "e_pins e' = 0"
  shows "grows c (put_entry t e' c)"
  using assms by (auto simp: grows_def same_pins_def)

lemma grows_store [simp]: "grows c (c\<lparr>c_store := s\<rparr>)" and grows_tick [simp]: "grows c (next_tick c)"
  by (auto simp: grows_def same_pins_def)

lemma grows_open: "grows c (fst (cache_open vt c t l))"
proof (cases "entries c t")
  case None
  obtain s r where o: "ps_open vt (c_store c) t l = (s, r)" by fastforce
  let ?c = "next_tick (c\<lparr>c_store := s\<rparr>)"
  have b: "grows c ?c" by (rule grows_trans [OF grows_store grows_tick])
  show ?thesis
  proof (cases r)
    case (Inl err)
    then show ?thesis by (simp add: cache_open_def None o)
  next
    case (Inr rc)
    show ?thesis
    proof (cases "insert_pieces (piece_set_new (piece_count l)) (rec_completed_pieces rc)")
      case (Inl err)
      then show ?thesis using b by (simp add: cache_open_def None o Inr Let_def)
    next
      case (Inr ps)
      have "entries ?c t = None" using None by simp
      from grows_new [OF this] show ?thesis
        using Inr \<open>r = Inr rc\<close> by (auto simp: cache_open_def None o Let_def intro!: grows_trans [OF b])
    qed
  qed
qed (simp add: cache_open_def)

lemma grows_write: "grows c (fst (cache_write vt c t f off d))"
proof (cases "cache_write_check c t")
  case (Inr u)
  obtain s r where w: "ps_write vt (c_store c) t f off d = (s, r)" by fastforce
  then have ws: "cache_write_store vt c t f off d = (c\<lparr>c_store := s\<rparr>, r)" by (simp add: cache_write_store_def)
  have commit: "grows c1 (cache_write_commit c1 t n)" for c1 :: "'a cache" and n
    by (auto simp: cache_write_commit_def same_pins_def intro!: grows_put split: option.split)
  show ?thesis
    using grows_trans [OF grows_store commit]
    by (cases r) (simp_all add: cache_write_def Inr ws)
qed (simp add: cache_write_def)

lemma grows_read: "grows c (fst (cache_read vt c t f off n))"
proof (cases "entries c t")
  case None
  then show ?thesis by (simp add: cache_read_def cache_entry_def Let_def)
next
  case (Some e)
  have "grows (next_tick c) (put_entry t (e\<lparr>e_last_read := c_tick (next_tick c)\<rparr>) (next_tick c))"
    by (rule grows_put) (simp_all add: Some same_pins_def)
  then show ?thesis using Some grows_trans [OF grows_tick] by (simp add: cache_read_def cache_entry_def Let_def)
qed

lemma grows_piece: "grows c (fst (cache_piece_completed vt c t p))"
proof -
  obtain s r where p: "ps_piece_completed vt (c_store c) t p = (s, r)" by fastforce
  let ?c = "c\<lparr>c_store := s\<rparr>"
  show ?thesis
  proof (cases r)
    case (Inr u)
    show ?thesis
    proof (cases "entries c t")
      case (Some e)
      show ?thesis
      proof (cases "piece_set_insert (e_pieces e) p")
        case (Inr ps)
        have "grows ?c (put_entry t (e\<lparr>e_pieces := ps\<rparr>) ?c)"
          by (rule grows_put) (simp_all add: Some same_pins_def)
        from grows_trans [OF grows_store this] show ?thesis
          using Inr \<open>r = Inr u\<close> Some
          by (simp add: cache_piece_completed_def p cache_entry_def Let_def del: piece_set_insert_eq_Inr)
      qed (simp add: cache_piece_completed_def p \<open>r = Inr u\<close> cache_entry_def Some Let_def)
    qed (simp add: cache_piece_completed_def p \<open>r = Inr u\<close> cache_entry_def Let_def)
  qed (simp add: cache_piece_completed_def p)
qed

lemma grows_call: "grows c (apply_call vt c call)"
  by (cases call)
    (auto simp: storage_create_def storage_pread_def storage_pwrite_def storage_remove_file_def
      storage_remove_directory_def storage_piece_completed_def grows_open grows_write grows_read grows_piece
      split: sum.split)

lemma grows_calls: "grows c (apply_calls c calls)"
proof (induction calls arbitrary: c)
  case (Cons p calls)
  obtain vt call where p: "p = (vt, call)" by fastforce
  show ?case
    using grows_trans [OF grows_call [of c vt call] Cons.IH] by (simp add: apply_calls_def p)
qed (simp add: apply_calls_def)

end
