(* ===== verification/EngineAdapter.thy ===== *)
theory EngineAdapter
  imports CacheStorage
begin

text \<open>
  \<open>rustorr-engine/src/port.rs\<close> and \<open>adapter.rs\<close>: the \<open>Engine\<close> trait and its implementation over a
  librqbit session. The session is the outside world: a record of functions over a state \<open>'z\<close>,
  each of which answers and lists the storage calls it made on the way, so that what it does to
  the cache goes through \<open>CacheStorage\<close>. The adapter's own state is the map from info hashes to
  session identifiers.

  The trait is a record of functions over an engine state \<open>'e\<close> and the cache; its contract, which
  the coordinator relies on, is the locale \<open>engine_contract\<close>, interpreted at the end on the
  adapter for every session.
\<close>

subsection \<open>The port\<close>

datatype torrent_source = TorrentBytes "byte list" | Magnet string | Url string

type_synonym peer = string

record add_options =
  ao_only_files :: "nat list option"
  ao_initial_peers :: "peer list"
  ao_trackers :: "string list"

record torrent_file =
  tf_engine_index :: nat
  tf_path :: string
  tf_length :: nat

record torrent_metadata =
  md_hash :: info_hash
  md_metainfo :: "byte list"
  md_name :: string
  md_files :: "torrent_file list"
  md_trackers :: "string list"

record torrent_status =
  ts_ready :: bool
  ts_live_peers :: nat
  ts_progress_bytes :: nat
  ts_uploaded_bytes :: nat
  ts_download_speed :: nat
  ts_upload_speed :: nat

definition torrent_status_default :: torrent_status where
  "torrent_status_default =
     \<lparr>ts_ready = False, ts_live_peers = 0, ts_progress_bytes = 0, ts_uploaded_bytes = 0,
      ts_download_speed = 0, ts_upload_speed = 0\<rparr>"

datatype engine_error =
    EngineDataDir string string
  | EngineStart string
  | SettingNotApplied string string string
  | TorrentFailed string
  | NotLoaded info_hash

record ('e, 's) engine_ops =
  en_is_loaded :: "'e \<Rightarrow> info_hash \<Rightarrow> bool"
  en_source_hash :: "torrent_source \<Rightarrow> info_hash option"
  en_inspect :: "byte list \<Rightarrow> engine_error + torrent_metadata"
  en_add :: "'e \<Rightarrow> 's cache \<Rightarrow> torrent_source \<Rightarrow> add_options
               \<Rightarrow> 'e \<times> 's cache \<times> (engine_error + torrent_metadata)"
  en_reader :: "'e \<Rightarrow> info_hash \<Rightarrow> file_index \<Rightarrow> nat \<Rightarrow> engine_error + nat"
  en_status :: "'e \<Rightarrow> info_hash \<Rightarrow> engine_error + torrent_status"
  en_piece_length :: "'e \<Rightarrow> info_hash \<Rightarrow> engine_error + nat"
  en_delete :: "'e \<Rightarrow> 's cache \<Rightarrow> info_hash \<Rightarrow> 'e \<times> 's cache \<times> (engine_error + peer list)"

locale engine_contract =
  fixes en :: "('e, 's) engine_ops"
  assumes add_ok:
      "en_add en e c src opts = (e', c', Inr md) \<Longrightarrow>
       en_is_loaded en e' = (en_is_loaded en e)(md_hash md := True) \<and> grows c c'"
    and add_err:
      "en_add en e c src opts = (e', c', Inl err) \<Longrightarrow> en_is_loaded en e' = en_is_loaded en e \<and> grows c c'"
    and delete_ok:
      "en_delete en e c h = (e', c', Inr peers) \<Longrightarrow>
       en_is_loaded en e' = (en_is_loaded en e)(h := False) \<and> grows c c'"
    and delete_err:
      "en_delete en e c h = (e', c', Inl err) \<Longrightarrow> en_is_loaded en e' = en_is_loaded en e \<and> grows c c'"
    and delete_unloaded:
      "\<not> en_is_loaded en e h \<Longrightarrow> en_delete en e c h = (e, c, Inl (NotLoaded h))"
    and delete_gone:
      "en_delete en e c h = (e', c', r) \<Longrightarrow> r = Inr peers \<or> r = Inl (NotLoaded k) \<Longrightarrow>
       en_reader en e' h f off = Inl (NotLoaded h)"
begin

lemma add_grows:
  assumes "en_add en e c src opts = (e', c', r)"
  shows "grows c c'" "en_is_loaded en e h \<Longrightarrow> en_is_loaded en e' h"
  using assms add_ok [of e c src opts e' c'] add_err [of e c src opts e' c'] by (cases r; auto)+

lemma delete_grows:
  assumes "en_delete en e c h = (e', c', r)"
  shows "grows c c'" "h' \<noteq> h \<Longrightarrow> en_is_loaded en e' h' = en_is_loaded en e h'"
    "r = Inr p \<Longrightarrow> \<not> en_is_loaded en e' h"
  using assms delete_ok [of e c h e' c'] delete_err [of e c h e' c'] by (cases r; auto)+

end

subsection \<open>The session behind the adapter\<close>

text \<open>
  What librqbit tells of a torrent's info dictionary, of a managed torrent, and of the bytes of a
  torrent file, whose info dictionary may turn out to be invalid.
\<close>

record torrent_info =
  ti_name :: "string option"
  ti_multi_file :: bool
  ti_files :: "(string \<times> nat) list"

record session_metadata =
  sm_hash :: info_hash
  sm_torrent_bytes :: "byte list"
  sm_info :: torrent_info

record parsed_torrent =
  pt_hash :: info_hash
  pt_announce :: "byte list list"
  pt_info :: "string + torrent_info"

record librqbit_add_options =
  so_only_files :: "nat list option"
  so_initial_peers :: "peer list option"
  so_trackers :: "string list option"

datatype session_source = FromBytes "byte list" | FromUrl string

record session_live =
  sl_peers :: nat
  sl_download :: nat
  sl_upload :: nat
  sl_addresses :: "string list"

record session_stats =
  sst_progress :: nat
  sst_uploaded :: nat
  sst_live :: "session_live option"

record ('z, 's) session_ops =
  ss_add :: "'z \<Rightarrow> session_source \<Rightarrow> librqbit_add_options
               \<Rightarrow> 'z \<times> ('s piece_store \<times> storage_call) list \<times> (string + nat)"
  ss_wait :: "'z \<Rightarrow> nat \<Rightarrow> 'z \<times> ('s piece_store \<times> storage_call) list \<times> (string + unit)"
  ss_metadata :: "'z \<Rightarrow> nat \<Rightarrow> string + session_metadata"
  ss_managed :: "'z \<Rightarrow> nat \<Rightarrow> bool"
  ss_stream :: "'z \<Rightarrow> nat \<Rightarrow> nat \<Rightarrow> nat \<Rightarrow> string + unit"
  ss_stats :: "'z \<Rightarrow> nat \<Rightarrow> session_stats"
  ss_piece_length :: "'z \<Rightarrow> nat \<Rightarrow> string + nat"
  ss_delete :: "'z \<Rightarrow> nat \<Rightarrow> 'z \<times> ('s piece_store \<times> storage_call) list \<times> (string + unit)"
  ss_parse_torrent :: "byte list \<Rightarrow> string + parsed_torrent"
  ss_parse_magnet :: "string \<Rightarrow> info_hash option"
  ss_parse_address :: "string \<Rightarrow> peer option"

record 'z engine =
  eg_session :: 'z
  eg_loaded :: "info_hash \<rightharpoonup> nat"

text \<open>\<open>NON_ALPHANUMERIC\<close> percent encoding of the bytes of a text.\<close>

definition is_alnum :: "char \<Rightarrow> bool" where
  "is_alnum c =
     (let n = byte_val c in 48 \<le> n \<and> n \<le> 57 \<or> 65 \<le> n \<and> n \<le> 90 \<or> 97 \<le> n \<and> n \<le> 122)"

definition upper_hex :: "nat \<Rightarrow> char" where
  "upper_hex d = char_of (if d < 10 then 48 + d else 55 + d)"

definition percent_encode :: "string \<Rightarrow> string" where
  "percent_encode s =
     concat (map (\<lambda>c. if is_alnum c then [c]
                      else [CHR ''%'', upper_hex (byte_val c div 16), upper_hex (byte_val c mod 16)]) s)"

definition magnet_with_trackers :: "string \<Rightarrow> string list \<Rightarrow> string" where
  "magnet_with_trackers magnet trackers =
     fold (\<lambda>tracker m. m @ ''&tr='' @ percent_encode tracker) trackers magnet"

definition display_path :: "string \<Rightarrow> bool \<Rightarrow> string \<Rightarrow> string" where
  "display_path name multi_file relative =
     (let relative = map (\<lambda>c. if c = CHR 0x5C then CHR ''/'' else c) relative
      in if multi_file then name @ ''/'' @ relative else relative)"

definition unwrap_name :: "string option \<Rightarrow> string" where
  "unwrap_name n = (case n of None \<Rightarrow> [] | Some s \<Rightarrow> s)"

definition session_files :: "torrent_info \<Rightarrow> torrent_file list" where
  "session_files info =
     map (\<lambda>(i, path, len). \<lparr>tf_engine_index = (if i < U32 then i else U32 - 1),
                             tf_path = display_path (unwrap_name (ti_name info)) (ti_multi_file info) path,
                             tf_length = len\<rparr>)
       (enumerate 0 (ti_files info))"

text \<open>Announce addresses that are UTF-8; a \<open>str\<close> is the list of its bytes.\<close>

definition utf8_trackers :: "byte list list \<Rightarrow> string list" where
  "utf8_trackers ts = map bytes_text (filter (\<lambda>b. valid_utf8 (map unat b)) ts)"

definition adapter_source_hash :: "('z, 's) session_ops \<Rightarrow> torrent_source \<Rightarrow> info_hash option" where
  "adapter_source_hash ss src =
     (case src of
        TorrentBytes b \<Rightarrow> (case ss_parse_torrent ss b of Inl e \<Rightarrow> None | Inr pt \<Rightarrow> Some (pt_hash pt))
      | Magnet v \<Rightarrow> ss_parse_magnet ss v
      | Url u \<Rightarrow> None)"

definition adapter_inspect :: "('z, 's) session_ops \<Rightarrow> byte list \<Rightarrow> engine_error + torrent_metadata" where
  "adapter_inspect ss b =
     (case ss_parse_torrent ss b of
        Inl e \<Rightarrow> Inl (TorrentFailed e)
      | Inr pt \<Rightarrow>
          (case pt_info pt of
             Inl e \<Rightarrow> Inl (TorrentFailed e)
           | Inr info \<Rightarrow>
               Inr \<lparr>md_hash = pt_hash pt, md_metainfo = b, md_name = unwrap_name (ti_name info),
                    md_files = session_files info, md_trackers = utf8_trackers (pt_announce pt)\<rparr>))"

definition live_metadata :: "('z, 's) session_ops \<Rightarrow> session_metadata \<Rightarrow> torrent_metadata" where
  "live_metadata ss sm =
     \<lparr>md_hash = sm_hash sm, md_metainfo = sm_torrent_bytes sm, md_name = unwrap_name (ti_name (sm_info sm)),
      md_files = session_files (sm_info sm),
      md_trackers = (case ss_parse_torrent ss (sm_torrent_bytes sm) of
                       Inl e \<Rightarrow> [] | Inr pt \<Rightarrow> utf8_trackers (pt_announce pt))\<rparr>"

definition session_source_of :: "torrent_source \<Rightarrow> string list \<Rightarrow> session_source" where
  "session_source_of src trackers =
     (case src of
        TorrentBytes b \<Rightarrow> FromBytes b
      | Magnet v \<Rightarrow> FromUrl (magnet_with_trackers v trackers)
      | Url u \<Rightarrow> FromUrl u)"

definition session_options_of :: "add_options \<Rightarrow> librqbit_add_options" where
  "session_options_of ao =
     \<lparr>so_only_files = ao_only_files ao,
      so_initial_peers = (if ao_initial_peers ao = [] then None else Some (ao_initial_peers ao)),
      so_trackers = (if ao_trackers ao = [] then None else Some (ao_trackers ao))\<rparr>"

definition adapter_add ::
    "('z, 's) session_ops \<Rightarrow> 'z engine \<Rightarrow> 's cache \<Rightarrow> torrent_source \<Rightarrow> add_options
       \<Rightarrow> 'z engine \<times> 's cache \<times> (engine_error + torrent_metadata)" where
  "adapter_add ss e c src opts =
     (case ss_add ss (eg_session e) (session_source_of src (ao_trackers opts)) (session_options_of opts) of
        (z1, calls1, r1) \<Rightarrow>
          let e1 = e\<lparr>eg_session := z1\<rparr>; c1 = apply_calls c calls1 in
          (case r1 of
             Inl err \<Rightarrow> (e1, c1, Inl (TorrentFailed err))
           | Inr i \<Rightarrow>
               (case ss_wait ss z1 i of
                  (z2, calls2, r2) \<Rightarrow>
                    let e2 = e1\<lparr>eg_session := z2\<rparr>; c2 = apply_calls c1 calls2 in
                    (case r2 of
                       Inl err \<Rightarrow> (e2, c2, Inl (TorrentFailed err))
                     | Inr _ \<Rightarrow>
                         (case ss_metadata ss z2 i of
                            Inl err \<Rightarrow> (e2, c2, Inl (TorrentFailed err))
                          | Inr sm \<Rightarrow>
                              (e2\<lparr>eg_loaded := (eg_loaded e2)(sm_hash sm \<mapsto> i)\<rparr>, c2,
                               Inr (live_metadata ss sm)))))))"

definition adapter_handle :: "('z, 's) session_ops \<Rightarrow> 'z engine \<Rightarrow> info_hash \<Rightarrow> engine_error + nat" where
  "adapter_handle ss e h =
     (case eg_loaded e h of
        None \<Rightarrow> Inl (NotLoaded h)
      | Some i \<Rightarrow> if ss_managed ss (eg_session e) i then Inr i else Inl (NotLoaded h))"

definition adapter_reader ::
    "('z, 's) session_ops \<Rightarrow> 'z engine \<Rightarrow> info_hash \<Rightarrow> file_index \<Rightarrow> nat \<Rightarrow> engine_error + nat" where
  "adapter_reader ss e h f off =
     (case adapter_handle ss e h of
        Inl err \<Rightarrow> Inl err
      | Inr i \<Rightarrow>
          (case ss_metadata ss (eg_session e) i of
             Inl err \<Rightarrow> Inl (TorrentFailed err)
           | Inr sm \<Rightarrow>
               (case get_opt (ti_files (sm_info sm)) (zero_based f) of
                  None \<Rightarrow> Inl (NotLoaded h)
                | Some (path, len) \<Rightarrow>
                    (case ss_stream ss (eg_session e) i (zero_based f) off of
                       Inl err \<Rightarrow> Inl (TorrentFailed err)
                     | Inr _ \<Rightarrow> Inr len))))"

definition adapter_status ::
    "('z, 's) session_ops \<Rightarrow> 'z engine \<Rightarrow> info_hash \<Rightarrow> engine_error + torrent_status" where
  "adapter_status ss e h =
     (case adapter_handle ss e h of
        Inl err \<Rightarrow> Inl err
      | Inr i \<Rightarrow>
          let st = ss_stats ss (eg_session e) i in
          (case sst_live st of
             None \<Rightarrow> Inr (torrent_status_default\<lparr>ts_ready := True, ts_progress_bytes := sst_progress st,
                            ts_uploaded_bytes := sst_uploaded st\<rparr>)
           | Some live \<Rightarrow>
               Inr \<lparr>ts_ready = True, ts_live_peers = sl_peers live, ts_progress_bytes = sst_progress st,
                    ts_uploaded_bytes = sst_uploaded st, ts_download_speed = sl_download live,
                    ts_upload_speed = sl_upload live\<rparr>))"

definition adapter_piece_length :: "('z, 's) session_ops \<Rightarrow> 'z engine \<Rightarrow> info_hash \<Rightarrow> engine_error + nat" where
  "adapter_piece_length ss e h =
     (case adapter_handle ss e h of
        Inl err \<Rightarrow> Inl err
      | Inr i \<Rightarrow>
          (case ss_piece_length ss (eg_session e) i of Inl err \<Rightarrow> Inl (TorrentFailed err) | Inr n \<Rightarrow> Inr n))"

text \<open>The calls of a deletion include those that arrive in the grace second after it.\<close>

definition adapter_delete ::
    "('z, 's) session_ops \<Rightarrow> 'z engine \<Rightarrow> 's cache \<Rightarrow> info_hash
       \<Rightarrow> 'z engine \<times> 's cache \<times> (engine_error + peer list)" where
  "adapter_delete ss e c h =
     (case adapter_handle ss e h of
        Inl err \<Rightarrow> (e, c, Inl err)
      | Inr i \<Rightarrow>
          let peers = (case sst_live (ss_stats ss (eg_session e) i) of
                         None \<Rightarrow> []
                       | Some live \<Rightarrow> List.map_filter (ss_parse_address ss) (sl_addresses live)) in
          (case ss_delete ss (eg_session e) i of
             (z1, calls, Inl err) \<Rightarrow> (e\<lparr>eg_session := z1\<rparr>, apply_calls c calls, Inl (TorrentFailed err))
           | (z1, calls, Inr _) \<Rightarrow>
               (e\<lparr>eg_session := z1,
                  eg_loaded := (if eg_loaded e h = Some i then (eg_loaded e)(h := None) else eg_loaded e)\<rparr>,
                apply_calls c calls, Inr peers)))"

definition adapter_ops :: "('z, 's) session_ops \<Rightarrow> ('z engine, 's) engine_ops" where
  "adapter_ops ss =
     \<lparr>en_is_loaded = (\<lambda>e h. eg_loaded e h \<noteq> None), en_source_hash = adapter_source_hash ss,
      en_inspect = adapter_inspect ss, en_add = adapter_add ss, en_reader = adapter_reader ss,
      en_status = adapter_status ss, en_piece_length = adapter_piece_length ss, en_delete = adapter_delete ss\<rparr>"

subsection \<open>The settings a session must have taken\<close>

record engine_config =
  ec_data_dir :: string
  ec_listen_port :: "nat option"
  ec_listen_ip :: "string option"
  ec_enable_dht :: bool
  ec_enable_trackers :: bool
  ec_proxy_url :: "string option"

record engine_status =
  es_dht_enabled :: bool
  es_listen_port :: "nat option"

definition verify_listener :: "nat option \<Rightarrow> nat option \<Rightarrow> bool" where
  "verify_listener wanted bound =
     (case (wanted, bound) of
        (None, None) \<Rightarrow> True
      | (Some w, Some b) \<Rightarrow> if w = 0 then b \<noteq> 0 else w = b
      | _ \<Rightarrow> False)"

definition show_bool :: "bool \<Rightarrow> string" where
  "show_bool b = (if b then ''true'' else ''false'')"

definition show_port :: "nat option \<Rightarrow> string" where
  "show_port p = (case p of None \<Rightarrow> ''None'' | Some n \<Rightarrow> ''Some('' @ decimal n @ '')'')"

definition verify :: "engine_config \<Rightarrow> engine_status \<Rightarrow> engine_error + unit" where
  "verify cfg st =
     (if es_dht_enabled st \<noteq> ec_enable_dht cfg
      then Inl (SettingNotApplied ''dht'' (show_bool (ec_enable_dht cfg)) (show_bool (es_dht_enabled st)))
      else if \<not> verify_listener (ec_listen_port cfg) (es_listen_port st)
      then Inl (SettingNotApplied ''listen port'' (show_port (ec_listen_port cfg)) (show_port (es_listen_port st)))
      else Inr ())"

text \<open>
  \<open>session_options\<close>: what a session is asked for. Fields the code leaves at the library's default
  are left out; \<open>fastresume\<close> and \<open>persistence\<close> are there because they must be off.
\<close>

record session_config =
  sc_dht_cache :: "string option"
  sc_disable_trackers :: bool
  sc_fastresume :: bool
  sc_persistence :: bool
  sc_cache_storage :: bool
  sc_listen :: "(string \<times> nat) option"
  sc_proxy :: "string option"

definition path_join :: "string \<Rightarrow> string \<Rightarrow> string" where
  "path_join dir name =
     (if dir = [] \<or> last dir = CHR ''/'' then dir @ name else dir @ ''/'' @ name)"

definition session_options :: "engine_config \<Rightarrow> session_config" where
  "session_options cfg =
     \<lparr>sc_dht_cache = (if ec_enable_dht cfg then Some (path_join (ec_data_dir cfg) ''dht.json'') else None),
      sc_disable_trackers = (\<not> ec_enable_trackers cfg), sc_fastresume = False, sc_persistence = False,
      sc_cache_storage = True,
      sc_listen = map_option (\<lambda>port. (case ec_listen_ip cfg of None \<Rightarrow> ''::'' | Some ip \<Rightarrow> ip, port))
                    (ec_listen_port cfg),
      sc_proxy = ec_proxy_url cfg\<rparr>"

text \<open>
  \<open>start\<close>: \<open>mkdir\<close> is the outcome of creating the directory, \<open>open_session\<close> makes a session or fails,
  \<open>status_of\<close> is what it says it applied and \<open>stop\<close> stops it. A session that did not apply its
  settings is stopped before the error is returned; the first result is the session left behind.
\<close>

definition engine_start ::
    "engine_config \<Rightarrow> string + unit \<Rightarrow> (string \<Rightarrow> session_config \<Rightarrow> string + 'z) \<Rightarrow> ('z \<Rightarrow> engine_status)
       \<Rightarrow> ('z \<Rightarrow> 'z) \<Rightarrow> 'z option \<times> (engine_error + 'z engine)" where
  "engine_start cfg mkdir open_session status_of stop =
     (case mkdir of
        Inl err \<Rightarrow> (None, Inl (EngineDataDir (ec_data_dir cfg) err))
      | Inr _ \<Rightarrow>
          (case open_session (path_join (ec_data_dir cfg) ''scratch'') (session_options cfg) of
             Inl err \<Rightarrow> (None, Inl (EngineStart err))
           | Inr z \<Rightarrow>
               (case verify cfg (status_of z) of
                  Inl err \<Rightarrow> (Some (stop z), Inl err)
                | Inr _ \<Rightarrow> (Some z, Inr \<lparr>eg_session = z, eg_loaded = Map.empty\<rparr>))))"

subsection \<open>The adapter keeps the contract\<close>

lemma adapter_add_cases:
  assumes "adapter_add ss e c src opts = (e', c', r)"
  shows "grows c c'"
    "r = Inl err \<Longrightarrow> eg_loaded e' = eg_loaded e"
    "r = Inr md \<Longrightarrow> \<exists>i. eg_loaded e' = (eg_loaded e)(md_hash md \<mapsto> i)"
proof -
  obtain z1 calls1 r1 where a: "ss_add ss (eg_session e) (session_source_of src (ao_trackers opts))
      (session_options_of opts) = (z1, calls1, r1)" by (metis prod_cases3)
  have g1: "grows c (apply_calls c calls1)" by (rule grows_calls)
  have "grows c c' \<and> (\<forall>err. r = Inl err \<longrightarrow> eg_loaded e' = eg_loaded e)
      \<and> (\<forall>md. r = Inr md \<longrightarrow> (\<exists>i. eg_loaded e' = (eg_loaded e)(md_hash md \<mapsto> i)))"
  proof (cases r1)
    case (Inl err)
    then show ?thesis using assms a g1 by (auto simp: adapter_add_def Let_def)
  next
    case (Inr i)
    obtain z2 calls2 r2 where w: "ss_wait ss z1 i = (z2, calls2, r2)" by (metis prod_cases3)
    have g2: "grows c (apply_calls (apply_calls c calls1) calls2)"
      by (rule grows_trans [OF g1 grows_calls])
    show ?thesis
      using assms a w g2 Inr
      by (cases r2; cases "ss_metadata ss z2 i") (auto simp: adapter_add_def Let_def live_metadata_def)
  qed
  then show "grows c c'" "r = Inl err \<Longrightarrow> eg_loaded e' = eg_loaded e"
    "r = Inr md \<Longrightarrow> \<exists>i. eg_loaded e' = (eg_loaded e)(md_hash md \<mapsto> i)" by auto
qed

lemma adapter_delete_cases:
  assumes "adapter_delete ss e c h = (e', c', r)"
  shows "grows c c'"
    "r = Inl err \<Longrightarrow> eg_loaded e' = eg_loaded e"
    "r = Inr p \<Longrightarrow> eg_loaded e' = (eg_loaded e)(h := None)"
    "eg_loaded e h = None \<Longrightarrow> e' = e \<and> c' = c \<and> r = Inl (NotLoaded h)"
    "r = Inr p2 \<or> r = Inl (NotLoaded k) \<Longrightarrow> adapter_handle ss e' h = Inl (NotLoaded h)"
proof -
  have "grows c c' \<and> (\<forall>err. r = Inl err \<longrightarrow> eg_loaded e' = eg_loaded e)
      \<and> (\<forall>p. r = Inr p \<longrightarrow> eg_loaded e' = (eg_loaded e)(h := None))
      \<and> (eg_loaded e h = None \<longrightarrow> e' = e \<and> c' = c \<and> r = Inl (NotLoaded h))
      \<and> (r = Inr p2 \<or> r = Inl (NotLoaded k) \<longrightarrow> adapter_handle ss e' h = Inl (NotLoaded h))"
  proof (cases "adapter_handle ss e h")
    case (Inl err)
    then show ?thesis using assms
      by (auto simp: adapter_delete_def adapter_handle_def split: option.splits if_splits)
  next
    case (Inr i)
    then have i: "eg_loaded e h = Some i"
      by (auto simp: adapter_handle_def split: option.splits if_splits)
    obtain z1 calls r1 where d: "ss_delete ss (eg_session e) i = (z1, calls, r1)" by (metis prod_cases3)
    have "grows c (apply_calls c calls)" by (rule grows_calls)
    then show ?thesis using assms Inr i d
      by (cases r1) (auto simp: adapter_delete_def adapter_handle_def Let_def)
  qed
  then show "grows c c'" "r = Inl err \<Longrightarrow> eg_loaded e' = eg_loaded e"
    "r = Inr p \<Longrightarrow> eg_loaded e' = (eg_loaded e)(h := None)"
    "eg_loaded e h = None \<Longrightarrow> e' = e \<and> c' = c \<and> r = Inl (NotLoaded h)"
    "r = Inr p2 \<or> r = Inl (NotLoaded k) \<Longrightarrow> adapter_handle ss e' h = Inl (NotLoaded h)" by auto
qed

lemma adapter_ops_simps [simp]:
  "en_is_loaded (adapter_ops ss) e h \<longleftrightarrow> eg_loaded e h \<noteq> None"
  "en_source_hash (adapter_ops ss) = adapter_source_hash ss" "en_inspect (adapter_ops ss) = adapter_inspect ss"
  "en_add (adapter_ops ss) = adapter_add ss" "en_reader (adapter_ops ss) = adapter_reader ss"
  "en_status (adapter_ops ss) = adapter_status ss" "en_delete (adapter_ops ss) = adapter_delete ss"
  by (simp_all add: adapter_ops_def)

interpretation librqbit: engine_contract "adapter_ops ss" for ss :: "('z, 's) session_ops"
proof
  fix e e' :: "'z engine" and c c' :: "'s cache" and src opts md err h peers
  show "en_is_loaded (adapter_ops ss) e' = (en_is_loaded (adapter_ops ss) e)(md_hash md := True) \<and> grows c c'"
    if "en_add (adapter_ops ss) e c src opts = (e', c', Inr md)"
  proof -
    from that have a: "adapter_add ss e c src opts = (e', c', Inr md)" by simp
    from adapter_add_cases(3) [OF a refl] adapter_add_cases(1) [OF a] show ?thesis
      by (auto simp: fun_eq_iff)
  qed
  show "en_is_loaded (adapter_ops ss) e' = en_is_loaded (adapter_ops ss) e \<and> grows c c'"
    if "en_add (adapter_ops ss) e c src opts = (e', c', Inl err)"
  proof -
    from that have a: "adapter_add ss e c src opts = (e', c', Inl err)" by simp
    from adapter_add_cases(2) [OF a refl] adapter_add_cases(1) [OF a] show ?thesis
      by (auto simp: fun_eq_iff)
  qed
  show "en_is_loaded (adapter_ops ss) e' = (en_is_loaded (adapter_ops ss) e)(h := False) \<and> grows c c'"
    if "en_delete (adapter_ops ss) e c h = (e', c', Inr peers)"
  proof -
    from that have a: "adapter_delete ss e c h = (e', c', Inr peers)" by simp
    from adapter_delete_cases(3) [OF a refl] adapter_delete_cases(1) [OF a] show ?thesis
      by (auto simp: fun_eq_iff)
  qed
  show "en_is_loaded (adapter_ops ss) e' = en_is_loaded (adapter_ops ss) e \<and> grows c c'"
    if "en_delete (adapter_ops ss) e c h = (e', c', Inl err)"
  proof -
    from that have a: "adapter_delete ss e c h = (e', c', Inl err)" by simp
    from adapter_delete_cases(2) [OF a refl] adapter_delete_cases(1) [OF a] show ?thesis
      by (auto simp: fun_eq_iff)
  qed
  show "en_delete (adapter_ops ss) e c h = (e, c, Inl (NotLoaded h))"
    if "\<not> en_is_loaded (adapter_ops ss) e h"
  proof -
    obtain e1 c1 r1 where a: "adapter_delete ss e c h = (e1, c1, r1)" by (metis prod_cases3)
    have "eg_loaded e h = None" using that by simp
    from adapter_delete_cases(4) [OF a this] a show ?thesis by simp
  qed
  show "en_reader (adapter_ops ss) e' h f off = Inl (NotLoaded h)"
    if d: "en_delete (adapter_ops ss) e c h = (e', c', r)" and gone: "r = Inr peers \<or> r = Inl (NotLoaded k)" for r f off k
  proof -
    from d have a: "adapter_delete ss e c h = (e', c', r)" by simp
    from adapter_delete_cases(5) [OF a gone] show ?thesis by (simp add: adapter_reader_def)
  qed
qed

end
