(* ===== verification/Coordinator.thy ===== *)
theory Coordinator
  imports Action TorrsHash EngineAdapter
begin

text \<open>
  \<open>rustorr-lifecycle/src/lib.rs\<close>: the coordinator, the only part that may order the engine, the
  cache and the catalog. Its operations hold the lifecycle gate, so each of them is one action on
  the coordinator's state; work it spawns (look-ahead reads, idle timers, the end of a reader) is
  an action of its own, which the caller may interleave.

  The engine is a record of operations \<open>en\<close>. The outside world of one command is the record
  \<open>world\<close>: what the piece store and SQLite answer, the clock, the files it may read, and the
  codecs for JSON and zlib. Logging is left out.
\<close>

subsection \<open>State\<close>

datatype coord_error =
    EngineErr engine_error
  | StateErr state_error
  | CacheErr cache_error
  | UnknownFileIndex info_hash nat
  | InvalidIndex nat
  | LocalSource string
  | NotFound info_hash
  | InvalidSettings string

record add_request =
  rq_link :: string
  rq_title :: string
  rq_poster :: string
  rq_category :: string
  rq_data :: string
  rq_save_to_db :: bool

definition add_request_default :: add_request where
  "add_request_default =
     \<lparr>rq_link = [], rq_title = [], rq_poster = [], rq_category = [], rq_data = [], rq_save_to_db = False\<rparr>"

record update_request =
  up_hash :: info_hash
  up_title :: string
  up_poster :: string
  up_category :: string
  up_data :: string

record live_torrent =
  lt_metadata :: torrent_metadata
  lt_title :: string
  lt_poster :: string
  lt_category :: string
  lt_data :: string
  lt_added_at :: system_time

text \<open>
  A task of the map \<open>prefetches\<close>: its identifier and the local state of the running look-ahead,
  which holds a pin from when it is prepared until it has read. Aborting the task drops the pin.
\<close>

record prefetch_task =
  pf_id :: nat
  pf_file :: file_index
  pf_offset :: nat
  pf_pin :: "pin option"

record playback_reader =
  pr_length :: nat
  pr_pin :: pin
  pr_hash :: info_hash
  pr_file :: file_index
  pr_offset :: nat

record ('e, 's) coord =
  co_engine :: 'e
  co_cache :: "'s cache"
  co_db :: state_db
  co_prefetches :: "info_hash \<rightharpoonup> prefetch_task"
  co_idle_detaches :: "info_hash \<rightharpoonup> nat"
  co_peer_hints :: "info_hash \<rightharpoonup> peer list"
  co_live :: "(info_hash \<times> live_torrent) list"
  co_settings :: settings
  co_next_prefetch_id :: nat
  co_next_idle_id :: nat
  co_trackers_file :: "string option"
  co_read_only :: bool

text \<open>\<open>wo_fault\<close> says which statement on which torrent SQLite refuses for a reason of its own.\<close>

datatype db_call =
    AskTorrent | AskMetainfo | AskList | AskSettings | DoSave | DoRemove | DoSettings | DoViewed
  | AskViewed | DoUnview | AskWaf | DoWaf

record 's world =
  wo_store :: "'s piece_store"
  wo_fault :: "db_call \<Rightarrow> info_hash option \<Rightarrow> bool"
  wo_now :: system_time
  wo_read_text :: "string \<Rightarrow> string option"
  wo_read_file :: "string \<Rightarrow> string + byte list"
  wo_json :: "string \<Rightarrow> bool"
  wo_settings_text :: "settings \<Rightarrow> string"
  wo_parse_settings :: "string \<Rightarrow> settings option"
  wo_files_text :: "torrent_file_view list \<Rightarrow> string"
  wo_zlib :: zlib

type_synonym ('e, 's, 'a) coord_act = "(('e, 's) coord, coord_error, 'a) act"

subsection \<open>Calls to the parts\<close>

definition ask_db :: "(state_db \<Rightarrow> state_error + 'a) \<Rightarrow> ('e, 's, 'a) coord_act" where
  "ask_db f = try_gets (\<lambda>s. map_sum StateErr id (f (co_db s)))"

definition do_db :: "(state_db \<Rightarrow> state_db \<times> (state_error + 'a)) \<Rightarrow> ('e, 's, 'a) coord_act" where
  "do_db f = (\<lambda>s. case f (co_db s) of (d, r) \<Rightarrow> (s\<lparr>co_db := d\<rparr>, map_sum StateErr id r))"

definition do_cache :: "('s cache \<Rightarrow> 's cache \<times> (cache_error + 'a)) \<Rightarrow> ('e, 's, 'a) coord_act" where
  "do_cache f = (\<lambda>s. case f (co_cache s) of (c, r) \<Rightarrow> (s\<lparr>co_cache := c\<rparr>, map_sum CacheErr id r))"

definition do_engine ::
    "('e \<Rightarrow> 's cache \<Rightarrow> 'e \<times> 's cache \<times> (engine_error + 'a)) \<Rightarrow> ('e, 's, 'a) coord_act" where
  "do_engine f =
     (\<lambda>s. case f (co_engine s) (co_cache s) of
            (e, c, r) \<Rightarrow> (s\<lparr>co_engine := e, co_cache := c\<rparr>, map_sum EngineErr id r))"

abbreviation ask_torrent :: "'s world \<Rightarrow> info_hash \<Rightarrow> ('e, 's, catalog_entry option) coord_act" where
  "ask_torrent w h \<equiv> ask_db (\<lambda>d. db_torrent (wo_fault w AskTorrent (Some h)) d h)"

abbreviation ask_metainfo :: "'s world \<Rightarrow> info_hash \<Rightarrow> ('e, 's, byte list option) coord_act" where
  "ask_metainfo w h \<equiv> ask_db (\<lambda>d. db_metainfo (wo_fault w AskMetainfo (Some h)) d h)"

abbreviation ask_list :: "'s world \<Rightarrow> ('e, 's, catalog_entry list) coord_act" where
  "ask_list w \<equiv> ask_db (list_torrents (wo_fault w AskList None))"

abbreviation is_loaded :: "('e, 's) engine_ops \<Rightarrow> ('e, 's) coord \<Rightarrow> info_hash \<Rightarrow> bool" where
  "is_loaded en s \<equiv> en_is_loaded en (co_engine s)"

abbreviation live_of :: "('e, 's) coord \<Rightarrow> info_hash \<rightharpoonup> live_torrent" where
  "live_of s \<equiv> map_of (co_live s)"

definition insert_live :: "info_hash \<Rightarrow> live_torrent \<Rightarrow> ('e, 's, unit) coord_act" where
  "insert_live h l = modify (\<lambda>s. s\<lparr>co_live := hm_insert h l (co_live s)\<rparr>)"

definition remove_live :: "info_hash \<Rightarrow> ('e, 's, unit) coord_act" where
  "remove_live h = modify (\<lambda>s. s\<lparr>co_live := hm_remove h (co_live s)\<rparr>)"

definition forget_hints :: "info_hash \<Rightarrow> ('e, 's, unit) coord_act" where
  "forget_hints h = modify (\<lambda>s. s\<lparr>co_peer_hints := (co_peer_hints s)(h := None)\<rparr>)"

definition keep_hints :: "info_hash \<Rightarrow> peer list \<Rightarrow> ('e, 's, unit) coord_act" where
  "keep_hints h peers =
     (if peers = [] then ret () else modify (\<lambda>s. s\<lparr>co_peer_hints := (co_peer_hints s)(h \<mapsto> peers)\<rparr>))"

definition hints_of :: "('e, 's) coord \<Rightarrow> info_hash \<Rightarrow> peer list" where
  "hints_of s h = (case co_peer_hints s h of None \<Rightarrow> [] | Some peers \<Rightarrow> peers)"

subsection \<open>Trackers and files\<close>

definition file_trackers :: "'s world \<Rightarrow> ('e, 's) coord \<Rightarrow> string list" where
  "file_trackers w s =
     (case Option.bind (co_trackers_file s) (wo_read_text w) of
        None \<Rightarrow> [] | Some t \<Rightarrow> parse_trackers_file t)"

definition extra_trackers :: "'s world \<Rightarrow> ('e, 's) coord \<Rightarrow> string list" where
  "extra_trackers w s =
     (if retrackers_mode (co_settings s) = 1 \<or> retrackers_mode (co_settings s) = 3
      then default_trackers (co_settings s) else [])
     @ file_trackers w s"

definition engine_add ::
    "('e, 's) engine_ops \<Rightarrow> 's world \<Rightarrow> torrent_source \<Rightarrow> peer list \<Rightarrow> ('e, 's, torrent_metadata) coord_act" where
  "engine_add en w src peers =
     (\<lambda>s. do_engine
            (\<lambda>e c. en_add en e c src
               \<lparr>ao_only_files = None, ao_initial_peers = peers, ao_trackers = extra_trackers w s\<rparr>) s)"

definition sorted_files :: "torrent_metadata \<Rightarrow> torrent_file_view list" where
  "sorted_files md =
     map (\<lambda>(i, f). \<lparr>fv_id = (if i + 1 < U32 then i + 1 else U32 - 1), fv_path = tf_path f, fv_length = tf_length f,
                    fv_engine_index = tf_engine_index f\<rparr>)
       (enumerate 0 (sort_key tf_path (md_files md)))"

definition default_data :: "'s world \<Rightarrow> torrent_metadata \<Rightarrow> string" where
  "default_data w md = wo_files_text w (sorted_files md)"

definition total_size :: "torrent_metadata \<Rightarrow> nat" where
  "total_size md = sum64 (map tf_length (md_files md))"

definition live_entry :: "live_torrent \<Rightarrow> catalog_entry" where
  "live_entry l =
     \<lparr>ce_hash = md_hash (lt_metadata l), ce_title = lt_title l, ce_poster = lt_poster l,
      ce_category = lt_category l, ce_data = lt_data l, ce_added_at = lt_added_at l,
      ce_size = total_size (lt_metadata l)\<rparr>"

definition save_entry ::
    "'s world \<Rightarrow> catalog_entry \<Rightarrow> byte list \<Rightarrow> ('e, 's, unit) coord_act" where
  "save_entry w en metainfo =
     do_db (\<lambda>d. save_torrent (wo_fault w DoSave (Some (ce_hash en))) d en metainfo)"

definition persist :: "'s world \<Rightarrow> live_torrent \<Rightarrow> ('e, 's, unit) coord_act" where
  "persist w l =
     bnd (gets co_read_only) (\<lambda>ro.
       if ro then ret () else save_entry w (live_entry l) (md_metainfo (lt_metadata l)))"

subsection \<open>Views\<close>

definition nonzero :: "nat \<Rightarrow> nat option" where
  "nonzero n = (if n = 0 then None else Some n)"

definition nonempty :: "string \<Rightarrow> string option" where
  "nonempty s = (if s = [] then None else Some s)"

definition coord_status :: "('e, 's) engine_ops \<Rightarrow> ('e, 's) coord \<Rightarrow> info_hash \<Rightarrow> torrent_status" where
  "coord_status en s h =
     (case en_status en (co_engine s) h of Inl e \<Rightarrow> torrent_status_default | Inr st \<Rightarrow> st)"

definition view_live ::
    "('e, 's) engine_ops \<Rightarrow> 's world \<Rightarrow> ('e, 's) coord \<Rightarrow> live_torrent \<Rightarrow> torrent_view" where
  "view_live en w s l =
     (let md = lt_metadata l;
          runtime = coord_status en s (md_hash md);
          view =
            \<lparr>tv_title = lt_title l, tv_category = lt_category l, tv_poster = lt_poster l,
             tv_data = nonempty (lt_data l), tv_timestamp = view_seconds (lt_added_at l),
             tv_name = Some (md_name md), tv_hash = Some (info_hash_to_string (md_hash md)),
             tv_torrs_hash = None, tv_stat = (if ts_ready runtime then 3 else 1),
             tv_stat_string = (if ts_ready runtime then ''Torrent working'' else ''Torrent getting info''),
             tv_loaded_size = nonzero (ts_progress_bytes runtime), tv_torrent_size = Some (total_size md),
             tv_download_speed = nonzero (ts_download_speed runtime),
             tv_upload_speed = nonzero (ts_upload_speed runtime),
             tv_total_peers = nonzero (ts_live_peers runtime), tv_active_peers = nonzero (ts_live_peers runtime),
             tv_connected_seeders = nonzero (ts_live_peers runtime), tv_bytes_written = None,
             tv_bytes_read = None, tv_file_stats = sorted_files md\<rparr>
      in view\<lparr>tv_torrs_hash := torrs_encode (wo_zlib w) view (md_trackers md)\<rparr>)"

definition view_saved :: "catalog_entry \<Rightarrow> torrent_view" where
  "view_saved en =
     \<lparr>tv_title = ce_title en, tv_category = ce_category en, tv_poster = ce_poster en,
      tv_data = nonempty (ce_data en), tv_timestamp = view_seconds (ce_added_at en), tv_name = None,
      tv_hash = Some (info_hash_to_string (ce_hash en)), tv_torrs_hash = None, tv_stat = 5,
      tv_stat_string = ''Torrent in db'', tv_loaded_size = None, tv_torrent_size = nonzero (ce_size en),
      tv_download_speed = None, tv_upload_speed = None, tv_total_peers = None, tv_active_peers = None,
      tv_connected_seeders = None, tv_bytes_written = None, tv_bytes_read = None, tv_file_stats = []\<rparr>"

definition view_order :: "torrent_view \<Rightarrow> torrent_view \<Rightarrow> bool" where
  "view_order l r \<longleftrightarrow>
     tv_timestamp r < tv_timestamp l \<or> tv_timestamp r = tv_timestamp l \<and> tv_title r \<le> tv_title l"

definition list_views :: "('e, 's) engine_ops \<Rightarrow> 's world \<Rightarrow> ('e, 's, torrent_view list) coord_act" where
  "list_views en w =
     bnd (gets (\<lambda>s. s)) (\<lambda>s.
     bnd (ask_list w) (\<lambda>saved.
       ret (sort_by view_order
              (map (\<lambda>(h, l). view_live en w s l) (co_live s)
               @ map view_saved (filter (\<lambda>en. live_of s (ce_hash en) = None) saved)))))"

definition get_view ::
    "('e, 's) engine_ops \<Rightarrow> 's world \<Rightarrow> info_hash \<Rightarrow> ('e, 's, torrent_view option) coord_act" where
  "get_view en w h =
     bnd (gets (\<lambda>s. map_option (view_live en w s) (live_of s h))) (\<lambda>live.
       case live of
         Some v \<Rightarrow> ret (Some v)
       | None \<Rightarrow> bnd (ask_torrent w h) (\<lambda>saved. ret (map_option view_saved saved)))"

definition magnet_order :: "catalog_entry \<Rightarrow> catalog_entry \<Rightarrow> bool" where
  "magnet_order l r =
     (let tl = (st_secs (ce_added_at l), st_nanos (ce_added_at l));
          tr = (st_secs (ce_added_at r), st_nanos (ce_added_at r))
      in tr < tl \<or> tr = tl \<and> info_hash_to_string (ce_hash l) \<le> info_hash_to_string (ce_hash r))"

fun magnet_views ::
    "('e, 's) engine_ops \<Rightarrow> 's world \<Rightarrow> catalog_entry list \<Rightarrow> ('e, 's, magnet_view list) coord_act" where
  "magnet_views en w [] = ret []"
| "magnet_views en w (c # rest) =
     bnd (ask_metainfo w (ce_hash c)) (\<lambda>metainfo.
       case metainfo of
         None \<Rightarrow> magnet_views en w rest
       | Some bytes \<Rightarrow>
           bnd (try_gets (\<lambda>s. map_sum EngineErr id (en_inspect en bytes))) (\<lambda>md.
           bnd (gets (\<lambda>s. \<lparr>mv_hash = ce_hash c, mv_name = md_name md,
                           mv_trackers = announce_list (md_trackers md) (co_settings s) (file_trackers w s)\<rparr>)) (\<lambda>v.
           bnd (magnet_views en w rest) (\<lambda>vs. ret (v # vs)))))"

definition magnets :: "('e, 's) engine_ops \<Rightarrow> 's world \<Rightarrow> ('e, 's, magnet_view list) coord_act" where
  "magnets en w = bnd (ask_list w) (\<lambda>saved. magnet_views en w (sort_by magnet_order saved))"

subsection \<open>Stopping and loading\<close>

definition drop_pin :: "pin option \<Rightarrow> 's cache \<Rightarrow> 's cache" where
  "drop_pin p c = (case p of None \<Rightarrow> c | Some p \<Rightarrow> cache_unpin c p)"

text \<open>\<open>stop_prefetch_locked\<close>: the aborted task is joined, so its pin is gone afterwards.\<close>

definition stop_prefetch :: "info_hash \<Rightarrow> ('e, 's, unit) coord_act" where
  "stop_prefetch h =
     modify (\<lambda>s. case co_prefetches s h of
                   None \<Rightarrow> s
                 | Some t \<Rightarrow> s\<lparr>co_prefetches := (co_prefetches s)(h := None),
                               co_cache := drop_pin (pf_pin t) (co_cache s)\<rparr>)"

definition stop_idle_detach :: "info_hash \<Rightarrow> ('e, 's, unit) coord_act" where
  "stop_idle_detach h = modify (\<lambda>s. s\<lparr>co_idle_detaches := (co_idle_detaches s)(h := None)\<rparr>)"

definition known_or_ok :: "cache_error + 'a \<Rightarrow> cache_error + unit" where
  "known_or_ok r =
     (case r of Inr _ \<Rightarrow> Inr () | Inl (UnknownTorrent t) \<Rightarrow> Inr () | Inl e \<Rightarrow> Inl e)"

definition ensure_unpinned :: "info_hash \<Rightarrow> ('e, 's, unit) coord_act" where
  "ensure_unpinned h =
     try_gets (\<lambda>s. map_sum CacheErr id (known_or_ok (cache_ensure_unpinned (co_cache s) h)))"

text \<open>\<open>cache.remove\<close> where an unknown torrent is no error.\<close>

definition discard_bytes :: "'s world \<Rightarrow> info_hash \<Rightarrow> ('e, 's, unit) coord_act" where
  "discard_bytes w h =
     do_cache (\<lambda>c. case cache_remove (wo_store w) c h of (c', r) \<Rightarrow> (c', known_or_ok r))"

definition load :: "('e, 's) engine_ops \<Rightarrow> 's world \<Rightarrow> info_hash \<Rightarrow> ('e, 's, unit) coord_act" where
  "load en w h =
     bnd (gets (\<lambda>s. is_loaded en s h)) (\<lambda>loaded.
     if loaded then ret ()
     else bnd (ask_metainfo w h) (\<lambda>metainfo.
       case metainfo of
         None \<Rightarrow> raise (EngineErr (NotLoaded h))
       | Some bytes \<Rightarrow>
           bnd (gets (\<lambda>s. hints_of s h)) (\<lambda>peers.
           bnd (engine_add en w (TorrentBytes bytes) peers) (\<lambda>md.
           if md_hash md \<noteq> h then raise (EngineErr (NotLoaded h))
           else bnd (gets (\<lambda>s. live_of s h)) (\<lambda>live.
             seq (if live \<noteq> None then ret ()
                  else bnd (ask_torrent w h) (\<lambda>saved.
                    case saved of
                      None \<Rightarrow> raise (NotFound h)
                    | Some c \<Rightarrow>
                        insert_live h
                          \<lparr>lt_metadata = md, lt_title = ce_title c, lt_poster = ce_poster c,
                           lt_category = ce_category c, lt_data = ce_data c,
                           lt_added_at = ce_added_at c\<rparr>))
               (forget_hints h))))))"

subsection \<open>Adding\<close>

text \<open>What a torrent that is in the engine is known as: a value of the request, of its catalog entry or a default.\<close>

definition or_else :: "string option \<Rightarrow> string \<Rightarrow> string" where
  "or_else o1 d = (case o1 of None \<Rightarrow> d | Some v \<Rightarrow> if v = [] then d else v)"

definition new_live ::
    "'s world \<Rightarrow> add_request \<Rightarrow> torrent_metadata \<Rightarrow> catalog_entry option \<Rightarrow> live_torrent" where
  "new_live w rq md existing =
     \<lparr>lt_metadata = md,
      lt_title = (if rq_title rq = [] then or_else (map_option ce_title existing) (md_name md) else rq_title rq),
      lt_poster = or_else (map_option ce_poster existing) (rq_poster rq),
      lt_category = or_else (map_option ce_category existing) (rq_category rq),
      lt_data = or_else (map_option ce_data existing) (rq_data rq),
      lt_added_at = (case existing of None \<Rightarrow> wo_now w | Some c \<Rightarrow> ce_added_at c)\<rparr>"

definition with_data :: "'s world \<Rightarrow> live_torrent \<Rightarrow> live_torrent" where
  "with_data w l = (if lt_data l = [] then l\<lparr>lt_data := default_data w (lt_metadata l)\<rparr> else l)"

definition added_view :: "torrent_view \<Rightarrow> torrent_view" where
  "added_view v = v\<lparr>tv_stat := 0, tv_stat_string := ''Torrent added''\<rparr>"

text \<open>A saved torrent that is added again needs no peer for its metadata.\<close>

definition saved_source ::
    "'s world \<Rightarrow> torrent_source \<Rightarrow> info_hash option \<Rightarrow> ('e, 's, torrent_source) coord_act" where
  "saved_source w src source_hash =
     (case source_hash of
        None \<Rightarrow> ret src
      | Some h \<Rightarrow>
          (case src of
             TorrentBytes b \<Rightarrow> ret src
           | _ \<Rightarrow> bnd (ask_metainfo w h)
                    (\<lambda>m. ret (case m of None \<Rightarrow> src | Some bytes \<Rightarrow> TorrentBytes bytes))))"

definition add_new ::
    "('e, 's) engine_ops \<Rightarrow> 's world \<Rightarrow> add_request \<Rightarrow> torrent_source \<Rightarrow> info_hash option
       \<Rightarrow> ('e, 's, torrent_view) coord_act" where
  "add_new en w rq src source_hash =
     bnd (saved_source w src source_hash) (\<lambda>src.
     bnd (gets (\<lambda>s. case source_hash of None \<Rightarrow> [] | Some h \<Rightarrow> hints_of s h)) (\<lambda>peers.
     bnd (engine_add en w src peers) (\<lambda>md.
     seq (forget_hints (md_hash md)) (
     bnd (ask_torrent w (md_hash md)) (\<lambda>existing.
     let l = new_live w rq md existing in
     bnd (gets (\<lambda>s. view_live en w s l)) (\<lambda>v.
     let stored = (if rq_save_to_db rq then with_data w l else l) in
     seq (if rq_save_to_db rq then persist w stored else ret ()) (
     seq (insert_live (md_hash md) stored) (
     ret (added_view v)))))))))"

definition add_known ::
    "('e, 's) engine_ops \<Rightarrow> 's world \<Rightarrow> add_request \<Rightarrow> info_hash \<Rightarrow> live_torrent
       \<Rightarrow> ('e, 's, torrent_view) coord_act" where
  "add_known en w rq h l =
     seq (if rq_save_to_db rq
          then bnd (ask_torrent w h) (\<lambda>saved.
                 if saved = None
                 then seq (persist w (with_data w l)) (insert_live h (with_data w l)) else ret ())
          else ret ())
       (gets (\<lambda>s. added_view (view_live en w s l)))"

definition add_source ::
    "('e, 's) engine_ops \<Rightarrow> 's world \<Rightarrow> add_request \<Rightarrow> torrent_source \<Rightarrow> ('e, 's, torrent_view) coord_act" where
  "add_source en w rq src =
     (let source_hash = en_source_hash en src in
      bnd (gets (\<lambda>s. Option.bind source_hash (\<lambda>h. map_option (Pair h) (live_of s h)))) (\<lambda>known.
      case known of
        Some (h, l) \<Rightarrow> add_known en w rq h l
      | None \<Rightarrow> add_new en w rq src source_hash))"

definition token_request :: "add_request \<Rightarrow> torrs_decoded \<Rightarrow> add_request" where
  "token_request rq d =
     rq\<lparr>rq_title := (if rq_title rq = [] then td_title d else rq_title rq),
        rq_poster := (if rq_poster rq = [] then td_poster d else rq_poster rq),
        rq_category := (if rq_category rq = [] then td_category d else rq_category rq)\<rparr>"

definition token_magnet :: "torrs_decoded \<Rightarrow> string" where
  "token_magnet d =
     ''magnet:?xt=urn:btih:'' @ info_hash_to_string (td_hash d)
     @ concat (map (\<lambda>t. ''&tr='' @ replace_str ''/'' ''%2F'' (replace_str '':'' ''%3A'' t)) (td_trackers d))"

definition add_torrent ::
    "('e, 's) engine_ops \<Rightarrow> 's world \<Rightarrow> add_request \<Rightarrow> ('e, 's, torrent_view) coord_act" where
  "add_torrent en w rq0 =
     (let link = replace_str ''&amp;'' ''&'' (rq_link rq0);
          rq = rq0\<lparr>rq_link := link\<rparr>
      in case strip_prefix link ''file://'' of
           Some path \<Rightarrow>
             (case wo_read_file w path of
                Inl e \<Rightarrow> raise (LocalSource e)
              | Inr bytes \<Rightarrow> add_source en w rq (TorrentBytes bytes))
         | None \<Rightarrow>
             if starts_with link ''magnet:'' then add_source en w rq (Magnet link)
             else (case torrs_decode (wo_zlib w) link of
                     Some d \<Rightarrow> add_source en w (token_request rq d) (Magnet (token_magnet d))
                   | None \<Rightarrow>
                       (case info_hash_from_str link of
                          Inr h \<Rightarrow> add_source en w rq (Magnet (''magnet:?xt=urn:btih:'' @ link))
                        | Inl e \<Rightarrow> add_source en w rq (Url link))))"

definition add_metainfo ::
    "('e, 's) engine_ops \<Rightarrow> 's world \<Rightarrow> byte list \<Rightarrow> add_request \<Rightarrow> ('e, 's, torrent_view) coord_act" where
  "add_metainfo en w bytes rq = add_source en w rq (TorrentBytes bytes)"

definition add_link ::
    "('e, 's) engine_ops \<Rightarrow> 's world \<Rightarrow> string \<Rightarrow> ('e, 's, catalog_entry) coord_act" where
  "add_link en w link =
     bnd (add_torrent en w (add_request_default\<lparr>rq_link := link, rq_save_to_db := True\<rparr>)) (\<lambda>v.
     case view_hash v of
       None \<Rightarrow> raise (LocalSource ''missing hash'')
     | Some h \<Rightarrow>
         bnd (ask_torrent w h) (\<lambda>saved. case saved of None \<Rightarrow> raise (NotFound h) | Some c \<Rightarrow> ret c))"

definition link_info_hash :: "zlib \<Rightarrow> string \<Rightarrow> info_hash option" where
  "link_info_hash z link =
     (let link = replace_str ''&amp;'' ''&'' link in
      case info_hash_from_str link of
        Inr h \<Rightarrow> Some h
      | Inl e \<Rightarrow>
          (case torrs_decode z link of
             Some d \<Rightarrow> Some (td_hash d)
           | None \<Rightarrow>
               if \<not> starts_with link ''magnet:'' then None
               else List.find (\<lambda>_. True)
                 (List.map_filter
                    (\<lambda>part. Option.bind
                       (case strip_prefix part ''magnet:?xt=urn:btih:'' of
                          Some t \<Rightarrow> Some t | None \<Rightarrow> strip_prefix part ''xt=urn:btih:'')
                       (\<lambda>t. case info_hash_from_str t of Inl e \<Rightarrow> None | Inr h \<Rightarrow> Some h))
                    (split_on CHR ''&'' link))))"

subsection \<open>Playback\<close>

definition engine_file :: "info_hash \<Rightarrow> nat \<Rightarrow> ('e, 's, file_index) coord_act" where
  "engine_file h i =
     try_gets (\<lambda>s.
       case live_of s h of
         None \<Rightarrow> Inl (NotFound h)
       | Some l \<Rightarrow>
           (case List.find (\<lambda>f. fv_id f = i) (sorted_files (lt_metadata l)) of
              None \<Rightarrow> Inl (UnknownFileIndex h i)
            | Some f \<Rightarrow> Inr (from_zero_based (fv_engine_index f))))"

text \<open>The task is registered before it runs, and its pin comes with its first step.\<close>

definition start_prefetch :: "info_hash \<Rightarrow> file_index \<Rightarrow> nat \<Rightarrow> ('e, 's, unit) coord_act" where
  "start_prefetch h f off =
     seq (stop_prefetch h)
       (modify (\<lambda>s. s\<lparr>co_next_prefetch_id := add64 (co_next_prefetch_id s) 1,
                     co_prefetches := (co_prefetches s)
                       (h \<mapsto> \<lparr>pf_id = co_next_prefetch_id s, pf_file = f, pf_offset = off, pf_pin = None\<rparr>)\<rparr>))"

definition schedule_prefetch :: "info_hash \<Rightarrow> nat \<Rightarrow> nat \<Rightarrow> ('e, 's, unit) coord_act" where
  "schedule_prefetch h i off =
     bnd (attempt (engine_file h i)) (\<lambda>r.
       case r of Inl e \<Rightarrow> ret () | Inr f \<Rightarrow> start_prefetch h f off)"

definition prefetch_budget :: "settings \<Rightarrow> nat option" where
  "prefetch_budget st =
     (if preload_cache st < 0 then None
      else Some (sat_mul64 (cache_cap st) (nat (preload_cache st)) div 100))"

text \<open>
  The first step of a running look-ahead task: what it will read, if anything. The task that runs
  is the one in the map, as every other was aborted.
\<close>

definition prefetch_prepare ::
    "('e, 's) engine_ops \<Rightarrow> info_hash \<Rightarrow> prefetch_task \<Rightarrow> ('e, 's, nat option) coord_act" where
  "prefetch_prepare en h t =
     (\<lambda>s. case prefetch_budget (co_settings s) of
            None \<Rightarrow> (s, Inr None)
          | Some budget \<Rightarrow>
              if budget = 0 then (s, Inr None)
              else (case en_reader en (co_engine s) h (pf_file t) (pf_offset t) of
                      Inl e \<Rightarrow> (s, Inr None)
                    | Inr len \<Rightarrow>
                        if pf_offset t \<ge> len then (s, Inr None)
                        else (case cache_pin (co_cache s) h of
                                (c, Inl e) \<Rightarrow> (s\<lparr>co_cache := c\<rparr>, Inr None)
                              | (c, Inr p) \<Rightarrow>
                                  (s\<lparr>co_cache := c, co_prefetches := (co_prefetches s)(h \<mapsto> t\<lparr>pf_pin := Some p\<rparr>)\<rparr>,
                                   Inr (Some (min (len - pf_offset t) budget))))))"

text \<open>Its last one, before it applies the cap.\<close>

definition prefetch_finish :: "info_hash \<Rightarrow> prefetch_task \<Rightarrow> ('e, 's, unit) coord_act" where
  "prefetch_finish h t =
     modify (\<lambda>s. s\<lparr>co_cache := drop_pin (pf_pin t) (co_cache s),
                   co_prefetches :=
                     (if map_option pf_id (co_prefetches s h) = Some (pf_id t)
                      then (co_prefetches s)(h := None) else co_prefetches s)\<rparr>)"

definition play_with_prefetch ::
    "('e, 's) engine_ops \<Rightarrow> 's world \<Rightarrow> info_hash \<Rightarrow> nat \<Rightarrow> nat \<Rightarrow> nat option \<Rightarrow> nat option
       \<Rightarrow> ('e, 's, playback_reader) coord_act" where
  "play_with_prefetch en w h i off en_opt prefetch_offset =
     seq (stop_idle_detach h) (
     seq (load en w h) (
     bnd (engine_file h i) (\<lambda>f.
     bnd (try_gets (\<lambda>s. case en_reader en (co_engine s) h f off of
                          Inl (NotLoaded _) \<Rightarrow> Inl (UnknownFileIndex h i)
                        | Inl e \<Rightarrow> Inl (EngineErr e)
                        | Inr len \<Rightarrow> Inr len)) (\<lambda>len.
     let range_end = min (case en_opt of None \<Rightarrow> sat_sub len 1 | Some e \<Rightarrow> e) (sat_sub len 1) in
     bnd (do_cache (\<lambda>c. cache_pin_range c h \<lparr>rr_file = f, rr_start = off, rr_end = range_end\<rparr>)) (\<lambda>p.
     seq (case prefetch_offset of None \<Rightarrow> ret () | Some o1 \<Rightarrow> start_prefetch h f o1) (
     ret \<lparr>pr_length = len, pr_pin = p, pr_hash = h, pr_file = f, pr_offset = off\<rparr>))))))"

definition play ::
    "('e, 's) engine_ops \<Rightarrow> 's world \<Rightarrow> info_hash \<Rightarrow> nat \<Rightarrow> nat \<Rightarrow> ('e, 's, playback_reader) coord_act" where
  "play en w h i off = play_with_prefetch en w h i off None None"

text \<open>\<open>poll_read\<close> after the engine's reader gave \<open>n\<close> bytes.\<close>

definition reader_poll :: "playback_reader \<Rightarrow> nat \<Rightarrow> ('e, 's, playback_reader) coord_act" where
  "reader_poll r n =
     (if n = 0 then ret r
      else bnd (do_cache (\<lambda>c. cache_record_demand c (pr_hash r) (pr_file r) (pr_offset r) n))
             (\<lambda>_. ret (r\<lparr>pr_offset := sat_add64 (pr_offset r) n\<rparr>)))"

text \<open>\<open>Drop\<close> of a reader; what it spawns, \<open>evict_to_cap\<close> and \<open>schedule_idle_detach\<close>, comes later.\<close>

definition reader_drop :: "playback_reader \<Rightarrow> ('e, 's, unit) coord_act" where
  "reader_drop r = modify (\<lambda>s. s\<lparr>co_cache := cache_unpin (co_cache s) (pr_pin r)\<rparr>)"

subsection \<open>Dropping, removing, evicting\<close>

definition drop_live :: "('e, 's) engine_ops \<Rightarrow> 's world \<Rightarrow> info_hash \<Rightarrow> ('e, 's, bool) coord_act" where
  "drop_live en w h =
     seq (stop_idle_detach h) (
     bnd (ask_torrent w h) (\<lambda>row.
     let saved = (row \<noteq> None) in
     seq (stop_prefetch h) (
     seq (ensure_unpinned h) (
     bnd (gets (\<lambda>s. is_loaded en s h)) (\<lambda>loaded.
     seq (if loaded then bnd (do_engine (\<lambda>e c. en_delete en e c h)) (keep_hints h) else ret ()) (
     bnd (gets (\<lambda>s. remove_cache_on_drop (co_settings s) \<or> \<not> saved)) (\<lambda>remove_cache.
     seq (if remove_cache then discard_bytes w h else ret ()) (
     seq (remove_live h) (
     ret saved)))))))))"

definition engine_release :: "('e, 's) engine_ops \<Rightarrow> info_hash \<Rightarrow> ('e, 's, unit) coord_act" where
  "engine_release en h =
     bnd (attempt (do_engine (\<lambda>e c. en_delete en e c h))) (\<lambda>r.
       case r of
         Inr _ \<Rightarrow> ret ()
       | Inl (EngineErr (NotLoaded _)) \<Rightarrow> ret ()
       | Inl e \<Rightarrow> raise e)"

definition remove_torrent :: "('e, 's) engine_ops \<Rightarrow> 's world \<Rightarrow> info_hash \<Rightarrow> ('e, 's, bool) coord_act" where
  "remove_torrent en w h =
     bnd (gets co_read_only) (\<lambda>ro.
     if ro then ret False
     else
       seq (stop_idle_detach h) (
       bnd (gets (\<lambda>s. is_loaded en s h)) (\<lambda>loaded.
       seq (if loaded then ret ()
            else bnd (ask_torrent w h) (\<lambda>row. if row \<noteq> None then load en w h else ret ())) (
       seq (stop_prefetch h) (
       seq (ensure_unpinned h) (
       seq (engine_release en h) (
       seq (discard_bytes w h) (
       bnd (do_db (\<lambda>d. db_remove_torrent (wo_fault w DoRemove (Some h)) d h)) (\<lambda>removed.
       seq (remove_live h) (
       seq (forget_hints h) (
       ret removed)))))))))))"

definition drop_torrent :: "('e, 's) engine_ops \<Rightarrow> 's world \<Rightarrow> info_hash \<Rightarrow> ('e, 's, bool) coord_act" where
  "drop_torrent en w h = remove_torrent en w h"

text \<open>\<open>sort_by_key(ToString::to_string)\<close> and \<open>dedup\<close>.\<close>

definition in_text_order :: "info_hash list \<Rightarrow> info_hash list" where
  "in_text_order hs = remdups_adj (sort_key info_hash_to_string hs)"

definition wipe :: "('e, 's) engine_ops \<Rightarrow> 's world \<Rightarrow> ('e, 's, unit) coord_act" where
  "wipe en w =
     bnd (gets (\<lambda>s. map fst (co_live s))) (\<lambda>live.
     bnd (ask_list w) (\<lambda>saved.
     for_each (in_text_order (live @ map ce_hash saved))
       (\<lambda>h. bnd (remove_torrent en w h) (\<lambda>_. ret ()))))"

definition updated_live :: "update_request \<Rightarrow> live_torrent \<Rightarrow> live_torrent" where
  "updated_live up l =
     l\<lparr>lt_title := (if up_title up = [] then md_name (lt_metadata l) else up_title up),
       lt_poster := up_poster up, lt_category := up_category up,
       lt_data := (if up_data up = [] then lt_data l else up_data up)\<rparr>"

definition update_torrent ::
    "('e, 's) engine_ops \<Rightarrow> 's world \<Rightarrow> update_request \<Rightarrow> ('e, 's, unit) coord_act" where
  "update_torrent en w up =
     bnd (gets (\<lambda>s. live_of s (up_hash up))) (\<lambda>live.
     case live of
       Some l \<Rightarrow>
         seq (insert_live (up_hash up) (updated_live up l)) (
         bnd (ask_torrent w (up_hash up)) (\<lambda>row.
         if row \<noteq> None then persist w (updated_live up l) else ret ()))
     | None \<Rightarrow>
         bnd (ask_torrent w (up_hash up)) (\<lambda>row.
         case row of
           None \<Rightarrow> ret ()
         | Some c \<Rightarrow>
             bnd (ask_metainfo w (up_hash up)) (\<lambda>metainfo.
             case metainfo of
               None \<Rightarrow> raise (NotFound (up_hash up))
             | Some bytes \<Rightarrow>
                 bnd (if up_title up = []
                      then try_gets (\<lambda>s. map_sum EngineErr md_name (en_inspect en bytes)) else ret (up_title up))
                   (\<lambda>title.
                 let c = c\<lparr>ce_title := title, ce_poster := up_poster up, ce_category := up_category up,
                           ce_data := (if up_data up = [] then ce_data c else up_data up)\<rparr> in
                 bnd (gets co_read_only) (\<lambda>ro. if ro then ret () else save_entry w c bytes)))))"

definition evict_locked :: "('e, 's) engine_ops \<Rightarrow> 's world \<Rightarrow> info_hash \<Rightarrow> ('e, 's, nat) coord_act" where
  "evict_locked en w h =
     seq (stop_idle_detach h) (
     seq (stop_prefetch h) (
     seq (ensure_unpinned h) (
     bnd (do_engine (\<lambda>e c. en_delete en e c h)) (\<lambda>peers.
     seq (keep_hints h peers) (
     bnd (do_cache (\<lambda>c. cache_remove (wo_store w) c h)) (\<lambda>freed.
     seq (remove_live h) (
     ret freed)))))))"

definition evict :: "('e, 's) engine_ops \<Rightarrow> 's world \<Rightarrow> info_hash \<Rightarrow> ('e, 's, nat) coord_act" where
  "evict en w h = evict_locked en w h"

definition evict_to_cap :: "('e, 's) engine_ops \<Rightarrow> 's world \<Rightarrow> ('e, 's, unit) coord_act" where
  "evict_to_cap en w =
     bnd (gets (\<lambda>s. cache_eviction_candidates (co_cache s))) (\<lambda>candidates.
       for_each candidates (\<lambda>h. bnd (attempt (evict_locked en w h)) (\<lambda>_. ret ())))"

definition schedule_idle_detach :: "('e, 's) engine_ops \<Rightarrow> info_hash \<Rightarrow> ('e, 's, unit) coord_act" where
  "schedule_idle_detach en h =
     bnd (attempt (ensure_unpinned h)) (\<lambda>r.
     bnd (gets (\<lambda>s. is_loaded en s h)) (\<lambda>loaded.
     if (case r of Inl e \<Rightarrow> True | Inr u \<Rightarrow> False) \<or> \<not> loaded then ret ()
     else modify (\<lambda>s. s\<lparr>co_next_idle_id := add64 (co_next_idle_id s) 1,
                        co_idle_detaches := (co_idle_detaches s)(h \<mapsto> co_next_idle_id s)\<rparr>)))"

text \<open>What a timer does when it ends.\<close>

definition idle_detach_due :: "('e, 's) engine_ops \<Rightarrow> 's world \<Rightarrow> info_hash \<Rightarrow> nat \<Rightarrow> ('e, 's, unit) coord_act" where
  "idle_detach_due en w h i =
     bnd (gets (\<lambda>s. co_idle_detaches s h)) (\<lambda>task.
     if task \<noteq> Some i then ret ()
     else seq (modify (\<lambda>s. s\<lparr>co_idle_detaches := (co_idle_detaches s)(h := None)\<rparr>))
            (bnd (attempt (drop_live en w h)) (\<lambda>_. ret ())))"

subsection \<open>Settings and start\<close>

definition put_settings :: "settings \<Rightarrow> ('e, 's, unit) coord_act" where
  "put_settings st = modify (\<lambda>s. s\<lparr>co_settings := st\<rparr>)"

definition store_settings :: "'s world \<Rightarrow> settings \<Rightarrow> ('e, 's, unit) coord_act" where
  "store_settings w st =
     do_db (\<lambda>d. db_set_settings (wo_json w) (wo_fault w DoSettings None) d (wo_settings_text w st))"

definition drop_all_live :: "('e, 's) engine_ops \<Rightarrow> 's world \<Rightarrow> ('e, 's, unit) coord_act" where
  "drop_all_live en w =
     bnd (gets (\<lambda>s. map fst (co_live s))) (\<lambda>live.
     bnd (ask_list w) (\<lambda>saved.
     bnd (gets (\<lambda>s. filter (is_loaded en s) (map ce_hash saved))) (\<lambda>loaded.
     for_each (in_text_order (live @ loaded)) (\<lambda>h.
       bnd (attempt (drop_live en w h)) (\<lambda>r.
         case r of
           Inr _ \<Rightarrow> ret ()
         | Inl (CacheErr (Pinned _)) \<Rightarrow> ret ()
         | Inl e \<Rightarrow> raise e)))))"

definition set_settings :: "('e, 's) engine_ops \<Rightarrow> 's world \<Rightarrow> settings \<Rightarrow> ('e, 's, unit) coord_act" where
  "set_settings en w st =
     bnd (gets co_read_only) (\<lambda>ro.
     if ro then ret ()
     else
       let st = normalized st in
       seq (store_settings w st) (
       seq (modify (\<lambda>s. s\<lparr>co_cache := cache_set_cap_bytes (co_cache s) (cache_cap st)\<rparr>)) (
       seq (put_settings st) (
       seq (drop_all_live en w) (
       evict_to_cap en w)))))"

definition reset_settings :: "('e, 's) engine_ops \<Rightarrow> 's world \<Rightarrow> ('e, 's, unit) coord_act" where
  "reset_settings en w = set_settings en w settings_default"

definition set_storage_preferences ::
    "'s world \<Rightarrow> bool option \<Rightarrow> bool option \<Rightarrow> ('e, 's, unit) coord_act" where
  "set_storage_preferences w settings_in_json viewed_in_json =
     bnd (gets co_read_only) (\<lambda>ro.
     if ro then ret ()
     else bnd (gets co_settings) (\<lambda>st.
       let st = (case settings_in_json of None \<Rightarrow> st | Some b \<Rightarrow> st\<lparr>store_settings_in_json := b\<rparr>);
           st = (case viewed_in_json of None \<Rightarrow> st | Some b \<Rightarrow> st\<lparr>store_viewed_in_json := b\<rparr>)
       in seq (store_settings w st) (put_settings st)))"

text \<open>The settings a coordinator starts with, and the state they are stored in when there were none.\<close>

definition start_settings :: "'s world \<Rightarrow> nat \<Rightarrow> state_db \<Rightarrow> state_db \<times> settings" where
  "start_settings w cap d =
     (case db_settings_get (wo_fault w AskSettings None) d of
        Inr (Some doc) \<Rightarrow>
          (case wo_parse_settings w doc of
             Some st \<Rightarrow> (d, normalized st)
           | None \<Rightarrow>
               let st = settings_default\<lparr>cache_size := min (int cap) I64_MAX\<rparr>
               in (fst (db_set_settings (wo_json w) (wo_fault w DoSettings None) d (wo_settings_text w st)),
                   normalized st))
      | _ \<Rightarrow>
          let st = settings_default\<lparr>cache_size := min (int cap) I64_MAX\<rparr>
          in (fst (db_set_settings (wo_json w) (wo_fault w DoSettings None) d (wo_settings_text w st)),
              normalized st))"

definition coord_new :: "'s world \<Rightarrow> 'e \<Rightarrow> 's cache \<Rightarrow> state_db \<Rightarrow> ('e, 's) coord" where
  "coord_new w e c d =
     (case start_settings w (cs_cap_bytes (stats_of c)) d of
        (d, st) \<Rightarrow>
          let c = cache_set_cap_bytes c (cache_cap st);
              c = (case list_torrents (wo_fault w AskList None) d of
                     Inl err \<Rightarrow> c
                   | Inr saved \<Rightarrow> fst (cache_discard_unowned (wo_store w) c (set (map ce_hash saved))))
          in \<lparr>co_engine = e, co_cache = c, co_db = d, co_prefetches = Map.empty,
              co_idle_detaches = Map.empty, co_peer_hints = Map.empty, co_live = [], co_settings = st,
              co_next_prefetch_id = 1, co_next_idle_id = 1, co_trackers_file = None, co_read_only = False\<rparr>)"

definition with_read_only :: "bool \<Rightarrow> ('e, 's) coord \<Rightarrow> ('e, 's) coord" where
  "with_read_only b s = s\<lparr>co_read_only := b\<rparr>"

definition with_trackers_file :: "string \<Rightarrow> ('e, 's) coord \<Rightarrow> ('e, 's) coord" where
  "with_trackers_file path s = s\<lparr>co_trackers_file := Some path\<rparr>"

end
