(* ===== verification/Client.thy ===== *)
theory Client
  imports Coordinator
begin

text \<open>
  \<open>rustorr-lifecycle/src/client.rs\<close>: the commands the HTTP layer sends, and what the coordinator
  does with each of them.
\<close>

datatype torrent_command =
    AddCmd add_request
  | AddMetainfoCmd "byte list" add_request
  | GetCmd info_hash
  | SetCmd update_request
  | RemoveCmd info_hash
  | ListCmd
  | DropCmd info_hash
  | WipeCmd
  | MagnetsCmd

datatype torrent_reply =
    TorrentReply "torrent_view option"
  | ListReply "torrent_view list"
  | MagnetsReply "magnet_view list"
  | EmptyReply

record playback_request =
  pq_hash :: info_hash
  pq_index :: nat
  pq_offset :: nat
  pq_end :: "nat option"
  pq_prefetch_offset :: "nat option"

record playback =
  pl_reader :: playback_reader
  pl_hash :: info_hash
  pl_index :: nat
  pl_path :: string
  pl_length :: nat
  pl_timestamp :: int

datatype settings_command =
    GetSettings
  | SetSettings settings
  | DefaultSettings
  | SetStorage "bool option" "bool option"

datatype viewed_command =
    SetViewed info_hash nat f64
  | RemoveViewed info_hash "nat option"
  | ListViewed "info_hash option"

record viewed_file =
  vf_hash :: info_hash
  vf_index :: nat
  vf_timecode :: f64

datatype cache_command = GetCache info_hash | ListCache

record cache_view =
  cv_snapshots :: "torrent_snapshot list"
  cv_capacity :: nat
  cv_filled :: nat

datatype waf_command = GetWaf | SetWaf waf_lists

definition done_with :: "'b \<Rightarrow> ('e, 's, 'a) coord_act \<Rightarrow> ('e, 's, 'b) coord_act" where
  "done_with y m = bnd m (\<lambda>_. ret y)"

definition mapped :: "('a \<Rightarrow> 'b) \<Rightarrow> ('e, 's, 'a) coord_act \<Rightarrow> ('e, 's, 'b) coord_act" where
  "mapped f m = bnd m (\<lambda>x. ret (f x))"

fun torrents_command ::
    "('e, 's) engine_ops \<Rightarrow> 's world \<Rightarrow> torrent_command \<Rightarrow> ('e, 's, torrent_reply) coord_act" where
  "torrents_command en w (AddCmd rq) = mapped (\<lambda>v. TorrentReply (Some v)) (add_torrent en w rq)"
| "torrents_command en w (AddMetainfoCmd b rq) = mapped (\<lambda>v. TorrentReply (Some v)) (add_metainfo en w b rq)"
| "torrents_command en w (GetCmd h) = mapped TorrentReply (get_view en w h)"
| "torrents_command en w (SetCmd up) = done_with EmptyReply (update_torrent en w up)"
| "torrents_command en w (RemoveCmd h) = done_with EmptyReply (remove_torrent en w h)"
| "torrents_command en w ListCmd = mapped ListReply (list_views en w)"
| "torrents_command en w (DropCmd h) = done_with EmptyReply (drop_live en w h)"
| "torrents_command en w WipeCmd = done_with EmptyReply (wipe en w)"
| "torrents_command en w MagnetsCmd = mapped MagnetsReply (magnets en w)"

definition playback_command ::
    "('e, 's) engine_ops \<Rightarrow> 's world \<Rightarrow> playback_request \<Rightarrow> ('e, 's, playback) coord_act" where
  "playback_command en w pq =
     bnd (get_view en w (pq_hash pq)) (\<lambda>found.
     case found of
       None \<Rightarrow> raise (NotFound (pq_hash pq))
     | Some v \<Rightarrow>
         (case List.find (\<lambda>f. fv_id f = pq_index pq) (tv_file_stats v) of
            None \<Rightarrow> raise (UnknownFileIndex (pq_hash pq) (pq_index pq))
          | Some f \<Rightarrow>
              bnd (play_with_prefetch en w (pq_hash pq) (pq_index pq) (pq_offset pq) (pq_end pq)
                     (pq_prefetch_offset pq)) (\<lambda>r.
              ret \<lparr>pl_reader = r, pl_hash = pq_hash pq, pl_index = pq_index pq, pl_path = fv_path f,
                   pl_length = pr_length r, pl_timestamp = tv_timestamp v\<rparr>)))"

fun settings_command_act ::
    "('e, 's) engine_ops \<Rightarrow> 's world \<Rightarrow> settings_command \<Rightarrow> ('e, 's, settings) coord_act" where
  "settings_command_act en w GetSettings = gets co_settings"
| "settings_command_act en w (SetSettings st) = seq (set_settings en w st) (gets co_settings)"
| "settings_command_act en w DefaultSettings = seq (reset_settings en w) (gets co_settings)"
| "settings_command_act en w (SetStorage a b) = seq (set_storage_preferences w a b) (gets co_settings)"

text \<open>One-based file numbers of the clients; the number 0 is refused.\<close>

definition zero_based_index :: "nat \<Rightarrow> coord_error + file_index" where
  "zero_based_index i =
     (case checked_sub i 1 of None \<Rightarrow> Inl (InvalidIndex i) | Some k \<Rightarrow> Inr (from_zero_based k))"

fun viewed_command_act :: "'s world \<Rightarrow> viewed_command \<Rightarrow> ('e, 's, viewed_file list) coord_act" where
  "viewed_command_act w (SetViewed h i t) =
     bnd (try_gets (\<lambda>s. zero_based_index i)) (\<lambda>f.
     bnd (gets co_read_only) (\<lambda>ro.
     if ro then ret []
     else
       bnd (gets (\<lambda>s. if track_timecode (co_settings s) then t else Finite 0)) (\<lambda>t.
       done_with [] (do_db (\<lambda>d. set_viewed (wo_fault w DoViewed (Some h)) d
         \<lparr>ve_torrent = h, ve_file = f, ve_timecode = t\<rparr>)))))"
| "viewed_command_act w (RemoveViewed h i) =
     bnd (gets co_read_only) (\<lambda>ro.
     if ro then ret []
     else
       bnd (try_gets (\<lambda>s. case i of None \<Rightarrow> Inr None | Some k \<Rightarrow> map_sum id Some (zero_based_index k))) (\<lambda>f.
       done_with [] (do_db (\<lambda>d. remove_viewed (wo_fault w DoUnview (Some h)) d h f))))"
| "viewed_command_act w (ListViewed h) =
     bnd (ask_db (list_viewed (wo_fault w AskViewed None))) (\<lambda>vs.
     ret (map (\<lambda>v. \<lparr>vf_hash = ve_torrent v, vf_index = (zero_based (ve_file v) + 1) mod U32,
                    vf_timecode = ve_timecode v\<rparr>)
            (filter (\<lambda>v. case h of None \<Rightarrow> True | Some t \<Rightarrow> ve_torrent v = t) vs)))"

definition cache_command_act :: "cache_command \<Rightarrow> ('e, 's, cache_view) coord_act" where
  "cache_command_act cmd =
     try_gets (\<lambda>s.
       let st = stats_of (co_cache s) in
       case (case cmd of
               GetCache h \<Rightarrow> map_sum CacheErr (\<lambda>sn. [sn]) (cache_snapshot (co_cache s) h)
             | ListCache \<Rightarrow> Inr (cache_snapshots (co_cache s))) of
         Inl e \<Rightarrow> Inl e
       | Inr sns \<Rightarrow> Inr \<lparr>cv_snapshots = sns, cv_capacity = cs_cap_bytes st, cv_filled = cs_stored_bytes st\<rparr>)"

fun waf_command_act :: "'s world \<Rightarrow> waf_command \<Rightarrow> ('e, 's, waf_lists) coord_act" where
  "waf_command_act w GetWaf = ask_db (db_waf_lists (wo_fault w AskWaf None))"
| "waf_command_act w (SetWaf wl) =
     bnd (gets co_read_only) (\<lambda>ro.
     if ro then ask_db (db_waf_lists (wo_fault w AskWaf None))
     else done_with wl (do_db (\<lambda>d. db_set_waf_lists (wo_fault w DoWaf None) d wl)))"

end
