(* ===== verification/CoordInv.thy ===== *)
theory CoordInv
  imports Client
begin

text \<open>
  The invariant of the coordinator. Pins are held by two kinds of owners: open readers, which
  live outside the coordinator, and the look-ahead task of a torrent. Given how many readers there
  are on each torrent (\<open>ext\<close>), \<open>coord_ok\<close> says that the cache counts exactly these pins, that a
  torrent with a reader is in the cache and in the engine, and that the live table is keyed by the
  torrents in it. Every handler keeps it, for every engine that honours the contract.
\<close>

subsection \<open>The invariant\<close>

definition lookahead :: "prefetch_task option \<Rightarrow> nat" where
  "lookahead t = (case t of None \<Rightarrow> 0 | Some t \<Rightarrow> (case pf_pin t of None \<Rightarrow> 0 | Some p \<Rightarrow> 1))"

definition held_pins :: "(info_hash \<Rightarrow> nat) \<Rightarrow> ('e, 's) coord \<Rightarrow> info_hash \<Rightarrow> nat" where
  "held_pins ext s h = ext h + lookahead (co_prefetches s h)"

definition pins_ok :: "(info_hash \<Rightarrow> nat) \<Rightarrow> ('e, 's) coord \<Rightarrow> bool" where
  "pins_ok ext s \<longleftrightarrow>
     (\<forall>h. (entries (co_cache s) h = None \<longrightarrow> held_pins ext s h = 0)
          \<and> (\<forall>e. entries (co_cache s) h = Some e \<longrightarrow> e_pins e = held_pins ext s h))"

definition tasks_ok :: "('e, 's) coord \<Rightarrow> bool" where
  "tasks_ok s \<longleftrightarrow>
     (\<forall>h t p. co_prefetches s h = Some t \<longrightarrow> pf_pin t = Some p \<longrightarrow> pin_torrent p = h)"

definition live_ok :: "('e, 's) coord \<Rightarrow> bool" where
  "live_ok s \<longleftrightarrow>
     distinct (map fst (co_live s)) \<and> (\<forall>h l. live_of s h = Some l \<longrightarrow> md_hash (lt_metadata l) = h)"

text \<open>Every reader is an object of the process, so there are fewer of them than addresses.\<close>

definition few :: "(info_hash \<Rightarrow> nat) \<Rightarrow> bool" where
  "few ext \<longleftrightarrow> (\<forall>h. ext h + 2 < U64)"

definition coord_ok :: "('e, 's) engine_ops \<Rightarrow> (info_hash \<Rightarrow> nat) \<Rightarrow> ('e, 's) coord \<Rightarrow> bool" where
  "coord_ok en ext s \<longleftrightarrow>
     few ext \<and> pins_ok ext s \<and> tasks_ok s \<and> live_ok s \<and> (\<forall>h. 0 < ext h \<longrightarrow> is_loaded en s h)"

lemma coord_okI:
  assumes "few ext" "pins_ok ext s" "tasks_ok s" "live_ok s" "\<And>h. 0 < ext h \<Longrightarrow> is_loaded en s h"
  shows "coord_ok en ext s"
  using assms by (simp add: coord_ok_def)

lemma coord_okD:
  assumes "coord_ok en ext s"
  shows "few ext" "pins_ok ext s" "tasks_ok s" "live_ok s" "0 < ext h \<Longrightarrow> is_loaded en s h"
  using assms by (simp_all add: coord_ok_def)

lemma pins_okD:
  assumes "pins_ok ext s"
  shows "entries (co_cache s) h = Some e \<Longrightarrow> e_pins e = held_pins ext s h"
    "entries (co_cache s) h = None \<Longrightarrow> held_pins ext s h = 0"
  using assms unfolding pins_ok_def by blast+

lemma pins_okI:
  assumes "\<And>h e. entries (co_cache s) h = Some e \<Longrightarrow> e_pins e = held_pins ext s h"
    "\<And>h. entries (co_cache s) h = None \<Longrightarrow> held_pins ext s h = 0"
  shows "pins_ok ext s"
  using assms unfolding pins_ok_def by blast

lemma coord_ok_frame:
  assumes "coord_ok en ext s" "co_engine s' = co_engine s" "co_cache s' = co_cache s"
    "co_prefetches s' = co_prefetches s" "co_live s' = co_live s"
  shows "coord_ok en ext s'"
  using assms by (simp add: coord_ok_def pins_ok_def tasks_ok_def live_ok_def held_pins_def)

text \<open>A cache that has the same torrents with the same pins, and perhaps new ones without.\<close>

lemma pins_ok_same:
  assumes "pins_ok ext s" "co_prefetches s' = co_prefetches s"
    and old: "\<And>h e. entries (co_cache s) h = Some e \<Longrightarrow> \<exists>e'. entries (co_cache s') h = Some e' \<and> e_pins e' = e_pins e"
    and new: "\<And>h e'. entries (co_cache s) h = None \<Longrightarrow> entries (co_cache s') h = Some e' \<Longrightarrow> e_pins e' = 0"
  shows "pins_ok ext s'"
proof (rule pins_okI)
  have held: "held_pins ext s' h = held_pins ext s h" for h using assms(2) by (simp add: held_pins_def)
  fix h e
  show "e_pins e = held_pins ext s' h" if e: "entries (co_cache s') h = Some e"
  proof (cases "entries (co_cache s) h")
    case None
    then show ?thesis using new [OF None e] pins_okD(2) [OF assms(1) None] held by simp
  next
    case (Some e0)
    then show ?thesis using old [OF Some] e pins_okD(1) [OF assms(1) Some] held by auto
  qed
  show "held_pins ext s' h = 0" if n: "entries (co_cache s') h = None"
  proof (cases "entries (co_cache s) h")
    case None
    then show ?thesis using pins_okD(2) [OF assms(1) None] held by simp
  next
    case (Some e0)
    then show ?thesis using old [OF Some] n by auto
  qed
qed

lemma pins_ok_grows:
  assumes "pins_ok ext s" "co_prefetches s' = co_prefetches s" "grows (co_cache s) (co_cache s')"
  shows "pins_ok ext s'"
proof (rule pins_ok_same [OF assms(1,2)])
  show "\<exists>e'. entries (co_cache s') h = Some e' \<and> e_pins e' = e_pins e" if "entries (co_cache s) h = Some e" for h e
    using growsD(4) [OF assms(3) that] by (auto simp: same_pins_def)
  show "e_pins e' = 0" if "entries (co_cache s) h = None" "entries (co_cache s') h = Some e'" for h e'
    by (rule growsD(5) [OF assms(3) that])
qed

subsection \<open>Cache operations on pins\<close>

lemma unpin_entries:
  "entries (cache_unpin c p) =
     (case entries c (pin_torrent p) of
        None \<Rightarrow> entries c
      | Some e \<Rightarrow> (entries c)(pin_torrent p \<mapsto>
          e\<lparr>e_pins := sub64 (e_pins e) 1, e_readers := filter (\<lambda>(i, r). i \<noteq> pin_id p) (e_readers e),
            e_last_read := c_tick (next_tick c)\<rparr>))"
  by (auto simp: cache_unpin_def Let_def split: option.split)

lemma sub64_Suc: "n < U64 \<Longrightarrow> 0 < n \<Longrightarrow> sub64 n 1 = n - 1"
  by (subst sub64_in_range) auto

lemma pins_ok_unpin:
  assumes "pins_ok ext s" "co_cache s' = cache_unpin (co_cache s) p"
    and held: "\<And>h. held_pins ext s h = held_pins ext' s' h + (if h = pin_torrent p then 1 else 0)"
    and small: "held_pins ext s (pin_torrent p) < U64"
  shows "pins_ok ext' s'"
proof -
  let ?t = "pin_torrent p"
  have pos: "0 < held_pins ext s ?t" using held [of ?t] by simp
  then obtain e where e: "entries (co_cache s) ?t = Some e"
    using pins_okD(2) [OF assms(1)] by (cases "entries (co_cache s) ?t") auto
  have n: "e_pins e = held_pins ext s ?t" by (rule pins_okD(1) [OF assms(1) e])
  have sub: "sub64 (e_pins e) 1 = held_pins ext' s' ?t"
    using sub64_Suc [of "e_pins e"] n small pos held [of ?t] by simp
  show ?thesis
  proof (rule pins_okI)
    fix h e'
    show "e_pins e' = held_pins ext' s' h" if "entries (co_cache s') h = Some e'"
      using that sub held [of h] pins_okD(1) [OF assms(1), of h]
      by (auto simp: assms(2) unpin_entries e split: if_splits)
    show "held_pins ext' s' h = 0" if "entries (co_cache s') h = None"
      using that held [of h] pins_okD(2) [OF assms(1), of h]
      by (auto simp: assms(2) unpin_entries e split: if_splits)
  qed
qed

lemma pin_inner_cases:
  assumes "cache_pin_inner c h rg = (c', r)"
  shows "r = Inl err \<Longrightarrow> entries c' = entries c"
    "r = Inr p \<Longrightarrow> pin_torrent p = h \<and> (\<exists>e e'. entries c h = Some e \<and> e_pins e' = add64 (e_pins e) 1
       \<and> entries c' h = Some e' \<and> (\<forall>k. k \<noteq> h \<longrightarrow> entries c' k = entries c k))"
  using assms
  by (auto simp: cache_pin_inner_def Let_def cache_entry_def split: option.splits)

lemma pins_ok_pin:
  assumes "pins_ok ext s" "cache_pin_inner (co_cache s) h rg = (c', Inr p)" "co_cache s' = c'"
    and held: "\<And>k. held_pins ext' s' k = held_pins ext s k + (if k = h then 1 else 0)"
    and small: "held_pins ext s h + 1 < U64"
  shows "pins_ok ext' s'"
proof -
  obtain e e' where e: "entries (co_cache s) h = Some e" "e_pins e' = add64 (e_pins e) 1"
      "entries c' h = Some e'" "\<forall>k. k \<noteq> h \<longrightarrow> entries c' k = entries (co_cache s) k"
    using pin_inner_cases(2) [OF assms(2) refl] by blast
  have n: "e_pins e = held_pins ext s h" by (rule pins_okD(1) [OF assms(1) e(1)])
  then have "e_pins e' = held_pins ext' s' h" using e(2) small held [of h] by (simp add: add64_in_range)
  then have "pins_ok ext' s'" if "\<forall>k e1. k \<noteq> h \<longrightarrow> (entries (co_cache s') k = Some e1 \<longrightarrow> e_pins e1 = held_pins ext' s' k)
      \<and> (entries (co_cache s') k = None \<longrightarrow> held_pins ext' s' k = 0)"
    using that e(3) assms(3) by (intro pins_okI) (metis option.inject option.distinct(1))+
  moreover have "entries (co_cache s') k = entries (co_cache s) k" "held_pins ext' s' k = held_pins ext s k"
    if "k \<noteq> h" for k using that e(4) assms(3) held [of k] by simp_all
  ultimately show ?thesis using pins_okD [OF assms(1)] by simp
qed

lemma remove_cases:
  assumes "cache_remove vt c h = (c', r)"
  shows "entries c' = entries c
     \<or> (\<exists>e n. entries c h = Some e \<and> e_pins e = 0 \<and> entries c' = (entries c)(h := None) \<and> r = Inr n)"
  using assms by (auto simp: cache_remove_def cache_entry_def split: option.splits if_splits prod.splits sum.splits)

lemma pins_ok_remove:
  assumes "pins_ok ext s" "cache_remove vt (co_cache s) h = (c', r)" "co_cache s' = c'"
    "co_prefetches s' = co_prefetches s"
  shows "pins_ok ext s'"
  using remove_cases [OF assms(2)]
proof
  assume "entries c' = entries (co_cache s)"
  then have "entries (co_cache s') = entries (co_cache s)" "held_pins ext s' = held_pins ext s"
    using assms(3,4) by (auto simp: held_pins_def)
  then show ?thesis using assms(1) unfolding pins_ok_def by simp
next
  assume "\<exists>e n. entries (co_cache s) h = Some e \<and> e_pins e = 0 \<and> entries c' = (entries (co_cache s))(h := None) \<and> r = Inr n"
  then obtain e where e: "entries (co_cache s) h = Some e" "e_pins e = 0" "entries c' = (entries (co_cache s))(h := None)"
    by blast
  have "held_pins ext s h = 0" using pins_okD(1) [OF assms(1) e(1)] e(2) by simp
  moreover have "entries (co_cache s') = (entries (co_cache s))(h := None)" "held_pins ext s' = held_pins ext s"
    using assms(3,4) e(3) by (auto simp: held_pins_def)
  ultimately show ?thesis using assms(1) unfolding pins_ok_def by simp
qed

subsection \<open>Steps that every handler is made of\<close>

lemma keeps_ask_db [keeping]: "keeps P (ask_db f)"
  by (simp add: ask_db_def keeping)

lemma keeps_gets_bnd: "(\<And>s. P s \<Longrightarrow> keeps P (f (g s))) \<Longrightarrow> keeps P (bnd (gets g) f)"
  by (auto simp: keeps_def bnd_def)

lemma held_lt: "coord_ok en ext s \<Longrightarrow> held_pins ext s h + 1 < U64"
  by (auto simp: coord_ok_def few_def held_pins_def lookahead_def split: option.split dest: spec [of _ h])

lemma keeps_do_db [keeping]: "keeps (coord_ok en ext) (do_db f)"
  by (rule keepsI) (auto simp: do_db_def split: prod.splits intro: coord_ok_frame)

lemma keeps_frames [keeping]:
  "keeps (coord_ok en ext) (forget_hints h)" "keeps (coord_ok en ext) (keep_hints h peers)"
  "keeps (coord_ok en ext) (stop_idle_detach h)" "keeps (coord_ok en ext) (put_settings st)"
  unfolding forget_hints_def keep_hints_def stop_idle_detach_def put_settings_def
  by (auto intro!: keeping elim: coord_ok_frame)

lemma keeps_save [keeping]: "keeps (coord_ok en ext) (save_entry w c b)" "keeps (coord_ok en ext) (persist w l)"
  unfolding save_entry_def persist_def by (intro keeping)+

lemma keeps_insert_live [keeping]:
  assumes "md_hash (lt_metadata l) = h"
  shows "keeps (coord_ok en ext) (insert_live h l)"
proof -
  have "live_ok (s\<lparr>co_live := hm_insert h l (co_live s)\<rparr>)" if "live_ok s" for s :: "('e, 's) coord"
    using that assms by (auto simp: live_ok_def)
  then show ?thesis
    unfolding insert_live_def
    by (intro keeps_modify) (auto simp: coord_ok_def pins_ok_def tasks_ok_def held_pins_def)
qed

lemma keeps_remove_live [keeping]: "keeps (coord_ok en ext) (remove_live h)"
proof -
  have "live_ok (s\<lparr>co_live := hm_remove h (co_live s)\<rparr>)" if "live_ok s" for s :: "('e, 's) coord"
    using that by (auto simp: live_ok_def)
  then show ?thesis
    unfolding remove_live_def
    by (intro keeps_modify) (auto simp: coord_ok_def pins_ok_def tasks_ok_def held_pins_def)
qed

lemma stop_prefetch_keeps:
  assumes "coord_ok en ext s" "stop_prefetch h s = (s', r)"
  shows "coord_ok en ext s' \<and> co_prefetches s' = (co_prefetches s)(h := None)"
proof (cases "co_prefetches s h")
  case None
  then have "(co_prefetches s)(h := None) = co_prefetches s" by auto
  then show ?thesis using assms None by (simp add: stop_prefetch_def)
next
  case (Some t)
  have s': "s' = s\<lparr>co_prefetches := (co_prefetches s)(h := None), co_cache := drop_pin (pf_pin t) (co_cache s)\<rparr>"
    using assms(2) Some by (simp add: stop_prefetch_def)
  note ok = coord_okD [OF assms(1)]
  have "pins_ok ext s'"
  proof (cases "pf_pin t")
    case None
    then have "held_pins ext s' = held_pins ext s"
      using Some by (auto simp: s' held_pins_def lookahead_def fun_eq_iff)
    then show ?thesis using ok(2) None unfolding pins_ok_def by (simp add: s' drop_pin_def)
  next
    case (Some p)
    then have t: "pin_torrent p = h" using ok(3) \<open>co_prefetches s h = Some t\<close> by (auto simp: tasks_ok_def)
    have "held_pins ext s k = held_pins ext s' k + (if k = pin_torrent p then 1 else 0)" for k
      using Some \<open>co_prefetches s h = Some t\<close> by (auto simp: s' held_pins_def lookahead_def t)
    from pins_ok_unpin [OF ok(2) _ this] held_lt [OF assms(1), of h] show ?thesis
      by (simp add: s' Some drop_pin_def t)
  qed
  then show ?thesis
    using ok by (auto simp: coord_ok_def s' tasks_ok_def live_ok_def)
qed

lemma keeps_stop_prefetch [keeping]: "keeps (coord_ok en ext) (stop_prefetch h)"
  by (rule keepsI) (use stop_prefetch_keeps in blast)

lemma ensure_unpinned_no_reader:
  assumes "coord_ok en ext s" "ensure_unpinned h s = (s', Inr u)"
  shows "held_pins ext s h = 0 \<and> s' = s"
proof -
  have "known_or_ok (cache_ensure_unpinned (co_cache s) h) = Inr ()" "s' = s"
    using assms(2) by (auto simp: ensure_unpinned_def map_sum_def split: sum.splits)
  moreover have "held_pins ext s h = 0" if "known_or_ok (cache_ensure_unpinned (co_cache s) h) = Inr ()"
  proof (cases "entries (co_cache s) h")
    case None
    then show ?thesis by (rule pins_okD(2) [OF coord_okD(2) [OF assms(1)]])
  next
    case (Some e)
    then show ?thesis
      using that pins_okD(1) [OF coord_okD(2) [OF assms(1)] Some]
      by (auto simp: cache_ensure_unpinned_def cache_entry_def known_or_ok_def split: if_splits)
  qed
  ultimately show ?thesis by blast
qed

lemma keeps_ensure:
  assumes "ext h = 0 \<Longrightarrow> keeps (coord_ok en ext) k"
  shows "keeps (coord_ok en ext) (bnd (ensure_unpinned h) (\<lambda>_. k))"
proof (rule keepsI)
  fix s s' r
  assume ok: "coord_ok en ext s" and run: "bnd (ensure_unpinned h) (\<lambda>_. k) s = (s', r)"
  show "coord_ok en ext s'"
  proof (cases "snd (ensure_unpinned h s)")
    case (Inl e)
    then have "ensure_unpinned h s = (s, Inl e)" by (simp add: ensure_unpinned_def)
    then show ?thesis using run ok by simp
  next
    case (Inr u)
    then have e: "ensure_unpinned h s = (s, Inr u)" by (simp add: ensure_unpinned_def)
    then have "ext h = 0" using ensure_unpinned_no_reader [OF ok e] by (simp add: held_pins_def)
    then show ?thesis using keepsD [OF assms ok] run e by simp
  qed
qed

lemma keeps_do_cache:
  assumes "\<And>s c' r. coord_ok en ext s \<Longrightarrow> f (co_cache s) = (c', r) \<Longrightarrow> pins_ok ext (s\<lparr>co_cache := c'\<rparr>)"
  shows "keeps (coord_ok en ext) (do_cache f)"
proof (rule keepsI)
  fix s s' r
  assume ok: "coord_ok en ext s" and run: "do_cache f s = (s', r)"
  obtain c' r' where f: "f (co_cache s) = (c', r')" by fastforce
  have "s' = s\<lparr>co_cache := c'\<rparr>" using run f by (simp add: do_cache_def)
  then show "coord_ok en ext s'"
    using assms [OF ok f] ok by (auto simp: coord_ok_def tasks_ok_def live_ok_def)
qed

lemma keeps_cache_remove [keeping]: "keeps (coord_ok en ext) (do_cache (\<lambda>c. cache_remove vt c h))"
  by (rule keeps_do_cache) (auto intro: pins_ok_remove dest: coord_okD(2))

lemma keeps_discard [keeping]: "keeps (coord_ok en ext) (discard_bytes w h)"
  unfolding discard_bytes_def
  by (rule keeps_do_cache) (auto split: prod.splits intro: pins_ok_remove dest: coord_okD(2))

lemma demand_entries:
  assumes "cache_record_demand c h f off n = (c', r)"
  shows "entries c k = Some e \<Longrightarrow> \<exists>e'. entries c' k = Some e' \<and> e_pins e' = e_pins e"
    "entries c k = None \<Longrightarrow> entries c' k = None"
  using assms
  by (auto simp: cache_record_demand_def cache_entry_def split: option.splits sum.splits if_splits)

lemma keeps_demand [keeping]: "keeps (coord_ok en ext) (do_cache (\<lambda>c. cache_record_demand c h f off n))"
proof (rule keeps_do_cache)
  fix s c' r
  assume ok: "coord_ok en ext s" and run: "cache_record_demand (co_cache s) h f off n = (c', r)"
  show "pins_ok ext (s\<lparr>co_cache := c'\<rparr>)"
    by (rule pins_ok_same [OF coord_okD(2) [OF ok]]) (use demand_entries [OF run] in auto)
qed

lemma keeps_start_prefetch [keeping]: "keeps (coord_ok en ext) (start_prefetch h f off)"
proof (rule keepsI)
  fix s s' r
  assume ok: "coord_ok en ext s" and run: "start_prefetch h f off s = (s', r)"
  obtain s1 where s1: "stop_prefetch h s = (s1, Inr ())" by (simp add: stop_prefetch_def)
  then have ok1: "coord_ok en ext s1" and no: "co_prefetches s1 h = None"
    using stop_prefetch_keeps [OF ok s1] by auto
  have s': "s' = s1\<lparr>co_next_prefetch_id := add64 (co_next_prefetch_id s1) 1,
      co_prefetches := (co_prefetches s1)
        (h \<mapsto> \<lparr>pf_id = co_next_prefetch_id s1, pf_file = f, pf_offset = off, pf_pin = None\<rparr>)\<rparr>"
    using run s1 by (simp add: start_prefetch_def)
  have "held_pins ext s' = held_pins ext s1"
    using no by (auto simp: s' held_pins_def lookahead_def fun_eq_iff)
  then show "coord_ok en ext s'"
    using ok1 by (auto simp: coord_ok_def pins_ok_def tasks_ok_def live_ok_def s')
qed

lemma keeps_prefetch_finish:
  assumes "coord_ok en ext s" "co_prefetches s h = Some t" "prefetch_finish h t s = (s', r)"
  shows "coord_ok en ext s'"
proof -
  have "prefetch_finish h t s = stop_prefetch h s"
    using assms(2) by (simp add: prefetch_finish_def stop_prefetch_def)
  then show ?thesis using stop_prefetch_keeps [OF assms(1), of h s' r] assms(3) by simp
qed

lemma keeps_prefetch_prepare:
  assumes "coord_ok en ext s" "co_prefetches s h = Some t" "pf_pin t = None" "prefetch_prepare en h t s = (s', r)"
  shows "coord_ok en ext s'"
proof -
  note ok = coord_okD [OF assms(1)]
  obtain c p where c: "cache_pin (co_cache s) h = (c, p)" by fastforce
  then have ci: "cache_pin_inner (co_cache s) h None = (c, p)" by (simp add: cache_pin_def)
  have "s' = s
      \<or> (\<exists>err. p = Inl err \<and> s' = s\<lparr>co_cache := c\<rparr>)
      \<or> (\<exists>q. p = Inr q \<and> s' = s\<lparr>co_cache := c, co_prefetches := (co_prefetches s)(h \<mapsto> t\<lparr>pf_pin := Some q\<rparr>)\<rparr>)"
    using assms(4) c
    by (cases p) (auto simp: prefetch_prepare_def split: option.splits if_splits sum.splits)
  then consider (same) "s' = s"
    | (no_pin) err where "p = Inl err" "s' = s\<lparr>co_cache := c\<rparr>"
    | (pinned) q where "p = Inr q"
        "s' = s\<lparr>co_cache := c, co_prefetches := (co_prefetches s)(h \<mapsto> t\<lparr>pf_pin := Some q\<rparr>)\<rparr>"
    by blast
  then show ?thesis
  proof cases
    case no_pin
    have "entries c = entries (co_cache s)" using pin_inner_cases(1) [OF ci no_pin(1)] .
    then show ?thesis using ok no_pin(2) by (auto simp: coord_ok_def pins_ok_def tasks_ok_def live_ok_def held_pins_def)
  next
    case pinned
    have "held_pins ext s' k = held_pins ext s k + (if k = h then 1 else 0)" for k
      using assms(2,3) by (simp add: pinned(2) held_pins_def lookahead_def)
    from pins_ok_pin [OF ok(2) ci [unfolded pinned(1)] _ this held_lt [OF assms(1)]]
    have "pins_ok ext s'" by (simp add: pinned(2))
    moreover have "pin_torrent q = h" using pin_inner_cases(2) [OF ci pinned(1)] by blast
    ultimately show ?thesis using ok by (auto simp: coord_ok_def pinned(2) tasks_ok_def live_ok_def)
  qed (use assms(1) in simp)
qed

lemma keeps_schedule_idle [keeping]: "keeps (coord_ok en ext) (schedule_idle_detach en h)"
  unfolding schedule_idle_detach_def ensure_unpinned_def
  by (intro keeping) (auto elim: coord_ok_frame)

lemma keeps_schedule_prefetch [keeping]: "keeps (coord_ok en ext) (schedule_prefetch h i off)"
  unfolding schedule_prefetch_def engine_file_def by (intro keeping)

lemma keeps_store_settings [keeping]: "keeps (coord_ok en ext) (store_settings w st)"
  unfolding store_settings_def by (intro keeping)

lemma live_okD: "coord_ok en ext s \<Longrightarrow> live_of s h = Some l \<Longrightarrow> md_hash (lt_metadata l) = h"
  by (simp add: coord_ok_def live_ok_def)

lemma same_metadata [simp]:
  "lt_metadata (with_data w l) = lt_metadata l" "lt_metadata (updated_live up l) = lt_metadata l"
  "lt_metadata (new_live w rq md x) = md"
  by (simp_all add: with_data_def updated_live_def new_live_def)

lemma keeps_update [keeping]: "keeps (coord_ok en ext) (update_torrent en w up)"
  unfolding update_torrent_def
  by (rule keeps_gets_bnd, intro keeping) (auto dest: live_okD)

subsection \<open>Handlers, for every engine that honours the contract\<close>

context engine_contract
begin

lemma keeps_do_engine:
  assumes "\<And>(s :: ('e, 's) coord) e' c' r. coord_ok en ext s \<Longrightarrow> f (co_engine s) (co_cache s) = (e', c', r) \<Longrightarrow>
      grows (co_cache s) c' \<and> (\<forall>h. 0 < ext h \<longrightarrow> is_loaded en s h \<longrightarrow> en_is_loaded en e' h)"
  shows "keeps (coord_ok en ext) (do_engine f)"
proof (rule keepsI)
  fix s s' r
  assume ok: "coord_ok en ext s" and run: "do_engine f s = (s', r)"
  obtain e' c' r' where f: "f (co_engine s) (co_cache s) = (e', c', r')" by (metis prod_cases3)
  have s': "s' = s\<lparr>co_engine := e', co_cache := c'\<rparr>" using run f by (simp add: do_engine_def)
  from assms [OF ok f] have g: "grows (co_cache s) c'"
    and l: "\<And>h. 0 < ext h \<Longrightarrow> is_loaded en s h \<Longrightarrow> en_is_loaded en e' h" by auto
  have "pins_ok ext s'" by (rule pins_ok_grows [OF coord_okD(2) [OF ok]]) (simp_all add: s' g)
  then show "coord_ok en ext s'"
    using ok l by (auto simp: coord_ok_def tasks_ok_def live_ok_def s')
qed

lemma keeps_engine_add [keeping]: "keeps (coord_ok en ext) (engine_add en w src peers)"
proof (rule keepsI)
  fix s s' r
  assume ok: "coord_ok en ext s" and run: "engine_add en w src peers s = (s', r)"
  let ?f = "\<lambda>e c. en_add en e c src \<lparr>ao_only_files = None, ao_initial_peers = peers, ao_trackers = extra_trackers w s\<rparr>"
  have "keeps (coord_ok en ext) (do_engine ?f)"
    by (rule keeps_do_engine) (auto dest: add_grows)
  then show "coord_ok en ext s'" using run ok by (auto simp: engine_add_def dest: keepsD)
qed

lemma keeps_delete:
  assumes "ext h = 0"
  shows "keeps (coord_ok en ext) (do_engine (\<lambda>e c. en_delete en e c h))"
proof (rule keeps_do_engine)
  fix s :: "('e, 's) coord" and e' c' r
  assume "en_delete en (co_engine s) (co_cache s) h = (e', c', r)"
  from delete_grows(1,2) [OF this] show "grows (co_cache s) c' \<and>
      (\<forall>h. 0 < ext h \<longrightarrow> is_loaded en s h \<longrightarrow> en_is_loaded en e' h)"
    using assms by (metis less_irrefl)
qed

lemma keeps_release: "ext h = 0 \<Longrightarrow> keeps (coord_ok en ext) (engine_release en h)"
  unfolding engine_release_def
  by (rule keeps_bnd) (auto intro!: keeping keeps_delete split: sum.split coord_error.split engine_error.split)

lemma keeps_load [keeping]: "keeps (coord_ok en ext) (load en w h)"
  unfolding load_def by (intro keeping) simp_all

lemma keeps_evict_locked [keeping]: "keeps (coord_ok en ext) (evict_locked en w h)"
  unfolding evict_locked_def
  by (rule keeps_bnd [OF keeps_frames(3) keeps_bnd [OF keeps_stop_prefetch keeps_ensure]])
    (rule keeps_bnd [OF keeps_delete], assumption, intro keeping)

lemma keeps_drop_live [keeping]: "keeps (coord_ok en ext) (drop_live en w h)"
  unfolding drop_live_def Let_def
  by (rule keeps_bnd [OF keeps_frames(3) keeps_bnd [OF keeps_ask_db keeps_bnd [OF keeps_stop_prefetch keeps_ensure]]])
    (intro keeping keeps_delete, assumption)

lemma keeps_remove_torrent [keeping]: "keeps (coord_ok en ext) (remove_torrent en w h)"
proof -
  have tail: "keeps (coord_ok en ext) (seq (ensure_unpinned h) (seq (engine_release en h) k))"
    if "keeps (coord_ok en ext) k" for k :: "('e, 's, bool) coord_act"
    by (rule keeps_ensure, rule keeps_bnd [OF keeps_release]) (simp_all add: that)
  show ?thesis unfolding remove_torrent_def by (intro tail keeping)
qed

lemma keeps_evict_to_cap [keeping]: "keeps (coord_ok en ext) (evict_to_cap en w)"
  unfolding evict_to_cap_def by (intro keeping)

lemma keeps_idle_due [keeping]: "keeps (coord_ok en ext) (idle_detach_due en w h i)"
  unfolding idle_detach_due_def by (intro keeping) (auto elim: coord_ok_frame)

lemma keeps_wipe [keeping]: "keeps (coord_ok en ext) (wipe en w)"
  unfolding wipe_def by (intro keeping)

lemma keeps_add_source [keeping]: "keeps (coord_ok en ext) (add_source en w rq src)"
proof -
  have "keeps (coord_ok en ext) (add_new en w rq src sh)" for sh
    unfolding add_new_def saved_source_def Let_def
    by (intro keeping) (auto intro!: keeping split: torrent_source.split)
  moreover have "keeps (coord_ok en ext) (add_known en w rq h l)" if "md_hash (lt_metadata l) = h" for h l
    unfolding add_known_def by (intro keeping) (simp_all add: that)
  ultimately show ?thesis
    unfolding add_source_def Let_def
    by (intro keeps_gets_bnd) (auto split: option.split bind_splits dest: live_okD)
qed

lemma keeps_set_settings [keeping]: "keeps (coord_ok en ext) (set_settings en w st)"
proof -
  have cap: "keeps (coord_ok en ext) (modify (\<lambda>s. s\<lparr>co_cache := cache_set_cap_bytes (co_cache s) n\<rparr>))" for n
    by (rule keeps_modify) (auto simp: coord_ok_def pins_ok_def tasks_ok_def live_ok_def held_pins_def cache_set_cap_bytes_def)
  have "keeps (coord_ok en ext) (drop_all_live en w)"
    unfolding drop_all_live_def
    by (intro keeping) (auto intro!: keeping split: coord_error.split cache_error.split)
  then show ?thesis
    unfolding set_settings_def Let_def by (intro keeping cap)
qed

end

end
