(* ===== verification/Service.thy ===== *)
theory Service
  imports CoordInv
begin

text \<open>
  The running service: the coordinator and the readers that are open, and every step they can
  take. A command runs under the gate; the work it spawned, timers and the engine's own storage
  calls may come at any time in between. Each step meets its own \<open>world\<close>.
\<close>

datatype client_command =
    Torrents torrent_command
  | ChangeSettings settings_command
  | Viewed viewed_command
  | AskCache cache_command
  | Waf waf_command

fun client_act :: "('e, 's) engine_ops \<Rightarrow> 's world \<Rightarrow> client_command \<Rightarrow> ('e, 's, unit) coord_act" where
  "client_act en w (Torrents cmd) = done_with () (torrents_command en w cmd)"
| "client_act en w (ChangeSettings cmd) = done_with () (settings_command_act en w cmd)"
| "client_act en w (Viewed cmd) = done_with () (viewed_command_act w cmd)"
| "client_act en w (AskCache cmd) = done_with () (cache_command_act cmd)"
| "client_act en w (Waf cmd) = done_with () (waf_command_act w cmd)"

type_synonym ('e, 's) service = "('e, 's) coord \<times> playback_reader list"

inductive service_step :: "('e, 's) engine_ops \<Rightarrow> ('e, 's) service \<Rightarrow> ('e, 's) service \<Rightarrow> bool"
  for en :: "('e, 's) engine_ops" where
  Command: "client_act en w cmd s = (s', r) \<Longrightarrow> service_step en (s, rs) (s', rs)"
| Play: "play_with_prefetch en w h i off en_opt pre s = (s', Inr rd) \<Longrightarrow> length rs + 3 < U64 \<Longrightarrow>
    service_step en (s, rs) (s', rs @ [rd])"
| PlayFails: "play_with_prefetch en w h i off en_opt pre s = (s', Inl err) \<Longrightarrow> length rs + 3 < U64 \<Longrightarrow>
    service_step en (s, rs) (s', rs)"
| Poll: "i < length rs \<Longrightarrow> reader_poll (rs ! i) n s = (s', Inr rd) \<Longrightarrow> service_step en (s, rs) (s', rs[i := rd])"
| PollFails: "i < length rs \<Longrightarrow> reader_poll (rs ! i) n s = (s', Inl err) \<Longrightarrow> service_step en (s, rs) (s', rs)"
| Close: "reader_drop rd s = (s', r) \<Longrightarrow> service_step en (s, rs1 @ rd # rs2) (s', rs1 @ rs2)"
| ApplyCap: "evict_to_cap en w s = (s', r) \<Longrightarrow> service_step en (s, rs) (s', rs)"
| Evict: "evict en w h s = (s', r) \<Longrightarrow> service_step en (s, rs) (s', rs)"
| ScheduleIdle: "schedule_idle_detach en h s = (s', r) \<Longrightarrow> service_step en (s, rs) (s', rs)"
| IdleDue: "idle_detach_due en w h i s = (s', r) \<Longrightarrow> service_step en (s, rs) (s', rs)"
| SchedulePrefetch: "schedule_prefetch h i off s = (s', r) \<Longrightarrow> service_step en (s, rs) (s', rs)"
| PreparePrefetch: "co_prefetches s h = Some t \<Longrightarrow> pf_pin t = None \<Longrightarrow> prefetch_prepare en h t s = (s', r) \<Longrightarrow>
    service_step en (s, rs) (s', rs)"
| FinishPrefetch: "co_prefetches s h = Some t \<Longrightarrow> prefetch_finish h t s = (s', r) \<Longrightarrow>
    service_step en (s, rs) (s', rs)"
| Background: "en_is_loaded en e' = en_is_loaded en (co_engine s) \<Longrightarrow>
    service_step en (s, rs) (s\<lparr>co_engine := e', co_cache := apply_calls (co_cache s) calls\<rparr>, rs)"

inductive service_run :: "('e, 's) engine_ops \<Rightarrow> ('e, 's) service \<Rightarrow> ('e, 's) service \<Rightarrow> bool"
  for en :: "('e, 's) engine_ops" where
  Start: "service_run en a a"
| Step: "service_run en a b \<Longrightarrow> service_step en b c \<Longrightarrow> service_run en a c"

definition readers_on :: "playback_reader list \<Rightarrow> info_hash \<Rightarrow> nat" where
  "readers_on rs h = length (filter (\<lambda>r. pr_hash r = h) rs)"

definition service_ok :: "('e, 's) engine_ops \<Rightarrow> ('e, 's) service \<Rightarrow> bool" where
  "service_ok en sv \<longleftrightarrow>
     coord_ok en (readers_on (snd sv)) (fst sv)
     \<and> (\<forall>r \<in> set (snd sv). pin_torrent (pr_pin r) = pr_hash r)"

lemma readers_on_simps [simp]:
  "readers_on [] h = 0" "readers_on (rs @ rs') h = readers_on rs h + readers_on rs' h"
  "readers_on (r # rs) h = (if pr_hash r = h then Suc (readers_on rs h) else readers_on rs h)"
  by (simp_all add: readers_on_def)

lemma readers_on_le: "readers_on rs h \<le> length rs"
  by (simp add: readers_on_def)

lemma readers_on_pos: "r \<in> set rs \<Longrightarrow> 0 < readers_on rs (pr_hash r)"
  by (auto simp: readers_on_def filter_empty_conv)

lemma few_more: "length rs + 3 < U64 \<Longrightarrow> few ((readers_on rs)(h := Suc (readers_on rs h)))"
  unfolding few_def
proof
  fix k
  assume "length rs + 3 < U64"
  then show "((readers_on rs)(h := Suc (readers_on rs h))) k + 2 < U64"
    using readers_on_le [of rs k] readers_on_le [of rs h] by (cases "k = h") auto
qed

lemma readers_on_update:
  assumes "i < length rs" "pr_hash rd = pr_hash (rs ! i)"
  shows "readers_on (rs[i := rd]) = readers_on rs"
proof
  fix h
  have "readers_on (rs[i := rd]) h = readers_on (take i rs @ rs ! i # drop (Suc i) rs) h"
    using assms by (simp add: upd_conv_take_nth_drop)
  then show "readers_on (rs[i := rd]) h = readers_on rs h"
    by (simp only: id_take_nth_drop [OF assms(1), symmetric])
qed

lemma service_keeps:
  assumes "keeps (coord_ok en (readers_on rs)) m" "m s = (s', r)" "service_ok en (s, rs)"
  shows "service_ok en (s', rs)"
  using assms by (auto simp: service_ok_def dest: keepsD)

lemma reader_poll_hash:
  assumes "reader_poll r n s = (s', Inr r')"
  shows "pr_hash r' = pr_hash r" "pr_pin r' = pr_pin r"
  using assms by (auto simp: reader_poll_def elim!: bnd_OkE split: if_splits)

lemma keeps_reader_poll [keeping]: "keeps (coord_ok en ext) (reader_poll r n)"
  unfolding reader_poll_def by (intro keeping)

lemma keeps_reader_drop:
  assumes "coord_ok en ext s" "reader_drop r s = (s', x)" "pin_torrent (pr_pin r) = h"
    "\<And>k. ext k = ext' k + (if k = h then 1 else 0)"
  shows "coord_ok en ext' s'"
proof -
  have s': "s' = s\<lparr>co_cache := cache_unpin (co_cache s) (pr_pin r)\<rparr>"
    using assms(2) by (simp add: reader_drop_def)
  note ok = coord_okD [OF assms(1)]
  have "pins_ok ext' s'"
    by (rule pins_ok_unpin [OF ok(2), where p = "pr_pin r"])
      (use held_lt [OF assms(1), of h] assms(3,4) in \<open>auto simp: s' held_pins_def\<close>)
  moreover have "few ext'"
    unfolding few_def
  proof
    show "ext' k + 2 < U64" for k using ok(1) assms(4) [of k] unfolding few_def by (metis add_lessD1 add.assoc add.commute)
  qed
  moreover have "0 < ext' k \<Longrightarrow> is_loaded en s' k" for k
    using ok(5) [of k] assms(4) [of k] by (simp add: s')
  ultimately show ?thesis using ok by (simp add: coord_ok_def s' tasks_ok_def live_ok_def)
qed

lemma keeps_viewed [keeping]: "keeps (coord_ok en ext) (viewed_command_act w cmd)"
  by (cases cmd) (auto simp: done_with_def intro!: keeping)

lemma keeps_waf [keeping]: "keeps (coord_ok en ext) (waf_command_act w cmd)"
  by (cases cmd) (auto simp: done_with_def intro!: keeping)

lemma keeps_cache_command [keeping]: "keeps P (cache_command_act cmd)"
  by (simp add: cache_command_act_def keeping)

lemma keeps_queries [keeping]:
  "keeps P (list_views en w)" "keeps P (get_view en w h)" "keeps P (magnet_views en w cs)" "keeps P (magnets en w)"
proof -
  show m: "keeps P (magnet_views en w cs)" for cs
    by (induction cs) (unfold magnet_views.simps, (intro keeping | assumption)+)
  show "keeps P (list_views en w)" "keeps P (get_view en w h)" "keeps P (magnets en w)"
    unfolding list_views_def get_view_def magnets_def by (intro keeping m)+
qed

lemma keeps_storage_preferences [keeping]: "keeps (coord_ok en ext) (set_storage_preferences w a b)"
  unfolding set_storage_preferences_def Let_def by (intro keeping)

context engine_contract
begin

lemma load_loads:
  assumes "load en w h s = (s', Inr u)"
  shows "is_loaded en s' h"
proof (cases "is_loaded en s h")
  case False
  from assms show ?thesis
    by (auto simp: load_def False forget_hints_def insert_live_def engine_add_def do_engine_def map_sum_def ask_db_def
        elim!: bnd_OkE split: option.splits if_splits prod.splits sum.splits dest!: add_ok)
qed (use assms in \<open>simp add: load_def bnd_def\<close>)

lemma keeps_client_act [keeping]: "keeps (coord_ok en ext) (client_act en w cmd)"
proof (cases cmd)
  case (Torrents c)
  have add: "keeps (coord_ok en ext) (add_torrent en w rq)" for rq
    unfolding add_torrent_def Let_def by (intro keeping)
  show ?thesis unfolding Torrents
    by (cases c) (auto simp: done_with_def mapped_def add_metainfo_def intro!: keeping add)
next
  case (ChangeSettings c)
  show ?thesis unfolding ChangeSettings
    by (cases c) (auto simp: done_with_def reset_settings_def intro!: keeping)
qed (auto simp: done_with_def intro!: keeping)

text \<open>Opening a reader: an error leaves the pins as they were, a success adds one.\<close>

lemma pin_range_keeps:
  assumes "coord_ok en ext s" "few (ext(h := Suc (ext h)))" "is_loaded en s h"
    "do_cache (\<lambda>c. cache_pin_range c h rg) s = (s', r)"
  shows "r = Inl err \<Longrightarrow> coord_ok en ext s'"
    "r = Inr p \<Longrightarrow> coord_ok en (ext(h := Suc (ext h))) s' \<and> pin_torrent p = h"
proof -
  obtain c q where c: "cache_pin_inner (co_cache s) h (Some rg) = (c, q)" by fastforce
  have s': "s' = s\<lparr>co_cache := c\<rparr>" and r: "r = map_sum CacheErr id q"
    using assms(4) c by (auto simp: do_cache_def cache_pin_range_def)
  note ok = coord_okD [OF assms(1)]
  show "coord_ok en ext s'" if err: "r = Inl err"
  proof -
    obtain ce where "q = Inl ce" using err r by (cases q) auto
    then have "entries c = entries (co_cache s)" using pin_inner_cases(1) [OF c] by simp
    then show ?thesis using ok by (auto simp: coord_ok_def s' pins_ok_def tasks_ok_def live_ok_def held_pins_def)
  qed
  show "coord_ok en (ext(h := Suc (ext h))) s' \<and> pin_torrent p = h" if okp: "r = Inr p"
  proof -
    have q: "q = Inr p" using okp r by (cases q) auto
    have "held_pins (ext(h := Suc (ext h))) s' k = held_pins ext s k + (if k = h then 1 else 0)" for k
      by (simp add: held_pins_def s')
    from pins_ok_pin [OF ok(2) c [unfolded q] _ this held_lt [OF assms(1)]]
    have "pins_ok (ext(h := Suc (ext h))) s'" by (simp add: s')
    moreover have "pin_torrent p = h" using pin_inner_cases(2) [OF c q] by blast
    ultimately show ?thesis
      using ok assms(2,3) by (auto simp: coord_ok_def s' tasks_ok_def live_ok_def)
  qed
qed

lemma keeps_play:
  assumes ok: "coord_ok en ext s" and run: "play_with_prefetch en w h i off en_opt pre s = (s', r)"
    and few: "few (ext(h := Suc (ext h)))"
  shows "r = Inl err \<Longrightarrow> coord_ok en ext s'"
    "r = Inr rd \<Longrightarrow> coord_ok en (ext(h := Suc (ext h))) s' \<and> pr_hash rd = h \<and> pin_torrent (pr_pin rd) = h"
proof -
  let ?good = "\<lambda>r s'. (\<forall>err. r = Inl err \<longrightarrow> coord_ok en ext s')
      \<and> (\<forall>rd. r = Inr rd \<longrightarrow> coord_ok en (ext(h := Suc (ext h))) s' \<and> pr_hash rd = h \<and> pin_torrent (pr_pin rd) = h)"
  obtain s0 where s0: "stop_idle_detach h s = (s0, Inr ())" by (simp add: stop_idle_detach_def)
  obtain s1 r1 where s1: "load en w h s0 = (s1, r1)" by fastforce
  have ok1: "coord_ok en ext s1"
    by (rule keepsD [OF keeps_load keepsD [OF keeps_frames(3) ok s0] s1])
  obtain r2 where r2: "engine_file h i s1 = (s1, r2)" by (simp add: engine_file_def)
  have "?good r s'"
  proof (cases "\<exists>u f. r1 = Inr u \<and> r2 = Inr f")
    case False
    then have "s' = s1" "\<exists>e. r = Inl e"
      using run s0 s1 r2 by (cases r1; cases r2; force simp: play_with_prefetch_def)+
    then show ?thesis using ok1 by auto
  next
    case True
    then obtain u f where f: "r1 = Inr u" "r2 = Inr f" by blast
    have loaded: "is_loaded en s1 h" using load_loads s1 f(1) by simp
    show ?thesis
    proof (cases "en_reader en (co_engine s1) h f off")
      case (Inl e)
      then have "s' = s1" "\<exists>e. r = Inl e"
        using run s0 s1 r2 f by (cases e; force simp: play_with_prefetch_def)+
      then show ?thesis using ok1 by auto
    next
      case (Inr len)
      let ?rg = "\<lparr>rr_file = f, rr_start = off,
        rr_end = min (case en_opt of None \<Rightarrow> sat_sub len 1 | Some e \<Rightarrow> e) (sat_sub len 1)\<rparr>"
      obtain s2 q where s2: "do_cache (\<lambda>c. cache_pin_range c h ?rg) s1 = (s2, q)" by fastforce
      note pin = pin_range_keeps [OF ok1 few loaded s2]
      show ?thesis
      proof (cases q)
        case (Inl e)
        then have "s' = s2" "\<exists>e. r = Inl e"
          using run s0 s1 r2 f Inr s2 by (auto simp: play_with_prefetch_def Let_def)
        then show ?thesis using pin(1) Inl by auto
      next
        case (Inr p)
        let ?pre = "case pre of None \<Rightarrow> ret () | Some o1 \<Rightarrow> start_prefetch h f o1"
        obtain s3 x where s3: "?pre s2 = (s3, x)" by fastforce
        have x: "x = Inr ()"
          using s3 by (cases pre) (simp_all add: start_prefetch_def stop_prefetch_def bnd_def)
        have "keeps (coord_ok en (ext(h := Suc (ext h)))) ?pre" by (intro keeping)
        then have "coord_ok en (ext(h := Suc (ext h))) s3" using pin(2) [OF Inr] s3 by (auto elim: keepsD)
        moreover have "s' = s3" "r = Inr \<lparr>pr_length = len, pr_pin = p, pr_hash = h, pr_file = f, pr_offset = off\<rparr>"
          using run s0 s1 r2 f \<open>en_reader en (co_engine s1) h f off = Inr len\<close> s2 Inr s3 x
          by (simp_all add: play_with_prefetch_def Let_def)
        ultimately show ?thesis using pin(2) [OF Inr] by simp
      qed
    qed
  qed
  then show "r = Inl err \<Longrightarrow> coord_ok en ext s'"
    "r = Inr rd \<Longrightarrow> coord_ok en (ext(h := Suc (ext h))) s' \<and> pr_hash rd = h \<and> pin_torrent (pr_pin rd) = h" by blast+
qed

lemma step_keeps:
  assumes "service_step en a b" "service_ok en a"
  shows "service_ok en b"
  using assms
proof (induction rule: service_step.induct)
  case (Play w h i off en_opt pre s s' rd rs)
  have few: "few ((readers_on rs)(h := Suc (readers_on rs h)))"
    by (rule few_more [OF Play.hyps(2)])
  have ok: "coord_ok en (readers_on rs) s" using Play.prems by (simp add: service_ok_def)
  note new = keeps_play(2) [OF ok Play.hyps(1) few refl]
  then have "readers_on (rs @ [rd]) = (readers_on rs)(h := Suc (readers_on rs h))" by (auto simp: fun_eq_iff)
  then show ?case using new Play.prems by (auto simp: service_ok_def)
next
  case (PlayFails w h i off en_opt pre s s' err rs)
  have few: "few ((readers_on rs)(h := Suc (readers_on rs h)))"
    by (rule few_more [OF PlayFails.hyps(2)])
  have ok: "coord_ok en (readers_on rs) s" using PlayFails.prems by (simp add: service_ok_def)
  show ?case using keeps_play(1) [OF ok PlayFails.hyps(1) few refl] PlayFails.prems by (simp add: service_ok_def)
next
  case (Poll i rs n s s' rd)
  have same: "pr_hash rd = pr_hash (rs ! i)" "pr_pin rd = pr_pin (rs ! i)" using reader_poll_hash [OF Poll.hyps(2)] .
  then have "readers_on (rs[i := rd]) = readers_on rs"
    using readers_on_update [OF Poll.hyps(1)] by blast
  moreover have "coord_ok en (readers_on rs) s'"
    using keepsD [OF keeps_reader_poll _ Poll.hyps(2)] Poll.prems by (simp add: service_ok_def)
  ultimately show ?case
    using Poll.prems Poll.hyps(1) same by (auto simp: service_ok_def dest!: set_update_subset_insert [THEN subsetD])
next
  case (Close rd s s' r rs1 rs2)
  have ok: "coord_ok en (readers_on (rs1 @ rd # rs2)) s" and pin: "pin_torrent (pr_pin rd) = pr_hash rd"
    using Close.prems by (simp_all add: service_ok_def)
  have "coord_ok en (readers_on (rs1 @ rs2)) s'"
    by (rule keeps_reader_drop [OF ok Close.hyps pin]) simp
  then show ?case using Close.prems by (simp add: service_ok_def)
next
  case (Background e' s rs calls)
  have "pins_ok (readers_on rs) (s\<lparr>co_engine := e', co_cache := apply_calls (co_cache s) calls\<rparr>)"
    by (rule pins_ok_grows [of _ s]) (use Background.prems in \<open>simp_all add: service_ok_def coord_ok_def grows_calls\<close>)
  then show ?case
    using Background by (simp add: service_ok_def coord_ok_def tasks_ok_def live_ok_def)
next
  case (PreparePrefetch s h t s' r rs)
  then show ?case using keeps_prefetch_prepare by (auto simp: service_ok_def)
next
  case (FinishPrefetch s h t s' r rs)
  then show ?case using keeps_prefetch_finish by (auto simp: service_ok_def)
next
  case (Command w cmd s s' r rs)
  show ?case by (rule service_keeps [OF keeps_client_act Command.hyps Command.prems])
next
  case (PollFails i rs n s s' err)
  show ?case by (rule service_keeps [OF keeps_reader_poll PollFails.hyps(2) PollFails.prems])
next
  case (ApplyCap w s s' r rs)
  show ?case by (rule service_keeps [OF keeps_evict_to_cap ApplyCap.hyps ApplyCap.prems])
next
  case (Evict w h s s' r rs)
  show ?case by (rule service_keeps [OF keeps_evict_locked Evict.hyps [unfolded evict_def] Evict.prems])
next
  case (ScheduleIdle h s s' r rs)
  show ?case by (rule service_keeps [OF keeps_schedule_idle ScheduleIdle.hyps ScheduleIdle.prems])
next
  case (IdleDue w h i s s' r rs)
  show ?case by (rule service_keeps [OF keeps_idle_due IdleDue.hyps IdleDue.prems])
next
  case (SchedulePrefetch h i off s s' r rs)
  show ?case by (rule service_keeps [OF keeps_schedule_prefetch SchedulePrefetch.hyps SchedulePrefetch.prems])
qed

lemma run_keeps: "service_run en a b \<Longrightarrow> service_ok en a \<Longrightarrow> service_ok en b"
  by (induction rule: service_run.induct) (auto intro: step_keeps)

end

text \<open>A coordinator starts without readers over a cache that knows no torrent yet.\<close>

lemma service_ok_new:
  assumes "c_torrents c = []"
  shows "service_ok en (coord_new w e c d, [])"
proof -
  have "c_torrents (co_cache (coord_new w e c d)) = []"
    using assms by (auto simp: coord_new_def cache_set_cap_bytes_def cache_discard_unowned_def Let_def
        split: prod.split sum.split)
  moreover have "co_prefetches (coord_new w e c d) = Map.empty" "co_live (coord_new w e c d) = []"
    by (simp_all add: coord_new_def Let_def split: prod.split)
  ultimately show ?thesis
    by (simp add: service_ok_def coord_ok_def few_def U64_def pins_ok_def tasks_ok_def live_ok_def held_pins_def
        lookahead_def)
qed

end
