(* ===== verification/CoordDrop.thy ===== *)
theory CoordDrop
  imports Service MemoryStore
begin

text \<open>
  What dropping, removing and evicting a torrent do, over the engine adapter for any librqbit
  session: to the torrent itself, and to all others.
\<close>

subsection \<open>What happens to other torrents\<close>

definition others_kept :: "('e, 's) engine_ops \<Rightarrow> info_hash \<Rightarrow> ('e, 's) coord \<Rightarrow> ('e, 's) coord \<Rightarrow> bool" where
  "others_kept en h s s' \<longleftrightarrow>
     (\<forall>k. k \<noteq> h \<longrightarrow>
        live_of s' k = live_of s k \<and> is_loaded en s' k = is_loaded en s k \<and> co_peer_hints s' k = co_peer_hints s k
        \<and> (entries (co_cache s) k \<noteq> None \<longrightarrow> entries (co_cache s') k \<noteq> None)
        \<and> map_of (db_torrents (co_db s')) (as_bytes k) = map_of (db_torrents (co_db s)) (as_bytes k))
     \<and> db_viewed (co_db s') = db_viewed (co_db s) \<and> co_settings s' = co_settings s
     \<and> co_read_only s' = co_read_only s"

lemma others_kept_refl: "others_kept en h s s"
  by (simp add: others_kept_def)

lemma others_kept_trans: "others_kept en h s t \<Longrightarrow> others_kept en h t u \<Longrightarrow> others_kept en h s u"
  by (simp add: others_kept_def)

lemma grows_some: "grows c c' \<Longrightarrow> entries c k \<noteq> None \<Longrightarrow> entries c' k \<noteq> None"
  using growsD(4) by fastforce

text \<open>A step that touches nothing but the engine and the cache.\<close>

definition same_rest :: "('e, 's) coord \<Rightarrow> ('e, 's) coord \<Rightarrow> bool" where
  "same_rest s s' \<longleftrightarrow>
     co_db s' = co_db s \<and> co_prefetches s' = co_prefetches s \<and> co_idle_detaches s' = co_idle_detaches s
     \<and> co_peer_hints s' = co_peer_hints s \<and> co_live s' = co_live s \<and> co_settings s' = co_settings s
     \<and> co_read_only s' = co_read_only s"

lemma same_restD:
  assumes "same_rest s s'"
  shows "co_db s' = co_db s" "co_prefetches s' = co_prefetches s" "co_idle_detaches s' = co_idle_detaches s"
    "co_peer_hints s' = co_peer_hints s" "co_live s' = co_live s" "co_settings s' = co_settings s"
    "co_read_only s' = co_read_only s"
  using assms by (simp_all add: same_rest_def)

lemma stop_idle_run:
  "stop_idle_detach h s = (s\<lparr>co_idle_detaches := (co_idle_detaches s)(h := None)\<rparr>, Inr ())"
  by (simp add: stop_idle_detach_def)

lemma stop_prefetch_frame:
  assumes "stop_prefetch h s = (s', r)"
  shows "r = Inr ()" "co_prefetches s' h = None" "co_engine s' = co_engine s" "co_db s' = co_db s"
    "co_live s' = co_live s" "co_peer_hints s' = co_peer_hints s" "co_idle_detaches s' = co_idle_detaches s"
    "co_settings s' = co_settings s" "co_read_only s' = co_read_only s"
    "entries (co_cache s') k \<noteq> None \<longleftrightarrow> entries (co_cache s) k \<noteq> None"
  using assms
  by (auto simp: stop_prefetch_def drop_pin_def unpin_entries split: option.splits if_splits)

lemma others_stop: "stop_prefetch h s = (s', r) \<Longrightarrow> others_kept en h s s'"
  using stop_prefetch_frame [of h s s' r] by (simp add: others_kept_def)

lemma ask_db_run: "ask_db f s = (s, map_sum StateErr id (f (co_db s)))"
  by (simp add: ask_db_def)

lemma ensure_run: "ensure_unpinned h s = (s', r) \<Longrightarrow> s' = s"
  by (simp add: ensure_unpinned_def)

text \<open>A store that has no torrent to remove has nothing to report; both stores of the cache keep to that.\<close>

definition removal_known :: "'s piece_store \<Rightarrow> bool" where
  "removal_known vt \<longleftrightarrow> (\<forall>s t k. snd (ps_remove vt s t) \<noteq> Inl (UnknownTorrent k))"

lemma removal_known_memory: "removal_known memory_vt"
  by (simp add: removal_known_def memory_vt_def mem_remove_def)

lemma discard_run:
  assumes "discard_bytes w h s = (s', Inr u)" "removal_known (wo_store w)"
  shows "entries (co_cache s') = (entries (co_cache s))(h := None)" "same_rest s s'"
    "co_engine s' = co_engine s"
proof -
  obtain c r where c: "cache_remove (wo_store w) (co_cache s) h = (c, r)" by fastforce
  have s': "s' = s\<lparr>co_cache := c\<rparr>" and k: "known_or_ok r = Inr u"
    using assms c by (auto simp: discard_bytes_def do_cache_def map_sum_def split: sum.splits)
  then show "same_rest s s'" "co_engine s' = co_engine s" by (simp_all add: same_rest_def)
  have "entries c = (entries (co_cache s))(h := None)"
    using c k assms(2) [unfolded removal_known_def, THEN spec, of "c_store (co_cache s)", THEN spec, of h]
    by (auto simp: cache_remove_def cache_entry_def known_or_ok_def fun_eq_iff
        split: option.splits if_splits prod.splits sum.splits cache_error.splits)
  then show "entries (co_cache s') = (entries (co_cache s))(h := None)" by (simp add: s')
qed

context engine_contract
begin

lemma delete_run:
  assumes "do_engine (\<lambda>e c. en_delete en e c h) s = (s', Inr peers)"
  shows "\<not> is_loaded en s' h" "same_rest s s'"
    "grows (co_cache s) (co_cache s')" "k \<noteq> h \<Longrightarrow> is_loaded en s' k = is_loaded en s k"
  using assms delete_ok [of "co_engine s" "co_cache s" h "co_engine s'" "co_cache s'" peers]
  by (auto simp: do_engine_def map_sum_def same_rest_def split: prod.splits sum.splits)

lemma release_run:
  assumes "engine_release en h s = (s', Inr u)"
  shows "en_reader en (co_engine s') h f off = Inl (NotLoaded h)"
    "same_rest s s'"
    "grows (co_cache s) (co_cache s')" "k \<noteq> h \<Longrightarrow> is_loaded en s' k = is_loaded en s k"
proof -
  obtain e c r where r: "en_delete en (co_engine s) (co_cache s) h = (e, c, r)" by (metis prod_cases3)
  then have run: "do_engine (\<lambda>e c. en_delete en e c h) s = (s\<lparr>co_engine := e, co_cache := c\<rparr>, map_sum EngineErr id r)"
    by (simp add: do_engine_def)
  have s': "s' = s\<lparr>co_engine := e, co_cache := c\<rparr>"
    and gone: "(\<exists>p. r = Inr p) \<or> (\<exists>k. r = Inl (NotLoaded k))"
  proof -
    show "s' = s\<lparr>co_engine := e, co_cache := c\<rparr>"
      using assms run
      by (cases r) (auto simp: engine_release_def split: engine_error.splits)
    show "(\<exists>p. r = Inr p) \<or> (\<exists>k. r = Inl (NotLoaded k))"
      using assms run
      by (cases r) (auto simp: engine_release_def split: engine_error.splits)
  qed
  show "en_reader en (co_engine s') h f off = Inl (NotLoaded h)"
    using delete_gone [OF r] gone by (auto simp: s')
  show "same_rest s s'" by (simp add: s' same_rest_def)
  show "grows (co_cache s) (co_cache s')" "k \<noteq> h \<Longrightarrow> is_loaded en s' k = is_loaded en s k"
    using delete_grows [OF r] by (simp_all add: s')
qed

lemma engine_add_run:
  assumes "engine_add en w src peers s = (s', Inr md)"
  shows "same_rest s s'" "grows (co_cache s) (co_cache s')"
    "k \<noteq> md_hash md \<Longrightarrow> is_loaded en s' k = is_loaded en s k" "is_loaded en s' (md_hash md)"
proof -
  obtain e c r where r: "en_add en (co_engine s) (co_cache s) src
      \<lparr>ao_only_files = None, ao_initial_peers = peers, ao_trackers = extra_trackers w s\<rparr> = (e, c, r)"
    by (metis prod_cases3)
  have md: "r = Inr md" and s': "s' = s\<lparr>co_engine := e, co_cache := c\<rparr>"
    using assms r by (cases r; simp add: engine_add_def do_engine_def)+
  note ok = add_ok [OF r [unfolded md]]
  show "same_rest s s'" by (simp add: s' same_rest_def)
  show "grows (co_cache s) (co_cache s')" "k \<noteq> md_hash md \<Longrightarrow> is_loaded en s' k = is_loaded en s k"
    "is_loaded en s' (md_hash md)"
    using ok by (simp_all add: s')
qed

lemma load_run:
  assumes "load en w h s = (s', Inr u)"
  shows "others_kept en h s s'" "co_db s' = co_db s"
proof -
  have "others_kept en h s s' \<and> co_db s' = co_db s"
  proof (cases "is_loaded en s h")
    case True
    then show ?thesis using assms by (simp add: load_def others_kept_def bnd_def)
  next
    case False
    let ?rest = "\<lambda>md. bnd (gets (\<lambda>s. live_of s h)) (\<lambda>live.
        seq (if live \<noteq> None then ret ()
             else bnd (ask_torrent w h) (\<lambda>saved.
               case saved of None \<Rightarrow> raise (NotFound h)
               | Some c \<Rightarrow> insert_live h \<lparr>lt_metadata = md, lt_title = ce_title c, lt_poster = ce_poster c,
                   lt_category = ce_category c, lt_data = ce_data c, lt_added_at = ce_added_at c\<rparr>))
          (forget_hints h))"
    from assms False obtain bytes where "bnd (engine_add en w (TorrentBytes bytes) (hints_of s h))
        (\<lambda>md. if md_hash md \<noteq> h then raise (EngineErr (NotLoaded h)) else ?rest md) s = (s', Inr u)"
      by (auto simp: load_def ask_db_run elim!: bnd_OkE split: option.splits)
    then obtain t md where t: "engine_add en w (TorrentBytes bytes) (hints_of s h) s = (t, Inr md)"
        and m: "md_hash md = h" and r: "?rest md t = (s', Inr u)"
      by (auto elim!: bnd_OkE split: if_splits)
    note a = engine_add_run [OF t]
    have "others_kept en h s t" "co_db t = co_db s"
      using a(3) m grows_some [OF a(2)] same_restD [OF a(1)] by (simp_all add: others_kept_def)
    moreover have "others_kept en h t s' \<and> co_db s' = co_db t"
      using r by (cases "live_of t h")
        (auto simp: others_kept_def forget_hints_def insert_live_def ask_db_run bnd_def split: option.splits sum.splits)
    ultimately show ?thesis using others_kept_trans by metis
  qed
  then show "others_kept en h s s'" "co_db s' = co_db s" by auto
qed

lemma drop_run:
  assumes "drop_live en w h s = (s', Inr b)" "removal_known (wo_store w)"
  shows "co_db s' = co_db s" "others_kept en h s s'" "\<not> is_loaded en s' h" "live_of s' h = None"
    "co_prefetches s' h = None" "Inr b = map_sum StateErr (\<lambda>r. r \<noteq> None) (db_torrent (wo_fault w AskTorrent (Some h)) (co_db s) h)"
    "remove_cache_on_drop (co_settings s) \<or> \<not> b \<Longrightarrow> entries (co_cache s') h = None"
    "entries (co_cache s) h \<noteq> None \<Longrightarrow> \<not> remove_cache_on_drop (co_settings s) \<Longrightarrow> b \<Longrightarrow>
       entries (co_cache s') h \<noteq> None"
proof -
  let ?s1 = "s\<lparr>co_idle_detaches := (co_idle_detaches s)(h := None)\<rparr>"
  from assms(1) obtain row where row: "db_torrent (wo_fault w AskTorrent (Some h)) (co_db s) h = Inr row"
    by (cases "db_torrent (wo_fault w AskTorrent (Some h)) (co_db s) h")
      (auto simp: drop_live_def stop_idle_run ask_db_run Let_def)
  obtain s2 where s2: "stop_prefetch h ?s1 = (s2, Inr ())" by (simp add: stop_prefetch_def)
  let ?del = "\<lambda>loaded. if loaded then bnd (do_engine (\<lambda>e c. en_delete en e c h)) (keep_hints h) else ret ()"
  let ?rm = "\<lambda>r. if r then discard_bytes w h else ret ()"
  from assms(1) have "bnd (ensure_unpinned h) (\<lambda>_. bnd (gets (\<lambda>s. is_loaded en s h)) (\<lambda>loaded.
      seq (?del loaded) (bnd (gets (\<lambda>s. remove_cache_on_drop (co_settings s) \<or> \<not> row \<noteq> None))
        (\<lambda>r. seq (?rm r) (seq (remove_live h) (ret (row \<noteq> None))))))) s2 = (s', Inr b)"
    by (simp add: drop_live_def stop_idle_run ask_db_run row s2 Let_def)
  then obtain s3 s4 where s3: "?del (is_loaded en s2 h) s2 = (s3, Inr ())"
      and s4: "?rm (remove_cache_on_drop (co_settings s3) \<or> row = None) s3 = (s4, Inr ())"
      and s': "s' = s4\<lparr>co_live := hm_remove h (co_live s4)\<rparr>" and b: "b = (row \<noteq> None)"
    by (auto simp: remove_live_def dest!: ensure_run elim!: bnd_OkE)
  note f2 = stop_prefetch_frame [OF s2]
  have f3: "\<not> is_loaded en s3 h" "k \<noteq> h \<Longrightarrow> is_loaded en s3 k = is_loaded en s2 k" "grows (co_cache s2) (co_cache s3)"
      "co_db s3 = co_db s2" "co_prefetches s3 = co_prefetches s2" "co_live s3 = co_live s2"
      "co_settings s3 = co_settings s2" "co_read_only s3 = co_read_only s2"
      "k \<noteq> h \<Longrightarrow> co_peer_hints s3 k = co_peer_hints s2 k" for k
  proof -
    show "\<not> is_loaded en s3 h" "k \<noteq> h \<Longrightarrow> is_loaded en s3 k = is_loaded en s2 k" "grows (co_cache s2) (co_cache s3)"
      "co_db s3 = co_db s2" "co_prefetches s3 = co_prefetches s2" "co_live s3 = co_live s2"
      "co_settings s3 = co_settings s2" "co_read_only s3 = co_read_only s2"
      "k \<noteq> h \<Longrightarrow> co_peer_hints s3 k = co_peer_hints s2 k"
      using s3 delete_run [of h s2] by (auto simp: keep_hints_def same_rest_def elim!: bnd_OkE split: if_splits)
  qed
  have f4: "same_rest s3 s4 \<and> co_engine s4 = co_engine s3
      \<and> entries (co_cache s4) = (if remove_cache_on_drop (co_settings s) \<or> \<not> b
          then (entries (co_cache s3))(h := None) else entries (co_cache s3))"
    using s4 discard_run [OF _ assms(2), of h s3 s4] f3(7) f2(8)
    by (auto simp: b same_rest_def split: if_splits)
  note r4 = same_restD [OF conjunct1 [OF f4]]
  have cache: "entries (co_cache s') = entries (co_cache s4)" "is_loaded en s' = is_loaded en s4" by (simp_all add: s')
  show "co_db s' = co_db s" using f2(4) f3(4) r4(1) by (simp add: s')
  show "\<not> is_loaded en s' h" using f3(1) f4 cache(2) by simp
  show "live_of s' h = None" by (simp add: s')
  show "co_prefetches s' h = None" using f2(2) f3(5) r4(2) by (simp add: s')
  show "Inr b = map_sum StateErr (\<lambda>r. r \<noteq> None) (db_torrent (wo_fault w AskTorrent (Some h)) (co_db s) h)"
    using row b by simp
  show "entries (co_cache s') h = None" if "remove_cache_on_drop (co_settings s) \<or> \<not> b"
    using f4 that by (simp add: cache(1))
  show "entries (co_cache s') h \<noteq> None"
    if "entries (co_cache s) h \<noteq> None" "\<not> remove_cache_on_drop (co_settings s)" "b"
    using f4 that grows_some [OF f3(3)] f2(10) by (simp add: cache(1))
  have "entries (co_cache s4) k \<noteq> None" if "k \<noteq> h" "entries (co_cache s) k \<noteq> None" for k
    using f4 that grows_some [OF f3(3), of k] f2(10) [of k] by (simp split: if_splits)
  then show "others_kept en h s s'"
    using f2(3-9) f3 r4 f4 by (simp add: others_kept_def s')
qed

lemma remove_run:
  assumes "remove_torrent en w h s = (s', Inr b)" "\<not> co_read_only s" "removal_known (wo_store w)"
  shows "others_kept en h s s'" "en_reader en (co_engine s') h f off = Inl (NotLoaded h)"
    "live_of s' h = None" "co_prefetches s' h = None" "co_peer_hints s' h = None" "entries (co_cache s') h = None"
    "map_of (db_torrents (co_db s')) (as_bytes h) = None"
    "b \<longleftrightarrow> map_of (db_torrents (co_db s)) (as_bytes h) \<noteq> None"
proof -
  let ?s1 = "s\<lparr>co_idle_detaches := (co_idle_detaches s)(h := None)\<rparr>"
  let ?load = "if is_loaded en s h then ret ()
      else bnd (ask_torrent w h) (\<lambda>row. if row \<noteq> None then load en w h else ret ())"
  from assms(1,2) have "seq ?load (seq (stop_prefetch h) (seq (ensure_unpinned h) (seq (engine_release en h)
      (seq (discard_bytes w h) (bnd (do_db (\<lambda>d. db_remove_torrent (wo_fault w DoRemove (Some h)) d h)) (\<lambda>removed.
        seq (remove_live h) (seq (forget_hints h) (ret removed)))))))) ?s1 = (s', Inr b)"
    by (simp add: remove_torrent_def stop_idle_run bnd_def)
  then obtain s2 s3 s4 s5 s6 where s2: "?load ?s1 = (s2, Inr ())" and s3: "stop_prefetch h s2 = (s3, Inr ())"
      and s4: "engine_release en h s3 = (s4, Inr ())" and s5: "discard_bytes w h s4 = (s5, Inr ())"
      and s6: "do_db (\<lambda>d. db_remove_torrent (wo_fault w DoRemove (Some h)) d h) s5 = (s6, Inr b)"
      and s': "s' = s6\<lparr>co_live := hm_remove h (co_live s6), co_peer_hints := (co_peer_hints s6)(h := None)\<rparr>"
    by (auto simp: remove_live_def forget_hints_def dest!: ensure_run elim!: bnd_OkE)
  have k1: "others_kept en h s ?s1" by (simp add: others_kept_def)
  have k2: "others_kept en h ?s1 s2 \<and> co_db s2 = co_db ?s1"
    using s2 load_run by (auto simp: ask_db_run others_kept_refl elim!: bnd_OkE split: if_splits)
  note f3 = stop_prefetch_frame [OF s3] and f4 = release_run [OF s4] and f5 = discard_run [OF s5 assms(3)]
  note r4 = same_restD [OF f4(2)] and r5 = same_restD [OF f5(2)]
  have d: "\<not> wo_fault w DoRemove (Some h)" "b \<longleftrightarrow> map_of (db_torrents (co_db s5)) (as_bytes h) \<noteq> None"
      "s6 = s5\<lparr>co_db := (co_db s5)\<lparr>db_torrents := hm_remove (as_bytes h) (db_torrents (co_db s5))\<rparr>\<rparr>"
    using s6 by (auto simp: do_db_def db_remove_torrent_def split: if_splits)
  have db: "co_db s5 = co_db s" using k2 f3(4) r4(1) r5(1) by simp
  have k5: "others_kept en h s3 s5"
    using f4(4) f5(1,3) r4 r5 grows_some [OF f4(3)] by (simp add: others_kept_def)
  have k6: "others_kept en h s5 s'" by (simp add: others_kept_def s' d(3))
  show "others_kept en h s s'"
    by (rule others_kept_trans [OF k1 others_kept_trans [OF conjunct1 [OF k2]
          others_kept_trans [OF others_stop [OF s3] others_kept_trans [OF k5 k6]]]])
  show "en_reader en (co_engine s') h f off = Inl (NotLoaded h)" using f4(1) f5(3) by (simp add: s' d(3))
  show "live_of s' h = None" "co_peer_hints s' h = None" by (simp_all add: s')
  show "co_prefetches s' h = None" using f3(2) r4(2) r5(2) by (simp add: s' d(3))
  show "entries (co_cache s') h = None" using f5(1) by (simp add: s' d(3))
  show "map_of (db_torrents (co_db s')) (as_bytes h) = None" by (simp add: s' d(3))
  show "b \<longleftrightarrow> map_of (db_torrents (co_db s)) (as_bytes h) \<noteq> None" using d(2) db by simp
qed

end

end
