(* ===== verification/CoordSample.thy ===== *)
theory CoordSample
  imports Service MemoryStore
begin

text \<open>
  A small concrete service for the witnesses: a session that manages one torrent of one file of
  100 bytes, a memory store, and a catalog with that torrent.
\<close>

definition demo_hash :: info_hash where
  "demo_hash = InfoHash (replicate 20 1)"

definition demo_info :: torrent_info where
  "demo_info = \<lparr>ti_name = Some ''movie.mkv'', ti_multi_file = False, ti_files = [(''movie.mkv'', 100)]\<rparr>"

definition demo_session :: "(unit, memory_store) session_ops" where
  "demo_session =
     \<lparr>ss_add = (\<lambda>z src opts. ((), [(memory_vt, CreateStorage demo_hash 16 [100])], Inr 0)),
      ss_wait = (\<lambda>z i. ((), [], Inr ())),
      ss_metadata = (\<lambda>z i. Inr \<lparr>sm_hash = demo_hash, sm_torrent_bytes = [1], sm_info = demo_info\<rparr>),
      ss_managed = (\<lambda>z i. True), ss_stream = (\<lambda>z i f off. Inr ()),
      ss_stats = (\<lambda>z i. \<lparr>sst_progress = 0, sst_uploaded = 0, sst_live = None\<rparr>),
      ss_piece_length = (\<lambda>z i. Inr 16), ss_delete = (\<lambda>z i. ((), [], Inr ())),
      ss_parse_torrent = (\<lambda>b. Inr \<lparr>pt_hash = demo_hash, pt_announce = [], pt_info = Inr demo_info\<rparr>),
      ss_parse_magnet = (\<lambda>m. None), ss_parse_address = (\<lambda>a. None)\<rparr>"

text \<open>The world in which SQLite always answers, and the one in which it never does.\<close>

definition demo_world :: "bool \<Rightarrow> memory_store world" where
  "demo_world fault =
     \<lparr>wo_store = memory_vt, wo_fault = (\<lambda>c h. fault), wo_now = \<lparr>st_secs = 60, st_nanos = 0\<rparr>,
      wo_read_text = (\<lambda>p. None), wo_read_file = (\<lambda>p. Inl []), wo_json = (\<lambda>s. True),
      wo_settings_text = (\<lambda>st. []), wo_parse_settings = (\<lambda>s. None), wo_files_text = (\<lambda>fs. []),
      wo_zlib = sample_zlib\<rparr>"

definition demo_db :: state_db where
  "demo_db =
     empty_db\<lparr>db_torrents :=
       [(replicate 20 1,
         \<lparr>tr_title = ''Movie'', tr_poster = [], tr_category = [], tr_data = [], tr_added_at = 50, tr_size = 100,
          tr_metainfo = [1]\<rparr>)]\<rparr>"

definition demo_engine :: "unit engine" where
  "demo_engine = \<lparr>eg_session = (), eg_loaded = Map.empty\<rparr>"

definition demo_start :: "(unit engine, memory_store) coord" where
  "demo_start = coord_new (demo_world True) demo_engine (cache_new memory_store_new 1000) demo_db"

definition demo_metadata :: torrent_metadata where
  "demo_metadata =
     \<lparr>md_hash = demo_hash, md_metainfo = [1], md_name = ''movie.mkv'',
      md_files = [\<lparr>tf_engine_index = 0, tf_path = ''movie.mkv'', tf_length = 100\<rparr>], md_trackers = []\<rparr>"

definition demo_live :: live_torrent where
  "demo_live =
     \<lparr>lt_metadata = demo_metadata, lt_title = ''Movie'', lt_poster = [], lt_category = [], lt_data = [],
      lt_added_at = \<lparr>st_secs = 50, st_nanos = 0\<rparr>\<rparr>"

definition demo_layout :: torrent_layout where
  "demo_layout = \<lparr>piece_length = 16, file_lengths = [100], total_length = 100, piece_count = 7\<rparr>"

lemma demo_world_simps [simp]:
  "wo_store (demo_world b) = memory_vt" "wo_fault (demo_world b) c h = b" "wo_read_text (demo_world b) p = None"
  "wo_zlib (demo_world b) = sample_zlib"
  by (simp_all add: demo_world_def)

lemma demo_start_simps [simp]:
  "co_engine demo_start = demo_engine" "co_db demo_start = demo_db" "co_prefetches demo_start = Map.empty"
  "co_peer_hints demo_start = Map.empty" "co_live demo_start = []" "c_torrents (co_cache demo_start) = []"
  "co_idle_detaches demo_start = Map.empty" "c_store (co_cache demo_start) = memory_store_new"
  "\<not> co_read_only demo_start"
  by (simp_all add: demo_start_def coord_new_def start_settings_def db_settings_get_def db_set_settings_def
      list_torrents_def cache_set_cap_bytes_def cache_new_def Let_def)

lemma demo_display [simp]: "display_path ''movie.mkv'' False ''movie.mkv'' = ''movie.mkv''"
  by code_simp

lemma demo_live_metadata [simp]:
  "live_metadata demo_session \<lparr>sm_hash = demo_hash, sm_torrent_bytes = [1], sm_info = demo_info\<rparr> = demo_metadata"
  by (simp add: live_metadata_def demo_session_def demo_metadata_def session_files_def demo_info_def
      unwrap_name_def utf8_trackers_def)

text \<open>The engine adds the torrent, and the coordinator loads it from the catalog.\<close>

lemma demo_layout_new: "layout_new 16 [100] = Inr demo_layout"
  by (simp add: layout_new_def checked_add64_def U64_def U32_def div_ceil_def demo_layout_def)

lemma demo_adapter_add:
  assumes "c_torrents c = []" "c_store c = memory_store_new"
  shows "\<exists>c' e'. adapter_add demo_session demo_engine c src opts =
      (\<lparr>eg_session = (), eg_loaded = [demo_hash \<mapsto> 0]\<rparr>, c', Inr demo_metadata)
    \<and> c_torrents c' = [(demo_hash, e')] \<and> e_pins e' = 0 \<and> e_stored e' = 0"
proof -
  have m: "ss_metadata demo_session () 0 = Inr \<lparr>sm_hash = demo_hash, sm_torrent_bytes = [1], sm_info = demo_info\<rparr>"
    by (simp add: demo_session_def)
  have calls: "\<exists>e'. c_torrents (apply_calls c [(memory_vt, CreateStorage demo_hash 16 [100])]) = [(demo_hash, e')]
      \<and> e_pins e' = 0 \<and> e_stored e' = 0"
    using assms
    by (simp add: apply_calls_def storage_create_def demo_layout_new cache_open_def memory_vt_def mem_open_def
        recovered_default_def next_tick_def put_entry_def Let_def)
  have "adapter_add demo_session demo_engine c src opts =
      (\<lparr>eg_session = (), eg_loaded = [demo_hash \<mapsto> 0]\<rparr>,
       apply_calls c [(memory_vt, CreateStorage demo_hash 16 [100])], Inr demo_metadata)"
    using m by (simp add: adapter_add_def demo_session_def demo_engine_def apply_calls_def Let_def
        live_metadata_def demo_metadata_def session_files_def demo_info_def unwrap_name_def utf8_trackers_def)
  then show ?thesis using calls by auto
qed

lemma demo_row [simp]:
  "db_metainfo False demo_db demo_hash = Inr (Some [1])"
  "db_torrent False demo_db demo_hash =
     Inr (Some \<lparr>ce_hash = demo_hash, ce_title = ''Movie'', ce_poster = [], ce_category = [], ce_data = [],
                ce_added_at = \<lparr>st_secs = 50, st_nanos = 0\<rparr>, ce_size = 100\<rparr>)"
  by (simp_all add: db_metainfo_def db_torrent_def demo_db_def demo_hash_def empty_db_def into_entry_def
      stored_hash_def stored_time_def)

lemma demo_load:
  "\<exists>s e'. load (adapter_ops demo_session) (demo_world False) demo_hash demo_start = (s, Inr ())
     \<and> eg_loaded (co_engine s) = [demo_hash \<mapsto> 0] \<and> co_live s = [(demo_hash, demo_live)]
     \<and> c_torrents (co_cache s) = [(demo_hash, e')] \<and> e_pins e' = 0 \<and> e_stored e' = 0 \<and> co_prefetches s = Map.empty
     \<and> co_db s = demo_db \<and> co_settings s = co_settings demo_start"
proof -
  obtain c' e' where a: "adapter_add demo_session demo_engine (co_cache demo_start) (TorrentBytes [1])
      \<lparr>ao_only_files = None, ao_initial_peers = [], ao_trackers = extra_trackers (demo_world False) demo_start\<rparr> =
        (\<lparr>eg_session = (), eg_loaded = [demo_hash \<mapsto> 0]\<rparr>, c', Inr demo_metadata)"
      "c_torrents c' = [(demo_hash, e')]" "e_pins e' = 0" "e_stored e' = 0"
    using demo_adapter_add [of "co_cache demo_start"] by fastforce
  have "eg_loaded demo_engine = Map.empty" by (simp add: demo_engine_def)
  moreover have "md_hash demo_metadata = demo_hash" by (simp add: demo_metadata_def)
  ultimately show ?thesis
    using a by (simp add: load_def ask_db_def engine_add_def do_engine_def hints_of_def bnd_def insert_live_def
        forget_hints_def demo_live_def)
qed

text \<open>A reader is opened on its one file.\<close>

lemma demo_idle: "stop_idle_detach demo_hash demo_start = (demo_start, Inr ())"
proof -
  have "demo_start\<lparr>co_idle_detaches := (co_idle_detaches demo_start)(demo_hash := None)\<rparr> = demo_start"
    by (rule coord.equality) simp_all
  then show ?thesis by (simp add: stop_idle_detach_def)
qed

lemma demo_files: "sorted_files demo_metadata =
    [\<lparr>fv_id = 1, fv_path = ''movie.mkv'', fv_length = 100, fv_engine_index = 0\<rparr>]"
  by (simp add: sorted_files_def demo_metadata_def U32_def)

lemma demo_play:
  "\<exists>s rd e'. play_with_prefetch (adapter_ops demo_session) (demo_world False) demo_hash 1 0 None None demo_start =
       (s, Inr rd) \<and> pr_hash rd = demo_hash \<and> entries (co_cache s) demo_hash = Some e' \<and> e_pins e' = 1"
proof -
  obtain s e' where l: "load (adapter_ops demo_session) (demo_world False) demo_hash demo_start = (s, Inr ())"
      "eg_loaded (co_engine s) = [demo_hash \<mapsto> 0]" "co_live s = [(demo_hash, demo_live)]"
      "c_torrents (co_cache s) = [(demo_hash, e')]" "e_pins e' = 0"
    using demo_load by blast
  have f: "engine_file demo_hash 1 s = (s, Inr (from_zero_based 0))"
    using l(3) demo_files by (simp add: engine_file_def demo_live_def)
  have r: "adapter_reader demo_session (co_engine s) demo_hash (from_zero_based 0) 0 = Inr 100"
    using l(2) by (simp add: adapter_reader_def adapter_handle_def demo_session_def demo_info_def from_zero_based_def
        get_opt_def)
  obtain c p e2 where p: "cache_pin_range (co_cache s) demo_hash \<lparr>rr_file = from_zero_based 0, rr_start = 0, rr_end = 99\<rparr> =
      (c, Inr p)" "entries c demo_hash = Some e2" "e_pins e2 = 1"
  proof -
    have "e_pins e' + 1 < U64" using l(5) by (simp add: U64_def)
    then show ?thesis
      using that l(4,5) by (simp add: cache_pin_range_def cache_pin_inner_def cache_entry_def put_entry_def add64_in_range Let_def)
  qed
  show ?thesis
    using l(1) f r p demo_idle
    by (simp add: play_with_prefetch_def do_cache_def sat_sub_def Let_def)
qed

end
