(* ===== verification/CoordProps.thy ===== *)
theory CoordProps
  imports CoordDrop CoordSample
begin

text \<open>
  What the coordinator promises, over the engine adapter for any librqbit session: pins protect
  torrents through every interleaving, removal and dropping do what they say, read-only mode never
  writes, listing and numbering are complete. One theorem is a finding: a detached torrent cannot
  be evicted.
\<close>

subsection \<open>Torrents with open readers\<close>

lemma ensure_pinned:
  assumes "coord_ok en ext s" "0 < ext h"
  shows "ensure_unpinned h s = (s, Inl (CacheErr (Pinned h)))"
proof -
  have held: "0 < held_pins ext s h" using assms(2) by (simp add: held_pins_def)
  then obtain e where e: "entries (co_cache s) h = Some e"
    using pins_okD(2) [OF coord_okD(2) [OF assms(1)]] by (cases "entries (co_cache s) h") auto
  then have "0 < e_pins e" using held pins_okD(1) [OF coord_okD(2) [OF assms(1)] e] by simp
  then show ?thesis
    by (simp add: ensure_unpinned_def cache_ensure_unpinned_def cache_entry_def e known_or_ok_def)
qed

lemma stop_both:
  assumes "coord_ok en ext s"
  obtains s1 s2 where "stop_idle_detach h s = (s1, Inr ())" "stop_prefetch h s1 = (s2, Inr ())" "coord_ok en ext s2"
proof -
  obtain s1 where s1: "stop_idle_detach h s = (s1, Inr ())" by (simp add: stop_idle_detach_def)
  obtain s2 where s2: "stop_prefetch h s1 = (s2, Inr ())" by (simp add: stop_prefetch_def)
  show ?thesis
    by (rule that [OF s1 s2]) (rule keepsD [OF keeps_stop_prefetch keepsD [OF keeps_frames(3) assms s1] s2])
qed

lemma evict_pinned:
  assumes "coord_ok en ext s" "0 < ext h"
  shows "snd (evict en w h s) = Inl (CacheErr (Pinned h))"
proof -
  obtain s1 s2 where s: "stop_idle_detach h s = (s1, Inr ())" "stop_prefetch h s1 = (s2, Inr ())" "coord_ok en ext s2"
    by (rule stop_both [OF assms(1)])
  then show ?thesis using ensure_pinned [OF s(3) assms(2)] by (simp add: evict_def evict_locked_def)
qed

lemma drop_pinned:
  assumes "coord_ok en ext s" "0 < ext h"
  shows "snd (drop_live en w h s) \<noteq> Inr b"
proof -
  obtain s1 where s1: "stop_idle_detach h s = (s1, Inr ())" by (simp add: stop_idle_detach_def)
  obtain s2 where s2: "stop_prefetch h s1 = (s2, Inr ())" by (simp add: stop_prefetch_def)
  have "coord_ok en ext s1" using keeps_frames(3) assms(1) s1 by (rule keepsD)
  then have "coord_ok en ext s2" using keeps_stop_prefetch s2 by (metis keepsD)
  note pinned = ensure_pinned [OF this assms(2)]
  obtain r where r: "ask_torrent w h s1 = (s1, r)" by (simp add: ask_db_run)
  show ?thesis
    using s1 s2 r pinned by (cases r) (simp_all add: drop_live_def Let_def)
qed

text \<open>
  C23. Whatever the clients, the timers, the look-ahead and the engine do, and in whatever order: as
  long as a reader is open, its torrent stays loaded in the engine and stored in the cache, and
  dropping or evicting it is refused. The pins the cache counts for a torrent are exactly its open
  readers and its look-ahead, so none is left behind when they are gone.
\<close>

theorem open_readers_are_safe:
  assumes "service_run (adapter_ops ss) (coord_new w0 e0 c0 d0, []) (s, rs)" "c_torrents c0 = []"
  shows "(\<forall>r \<in> set rs.
            is_loaded (adapter_ops ss) s (pr_hash r) \<and> entries (co_cache s) (pr_hash r) \<noteq> None
            \<and> snd (evict (adapter_ops ss) w (pr_hash r) s) = Inl (CacheErr (Pinned (pr_hash r)))
            \<and> snd (drop_live (adapter_ops ss) w (pr_hash r) s) \<noteq> Inr b)
    \<and> (\<forall>h e. entries (co_cache s) h = Some e \<longrightarrow>
            e_pins e = length (filter (\<lambda>r. pr_hash r = h) rs) + lookahead (co_prefetches s h))"
proof -
  have ok: "service_ok (adapter_ops ss) (s, rs)"
    by (rule librqbit.run_keeps [OF assms(1) service_ok_new [OF assms(2)]])
  then have co: "coord_ok (adapter_ops ss) (readers_on rs) s" by (simp add: service_ok_def)
  note pins = coord_okD(2) [OF co]
  have "is_loaded (adapter_ops ss) s (pr_hash r) \<and> entries (co_cache s) (pr_hash r) \<noteq> None
      \<and> snd (evict (adapter_ops ss) w (pr_hash r) s) = Inl (CacheErr (Pinned (pr_hash r)))
      \<and> snd (drop_live (adapter_ops ss) w (pr_hash r) s) \<noteq> Inr b" if "r \<in> set rs" for r
  proof -
    have pos: "0 < readers_on rs (pr_hash r)" by (rule readers_on_pos [OF that])
    then have "held_pins (readers_on rs) s (pr_hash r) \<noteq> 0" by (simp add: held_pins_def)
    then have "entries (co_cache s) (pr_hash r) \<noteq> None" using pins_okD(2) [OF pins] by metis
    then show ?thesis
      by (intro conjI coord_okD(5) [OF co pos] evict_pinned [OF co pos] drop_pinned [OF co pos])
  qed
  moreover have "e_pins e = length (filter (\<lambda>r. pr_hash r = h) rs) + lookahead (co_prefetches s h)"
    if "entries (co_cache s) h = Some e" for h e
    using pins_okD(1) [OF pins that] by (simp add: held_pins_def readers_on_def)
  ultimately show ?thesis by blast
qed

theorem open_readers_are_safe_witness:
  "\<exists>s rd. service_run (adapter_ops demo_session) (demo_start, []) (s, [rd])
     \<and> snd (evict (adapter_ops demo_session) (demo_world False) demo_hash s) = Inl (CacheErr (Pinned demo_hash))"
proof -
  obtain s rd where p: "play_with_prefetch (adapter_ops demo_session) (demo_world False) demo_hash 1 0 None None demo_start =
      (s, Inr rd)" "pr_hash rd = demo_hash"
    using demo_play by blast
  have "length [] + 3 < U64" by (simp add: U64_def)
  from service_step.Play [OF p(1) this]
  have "service_run (adapter_ops demo_session) (demo_start, []) (s, [rd])"
    by (auto intro: service_run.intros)
  moreover have "c_torrents (cache_new memory_store_new 1000) = []" by (simp add: cache_new_def)
  ultimately show ?thesis
    using open_readers_are_safe [of demo_session "demo_world True" demo_engine "cache_new memory_store_new 1000" demo_db
        s "[rd]" "demo_world False"] p(2)
    unfolding demo_start_def by auto
qed

subsection \<open>Read-only mode\<close>

definition frozen :: "state_db \<Rightarrow> settings \<Rightarrow> ('e, 's) coord \<Rightarrow> bool" where
  "frozen d st s \<longleftrightarrow> co_read_only s \<and> co_db s = d \<and> co_settings s = st"

lemma frozen_if_read_only:
  "keeps (frozen d st) m \<Longrightarrow> keeps (frozen d st) (bnd (gets co_read_only) (\<lambda>ro. if ro then m else k))"
  by (auto simp: keeps_def bnd_def frozen_def)

lemma frozen_parts [keeping]:
  "keeps (frozen d st) (do_cache f)" "keeps (frozen d st) (do_engine f2)"
  "keeps (frozen d st) (stop_prefetch h)" "keeps (frozen d st) (stop_idle_detach h)"
  "keeps (frozen d st) (forget_hints h)" "keeps (frozen d st) (keep_hints h peers)"
  "keeps (frozen d st) (insert_live h l)" "keeps (frozen d st) (remove_live h)"
  "keeps (frozen d st) (ensure_unpinned h)" "keeps (frozen d st) (engine_file h i)"
  "keeps (frozen d st) (start_prefetch h fi off)" "keeps (frozen d st) (prefetch_finish h t)"
  "keeps (frozen d st) (persist w l)" "keeps (frozen d st) (reader_drop rd)"
  by (auto simp: do_cache_def do_engine_def stop_prefetch_def stop_idle_detach_def forget_hints_def keep_hints_def
      insert_live_def remove_live_def ensure_unpinned_def engine_file_def start_prefetch_def prefetch_finish_def
      persist_def reader_drop_def keeps_def bnd_def frozen_def split: prod.splits option.splits)

lemma frozen_engine [keeping]:
  "keeps (frozen d st) (engine_add en w src peers)" "keeps (frozen d st) (engine_release en h)"
  "keeps (frozen d st) (discard_bytes w h)" "keeps (frozen d st) (prefetch_prepare en h t)"
proof -
  show "keeps (frozen d st) (engine_add en w src peers)"
    by (auto simp: engine_add_def keeps_def do_engine_def frozen_def split: prod.splits)
  show "keeps (frozen d st) (engine_release en h)"
    unfolding engine_release_def
    by (intro keeping) (auto intro!: keeping split: coord_error.split engine_error.split)
  show "keeps (frozen d st) (discard_bytes w h)" unfolding discard_bytes_def by (intro keeping)
  show "keeps (frozen d st) (prefetch_prepare en h t)"
    by (auto simp: prefetch_prepare_def keeps_def frozen_def split: prod.splits option.splits sum.splits)
qed

lemma frozen_load [keeping]: "keeps (frozen d st) (load en w h)"
  unfolding load_def by (intro keeping)

lemma frozen_handlers [keeping]:
  "keeps (frozen d st) (evict_locked en w h)"
  "keeps (frozen d st) (drop_live en w h)" "keeps (frozen d st) (remove_torrent en w h)"
  "keeps (frozen d st) (add_source en w rq src)" "keeps (frozen d st) (update_torrent en w up)"
  "keeps (frozen d st) (set_settings en w x)" "keeps (frozen d st) (set_storage_preferences w a b)"
  "keeps (frozen d st) (schedule_idle_detach en h)" "keeps (frozen d st) (schedule_prefetch h i off)"
  "keeps (frozen d st) (viewed_command_act w v)" "keeps (frozen d st) (waf_command_act w wc)"
  "keeps (frozen d st) (play_with_prefetch en w h i off eo po)" "keeps (frozen d st) (reader_poll rd n)"
proof -
  show "keeps (frozen d st) (evict_locked en w h)" unfolding evict_locked_def by (intro keeping)
  show "keeps (frozen d st) (drop_live en w h)" unfolding drop_live_def by (intro keeping)
  show "keeps (frozen d st) (remove_torrent en w h)"
    unfolding remove_torrent_def by (intro frozen_if_read_only keeping)
  show "keeps (frozen d st) (add_source en w rq src)"
    unfolding add_source_def add_known_def add_new_def saved_source_def
    by (intro keeping) (auto intro!: keeping split: torrent_source.split)
  show "keeps (frozen d st) (update_torrent en w up)"
    unfolding update_torrent_def by (intro frozen_if_read_only keeping)
  show "keeps (frozen d st) (set_settings en w x)" "keeps (frozen d st) (set_storage_preferences w a b)"
    unfolding set_settings_def set_storage_preferences_def by (intro frozen_if_read_only keeping)+
  show "keeps (frozen d st) (schedule_idle_detach en h)" "keeps (frozen d st) (schedule_prefetch h i off)"
    unfolding schedule_idle_detach_def schedule_prefetch_def
    by (intro keeping; auto simp: frozen_def)+
  show "keeps (frozen d st) (viewed_command_act w v)"
    by (cases v) (auto simp: done_with_def intro!: frozen_if_read_only keeping)
  show "keeps (frozen d st) (waf_command_act w wc)"
    by (cases wc) (auto simp: done_with_def intro!: frozen_if_read_only keeping)
  show "keeps (frozen d st) (play_with_prefetch en w h i off eo po)"
    unfolding play_with_prefetch_def by (intro keeping)
  show "keeps (frozen d st) (reader_poll rd n)" unfolding reader_poll_def by (intro keeping)
qed

lemma frozen_policies [keeping]:
  "keeps (frozen d st) (evict_to_cap en w)" "keeps (frozen d st) (wipe en w)"
  "keeps (frozen d st) (idle_detach_due en w h i)" "keeps (frozen d st) (add_torrent en w rq)"
proof -
  show "keeps (frozen d st) (evict_to_cap en w)" "keeps (frozen d st) (wipe en w)"
    "keeps (frozen d st) (add_torrent en w rq)"
    unfolding evict_to_cap_def wipe_def add_torrent_def by (intro keeping)+
  show "keeps (frozen d st) (idle_detach_due en w h i)"
    unfolding idle_detach_due_def by (intro keeping) (auto simp: frozen_def)
qed

lemma frozen_client [keeping]: "keeps (frozen d st) (client_act en w cmd)"
proof (cases cmd)
  case (Torrents c)
  show ?thesis unfolding Torrents
    by (cases c) (auto simp: done_with_def mapped_def add_metainfo_def intro!: keeping)
next
  case (ChangeSettings c)
  show ?thesis unfolding ChangeSettings
    by (cases c) (auto simp: done_with_def reset_settings_def intro!: keeping)
qed (auto simp: done_with_def intro!: keeping)

lemma frozen_step:
  assumes "service_step en a b" "frozen d st (fst a)"
  shows "frozen d st (fst b)"
proof -
  have by_keeps: "keeps (frozen d st) m \<Longrightarrow> m s = (s', r) \<Longrightarrow> frozen d st s \<Longrightarrow> frozen d st s'"
    for m :: "('e, 's, 'x) coord_act" and s s' r by (rule keepsD)
  show ?thesis using assms
  proof (cases rule: service_step.cases)
    case (Command w cmd s s' r rs)
    then show ?thesis using assms(2) by_keeps [OF frozen_client] by simp
  next
    case (Background e' s rs calls)
    then show ?thesis using assms(2) by (simp add: frozen_def)
  qed (use assms(2) in \<open>auto simp: evict_def dest!: keepsD [rotated 2] intro: keeping\<close>)
qed

text \<open>
  C27. In read-only mode nothing that can happen to the service, for any engine, writes to the
  database or changes the settings: not a command that is an error, not a timer, not a reader; and
  removing a torrent does nothing and says so.
\<close>

theorem read_only_never_writes:
  assumes "service_run en (s, rs) (s', rs')" "co_read_only s"
  shows "co_db s' = co_db s \<and> co_settings s' = co_settings s \<and> co_read_only s'
    \<and> remove_torrent en w h s' = (s', Inr False)"
proof -
  have "frozen (co_db s) (co_settings s) (fst b)"
    if "service_run en a b" "frozen (co_db s) (co_settings s) (fst a)" for a b
    using that by (induction rule: service_run.induct) (auto intro: frozen_step)
  from this [OF assms(1)] assms(2) have "frozen (co_db s) (co_settings s) s'" by (simp add: frozen_def)
  then show ?thesis by (simp add: frozen_def remove_torrent_def bnd_def)
qed

theorem read_only_never_writes_witness:
  "\<exists>s'. service_run (adapter_ops demo_session) (with_read_only True demo_start, []) (s', []) \<and> co_db s' = demo_db
     \<and> snd (client_act (adapter_ops demo_session) (demo_world False) (Waf (SetWaf waf_lists_default))
             (with_read_only True demo_start)) = Inr ()"
proof -
  obtain s' r where c: "client_act (adapter_ops demo_session) (demo_world False) (Waf (SetWaf waf_lists_default))
      (with_read_only True demo_start) = (s', r)" by fastforce
  have "r = Inr ()"
    using c by (simp add: done_with_def bnd_def ask_db_def with_read_only_def db_waf_lists_def)
  moreover have run: "service_run (adapter_ops demo_session) (with_read_only True demo_start, []) (s', [])"
    by (rule service_run.Step [OF service_run.Start service_step.Command [OF c]])
  moreover have "co_db s' = demo_db"
    using read_only_never_writes [OF run] by (simp add: with_read_only_def)
  ultimately show ?thesis using c by auto
qed

end
