(* ===== verification/CoordViews.thy ===== *)
theory CoordViews
  imports CoordSample
begin

text \<open>
  What clients see of the catalog and the live table: the listing, and the numbers by which files
  are played.
\<close>

lemma view_hashes:
  "tv_hash (view_live en w s l) = Some (info_hash_to_string (md_hash (lt_metadata l)))"
  "tv_hash (view_saved c) = Some (info_hash_to_string (ce_hash c))"
  by (simp_all add: view_live_def view_saved_def Let_def)

lemma view_order_total:
  "view_order x y \<or> view_order y x" "view_order x y \<Longrightarrow> view_order y z \<Longrightarrow> view_order x z"
  by (auto simp: view_order_def)

lemma stat_live: "tv_stat (view_live en w s l) \<noteq> 5"
  by (simp add: view_live_def Let_def)

lemma stat_saved: "tv_stat (view_saved c) = 5"
  by (simp add: view_saved_def)

lemma saved_hashes:
  assumes "state_ok d" "list_torrents False d = Inr cs"
  shows "distinct (map ce_hash cs)" "h \<in> set (map ce_hash cs) \<longleftrightarrow> map_of (db_torrents d) (as_bytes h) \<noteq> None"
proof -
  let ?rows = "sort_key (\<lambda>(h, r). (tr_added_at r, h)) (db_torrents d)"
  have "cs = map (\<lambda>p. row_entry (InfoHash (fst p)) (snd p)) ?rows"
    using assms(2) list_torrents_abs [OF assms(1)] by simp
  then have cs: "map ce_hash cs = map InfoHash (map fst ?rows)" by (simp add: row_entry_def)
  have m: "mset (map fst ?rows) = mset (map fst (db_torrents d))" by (simp add: mset_map)
  have "distinct (map fst (db_torrents d))" using assms(1) by (simp add: state_ok_def torrents_ok_def)
  then have rows: "distinct (map fst ?rows)" "set (map fst ?rows) = fst ` set (db_torrents d)"
    using mset_eq_imp_distinct_iff [OF m] mset_eq_setD [OF m] by (blast, simp only: set_map)
  show "distinct (map ce_hash cs)"
    unfolding cs using rows(1) distinct_map [of InfoHash "map fst ?rows"] by (simp only:) (simp add: inj_on_def)
  have "h \<in> set (map ce_hash cs) \<longleftrightarrow> as_bytes h \<in> fst ` set (db_torrents d)"
    unfolding cs set_map rows(2) [unfolded set_map] by (cases h) auto
  then show "h \<in> set (map ce_hash cs) \<longleftrightarrow> map_of (db_torrents d) (as_bytes h) \<noteq> None"
    by (simp add: map_of_eq_None_iff)
qed



subsection \<open>File numbers\<close>

lemma enumerate_fst: "map fst (enumerate n xs) = [n..<n + length xs]"
  by (simp add: map_fst_enumerate)

text \<open>
  C29. The files of a torrent are numbered from 1 in path order, without a gap: every file has one
  number, every number in the range plays the file it is shown with, every other number is refused.
\<close>

theorem file_numbers:
  assumes "live_of s h = Some l" "length (md_files (lt_metadata l)) < U32"
  shows "let fs = sorted_files (lt_metadata l); n = length (md_files (lt_metadata l)) in
      map fv_id fs = [1..<n + 1] \<and> sorted (map fv_path fs)
      \<and> mset (map (\<lambda>f. (fv_path f, fv_length f, fv_engine_index f)) fs) =
          mset (map (\<lambda>f. (tf_path f, tf_length f, tf_engine_index f)) (md_files (lt_metadata l)))
      \<and> (\<forall>i. engine_file h i s =
             (s, if 1 \<le> i \<and> i \<le> n then Inr (from_zero_based (fv_engine_index (fs ! (i - 1))))
                 else Inl (UnknownFileIndex h i)))"
proof -
  let ?md = "lt_metadata l"
  let ?xs = "sort_key tf_path (md_files ?md)"
  let ?fs = "sorted_files ?md" and ?n = "length (md_files ?md)"
  have nth: "?fs ! i = \<lparr>fv_id = i + 1, fv_path = tf_path (?xs ! i), fv_length = tf_length (?xs ! i),
      fv_engine_index = tf_engine_index (?xs ! i)\<rparr>" if "i < ?n" for i
    using that assms(2) by (simp add: sorted_files_def nth_enumerate_eq)
  have len: "length ?fs = ?n" by (simp add: sorted_files_def)
  have ids: "map fv_id ?fs = [1..<?n + 1]"
    by (rule nth_equalityI) (simp_all add: len nth del: upt_Suc)
  have paths: "map fv_path ?fs = map tf_path ?xs"
    by (rule nth_equalityI) (simp_all add: len nth)
  have all: "map (\<lambda>f. (fv_path f, fv_length f, fv_engine_index f)) ?fs =
      map (\<lambda>f. (tf_path f, tf_length f, tf_engine_index f)) ?xs"
    by (rule nth_equalityI) (simp_all add: len nth)
  have found: "List.find (\<lambda>f. fv_id f = i) ?fs = (if 1 \<le> i \<and> i \<le> ?n then Some (?fs ! (i - 1)) else None)" for i
  proof (cases "1 \<le> i \<and> i \<le> ?n")
    case True
    then have "fv_id (?fs ! (i - 1)) = i" "i - 1 < length ?fs" using nth [of "i - 1"] len by auto
    moreover have "fv_id (?fs ! j) \<noteq> i" if "j < i - 1" for j
    proof -
      have "j < ?n" "Suc j \<noteq> i" using that True by linarith+
      then show ?thesis using nth [of j] by simp
    qed
    ultimately show ?thesis using True by (auto simp: find_Some_iff)
  next
    case False
    then have "\<not> (\<exists>f. f \<in> set ?fs \<and> fv_id f = i)"
      using nth len by (auto simp: in_set_conv_nth)
    then show ?thesis using False by (auto simp: find_None_iff)
  qed
  have "engine_file h i s = (s, if 1 \<le> i \<and> i \<le> ?n then Inr (from_zero_based (fv_engine_index (?fs ! (i - 1))))
      else Inl (UnknownFileIndex h i))" for i
    using found [of i] assms(1) by (auto simp: engine_file_def)
  then show ?thesis
    unfolding Let_def ids paths all by (simp add: mset_map)
qed

theorem file_numbers_witness:
  "engine_file demo_hash 1 (demo_start\<lparr>co_live := [(demo_hash, demo_live)]\<rparr>) =
     (demo_start\<lparr>co_live := [(demo_hash, demo_live)]\<rparr>, Inr (from_zero_based 0))"
proof -
  let ?s = "demo_start\<lparr>co_live := [(demo_hash, demo_live)]\<rparr>"
  have l: "live_of ?s demo_hash = Some demo_live" "length (md_files (lt_metadata demo_live)) < U32"
    by (simp_all add: demo_live_def demo_metadata_def U32_def)
  have n: "length (md_files (lt_metadata demo_live)) = 1" "sorted_files (lt_metadata demo_live) =
      [\<lparr>fv_id = 1, fv_path = ''movie.mkv'', fv_length = 100, fv_engine_index = 0\<rparr>]"
    using demo_files by (simp_all add: demo_live_def demo_metadata_def)
  show ?thesis using file_numbers [OF l] unfolding Let_def n by simp
qed

end
