(* ===== verification/Vfs.thy ===== *)
theory Vfs
  imports Client
begin

text \<open>
  \<open>rustorr-vfs/src/lib.rs\<close>: the torrents as a read-only directory tree, categories at the top,
  torrents inside them, and each torrent's files under their display paths. The client core behind
  it is a \<open>dyn ClientCore\<close>: a record of its methods. The waits between two attempts to get a
  torrent's metadata are left out, the attempts are not.
\<close>

subsection \<open>The client core\<close>

record 'c client_core =
  cc_torrents :: "torrent_command \<Rightarrow> ('c, coord_error, torrent_reply) act"
  cc_playback :: "playback_request \<Rightarrow> ('c, coord_error, playback) act"
  cc_settings :: "settings_command \<Rightarrow> ('c, coord_error, settings) act"
  cc_viewed :: "viewed_command \<Rightarrow> ('c, coord_error, viewed_file list) act"
  cc_cache :: "cache_command \<Rightarrow> ('c, coord_error, cache_view) act"
  cc_waf :: "waf_command \<Rightarrow> ('c, coord_error, waf_lists) act"

definition coordinator_core :: "('e, 's) engine_ops \<Rightarrow> 's world \<Rightarrow> ('e, 's) coord client_core" where
  "coordinator_core en w =
     \<lparr>cc_torrents = torrents_command en w, cc_playback = playback_command en w,
      cc_settings = settings_command_act en w, cc_viewed = viewed_command_act w,
      cc_cache = cache_command_act, cc_waf = waf_command_act w\<rparr>"

text \<open>A call whose error the caller looks at and does not pass on.\<close>

definition ask :: "('c, 'e1, 'a) act \<Rightarrow> ('c, 'e2, 'e1 + 'a) act" where
  "ask m = (\<lambda>s. case m s of (s', r) \<Rightarrow> (s', Inr r))"

lemma ask_step [simp]: "m s = (s', r) \<Longrightarrow> ask m s = (s', Inr r)"
  by (simp add: ask_def)

lemma keeps_ask [keeping]: "keeps P m \<Longrightarrow> keeps P (ask m)"
  by (rule keepsI) (auto simp: ask_def split: prod.splits dest: keepsD)

subsection \<open>Nodes\<close>

datatype fs_error = FsNotFound | FsInvalid

definition ROOT_MTIME :: int where "ROOT_MTIME = 477033600"
definition CATEGORY_MTIME :: int where "CATEGORY_MTIME = 477033666"
definition DIR_SIZE :: nat where "DIR_SIZE = 4096"

record fs_info =
  fi_name :: string
  fi_size :: nat
  fi_mode :: nat
  fi_mtime :: int
  fi_is_dir :: bool

datatype fs_node =
    FsRoot
  | FsCategory string
  | FsDir torrent_view string string
  | FsFile torrent_view string torrent_file_view

definition dir_info :: "string \<Rightarrow> int \<Rightarrow> fs_info" where
  "dir_info name mtime =
     \<lparr>fi_name = name, fi_size = DIR_SIZE, fi_mode = 365, fi_mtime = mtime, fi_is_dir = True\<rparr>"

fun node_info :: "fs_node \<Rightarrow> fs_info" where
  "node_info FsRoot = dir_info ''/'' ROOT_MTIME"
| "node_info (FsCategory name) = dir_info name CATEGORY_MTIME"
| "node_info (FsDir t name path) = dir_info name (tv_timestamp t)"
| "node_info (FsFile t name f) =
     \<lparr>fi_name = name, fi_size = fv_length f, fi_mode = 292, fi_mtime = tv_timestamp t, fi_is_dir = False\<rparr>"

abbreviation node_name :: "fs_node \<Rightarrow> string" where
  "node_name n \<equiv> fi_name (node_info n)"

fun is_file :: "fs_node \<Rightarrow> bool" where
  "is_file (FsFile t name f) = True"
| "is_file n = False"

subsection \<open>Names\<close>

text \<open>The characters concerned are ASCII, so the map over characters is a map over bytes.\<close>

definition sanitize_name :: "string \<Rightarrow> string" where
  "sanitize_name name =
     (let mapped = concat (map (\<lambda>c.
            if c = CHR ''/'' \<or> c = CHR 0x5C then ''_''
            else if byte_val c \<le> 31 \<or> byte_val c = 127 then []
            else [c]) name);
          trimmed = trim mapped
      in if trimmed = [] \<or> trimmed = ''.'' \<or> trimmed = ''..'' then [] else trimmed)"

definition category_name :: "string \<Rightarrow> string" where
  "category_name category = (let name = sanitize_name category in if name = [] then ''other'' else name)"

definition hash_text :: "torrent_view \<Rightarrow> string" where
  "hash_text t = to_ascii_lowercase (case tv_hash t of None \<Rightarrow> [] | Some h \<Rightarrow> h)"

definition torrent_name :: "torrent_view \<Rightarrow> string" where
  "torrent_name t = (let name = sanitize_name (tv_title t) in if name = [] then hash_text t else name)"

definition got_info :: "torrent_view \<Rightarrow> bool" where
  "got_info t = (tv_stat t < 4 \<and> tv_file_stats t \<noteq> [])"

definition strip_dir :: "string \<Rightarrow> string \<Rightarrow> string option" where
  "strip_dir dir path =
     (case strip_prefix path dir of None \<Rightarrow> None | Some rest \<Rightarrow> strip_prefix rest ''/'')"

definition fs_display_path :: "torrent_view \<Rightarrow> torrent_file_view \<Rightarrow> string" where
  "fs_display_path t f =
     (case strip_dir (case tv_name t of None \<Rightarrow> [] | Some n \<Rightarrow> n) (fv_path f) of
        None \<Rightarrow> fv_path f
      | Some rest \<Rightarrow> rest)"

definition valid_element :: "string \<Rightarrow> bool" where
  "valid_element e = (e \<noteq> [] \<and> e \<noteq> ''.'' \<and> e \<noteq> ''..'')"

definition valid_path :: "string \<Rightarrow> bool" where
  "valid_path name =
     (name = ''.'' \<or> name \<noteq> [] \<and> list_all valid_element (split_on (CHR ''/'') name))"

subsection \<open>Go's path.Clean\<close>

fun clean_part :: "bool \<Rightarrow> string list \<Rightarrow> string \<Rightarrow> string list" where
  "clean_part rooted parts p =
     (if p = [] \<or> p = ''.'' then parts
      else if p = ''..'' then
        (if parts \<noteq> [] \<and> last parts \<noteq> ''..'' then butlast parts
         else if \<not> rooted then parts @ [''..'']
         else parts)
      else parts @ [p])"

definition clean :: "string \<Rightarrow> string" where
  "clean path =
     (let rooted = starts_with path ''/'';
          joined = join ''/'' (foldl (clean_part rooted) [] (split_on (CHR ''/'') path))
      in if rooted then ''/'' @ joined else if joined = [] then ''.'' else joined)"

subsection \<open>Directories\<close>

definition fs_torrents :: "'c client_core \<Rightarrow> ('c, fs_error, torrent_view list) act" where
  "fs_torrents core =
     bnd (ask (cc_torrents core ListCmd)) (\<lambda>r.
     ret (case r of Inr (ListReply ts) \<Rightarrow> ts | _ \<Rightarrow> []))"

text \<open>\<open>i32\<close> multiplication by two in a release build.\<close>

definition wrap_i32 :: "int \<Rightarrow> int" where
  "wrap_i32 x = (x + 2 ^ 31) mod 2 ^ 32 - 2 ^ 31"

fun load_attempts :: "'c client_core \<Rightarrow> string \<Rightarrow> nat \<Rightarrow> ('c, fs_error, torrent_view) act" where
  "load_attempts core h 0 = raise FsNotFound"
| "load_attempts core h (Suc n) =
     bnd (ask (cc_torrents core (AddCmd (add_request_default\<lparr>rq_link := h\<rparr>)))) (\<lambda>r.
     case r of
       Inr (TorrentReply (Some v)) \<Rightarrow> if got_info v then ret v else load_attempts core h n
     | _ \<Rightarrow> load_attempts core h n)"

definition fs_loaded :: "'c client_core \<Rightarrow> torrent_view \<Rightarrow> ('c, fs_error, torrent_view) act" where
  "fs_loaded core t =
     (if got_info t then ret t
      else
        bnd (ask (cc_settings core GetSettings)) (\<lambda>r.
        let attempts = (case r of
              Inl e \<Rightarrow> 60
            | Inr st \<Rightarrow> wrap_i32 (max (torrent_disconnect_timeout st) 0 * 2))
        in load_attempts core (hash_text t) (nat attempts)))"

text \<open>One file of a torrent, as an entry of the directory \<open>path\<close> inside it.\<close>

definition add_entry ::
    "torrent_view \<Rightarrow> string \<Rightarrow> fs_node list \<Rightarrow> torrent_file_view \<Rightarrow> fs_node list" where
  "add_entry t path children f =
     (case (if path = [] then Some (fs_display_path t f) else strip_dir path (fs_display_path t f)) of
        None \<Rightarrow> children
      | Some relative \<Rightarrow>
          (let first = hd (split_on (CHR ''/'') relative) in
           if first = [] then children
           else if CHR ''/'' \<notin> set relative then
             filter (\<lambda>n. node_name n \<noteq> first) children @ [FsFile t first f]
           else if \<exists>n \<in> set children. node_name n = first then children
           else children @ [FsDir t first (if path = [] then first else path @ ''/'' @ first)]))"

definition by_name :: "fs_node \<Rightarrow> fs_node \<Rightarrow> bool" where
  "by_name a b = (node_name a \<le> node_name b)"

fun read_dir :: "'c client_core \<Rightarrow> fs_node \<Rightarrow> ('c, fs_error, fs_node list) act" where
  "read_dir core FsRoot =
     bnd (fs_torrents core) (\<lambda>ts.
     ret (sort_by by_name
            (map FsCategory (remdups_adj (sort_by (\<le>) (map (\<lambda>t. category_name (tv_category t)) ts))))))"
| "read_dir core (FsCategory category) =
     bnd (ask (cc_settings core GetSettings)) (\<lambda>r.
     let only_loaded = (case r of Inl e \<Rightarrow> True | Inr st \<Rightarrow> show_fs_active_torr st) in
     bnd (fs_torrents core) (\<lambda>ts.
     ret (map (\<lambda>t. FsDir t (torrent_name t) [])
            (filter (\<lambda>t. \<not> only_loaded \<or> got_info t)
              (filter (\<lambda>t. category_name (tv_category t) = category) ts)))))"
| "read_dir core (FsDir t name path) =
     bnd (fs_loaded core t) (\<lambda>t'.
     ret (sort_by by_name (foldl (add_entry t' path) [] (tv_file_stats t'))))"
| "read_dir core (FsFile t name f) = raise FsInvalid"

subsection \<open>Opening a path\<close>

fun walk_path :: "'c client_core \<Rightarrow> fs_node \<Rightarrow> string list \<Rightarrow> ('c, fs_error, fs_node) act" where
  "walk_path core n [] = ret n"
| "walk_path core n (e # es) =
     (if is_file n then ret n
      else
        bnd (read_dir core n) (\<lambda>children.
        case List.find (\<lambda>k. node_name k = e) children of
          None \<Rightarrow> raise FsNotFound
        | Some k \<Rightarrow> walk_path core k es))"

definition fs_open :: "'c client_core \<Rightarrow> string \<Rightarrow> ('c, fs_error, fs_node) act" where
  "fs_open core name =
     (let name = clean name in
      if name = ''.'' \<or> name = ''/'' \<or> name = [] then ret FsRoot
      else
        let name = dropWhile (\<lambda>c. c = CHR ''/'') name in
        if \<not> valid_path name then raise FsInvalid
        else walk_path core FsRoot (split_on (CHR ''/'') name))"

definition fs_stat :: "'c client_core \<Rightarrow> string \<Rightarrow> ('c, fs_error, fs_info) act" where
  "fs_stat core name = bnd (fs_open core name) (\<lambda>n. ret (node_info n))"

end
