(* ===== verification/VfsProps.thy ===== *)
theory VfsProps
  imports Vfs
begin

text \<open>
  The tree as clients see it: a listing and the paths below it agree.
\<close>

definition plain :: "string \<Rightarrow> bool" where
  "plain e = (valid_element e \<and> CHR ''/'' \<notin> set e)"

lemma plainD [simp]: "plain e \<Longrightarrow> e \<noteq> []" "plain e \<Longrightarrow> e \<noteq> ''.''" "plain e \<Longrightarrow> e \<noteq> ''..''"
    "plain e \<Longrightarrow> CHR ''/'' \<notin> set e" "plain e \<Longrightarrow> valid_element e"
  by (simp_all add: plain_def valid_element_def)

subsection \<open>Paths of plain elements\<close>

lemma split_on_plain: "list_all plain es \<Longrightarrow> es \<noteq> [] \<Longrightarrow> split_on (CHR ''/'') (join ''/'' es) = es"
  by (intro split_on_join) (auto simp: list_all_iff)

lemma clean_parts_plain: "list_all plain es \<Longrightarrow> foldl (clean_part r) ps es = ps @ es"
  by (induction es arbitrary: ps) auto

lemma join_plain:
  assumes "list_all plain es" "es \<noteq> []"
  shows "\<exists>c s. join ''/'' es = c # s \<and> c \<noteq> CHR ''/''"
proof -
  obtain e r where es: "es = e # r" using assms(2) by (cases es) auto
  with assms(1) have "e \<noteq> []" "CHR ''/'' \<notin> set e" by simp_all
  then obtain c s where "e = c # s" "c \<noteq> CHR ''/''" by (cases e) auto
  then show ?thesis using es by (cases r) auto
qed

lemma clean_plain:
  assumes "list_all plain es"
  shows "clean (join ''/'' es) = (if es = [] then ''.'' else join ''/'' es)"
    "clean (''/'' @ join ''/'' es) = ''/'' @ join ''/'' es"
proof -
  show "clean (join ''/'' es) = (if es = [] then ''.'' else join ''/'' es)"
  proof (cases "es = []")
    case False
    obtain c s where "join ''/'' es = c # s" "c \<noteq> CHR ''/''" using join_plain [OF assms False] by blast
    then show ?thesis
      using False clean_parts_plain [OF assms, of _ "[]"] split_on_plain [OF assms False]
      by (auto simp: clean_def starts_with_def)
  qed (simp add: clean_def starts_with_def)
  show "clean (''/'' @ join ''/'' es) = ''/'' @ join ''/'' es"
    using clean_parts_plain [OF assms, of _ "[]"] split_on_plain [OF assms]
    by (cases "es = []") (simp_all add: clean_def starts_with_def)
qed

lemma valid_path_plain: "list_all plain es \<Longrightarrow> es \<noteq> [] \<Longrightarrow> valid_path (join ''/'' es)"
  using join_plain [of es] by (auto simp: valid_path_def split_on_plain list_all_iff)

lemma fs_open_plain:
  assumes "list_all plain es"
  shows "fs_open core (join ''/'' es) = walk_path core FsRoot es"
    "fs_open core (''/'' @ join ''/'' es) = walk_path core FsRoot es"
proof -
  have d: "es \<noteq> [] \<Longrightarrow> dropWhile (\<lambda>c. c = CHR ''/'') (join ''/'' es) = join ''/'' es"
    "es \<noteq> [] \<Longrightarrow> join ''/'' es \<noteq> [] \<and> join ''/'' es \<noteq> ''/''"
    using join_plain [OF assms] by auto
  have dot: "es \<noteq> [] \<Longrightarrow> join ''/'' es \<noteq> ''.''"
  proof
    assume "es \<noteq> []" "join ''/'' es = ''.''"
    then have "es = split_on (CHR ''/'') ''.''" using split_on_plain [OF assms] by metis
    then have "es = [''.'']" by simp
    then show False using assms by (simp add: plain_def valid_element_def)
  qed
  show "fs_open core (join ''/'' es) = walk_path core FsRoot es"
  proof (cases "es = []")
    case True
    then show ?thesis by (simp add: fs_open_def clean_def starts_with_def)
  next
    case False
    then show ?thesis
      by (simp add: fs_open_def clean_plain [OF assms] d dot valid_path_plain [OF assms] split_on_plain [OF assms])
  qed
  show "fs_open core (''/'' @ join ''/'' es) = walk_path core FsRoot es"
  proof (cases "es = []")
    case True
    then show ?thesis by (simp add: fs_open_def clean_def starts_with_def)
  next
    case False
    let ?j = "join ''/'' es"
    have "clean (CHR ''/'' # ?j) = CHR ''/'' # ?j" using clean_plain(2) [OF assms] by simp
    moreover have "dropWhile (\<lambda>c. c = CHR ''/'') (CHR ''/'' # ?j) = ?j" using d(1) [OF False] by simp
    ultimately show ?thesis
      using d(2) [OF False] valid_path_plain [OF assms False] split_on_plain [OF assms False]
      unfolding fs_open_def Let_def by simp
  qed
qed

lemma bnd_ret [simp]: "bnd (ret x) f = f x"
  by (simp add: fun_eq_iff bnd_def)

lemma walk_append:
  "walk_path core n (es @ fs) = bnd (walk_path core n es) (\<lambda>m. walk_path core m fs)"
proof (induction es arbitrary: n)
  case (Cons e es)
  show ?case
  proof (cases "is_file n")
    case True
    then show ?thesis by (cases fs) simp_all
  next
    case False
    then show ?thesis
      by (auto simp: bnd_assoc Cons.IH fun_eq_iff bnd_def split: option.split prod.split sum.split)
  qed
qed simp

subsection \<open>Listings\<close>

lemma distinct_sort_by: "distinct (map f (sort_by le xs)) = distinct (map f xs)"
  by (metis mset_map mset_sort_by mset_eq_imp_distinct_iff)

lemma distinct_replace:
  "distinct (map f xs) \<Longrightarrow> distinct (map f (filter (\<lambda>x. f x \<noteq> f y) xs @ [y]))"
  by (induction xs) auto

lemma distinct_add_last:
  "distinct (map f xs) \<Longrightarrow> \<not> (\<exists>x \<in> set xs. f x = f y) \<Longrightarrow> distinct (map f (xs @ [y]))"
  by (induction xs) auto

lemma add_entry_distinct:
  assumes "distinct (map node_name ns)"
  shows "distinct (map node_name (add_entry t p ns f))"
proof -
  have "distinct (map node_name
          (if x = [] then ns
           else if b then filter (\<lambda>n. node_name n \<noteq> x) ns @ [FsFile t x f]
           else if \<exists>n \<in> set ns. node_name n = x then ns
           else ns @ [FsDir t x y]))" for b x y
    using distinct_replace [OF assms, of "FsFile t x f"] distinct_add_last [OF assms, of "FsDir t x y"] assms
    by (simp add: dir_info_def del: map_append)
  with assms show ?thesis
    by (simp only: add_entry_def Let_def split: option.split) blast
qed

lemma add_entries_distinct:
  "distinct (map node_name ns) \<Longrightarrow> distinct (map node_name (foldl (add_entry t p) ns fs))"
  by (induction fs arbitrary: ns) (simp_all add: add_entry_distinct)

lemma sorted_by_name: "sorted (map node_name (sort_by by_name ns))"
proof -
  have "sorted_wrt by_name (sort_by by_name ns)"
    by (rule sorted_sort_by) (auto simp: by_name_def)
  then show ?thesis by (simp add: sorted_map by_name_def [abs_def])
qed

lemma distinct_adjacent: "sorted xs \<Longrightarrow> distinct (remdups_adj xs)"
  by (induction xs rule: remdups_adj.induct) auto

lemma distinct_categories:
  "distinct (map node_name (map FsCategory (remdups_adj (sort_by (\<le>) (xs :: string list)))))"
proof -
  have "sorted (sort_by (\<le>) xs)" by (rule sorted_sort_by) auto
  then have "distinct (remdups_adj (sort_by (\<le>) xs))"
    by (rule distinct_adjacent)
  then show ?thesis by (simp add: comp_def dir_info_def)
qed

lemma read_dir_sorted:
  assumes "read_dir core n c = (c', Inr ns)" "\<forall>k. n \<noteq> FsCategory k"
  shows "sorted_wrt (<) (map node_name ns)"
proof -
  have "sorted (map node_name ns) \<and> distinct (map node_name ns)"
  proof (cases n)
    case FsRoot
    with assms(1) show ?thesis
      by (auto elim!: bnd_OkE simp: sorted_by_name distinct_sort_by distinct_categories simp del: map_map)
  next
    case (FsDir t x p)
    with assms(1) show ?thesis
      by (auto elim!: bnd_OkE simp: sorted_by_name distinct_sort_by add_entries_distinct)
  qed (use assms in auto)
  then show ?thesis by (simp add: strict_sorted_iff)
qed

subsection \<open>Listing and opening\<close>

text \<open>
  C30. Opening a path below a directory is opening the directory and taking the first entry of
  that name from its listing; a name that is not listed is not found. Every directory lists its
  entries in name order without repetitions, except a category, where two torrents may have the
  same title: then only the first of them can be opened.
\<close>

theorem listed_nodes_open:
  assumes "list_all plain es" "plain x"
    and "fs_open core (join ''/'' es) c = (c1, Inr n)" "\<not> is_file n"
    and "read_dir core n c1 = (c2, Inr ns)"
  shows "(\<forall>i < length ns. node_name (ns ! i) = x \<and> (\<forall>j < i. node_name (ns ! j) \<noteq> x) \<longrightarrow>
            fs_open core (join ''/'' (es @ [x])) c = (c2, Inr (ns ! i)))
    \<and> (x \<notin> node_name ` set ns \<longrightarrow> fs_open core (join ''/'' (es @ [x])) c = (c2, Inl FsNotFound))
    \<and> ((\<forall>k. n \<noteq> FsCategory k) \<longrightarrow> sorted_wrt (<) (map node_name ns))"
proof (intro conjI allI impI)
  have plain: "list_all plain (es @ [x])" using assms(1,2) by simp
  have find: "fs_open core (join ''/'' (es @ [x])) c =
      (case List.find (\<lambda>k. node_name k = x) ns of None \<Rightarrow> (c2, Inl FsNotFound) | Some k \<Rightarrow> (c2, Inr k))"
    using assms(3-5) unfolding fs_open_plain(1) [OF plain] fs_open_plain(1) [OF assms(1)] walk_append
    by (simp split: option.split)
  fix i
  assume "i < length ns" "node_name (ns ! i) = x \<and> (\<forall>j < i. node_name (ns ! j) \<noteq> x)"
  then have "List.find (\<lambda>k. node_name k = x) ns = Some (ns ! i)" by (auto simp: find_Some_iff)
  with find show "fs_open core (join ''/'' (es @ [x])) c = (c2, Inr (ns ! i))" by simp
next
  have plain: "list_all plain (es @ [x])" using assms(1,2) by simp
  assume "x \<notin> node_name ` set ns"
  then have "List.find (\<lambda>k. node_name k = x) ns = None" by (auto simp: find_None_iff)
  then show "fs_open core (join ''/'' (es @ [x])) c = (c2, Inl FsNotFound)"
    using assms(3-5) unfolding fs_open_plain(1) [OF plain] fs_open_plain(1) [OF assms(1)] walk_append by simp
next
  assume "\<forall>k. n \<noteq> FsCategory k"
  with assms(5) show "sorted_wrt (<) (map node_name ns)" by (rule read_dir_sorted)
qed

text \<open>The tree of the crate's own test: a show of three files and a film without a title.\<close>

definition tree_view :: "string \<Rightarrow> string \<Rightarrow> string \<Rightarrow> (string \<times> nat) list \<Rightarrow> torrent_view" where
  "tree_view title category name files =
     \<lparr>tv_title = title, tv_category = category, tv_poster = [], tv_data = None, tv_timestamp = 1700000000,
      tv_name = Some name, tv_hash = Some ''0202'', tv_torrs_hash = None, tv_stat = 3, tv_stat_string = [],
      tv_loaded_size = None, tv_torrent_size = None, tv_download_speed = None, tv_upload_speed = None,
      tv_total_peers = None, tv_active_peers = None, tv_connected_seeders = None,
      tv_bytes_written = None, tv_bytes_read = None,
      tv_file_stats = map (\<lambda>(p, l). \<lparr>fv_id = 1, fv_path = p, fv_length = l, fv_engine_index = 0\<rparr>) files\<rparr>"

definition tree_show :: torrent_view where
  "tree_show = tree_view ''Show/Season'' [] ''Show''
     [(''Show/02 B/two.mkv'', 20), (''Show/01 A/one.mkv'', 10), (''Show/notes.txt'', 3)]"

definition tree_core :: "unit client_core" where
  "tree_core =
     \<lparr>cc_torrents = (\<lambda>cmd. ret (case cmd of
          ListCmd \<Rightarrow> ListReply [tree_show, tree_view [] ''movie'' ''film.mp4'' [(''film.mp4'', 7)]]
        | _ \<Rightarrow> EmptyReply)),
      cc_playback = (\<lambda>pq. raise (NotFound (pq_hash pq))), cc_settings = (\<lambda>_. ret settings_default),
      cc_viewed = (\<lambda>_. ret []), cc_cache = (\<lambda>_. ret \<lparr>cv_snapshots = [], cv_capacity = 0, cv_filled = 0\<rparr>),
      cc_waf = (\<lambda>_. ret \<lparr>wl_whitelist = [], wl_blacklist = [], wl_referers = []\<rparr>)\<rparr>"

lemma tree_names:
  "sort_by (\<le>) [''other'', ''movie''] = [''movie'', ''other'']"
  "category_name (tv_category tree_show) = ''other''" "category_name ''movie'' = ''movie''"
  "torrent_name tree_show = ''Show_Season''"
  "got_info tree_show"
  by code_simp+

lemma tree_entries:
  "sort_by by_name [FsCategory ''movie'', FsCategory ''other''] = [FsCategory ''movie'', FsCategory ''other'']"
  "sort_by by_name (foldl (add_entry tree_show []) [] (tv_file_stats tree_show))
   = [FsDir tree_show ''01 A'' ''01 A'', FsDir tree_show ''02 B'' ''02 B'',
      FsFile tree_show ''notes.txt'' \<lparr>fv_id = 1, fv_path = ''Show/notes.txt'', fv_length = 3, fv_engine_index = 0\<rparr>]"
  by code_simp+

lemma tree_core_calls:
  "fs_torrents tree_core = ret [tree_show, tree_view [] ''movie'' ''film.mp4'' [(''film.mp4'', 7)]]"
  "ask (cc_settings tree_core GetSettings) = ret (Inr settings_default)"
  "show_fs_active_torr settings_default"
  "tv_category (tree_view a b n fs) = b"
  by (simp_all add: tree_core_def fs_torrents_def ask_def bnd_def ret_def fun_eq_iff settings_default_def
      tree_view_def)

lemma tree_open:
  "fs_open tree_core (join ''/'' [''other'', ''Show_Season'']) ()
   = ((), Inr (FsDir tree_show ''Show_Season'' []))"
proof -
  have "list_all plain [''other'', ''Show_Season'']" by code_simp
  note o = fs_open_plain(1) [OF this, of tree_core]
  show ?thesis
    unfolding o by (simp add: tree_core_calls tree_names tree_entries dir_info_def)
qed

theorem listed_nodes_open_witness:
  "fs_open tree_core ''other/Show_Season/notes.txt'' ()
   = ((), Inr (FsFile tree_show ''notes.txt'' \<lparr>fv_id = 1, fv_path = ''Show/notes.txt'', fv_length = 3, fv_engine_index = 0\<rparr>))
   \<and> fs_open tree_core ''other/Show_Season/absent'' () = ((), Inl FsNotFound)"
proof -
  have p: "list_all plain [''other'', ''Show_Season'']" "plain ''notes.txt''" "plain ''absent''" by code_simp+
  let ?d = "FsDir tree_show ''Show_Season'' []"
  let ?ns = "sort_by by_name (foldl (add_entry tree_show []) [] (tv_file_stats tree_show))"
  have r: "read_dir tree_core ?d () = ((), Inr ?ns)" by (simp add: fs_loaded_def tree_names)
  have "fs_open tree_core (join ''/'' ([''other'', ''Show_Season''] @ [''notes.txt''])) () = ((), Inr (?ns ! 2))"
    using listed_nodes_open [OF p(1,2) tree_open _ r] unfolding tree_entries
    by (auto simp: less_Suc_eq numeral_2_eq_2 dir_info_def)
  moreover have "fs_open tree_core (join ''/'' ([''other'', ''Show_Season''] @ [''absent''])) () = ((), Inl FsNotFound)"
    using listed_nodes_open [OF p(1,3) tree_open _ r] unfolding tree_entries by (simp add: dir_info_def)
  ultimately show ?thesis unfolding tree_entries by simp
qed

end
