(* ===== verification/DavLock.thy ===== *)
theory DavLock
  imports Vfs
begin

text \<open>
  \<open>rustorr-http/src/webdav/lock.rs\<close>: the lock table of the WebDAV mount and the parsers of the
  \<open>Timeout\<close> and \<open>If\<close> headers. Instants and durations are nanoseconds. The table's methods are
  actions on it; besides the errors of the code an action may stop with \<open>Panicked\<close>, where the code
  indexes a map or calls \<open>expect\<close>.
\<close>

subsection \<open>Data\<close>

datatype lock_error = ConfirmationFailed | Locked | NoSuchLock

datatype lock_stop = LockErr lock_error | Panicked

record lock_condition =
  cond_not :: bool
  cond_token :: string
  cond_etag :: string

definition condition_default :: lock_condition where
  "condition_default = \<lparr>cond_not = False, cond_token = [], cond_etag = []\<rparr>"

record lock_details =
  ld_root :: string
  ld_duration :: "nat option"
  ld_owner_xml :: string
  ld_zero_depth :: bool

record lock_node =
  ln_details :: lock_details
  ln_token :: string
  ln_ref_count :: nat
  ln_expiry :: "nat option"
  ln_held :: bool

record mem_ls =
  ml_by_name :: "(string \<times> lock_node) list"
  ml_by_token :: "string \<rightharpoonup> string"
  ml_generation :: nat

type_synonym 'a lock_act = "(mem_ls, lock_stop, 'a) act"

definition mem_ls_new :: "nat \<Rightarrow> mem_ls" where
  "mem_ls_new start =
     \<lparr>ml_by_name = [], ml_by_token = Map.empty, ml_generation = start\<rparr>"

abbreviation node_at :: "mem_ls \<Rightarrow> string \<rightharpoonup> lock_node" where
  "node_at ls \<equiv> map_of (ml_by_name ls)"

definition put_node :: "string \<Rightarrow> lock_node \<Rightarrow> mem_ls \<Rightarrow> mem_ls" where
  "put_node k n ls = ls\<lparr>ml_by_name := hm_insert k n (ml_by_name ls)\<rparr>"

subsection \<open>Names\<close>

text \<open>\<open>truncate(rfind('/').unwrap_or(0))\<close>, and the root for what would be empty.\<close>

definition cut_name :: "string \<Rightarrow> string" where
  "cut_name name =
     (let cut = rev (drop 1 (dropWhile (\<lambda>c. c \<noteq> CHR ''/'') (rev name)))
      in if cut = [] then ''/'' else cut)"

lemma cut_name_shorter: "cut_name name = ''/'' \<or> length (cut_name name) < length name"
proof (cases name)
  case (Cons c cs)
  then have "length (drop 1 (dropWhile (\<lambda>c. c \<noteq> CHR ''/'') (rev name))) < length name"
    using length_dropWhile_le [of "\<lambda>c. c \<noteq> CHR ''/''" "rev name"] by simp
  then show ?thesis unfolding cut_name_def Let_def by (simp split: if_splits)
qed (simp add: cut_name_def)

function walk_to_root ::
    "(string \<Rightarrow> bool \<Rightarrow> 's \<Rightarrow> 's \<times> bool) \<Rightarrow> string \<Rightarrow> bool \<Rightarrow> 's \<Rightarrow> 's \<times> bool" where
  "walk_to_root visit name first s =
     (case visit name first s of
        (s', go) \<Rightarrow>
          if \<not> go then (s', False)
          else if name = ''/'' then (s', True)
          else walk_to_root visit (cut_name name) False s')"
  by pat_completeness auto
termination
proof (relation "measure (\<lambda>(v, name, f, s). if name = ''/'' then 0 else length name + 1)")
  fix visit :: "string \<Rightarrow> bool \<Rightarrow> 's \<Rightarrow> 's \<times> bool"
  fix name first s x s' go
  assume "name \<noteq> ''/''"
  then show "((visit, cut_name name, False, s'), visit, name, first, s)
      \<in> measure (\<lambda>(v, name, f, s). if name = ''/'' then 0 else length name + 1)"
    using cut_name_shorter [of name] by auto
qed simp

declare walk_to_root.simps [simp del]

definition slash_clean :: "string \<Rightarrow> string" where
  "slash_clean name = (if starts_with name ''/'' then clean name else clean (''/'' @ name))"

subsection \<open>Releasing and expiring\<close>

text \<open>A lock is forgotten: its node stays while locks below it need it.\<close>

definition drop_ref :: "string \<Rightarrow> bool \<Rightarrow> mem_ls \<Rightarrow> mem_ls \<times> bool" where
  "drop_ref name first ls =
     (case node_at ls name of
        None \<Rightarrow> (ls, True)
      | Some n \<Rightarrow>
          (let n' = n\<lparr>ln_ref_count := sub64 (ln_ref_count n) 1\<rparr> in
           if ln_ref_count n' = 0 then (ls\<lparr>ml_by_name := hm_remove name (ml_by_name ls)\<rparr>, True)
           else (put_node name n' ls, True)))"

definition lock_remove :: "string \<Rightarrow> mem_ls \<Rightarrow> mem_ls" where
  "lock_remove base ls =
     (let ls = (case node_at ls base of
          None \<Rightarrow> ls
        | Some n \<Rightarrow>
            put_node base (n\<lparr>ln_token := [], ln_expiry := None\<rparr>)
              (ls\<lparr>ml_by_token := (ml_by_token ls)(ln_token n := None)\<rparr>))
      in fst (walk_to_root drop_ref base True ls))"

definition expired :: "nat \<Rightarrow> lock_node \<Rightarrow> bool" where
  "expired now n =
     (\<not> ln_held n \<and> ln_token n \<noteq> [] \<and>
      (case ln_expiry n of None \<Rightarrow> False | Some e \<Rightarrow> e \<le> now))"

definition collect_expired :: "nat \<Rightarrow> mem_ls \<Rightarrow> mem_ls" where
  "collect_expired now ls =
     fold lock_remove
       (map (\<lambda>n. ld_root (ln_details n)) (filter (expired now) (map snd (ml_by_name ls)))) ls"

definition set_held :: "bool \<Rightarrow> string \<Rightarrow> mem_ls \<Rightarrow> mem_ls" where
  "set_held b base ls =
     (case node_at ls base of None \<Rightarrow> ls | Some n \<Rightarrow> put_node base (n\<lparr>ln_held := b\<rparr>) ls)"

definition lock_release :: "string list \<Rightarrow> unit lock_act" where
  "lock_release roots = modify (fold (set_held False) roots)"

subsection \<open>Confirming\<close>

fun lookup :: "mem_ls \<Rightarrow> string \<Rightarrow> lock_condition list \<Rightarrow> lock_stop + string option" where
  "lookup ls name [] = Inr None"
| "lookup ls name (c # cs) =
     (case ml_by_token ls (cond_token c) of
        None \<Rightarrow> lookup ls name cs
      | Some base \<Rightarrow>
          (case node_at ls base of
             None \<Rightarrow> Inl Panicked
           | Some n \<Rightarrow>
               if ln_held n then lookup ls name cs
               else if name = ld_root (ln_details n) then Inr (Some base)
               else if ld_zero_depth (ln_details n) then lookup ls name cs
               else if ld_root (ln_details n) = ''/''
                       \<or> starts_with name (ld_root (ln_details n) @ ''/'') then Inr (Some base)
               else lookup ls name cs))"

fun confirm_roots :: "lock_condition list \<Rightarrow> string list \<Rightarrow> string list \<Rightarrow> string list lock_act" where
  "confirm_roots conds [] roots = ret roots"
| "confirm_roots conds (name # names) roots =
     (if name = [] then confirm_roots conds names roots
      else
        bnd (try_gets (\<lambda>ls. lookup ls (slash_clean name) conds)) (\<lambda>found.
        case found of
          None \<Rightarrow> raise (LockErr ConfirmationFailed)
        | Some base \<Rightarrow>
            confirm_roots conds names (if base \<in> set roots then roots else roots @ [base])))"

definition confirm :: "nat \<Rightarrow> string \<Rightarrow> string \<Rightarrow> lock_condition list \<Rightarrow> string list lock_act" where
  "confirm now name0 name1 conds =
     seq (modify (collect_expired now)) (
     bnd (confirm_roots conds [name0, name1] []) (\<lambda>held.
     seq (modify (fold (set_held True) held)) (ret held)))"

subsection \<open>Creating, refreshing, unlocking\<close>

definition may_lock :: "mem_ls \<Rightarrow> bool \<Rightarrow> string \<Rightarrow> bool \<Rightarrow> bool" where
  "may_lock ls zero_depth name first =
     (case node_at ls name of
        None \<Rightarrow> True
      | Some n \<Rightarrow>
          if first then ln_token n = [] \<and> zero_depth
          else ln_token n = [] \<or> ld_zero_depth (ln_details n))"

definition can_create :: "mem_ls \<Rightarrow> string \<Rightarrow> bool \<Rightarrow> bool" where
  "can_create ls name zero_depth =
     snd (walk_to_root (\<lambda>name first s. (s, may_lock ls zero_depth name first)) name True ())"

definition fresh_node :: "string \<Rightarrow> lock_node" where
  "fresh_node name =
     \<lparr>ln_details = \<lparr>ld_root = name, ld_duration = None, ld_owner_xml = [], ld_zero_depth = False\<rparr>,
      ln_token = [], ln_ref_count = 0, ln_expiry = None, ln_held = False\<rparr>"

definition add_ref :: "string \<Rightarrow> bool \<Rightarrow> mem_ls \<Rightarrow> mem_ls \<times> bool" where
  "add_ref name first ls =
     (let n = (case node_at ls name of None \<Rightarrow> fresh_node name | Some n \<Rightarrow> n)
      in (put_node name (n\<lparr>ln_ref_count := add64 (ln_ref_count n) 1\<rparr>) ls, True))"

definition lock_create :: "nat \<Rightarrow> lock_details \<Rightarrow> string lock_act" where
  "lock_create now details =
     seq (modify (collect_expired now)) (
     let d = details\<lparr>ld_root := slash_clean (ld_root details)\<rparr> in
     bnd (gets (\<lambda>ls. can_create ls (ld_root d) (ld_zero_depth d))) (\<lambda>free.
     if \<not> free then raise (LockErr Locked)
     else
       seq (modify (\<lambda>ls. fst (walk_to_root add_ref (ld_root d) True ls))) (
       seq (modify (\<lambda>ls. ls\<lparr>ml_generation := add64 (ml_generation ls) 1\<rparr>)) (
       bnd (gets (\<lambda>ls. decimal (ml_generation ls))) (\<lambda>token.
       bnd (try_gets (\<lambda>ls. case node_at ls (ld_root d) of None \<Rightarrow> Inl Panicked | Some n \<Rightarrow> Inr n)) (\<lambda>n.
       seq (modify (put_node (ld_root d)
             (n\<lparr>ln_token := token, ln_expiry := map_option (\<lambda>t. now + t) (ld_duration d),
                ln_details := d\<rparr>))) (
       seq (modify (\<lambda>ls. ls\<lparr>ml_by_token := (ml_by_token ls)(token \<mapsto> ld_root d)\<rparr>)) (
       ret token))))))))"

definition lock_refresh :: "nat \<Rightarrow> string \<Rightarrow> nat option \<Rightarrow> lock_details lock_act" where
  "lock_refresh now token duration =
     seq (modify (collect_expired now)) (
     bnd (try_gets (\<lambda>ls. case ml_by_token ls token of None \<Rightarrow> Inl (LockErr NoSuchLock) | Some r \<Rightarrow> Inr r)) (\<lambda>base.
     bnd (try_gets (\<lambda>ls. case node_at ls base of None \<Rightarrow> Inl (LockErr NoSuchLock) | Some n \<Rightarrow> Inr n)) (\<lambda>n.
     if ln_held n then raise (LockErr Locked)
     else
       let n' = n\<lparr>ln_details := (ln_details n)\<lparr>ld_duration := duration\<rparr>,
                  ln_expiry := map_option (\<lambda>t. now + t) duration\<rparr> in
       seq (modify (put_node base n')) (ret (ln_details n')))))"

definition lock_unlock :: "nat \<Rightarrow> string \<Rightarrow> unit lock_act" where
  "lock_unlock now token =
     seq (modify (collect_expired now)) (
     bnd (try_gets (\<lambda>ls. case ml_by_token ls token of None \<Rightarrow> Inl (LockErr NoSuchLock) | Some r \<Rightarrow> Inr r)) (\<lambda>base.
     bnd (gets (\<lambda>ls. case node_at ls base of None \<Rightarrow> False | Some n \<Rightarrow> ln_held n)) (\<lambda>held.
     if held then raise (LockErr Locked) else modify (lock_remove base))))"

end
