(* ===== verification/DavLockInv.thy ===== *)
theory DavLockInv
  imports DavLock
begin

text \<open>
  The lock table against what it stands for: a map from names to locks. The counted nodes on the
  way from each lock to the root, and the table of tokens, are the representation; \<open>locks\<close> is the
  abstraction and \<open>table_ok\<close> the invariant. Every operation keeps the invariant and does to the
  map what its specification says.
\<close>

subsection \<open>The names from a lock to the root\<close>

function path_up :: "string \<Rightarrow> string list" where
  "path_up name = (if name = ''/'' then [name] else name # path_up (cut_name name))"
  by pat_completeness auto
termination
proof (relation "measure (\<lambda>name. if name = ''/'' then 0 else length name + 1)")
  fix name :: string
  assume "name \<noteq> ''/''"
  then show "(cut_name name, name) \<in> measure (\<lambda>name. if name = ''/'' then 0 else length name + 1)"
    using cut_name_shorter [of name] by auto
qed simp

declare path_up.simps [simp del]

lemma path_up_hd: "path_up name = name # tl (path_up name)"
  by (subst path_up.simps, subst (2) path_up.simps) simp

lemma path_up_self [simp]: "name \<in> set (path_up name)"
  by (subst path_up_hd) simp

lemma path_up_root [simp]: "path_up ''/'' = [''/'']"
  by (simp add: path_up.simps)

lemma path_up_shorter: "a \<in> set (tl (path_up name)) \<Longrightarrow> a = ''/'' \<or> length a < length name"
proof (induction name rule: path_up.induct)
  case (1 name)
  show ?case
  proof (cases "name = ''/''")
    case False
    then have "tl (path_up name) = path_up (cut_name name)" by (simp add: path_up.simps [of name])
    with "1.prems" have "a = cut_name name \<or> a \<in> set (tl (path_up (cut_name name)))"
      by (metis path_up_hd set_ConsD)
    moreover have "a = ''/''" if "cut_name name = ''/''" "a \<in> set (tl (path_up (cut_name name)))"
      using that by simp
    ultimately show ?thesis using "1.IH" [OF False] cut_name_shorter [of name] by fastforce
  qed (use "1.prems" in \<open>simp add: path_up.simps\<close>)
qed

lemma path_up_distinct: "distinct (path_up name)"
proof (induction name rule: path_up.induct)
  case (1 name)
  show ?case
  proof (cases "name = ''/''")
    case False
    then have t: "tl (path_up name) = path_up (cut_name name)" by (simp add: path_up.simps [of name])
    then have "name \<notin> set (path_up (cut_name name))"
      using path_up_shorter [of name name] False by auto
    with 1 [OF False] show ?thesis using False by (simp add: path_up.simps [of name])
  qed (simp add: path_up.simps)
qed

lemma walk_fold:
  assumes "\<And>n f s. visit n f s = (step n s, True)"
  shows "walk_to_root visit name first s = (fold step (path_up name) s, True)"
proof -
  have v: "visit = (\<lambda>n f s. (step n s, True))" using assms by (intro ext)
  show ?thesis
    unfolding v
  proof (induction name arbitrary: first s rule: path_up.induct)
    case (1 name)
    show ?case
      by (cases "name = ''/''"; subst walk_to_root.simps) (simp_all add: 1 path_up.simps [of name])
  qed
qed

lemma walk_check:
  fixes u :: 's
  shows "snd (walk_to_root (\<lambda>n f s. (s, P n f)) name first u)
    \<longleftrightarrow> P name first \<and> (\<forall>a \<in> set (tl (path_up name)). P a False)"
proof (induction name arbitrary: first rule: path_up.induct)
  case (1 name)
  let ?v = "\<lambda>n f (s :: 's). (s, P n f)"
  show ?case
  proof (cases "name = ''/''")
    case True
    then show ?thesis by (subst walk_to_root.simps) simp
  next
    case False
    have "set (path_up (cut_name name)) = insert (cut_name name) (set (tl (path_up (cut_name name))))"
      by (subst path_up_hd) simp
    then show ?thesis
      using False 1 by (subst walk_to_root.simps) (simp add: path_up.simps [of name])
  qed
qed

subsection \<open>References along a path\<close>

definition lose :: "lock_node option \<Rightarrow> lock_node option" where
  "lose o1 =
     (case o1 of None \<Rightarrow> None
      | Some n \<Rightarrow>
          if sub64 (ln_ref_count n) 1 = 0 then None
          else Some (n\<lparr>ln_ref_count := sub64 (ln_ref_count n) 1\<rparr>))"

definition gain :: "string \<Rightarrow> lock_node option \<Rightarrow> lock_node" where
  "gain k o1 =
     (let n = (case o1 of None \<Rightarrow> fresh_node k | Some n \<Rightarrow> n)
      in n\<lparr>ln_ref_count := add64 (ln_ref_count n) 1\<rparr>)"

definition same_tokens :: "mem_ls \<Rightarrow> mem_ls \<Rightarrow> bool" where
  "same_tokens ls ls' \<longleftrightarrow>
     ml_by_token ls' = ml_by_token ls \<and> ml_generation ls' = ml_generation ls
     \<and> (distinct (map fst (ml_by_name ls)) \<longrightarrow> distinct (map fst (ml_by_name ls')))"

lemma put_node_simps [simp]:
  "node_at (put_node k n ls) = (node_at ls)(k \<mapsto> n)"
  "ml_by_token (put_node k n ls) = ml_by_token ls"
  "ml_generation (put_node k n ls) = ml_generation ls"
  "distinct (map fst (ml_by_name ls)) \<Longrightarrow> distinct (map fst (ml_by_name (put_node k n ls)))"
  by (simp_all add: put_node_def)

lemma drop_ref_step:
  "snd (drop_ref k b ls)"
  "node_at (fst (drop_ref k b ls)) = (node_at ls)(k := lose (node_at ls k))"
  "same_tokens ls (fst (drop_ref k b ls))"
  by (auto simp: drop_ref_def lose_def same_tokens_def Let_def fun_eq_iff split: option.split)

lemma add_ref_step:
  "snd (add_ref k b ls)"
  "node_at (fst (add_ref k b ls)) = (node_at ls)(k \<mapsto> gain k (node_at ls k))"
  "same_tokens ls (fst (add_ref k b ls))"
  by (auto simp: add_ref_def gain_def same_tokens_def Let_def split: option.split)

lemma fold_refs:
  assumes "\<And>k ls. node_at (step k ls) = (node_at ls)(k := f k (node_at ls k))"
    and "\<And>k ls. same_tokens ls (step k ls)" "distinct ks"
  shows "node_at (fold step ks ls) k = (if k \<in> set ks then f k (node_at ls k) else node_at ls k)"
    and "same_tokens ls (fold step ks ls)"
proof -
  show "node_at (fold step ks ls) k = (if k \<in> set ks then f k (node_at ls k) else node_at ls k)"
    using assms(3) by (induction ks arbitrary: ls) (auto simp: assms(1))
  show "same_tokens ls (fold step ks ls)"
  proof (induction ks arbitrary: ls)
    case (Cons a ks)
    then show ?case using assms(2) [of ls a] Cons.IH [of "step a ls"] by (auto simp: same_tokens_def)
  qed (simp add: same_tokens_def)
qed

lemma walk_drop:
  "node_at (fst (walk_to_root drop_ref r b ls)) k
     = (if k \<in> set (path_up r) then lose (node_at ls k) else node_at ls k)"
  "same_tokens ls (fst (walk_to_root drop_ref r b ls))"
proof -
  have w: "walk_to_root drop_ref r b ls = (fold (\<lambda>k s. fst (drop_ref k True s)) (path_up r) ls, True)"
    by (rule walk_fold) (auto simp: drop_ref_def Let_def split: option.split)
  note f = fold_refs [where step = "\<lambda>k s. fst (drop_ref k True s)" and f = "\<lambda>k. lose",
      OF drop_ref_step(2,3) path_up_distinct]
  show "node_at (fst (walk_to_root drop_ref r b ls)) k
      = (if k \<in> set (path_up r) then lose (node_at ls k) else node_at ls k)"
    unfolding w fst_conv by (rule f(1))
  show "same_tokens ls (fst (walk_to_root drop_ref r b ls))" unfolding w fst_conv by (rule f(2))
qed

lemma walk_add:
  "node_at (fst (walk_to_root add_ref r b ls)) k
     = (if k \<in> set (path_up r) then Some (gain k (node_at ls k)) else node_at ls k)"
  "same_tokens ls (fst (walk_to_root add_ref r b ls))"
proof -
  have w: "walk_to_root add_ref r b ls = (fold (\<lambda>k s. fst (add_ref k True s)) (path_up r) ls, True)"
    by (rule walk_fold) (auto simp: add_ref_def Let_def split: option.split)
  note f = fold_refs [where step = "\<lambda>k s. fst (add_ref k True s)" and f = "\<lambda>k o1. Some (gain k o1)",
      OF add_ref_step(2,3) path_up_distinct]
  show "node_at (fst (walk_to_root add_ref r b ls)) k
      = (if k \<in> set (path_up r) then Some (gain k (node_at ls k)) else node_at ls k)"
    unfolding w fst_conv by (rule f(1))
  show "same_tokens ls (fst (walk_to_root add_ref r b ls))" unfolding w fst_conv by (rule f(2))
qed

subsection \<open>What the table stands for\<close>

record dav_lock =
  dl_details :: lock_details
  dl_token :: string
  dl_expiry :: "nat option"
  dl_held :: bool

type_synonym lock_map = "string \<rightharpoonup> dav_lock"

definition node_lock :: "lock_node \<Rightarrow> dav_lock option" where
  "node_lock n =
     (if ln_token n = [] then None
      else Some \<lparr>dl_details = ln_details n, dl_token = ln_token n, dl_expiry = ln_expiry n, dl_held = ln_held n\<rparr>)"

definition locks :: "mem_ls \<Rightarrow> lock_map" where
  "locks ls k = (case node_at ls k of None \<Rightarrow> None | Some n \<Rightarrow> node_lock n)"

definition users :: "lock_map \<Rightarrow> string \<Rightarrow> string set" where
  "users L k = {r \<in> dom L. k \<in> set (path_up r)}"

definition counts_ok :: "mem_ls \<Rightarrow> bool" where
  "counts_ok ls \<longleftrightarrow>
     (\<forall>k. case node_at ls k of
            None \<Rightarrow> users (locks ls) k = {}
          | Some n \<Rightarrow> users (locks ls) k \<noteq> {} \<and> ln_ref_count n = card (users (locks ls) k))"

definition shape_ok :: "mem_ls \<Rightarrow> bool" where
  "shape_ok ls \<longleftrightarrow>
     distinct (map fst (ml_by_name ls)) \<and> ml_generation ls < U64 \<and>
     (\<forall>k n. node_at ls k = Some n \<longrightarrow>
        (ln_token n \<noteq> [] \<longrightarrow> ld_root (ln_details n) = k) \<and> (ln_held n \<longrightarrow> ln_token n \<noteq> []))"

definition tokens_ok :: "mem_ls \<Rightarrow> bool" where
  "tokens_ok ls \<longleftrightarrow>
     (\<forall>t k. ml_by_token ls t = Some k \<longleftrightarrow> (\<exists>l. locks ls k = Some l \<and> dl_token l = t)) \<and>
     (\<forall>k l. locks ls k = Some l \<longrightarrow> (\<exists>g. 0 < g \<and> g \<le> ml_generation ls \<and> dl_token l = decimal g))"

text \<open>An exclusive lock that is not of depth zero has no other lock below it.\<close>

definition exclusive :: "lock_map \<Rightarrow> bool" where
  "exclusive L \<longleftrightarrow>
     (\<forall>r \<in> dom L. \<forall>k l. L k = Some l \<longrightarrow> k \<in> set (path_up r) \<longrightarrow> k \<noteq> r \<longrightarrow> ld_zero_depth (dl_details l))"

definition table_ok :: "mem_ls \<Rightarrow> bool" where
  "table_ok ls \<longleftrightarrow> shape_ok ls \<and> counts_ok ls \<and> tokens_ok ls \<and> exclusive (locks ls)"

lemma table_okD:
  assumes "table_ok ls"
  shows "shape_ok ls" "counts_ok ls" "tokens_ok ls" "exclusive (locks ls)"
  using assms by (simp_all add: table_ok_def)

lemma node_lock_ref [simp]: "node_lock (n\<lparr>ln_ref_count := c\<rparr>) = node_lock n"
  by (simp add: node_lock_def)

lemma node_lock_eq:
  "node_lock n = Some l \<longleftrightarrow>
     ln_token n \<noteq> [] \<and> l = \<lparr>dl_details = ln_details n, dl_token = ln_token n, dl_expiry = ln_expiry n, dl_held = ln_held n\<rparr>"
  by (auto simp: node_lock_def)

lemma locksE:
  assumes "locks ls k = Some l"
  obtains n where "node_at ls k = Some n" "node_lock n = Some l"
  using assms by (auto simp: locks_def split: option.splits)

lemma finite_locks [simp]: "finite (dom (locks ls))"
proof (rule finite_subset)
  show "dom (locks ls) \<subseteq> dom (node_at ls)" by (auto simp: locks_def split: option.splits)
qed (simp add: finite_dom_map_of)

lemma finite_users [simp]: "finite (dom L) \<Longrightarrow> finite (users L k)"
  by (simp add: users_def)

lemma shapeD:
  assumes "shape_ok ls" "node_at ls k = Some n"
  shows "(ln_token n \<noteq> [] \<longrightarrow> ld_root (ln_details n) = k) \<and> (ln_held n \<longrightarrow> ln_token n \<noteq> [])"
  using assms unfolding shape_ok_def by blast

lemma locks_root:
  assumes "shape_ok ls" "locks ls k = Some l"
  shows "ld_root (dl_details l) = k"
  using assms by (auto elim!: locksE simp: node_lock_eq shape_ok_def)

lemma token_number:
  assumes "tokens_ok ls" "locks ls k = Some l"
  obtains g where "0 < g" "g \<le> ml_generation ls" "dl_token l = decimal g"
  using assms unfolding tokens_ok_def by blast

lemma token_lock:
  assumes "tokens_ok ls" "ml_by_token ls t = Some k"
  obtains l n where "locks ls k = Some l" "dl_token l = t" "node_at ls k = Some n" "node_lock n = Some l"
proof -
  obtain l where "locks ls k = Some l" "dl_token l = t" using assms by (auto simp: tokens_ok_def)
  moreover from this(1) obtain n where "node_at ls k = Some n" "node_lock n = Some l" by (rule locksE)
  ultimately show thesis by (rule that)
qed

lemma counts_at:
  assumes "counts_ok ls"
  shows "node_at ls k = None \<Longrightarrow> users (locks ls) k = {}"
    "node_at ls k = Some n \<Longrightarrow> users (locks ls) k \<noteq> {}"
    "node_at ls k = Some n \<Longrightarrow> ln_ref_count n = card (users (locks ls) k)"
  using spec [OF assms [unfolded counts_ok_def], of k] by simp_all

lemma locks_few:
  assumes "tokens_ok ls"
  shows "card (dom (locks ls)) \<le> ml_generation ls"
proof -
  define tok where "tok k = dl_token (the (locks ls k))" for k
  have "inj_on tok (dom (locks ls))"
  proof (rule inj_onI)
    fix a b assume "a \<in> dom (locks ls)" "b \<in> dom (locks ls)" "tok a = tok b"
    then have "ml_by_token ls (tok a) = Some a" "ml_by_token ls (tok a) = Some b"
      using assms by (auto simp: tokens_ok_def tok_def)
    then show "a = b" by simp
  qed
  moreover have "tok ` dom (locks ls) \<subseteq> decimal ` {0 <.. ml_generation ls}"
    using assms by (fastforce simp: tokens_ok_def tok_def)
  ultimately have "card (dom (locks ls)) \<le> card (decimal ` {0 <.. ml_generation ls})"
    by (metis card_image card_mono finite_greaterThanAtMost finite_imageI)
  also have "\<dots> \<le> ml_generation ls"
    using card_image_le [of "{0 <.. ml_generation ls}" decimal] by simp
  finally show ?thesis .
qed

lemma node_used:
  assumes "counts_ok ls" "locks ls r = Some l" "k \<in> set (path_up r)"
  obtains n where "node_at ls k = Some n" "ln_ref_count n = card (users (locks ls) k)" "r \<in> users (locks ls) k"
proof -
  have u: "r \<in> users (locks ls) k" using assms(2,3) by (auto simp: users_def)
  show thesis
  proof (cases "node_at ls k")
    case None
    then have "users (locks ls) k = {}" using counts_at(1) [OF assms(1)] by simp
    with u show ?thesis by blast
  next
    case (Some n)
    then have "ln_ref_count n = card (users (locks ls) k)" by (rule counts_at(3) [OF assms(1)])
    then show ?thesis using that [OF Some] u by blast
  qed
qed

subsection \<open>Removing a lock\<close>

lemma exclusive_mono: "exclusive L \<Longrightarrow> M \<subseteq>\<^sub>m L \<Longrightarrow> exclusive M"
  unfolding exclusive_def map_le_def by (metis (no_types, lifting) domI domD)

lemma lock_remove_ok:
  assumes ok: "table_ok ls" and l: "locks ls r = Some l" "\<not> dl_held l"
  shows "locks (lock_remove r ls) = (locks ls)(r := None)" "table_ok (lock_remove r ls)"
    "ml_generation (lock_remove r ls) = ml_generation ls"
proof -
  obtain n where n: "node_at ls r = Some n" "node_lock n = Some l" using l(1) by (rule locksE)
  have tok: "ln_token n = dl_token l" "ln_held n = dl_held l" using n(2) by (simp_all add: node_lock_eq)
  define n0 where "n0 = n\<lparr>ln_token := [], ln_expiry := None\<rparr>"
  define ls1 where "ls1 = put_node r n0 (ls\<lparr>ml_by_token := (ml_by_token ls)(ln_token n := None)\<rparr>)"
  define ls2 where "ls2 = fst (walk_to_root drop_ref r True ls1)"
  have rm: "lock_remove r ls = ls2" by (simp add: lock_remove_def n(1) ls2_def ls1_def n0_def)
  have at1: "node_at ls1 = (node_at ls)(r \<mapsto> n0)" by (simp add: ls1_def)
  have at2: "node_at ls2 k = (if k \<in> set (path_up r) then lose (node_at ls1 k) else node_at ls1 k)" for k
    unfolding ls2_def by (rule walk_drop(1))
  have same: "same_tokens ls1 ls2" unfolding ls2_def by (rule walk_drop(2))
  have few: "card (users (locks ls) k) < U64" for k
  proof -
    have "card (users (locks ls) k) \<le> card (dom (locks ls))" by (rule card_mono) (auto simp: users_def)
    also have "\<dots> < U64" using locks_few [of ls] ok by (auto simp: table_ok_def shape_ok_def)
    finally show ?thesis .
  qed
  have used: "\<exists>m. node_at ls1 k = Some m \<and> ln_ref_count m = card (users (locks ls) k) \<and> r \<in> users (locks ls) k
      \<and> (m = n0 \<or> k \<noteq> r \<and> node_at ls k = Some m)" if k: "k \<in> set (path_up r)" for k
  proof -
    obtain m where "node_at ls k = Some m" "ln_ref_count m = card (users (locks ls) k)" "r \<in> users (locks ls) k"
      using node_used [OF table_okD(2) [OF ok] l(1) k] by blast
    then show ?thesis using n(1) by (cases "k = r") (auto simp: at1 n0_def)
  qed
  have gone: "users ((locks ls)(r := None)) k = users (locks ls) k - {r}" for k
    by (auto simp: users_def)
  have lose_used: "node_at ls2 k = (if card (users (locks ls) k) = 1 then None
        else Some (m\<lparr>ln_ref_count := card (users (locks ls) k) - 1\<rparr>))"
    if "k \<in> set (path_up r)" "node_at ls1 k = Some m" for k m
  proof -
    have c: "ln_ref_count m = card (users (locks ls) k)" "r \<in> users (locks ls) k"
      using used [OF that(1)] that(2) by auto
    then have "0 < card (users (locks ls) k)" by (auto simp: card_gt_0_iff)
    then have "sub64 (ln_ref_count m) 1 = card (users (locks ls) k) - 1"
      using c(1) few [of k] by (simp add: sub64_in_range)
    then show ?thesis using that \<open>0 < card _\<close> by (auto simp: at2 lose_def)
  qed
  have sole: "locks ls k = None \<or> k = r" if "k \<in> set (path_up r)" "card (users (locks ls) k) = 1" for k
  proof (rule ccontr)
    assume "\<not> (locks ls k = None \<or> k = r)"
    then have "{k, r} \<subseteq> users (locks ls) k" "k \<noteq> r" using that(1) l(1) by (auto simp: users_def)
    then have "2 \<le> card (users (locks ls) k)" using card_mono [of "users (locks ls) k" "{k, r}"] by simp
    with that(2) show False by simp
  qed
  show locks2: "locks (lock_remove r ls) = (locks ls)(r := None)"
  proof
    fix k
    show "locks (lock_remove r ls) k = ((locks ls)(r := None)) k"
    proof (cases "k \<in> set (path_up r)")
      case False
      then show ?thesis by (auto simp: rm locks_def at2 at1)
    next
      case True
      then obtain m where m: "node_at ls1 k = Some m" using used by blast
      have "locks ls1 k = ((locks ls)(r := None)) k"
        using n by (simp add: locks_def at1 n0_def node_lock_def)
      moreover have "locks ls1 k = node_lock m" by (simp add: locks_def m)
      moreover have "locks ls2 k = (if card (users (locks ls) k) = 1 then None else node_lock m)"
        by (simp add: locks_def lose_used [OF True m])
      ultimately show ?thesis using sole [OF True] by (auto simp: rm)
    qed
  qed
  have gen: "ml_generation ls2 = ml_generation ls" "ml_by_token ls2 = (ml_by_token ls)(ln_token n := None)"
    using same by (simp_all add: same_tokens_def ls1_def)
  show "ml_generation (lock_remove r ls) = ml_generation ls" by (simp add: rm gen)
  have shape: "shape_ok (lock_remove r ls)"
  proof -
    have "distinct (map fst (ml_by_name ls2))"
      using same table_okD(1) [OF ok] by (auto simp: same_tokens_def ls1_def shape_ok_def)
    moreover have "(ln_token m \<noteq> [] \<longrightarrow> ld_root (ln_details m) = k) \<and> (ln_held m \<longrightarrow> ln_token m \<noteq> [])"
      if m2: "node_at ls2 k = Some m" for k m
    proof -
      obtain m1 where m1: "node_at ls1 k = Some m1" "ln_token m = ln_token m1"
          "ln_details m = ln_details m1" "ln_held m = ln_held m1"
        using m2 by (auto simp: at2 lose_def split: if_splits option.splits)
      show ?thesis
      proof (cases "k = r")
        case True
        then show ?thesis using m1 l(2) tok by (auto simp: at1 n0_def)
      next
        case False
        then show ?thesis using m1 shapeD [OF table_okD(1) [OF ok], of k m1] by (simp add: at1)
      qed
    qed
    ultimately show ?thesis using table_okD(1) [OF ok] by (simp add: shape_ok_def rm gen)
  qed
  have counts: "counts_ok (lock_remove r ls)"
    unfolding counts_ok_def locks2 gone
  proof
    fix k
    show "case node_at (lock_remove r ls) k of None \<Rightarrow> users (locks ls) k - {r} = {}
        | Some m \<Rightarrow> users (locks ls) k - {r} \<noteq> {} \<and> ln_ref_count m = card (users (locks ls) k - {r})"
    proof (cases "k \<in> set (path_up r)")
      case False
      then have "users (locks ls) k - {r} = users (locks ls) k" "node_at ls2 k = node_at ls k"
        using False by (auto simp: users_def at2 at1)
      then show ?thesis
        using counts_at [OF table_okD(2) [OF ok], of k] by (cases "node_at ls k") (simp_all add: rm)
    next
      case True
      then obtain m where m: "node_at ls1 k = Some m" "r \<in> users (locks ls) k" using used by blast
      have c: "card (users (locks ls) k - {r}) = card (users (locks ls) k) - 1"
        using m(2) by (simp add: card_Diff_singleton)
      have "users (locks ls) k - {r} = {} \<longleftrightarrow> card (users (locks ls) k - {r}) = 0" by simp
      also have "\<dots> \<longleftrightarrow> card (users (locks ls) k) = 1"
        using c m(2) card_gt_0_iff [of "users (locks ls) k"] by fastforce
      finally show ?thesis
        using lose_used [OF True m(1)] c by (simp add: rm)
    qed
  qed
  have "tokens_ok (lock_remove r ls)"
  proof -
    have "dl_token l' \<noteq> dl_token l" if "locks ls k = Some l'" "k \<noteq> r" for k l'
      using that l(1) table_okD(3) [OF ok] unfolding tokens_ok_def by (metis option.inject)
    then show ?thesis
      using table_okD(3) [OF ok] l(1) unfolding tokens_ok_def locks2
      by (auto simp: rm gen tok)
  qed
  moreover have "exclusive (locks (lock_remove r ls))"
    using table_okD(4) [OF ok] by (rule exclusive_mono) (auto simp: locks2 map_le_def)
  ultimately show "table_ok (lock_remove r ls)" using shape counts by (simp add: table_ok_def)
qed

subsection \<open>Expiry\<close>

definition lapsed :: "nat \<Rightarrow> dav_lock \<Rightarrow> bool" where
  "lapsed now l = (\<not> dl_held l \<and> (case dl_expiry l of None \<Rightarrow> False | Some e \<Rightarrow> e \<le> now))"

definition unexpired :: "nat \<Rightarrow> lock_map \<Rightarrow> lock_map" where
  "unexpired now L k = (case L k of None \<Rightarrow> None | Some l \<Rightarrow> if lapsed now l then None else Some l)"

lemma fold_remove_ok:
  assumes "table_ok ls" "distinct rs" "\<And>r. r \<in> set rs \<Longrightarrow> \<exists>l. locks ls r = Some l \<and> \<not> dl_held l"
  shows "locks (fold lock_remove rs ls) = (\<lambda>k. if k \<in> set rs then None else locks ls k)
    \<and> table_ok (fold lock_remove rs ls) \<and> ml_generation (fold lock_remove rs ls) = ml_generation ls"
  using assms
proof (induction rs arbitrary: ls)
  case (Cons r rs)
  then obtain l where l: "locks ls r = Some l" "\<not> dl_held l" by auto
  note rm = lock_remove_ok [OF Cons.prems(1) l]
  have "\<exists>l. locks (lock_remove r ls) a = Some l \<and> \<not> dl_held l" if "a \<in> set rs" for a
    using Cons.prems(2) Cons.prems(3) [of a] that by (auto simp: rm)
  from Cons.IH [OF rm(2) _ this] Cons.prems(2) show ?case by (auto simp: rm fun_eq_iff)
qed simp

lemma collect_expired_ok:
  assumes "table_ok ls"
  shows "locks (collect_expired now ls) = unexpired now (locks ls)"
    "table_ok (collect_expired now ls)" "ml_generation (collect_expired now ls) = ml_generation ls"
proof -
  define rs where "rs = map (\<lambda>n. ld_root (ln_details n)) (filter (expired now) (map snd (ml_by_name ls)))"
  note sh = table_okD(1) [OF assms]
  have keys: "distinct (map fst (ml_by_name ls))" using sh by (simp add: shape_ok_def)
  have member: "node_at ls k = Some n \<longleftrightarrow> (k, n) \<in> set (ml_by_name ls)" for k n
    using keys by (simp add: map_of_eq_Some_iff)
  have "rs = map (\<lambda>p. ld_root (ln_details (snd p))) (filter (\<lambda>p. expired now (snd p)) (ml_by_name ls))"
    by (simp add: rs_def filter_map comp_def)
  also have "\<dots> = map fst (filter (\<lambda>p. expired now (snd p)) (ml_by_name ls))"
  proof (rule map_cong [OF refl])
    fix p assume p: "p \<in> set (filter (\<lambda>p. expired now (snd p)) (ml_by_name ls))"
    then have "node_at ls (fst p) = Some (snd p)" "ln_token (snd p) \<noteq> []" by (auto simp: member expired_def)
    then show "ld_root (ln_details (snd p)) = fst p" using shapeD [OF sh] by blast
  qed
  finally have rs: "rs = map fst (filter (\<lambda>p. expired now (snd p)) (ml_by_name ls))" .
  have dist: "distinct rs" unfolding rs using keys by (rule distinct_map_filter)
  have lapse: "r \<in> set rs \<longleftrightarrow> (\<exists>l. locks ls r = Some l \<and> lapsed now l)" for r
  proof -
    have "r \<in> set rs \<longleftrightarrow> (\<exists>n. node_at ls r = Some n \<and> expired now n)"
      unfolding rs by (force simp: member)
    also have "\<dots> \<longleftrightarrow> (\<exists>l. locks ls r = Some l \<and> lapsed now l)"
      by (auto simp: locks_def node_lock_def expired_def lapsed_def split: option.splits)
    finally show ?thesis .
  qed
  have "\<exists>l. locks ls r = Some l \<and> \<not> dl_held l" if "r \<in> set rs" for r
    using that lapse by (auto simp: lapsed_def)
  note f = fold_remove_ok [OF assms dist this]
  have "locks (collect_expired now ls) k = unexpired now (locks ls) k" for k
  proof -
    have "locks (collect_expired now ls) k = (if k \<in> set rs then None else locks ls k)"
      using f unfolding collect_expired_def rs_def [symmetric] by meson
    then show ?thesis by (auto simp: lapse unexpired_def split: option.split)
  qed
  then show "locks (collect_expired now ls) = unexpired now (locks ls)" ..
  show "table_ok (collect_expired now ls)" "ml_generation (collect_expired now ls) = ml_generation ls"
    using f unfolding collect_expired_def rs_def [symmetric] by blast+
qed

subsection \<open>Creating a lock\<close>

definition conflict :: "lock_map \<Rightarrow> string \<Rightarrow> bool \<Rightarrow> bool" where
  "conflict L r zero_depth \<longleftrightarrow>
     r \<in> dom L \<or> \<not> zero_depth \<and> users L r \<noteq> {} \<or>
     (\<exists>a l. L a = Some l \<and> a \<in> set (path_up r) \<and> a \<noteq> r \<and> \<not> ld_zero_depth (dl_details l))"

lemma may_lock_later:
  "may_lock ls zd a False \<longleftrightarrow> (\<forall>l. locks ls a = Some l \<longrightarrow> ld_zero_depth (dl_details l))"
  by (auto simp: may_lock_def locks_def node_lock_def split: option.split)

lemma may_lock_first:
  assumes "counts_ok ls"
  shows "may_lock ls zd r True \<longleftrightarrow> r \<notin> dom (locks ls) \<and> (zd \<or> users (locks ls) r = {})"
proof (cases "node_at ls r")
  case None
  then have "users (locks ls) r = {}" using counts_at(1) [OF assms] by simp
  with None show ?thesis by (simp add: may_lock_def locks_def domIff)
next
  case (Some n)
  then have "users (locks ls) r \<noteq> {}" using counts_at(2) [OF assms] by simp
  with Some show ?thesis by (auto simp: may_lock_def locks_def node_lock_def domIff)
qed

lemma can_create_ok:
  assumes "counts_ok ls"
  shows "can_create ls r zd \<longleftrightarrow> \<not> conflict (locks ls) r zd"
proof -
  have "a \<in> set (path_up r) \<and> a \<noteq> r \<longleftrightarrow> a \<in> set (tl (path_up r))" for a
    using path_up_distinct [of r] by (subst (asm) path_up_hd, subst path_up_hd) auto
  then have tl: "a \<in> set (tl (path_up r)) \<longleftrightarrow> a \<in> set (path_up r) \<and> a \<noteq> r" for a by blast
  show ?thesis
    unfolding can_create_def walk_check may_lock_first [OF assms] may_lock_later conflict_def
    by (auto simp: tl)
qed

definition new_lock :: "nat \<Rightarrow> lock_details \<Rightarrow> string \<Rightarrow> dav_lock" where
  "new_lock now d token =
     \<lparr>dl_details = d, dl_token = token, dl_expiry = map_option (\<lambda>t. now + t) (ld_duration d), dl_held = False\<rparr>"

text \<open>The state after a lock has been put in, for a root \<open>r\<close> that is free.\<close>

definition placed :: "nat \<Rightarrow> lock_details \<Rightarrow> mem_ls \<Rightarrow> mem_ls" where
  "placed now d ls =
     (let r = ld_root d; token = decimal (add64 (ml_generation ls) 1);
          ls1 = (fst (walk_to_root add_ref r True ls))\<lparr>ml_generation := add64 (ml_generation ls) 1\<rparr>;
          n = gain r (node_at ls r)
      in (put_node r (n\<lparr>ln_token := token, ln_expiry := map_option (\<lambda>t. now + t) (ld_duration d), ln_details := d\<rparr>) ls1)
           \<lparr>ml_by_token := (ml_by_token ls)(token \<mapsto> r)\<rparr>)"

lemma lock_create_eq:
  "lock_create now details ls =
     (let ls0 = collect_expired now ls; d = details\<lparr>ld_root := slash_clean (ld_root details)\<rparr> in
      if \<not> can_create ls0 (ld_root d) (ld_zero_depth d) then (ls0, Inl (LockErr Locked))
      else (placed now d ls0, Inr (decimal (add64 (ml_generation ls0) 1))))"
proof -
  have same: "ml_by_token (fst (walk_to_root add_ref r True s)) = ml_by_token s"
    "ml_generation (fst (walk_to_root add_ref r True s)) = ml_generation s" for r s
    using walk_add(2) [of s r True] by (simp_all add: same_tokens_def)
  have at: "node_at (fst (walk_to_root add_ref r True s)) r = Some (gain r (node_at s r))" for r s
    by (simp add: walk_add(1))
  show ?thesis
    by (simp add: lock_create_def bnd_def Let_def placed_def at same put_node_def)
qed

lemma placed_ok:
  assumes ok: "table_ok ls" and free: "\<not> conflict (locks ls) (ld_root d) (ld_zero_depth d)"
    and room: "ml_generation ls + 1 < U64"
  shows "locks (placed now d ls) = (locks ls)(ld_root d \<mapsto> new_lock now d (decimal (ml_generation ls + 1)))"
    "table_ok (placed now d ls)" "ml_generation (placed now d ls) = ml_generation ls + 1"
proof -
  let ?r = "ld_root d" and ?t = "decimal (ml_generation ls + 1)"
  let ?L = "locks ls" and ?ls = "placed now d ls"
  have g: "add64 (ml_generation ls) (Suc 0) = Suc (ml_generation ls)" using room by (simp add: add64_in_range)
  have free_r: "?L ?r = None" using free by (auto simp: conflict_def)
  have same: "same_tokens ls (fst (walk_to_root add_ref ?r True ls))" by (rule walk_add(2))
  have at: "node_at ?ls k =
      (if k = ?r then Some ((gain ?r (node_at ls ?r))\<lparr>ln_token := ?t, ln_expiry := map_option (\<lambda>t. now + t) (ld_duration d), ln_details := d\<rparr>)
       else if k \<in> set (path_up ?r) then Some (gain k (node_at ls k)) else node_at ls k)" for k
    by (simp add: placed_def Let_def g walk_add(1) put_node_def)
  have tok: "ml_by_token ?ls = (ml_by_token ls)(?t \<mapsto> ?r)" by (simp add: placed_def Let_def g)
  show gen: "ml_generation ?ls = ml_generation ls + 1" by (simp add: placed_def Let_def g)
  have free_node: "ln_token (gain ?r (node_at ls ?r)) = [] \<and> \<not> ln_held (gain ?r (node_at ls ?r))"
    using free_r shapeD [OF table_okD(1) [OF ok], of ?r]
    by (auto simp: gain_def locks_def node_lock_def fresh_node_def Let_def split: option.splits if_splits)
  have gain_lock: "node_lock (gain k (node_at ls k)) = ?L k" for k
    by (auto simp: gain_def Let_def locks_def fresh_node_def node_lock_def split: option.split)
  show L: "locks ?ls = ?L(?r \<mapsto> new_lock now d ?t)"
  proof
    fix k
    show "locks ?ls k = (?L(?r \<mapsto> new_lock now d ?t)) k"
    proof (cases "k = ?r")
      case True
      then show ?thesis using free_node by (simp add: locks_def at node_lock_def new_lock_def)
    next
      case False
      then have "locks ?ls k = (if k \<in> set (path_up ?r) then node_lock (gain k (node_at ls k)) else ?L k)"
        by (simp add: locks_def at)
      with False show ?thesis by (simp add: gain_lock)
    qed
  qed
  have users: "users (locks ?ls) k = (if k \<in> set (path_up ?r) then insert ?r (users ?L k) else users ?L k)" for k
    by (auto simp: L users_def domIff)
  have unused: "?r \<notin> users ?L k" for k using free_r by (simp add: users_def domIff)
  have few: "card (users ?L k) \<le> ml_generation ls" for k
  proof -
    have "card (users ?L k) \<le> card (dom ?L)" by (rule card_mono) (auto simp: users_def)
    also have "\<dots> \<le> ml_generation ls" by (rule locks_few [OF table_okD(3) [OF ok]])
    finally show ?thesis .
  qed
  have count: "ln_ref_count (gain k (node_at ls k)) = card (users ?L k) + 1" for k
  proof -
    have "ln_ref_count (gain k (node_at ls k)) = add64 (card (users ?L k)) 1"
      using counts_at [OF table_okD(2) [OF ok], of k]
      by (cases "node_at ls k") (simp_all add: gain_def fresh_node_def)
    then show ?thesis using few [of k] room by (simp add: add64_in_range)
  qed
  have counts: "counts_ok ?ls"
    unfolding counts_ok_def
  proof
    fix k
    show "case node_at ?ls k of None \<Rightarrow> users (locks ?ls) k = {}
        | Some n \<Rightarrow> users (locks ?ls) k \<noteq> {} \<and> ln_ref_count n = card (users (locks ?ls) k)"
    proof (cases "k \<in> set (path_up ?r)")
      case True
      have "card (insert ?r (users ?L k)) = card (users ?L k) + 1" using unused by simp
      then show ?thesis using True count [of k] by (auto simp: at users)
    next
      case False
      then have "k \<noteq> ?r" by auto
      then show ?thesis
        using False counts_at [OF table_okD(2) [OF ok], of k] by (cases "node_at ls k") (simp_all add: at users)
    qed
  qed
  have shape: "shape_ok ?ls"
  proof -
    have "distinct (map fst (ml_by_name ?ls))"
      using same table_okD(1) [OF ok] by (simp add: placed_def Let_def same_tokens_def shape_ok_def put_node_def)
    moreover have "(ln_token n \<noteq> [] \<longrightarrow> ld_root (ln_details n) = k) \<and> (ln_held n \<longrightarrow> ln_token n \<noteq> [])"
      if n: "node_at ?ls k = Some n" for k n
    proof -
      consider "k = ?r" | m where "k \<noteq> ?r" "node_at ls k = Some m" "ln_token n = ln_token m" "ln_details n = ln_details m" "ln_held n = ln_held m"
        | "ln_token n = []" "\<not> ln_held n"
        using n by (cases "node_at ls k") (auto simp: at gain_def fresh_node_def Let_def split: if_splits)
      then show ?thesis
      proof cases
        case 1
        then show ?thesis using n free_node by (auto simp: at)
      next
        case (2 m)
        then show ?thesis using shapeD [OF table_okD(1) [OF ok] 2(2)] by simp
      qed simp
    qed
    ultimately show ?thesis using room by (simp add: shape_ok_def gen)
  qed
  have old: "dl_token l \<noteq> ?t" if kl: "?L k = Some l" for k l
  proof -
    obtain g where "g \<le> ml_generation ls" "dl_token l = decimal g"
      using token_number [OF table_okD(3) [OF ok] kl] by blast
    then show ?thesis by (simp add: decimal_eq_iff)
  qed
  have "tokens_ok ?ls"
    unfolding tokens_ok_def
  proof (intro conjI allI impI)
    fix t k
    have "ml_by_token ls t = Some k \<longleftrightarrow> (\<exists>l. ?L k = Some l \<and> dl_token l = t)"
      using table_okD(3) [OF ok] unfolding tokens_ok_def by blast
    then show "ml_by_token ?ls t = Some k \<longleftrightarrow> (\<exists>l. locks ?ls k = Some l \<and> dl_token l = t)"
      using old [of k] free_r by (auto simp: tok L new_lock_def)
  next
    fix k l assume l: "locks ?ls k = Some l"
    show "\<exists>g>0. g \<le> ml_generation ?ls \<and> dl_token l = decimal g"
    proof (cases "k = ?r")
      case True
      with l show ?thesis by (auto simp: L new_lock_def gen intro: exI [of _ "ml_generation ls + 1"])
    next
      case False
      then obtain g where "0 < g" "g \<le> ml_generation ls" "dl_token l = decimal g"
        using token_number [OF table_okD(3) [OF ok], of k l] l by (auto simp: L)
      then show ?thesis by (auto simp: gen)
    qed
  qed
  moreover have "exclusive (locks ?ls)"
    unfolding exclusive_def
  proof (intro ballI allI impI)
    fix r k l
    assume r: "r \<in> dom (locks ?ls)" and k: "locks ?ls k = Some l" "k \<in> set (path_up r)" "k \<noteq> r"
    consider "k = ?r" "r \<in> dom ?L" | "r = ?r" "k \<noteq> ?r" | "r \<in> dom ?L" "k \<noteq> ?r" "r \<noteq> ?r"
      using r k(3) by (auto simp: L split: if_splits)
    then show "ld_zero_depth (dl_details l)"
    proof cases
      case 1
      then have "users ?L ?r \<noteq> {}" using k(2) by (auto simp: users_def)
      then show ?thesis using 1 k(1) free by (auto simp: conflict_def L new_lock_def)
    next
      case 2
      then show ?thesis using k free by (auto simp: conflict_def L)
    next
      case 3
      then show ?thesis using k table_okD(4) [OF ok] unfolding exclusive_def by (simp add: L)
    qed
  qed
  ultimately show "table_ok ?ls" using shape counts by (simp add: table_ok_def)
qed

end
