(* ===== verification/IfHeader.thy ===== *)
theory IfHeader
  imports DavLock
begin

text \<open>
  \<open>rustorr-http/src/webdav/lock.rs\<close>: the \<open>Timeout\<close> header and the lexer and parser of the \<open>If\<close>
  header. Every loop of the parser consumes at least one token, which is its termination measure.
\<close>

subsection \<open>Timeout\<close>

definition from_secs :: "nat \<Rightarrow> nat" where
  "from_secs n = n * 1000000000"

definition parse_timeout :: "string \<Rightarrow> unit + nat option" where
  "parse_timeout header =
     (if header = [] then Inr None
      else
        let first = trim (hd (split_on (CHR '','') header)) in
        if first = ''Infinite'' then Inr None
        else
          (case strip_prefix first ''Second-'' of
             None \<Rightarrow> Inl ()
           | Some seconds \<Rightarrow>
               if seconds = [] \<or> digit_val (hd seconds) = None then Inl ()
               else
                 (case parse_u64 seconds of
                    None \<Rightarrow> Inl ()
                  | Some n \<Rightarrow>
                      if I64_MAX < int n then Inl ()
                      else if U32 - 1 < n then Inl ()
                      else Inr (Some (from_secs n)))))"

subsection \<open>The lexer\<close>

record if_list =
  il_resource_tag :: string
  il_conditions :: "lock_condition list"

datatype if_token =
    TEof
  | TError
  | TStr string
  | TNot
  | TAngle string
  | TSquare string
  | TChar char

definition lex_delimiter :: "char \<Rightarrow> bool" where
  "lex_delimiter c = (c \<in> set [CHR 0x09, CHR '' '', CHR ''('', CHR '')'', CHR ''<'', CHR ''>'', CHR ''['', CHR '']''])"

definition lex_if :: "string \<Rightarrow> if_token \<times> string" where
  "lex_if s =
     (case dropWhile (\<lambda>c. c = CHR '' '' \<or> c = CHR 0x09) s of
        [] \<Rightarrow> (TEof, [])
      | c # cs \<Rightarrow>
          (let t = c # cs; word = takeWhile (\<lambda>x. \<not> lex_delimiter x) t in
           if word \<noteq> [] then
             (if word = ''Not'' then (TNot, drop (length word) t) else (TStr word, drop (length word) t))
           else if c = CHR ''<'' then
             (case split_once (CHR ''>'') cs of None \<Rightarrow> (TError, []) | Some (inner, rest) \<Rightarrow> (TAngle inner, rest))
           else if c = CHR ''['' then
             (case split_once (CHR '']'') cs of None \<Rightarrow> (TError, []) | Some (inner, rest) \<Rightarrow> (TSquare inner, rest))
           else (TChar c, cs)))"

lemma lex_shorter:
  assumes "lex_if s = (t, r)" "t \<noteq> TEof"
  shows "length r < length s"
proof -
  obtain c cs where d: "dropWhile (\<lambda>c. c = CHR '' '' \<or> c = CHR 0x09) s = c # cs"
    using assms by (cases "dropWhile (\<lambda>c. c = CHR '' '' \<or> c = CHR 0x09) s") (auto simp: lex_if_def)
  have "length (c # cs) \<le> length s"
    using length_dropWhile_le [of "\<lambda>c. c = CHR '' '' \<or> c = CHR 0x09" s] by (simp add: d)
  moreover have "length r < length (c # cs)"
    using assms(1) by (auto simp: lex_if_def d Let_def split_once_eq_Some split: if_splits option.splits)
  ultimately show ?thesis by simp
qed

subsection \<open>The parser\<close>

definition parse_condition :: "string \<Rightarrow> (lock_condition \<times> string) option" where
  "parse_condition s =
     (let (token, rest) = lex_if s;
          negated = (token = TNot);
          (token, rest) = (if negated then lex_if rest else (token, rest));
          c = condition_default\<lparr>cond_not := negated\<rparr>
      in case token of
           TStr t \<Rightarrow> Some (c\<lparr>cond_token := t\<rparr>, rest)
         | TAngle t \<Rightarrow> Some (c\<lparr>cond_token := t\<rparr>, rest)
         | TSquare t \<Rightarrow> Some (c\<lparr>cond_etag := t\<rparr>, rest)
         | _ \<Rightarrow> None)"

lemma parse_condition_shorter:
  assumes "parse_condition s = Some (c, r)"
  shows "length r < length s"
proof -
  obtain t r1 where l1: "lex_if s = (t, r1)" by (cases "lex_if s")
  obtain t2 r2 where l2: "lex_if r1 = (t2, r2)" by (cases "lex_if r1")
  show ?thesis
    using assms lex_shorter [OF l1] lex_shorter [OF l2]
    by (auto simp: parse_condition_def l1 l2 Let_def split: if_splits if_token.splits)
qed

function parse_conditions :: "string \<Rightarrow> lock_condition list \<Rightarrow> (lock_condition list \<times> string) option" where
  "parse_conditions s conds =
     (let (token, rest) = lex_if s in
      if token = TChar (CHR '')'') then (if conds = [] then None else Some (conds, rest))
      else
        (case parse_condition s of
           None \<Rightarrow> None
         | Some (c, rest) \<Rightarrow> parse_conditions rest (conds @ [c])))"
  by pat_completeness auto
termination
  by (relation "measure (\<lambda>(s, conds). length s)") (auto dest: parse_condition_shorter)

declare parse_conditions.simps [simp del]

definition parse_list :: "string \<Rightarrow> (if_list \<times> string) option" where
  "parse_list s =
     (let (token, s) = lex_if s in
      if token \<noteq> TChar (CHR ''('') then None
      else
        (case parse_conditions s [] of
           None \<Rightarrow> None
         | Some (conds, rest) \<Rightarrow> Some (\<lparr>il_resource_tag = [], il_conditions = conds\<rparr>, rest)))"

lemma parse_conditions_shorter:
  "parse_conditions s conds = Some (cs, r) \<Longrightarrow> length r < length s"
proof (induction s conds rule: parse_conditions.induct)
  case (1 s conds)
  obtain t r1 where l: "lex_if s = (t, r1)" by (cases "lex_if s")
  show ?case
  proof (cases "t = TChar (CHR '')'')")
    case True
    then show ?thesis
      using "1.prems" lex_shorter [OF l] by (simp add: parse_conditions.simps [of s] l split: if_splits)
  next
    case False
    with "1.prems" obtain c r2 where
      "parse_condition s = Some (c, r2)" "parse_conditions r2 (conds @ [c]) = Some (cs, r)"
      by (auto simp: parse_conditions.simps [of s] l split: option.splits)
    then show ?thesis
      using "1.IH" [OF l [symmetric] refl False, of "(c, r2)" c r2] parse_condition_shorter by force
  qed
qed

lemma parse_list_shorter: "parse_list s = Some (l, r) \<Longrightarrow> length r < length s"
  by (auto simp: parse_list_def split: prod.splits option.splits if_splits
      dest!: parse_conditions_shorter dest: lex_shorter)

text \<open>Lists without a resource tag.\<close>

function parse_no_tag :: "string \<Rightarrow> if_list list \<Rightarrow> if_list list option" where
  "parse_no_tag s acc =
     (case parse_list s of
        None \<Rightarrow> None
      | Some (l, rest) \<Rightarrow>
          if rest = [] then Some (acc @ [l]) else parse_no_tag rest (acc @ [l]))"
  by pat_completeness auto
termination
  by (relation "measure (\<lambda>(s, acc). length s)") (auto dest: parse_list_shorter)

declare parse_no_tag.simps [simp del]

text \<open>Lists under resource tags: \<open>number\<close> is the number of lists since the last tag.\<close>

function parse_tagged ::
    "string \<Rightarrow> string \<Rightarrow> nat \<Rightarrow> bool \<Rightarrow> if_list list \<Rightarrow> if_list list option" where
  "parse_tagged s tag number first acc =
     (case lex_if s of
        (TAngle t, rest) \<Rightarrow>
          if \<not> first \<and> number = 0 then None else parse_tagged rest t 0 False acc
      | (TChar c, rest) \<Rightarrow>
          if c = CHR ''('' then
            (case parse_list s of
               None \<Rightarrow> None
             | Some (l, rest) \<Rightarrow>
                 let acc = acc @ [l\<lparr>il_resource_tag := tag\<rparr>] in
                 if rest = [] then Some acc else parse_tagged rest tag (number + 1) False acc)
          else None
      | _ \<Rightarrow> None)"
  by pat_completeness auto
termination
  by (relation "measure (\<lambda>(s, tag, number, first, acc). length s)")
    (auto dest: parse_list_shorter lex_shorter [OF sym])

declare parse_tagged.simps [simp del]

definition parse_if :: "string \<Rightarrow> if_list list option" where
  "parse_if header =
     (let s = trim header in
      case fst (lex_if s) of
        TChar c \<Rightarrow> if c = CHR ''('' then parse_no_tag s [] else None
      | TAngle t \<Rightarrow> parse_tagged s [] 0 True []
      | _ \<Rightarrow> None)"

end
