(* ===== verification/DavLockSpec.thy ===== *)
theory DavLockSpec
  imports DavLockInv IfHeader
begin

text \<open>
  The lock table as an object: its operations as steps, their specification on the map of locks
  alone, and the refinement between the two.
\<close>

subsection \<open>Changing one lock in place\<close>

lemma update_node_ok:
  assumes ok: "table_ok ls" and n: "node_at ls k = Some n"
    and n': "ln_token n' = ln_token n" "ln_ref_count n' = ln_ref_count n"
      "ld_root (ln_details n') = ld_root (ln_details n)"
      "ld_zero_depth (ln_details n') = ld_zero_depth (ln_details n)" "ln_held n' \<longrightarrow> ln_token n \<noteq> []"
  shows "locks (put_node k n' ls) = (locks ls)(k := node_lock n')" "table_ok (put_node k n' ls)"
proof -
  show L: "locks (put_node k n' ls) = (locks ls)(k := node_lock n')"
    by (auto simp: locks_def)
  have Lk: "locks ls k = node_lock n" using n by (simp add: locks_def)
  have dom: "dom ((locks ls)(k := node_lock n')) = dom (locks ls)"
    using n'(1) Lk by (auto simp: node_lock_def split: if_splits)
  then have users: "users (locks (put_node k n' ls)) a = users (locks ls) a" for a
    by (simp add: L users_def)
  have "shape_ok (put_node k n' ls)"
    using table_okD(1) [OF ok] shapeD [OF table_okD(1) [OF ok] n] n' unfolding shape_ok_def by simp
  moreover have "counts_ok (put_node k n' ls)"
    unfolding counts_ok_def users
  proof
    fix a
    show "case node_at (put_node k n' ls) a of None \<Rightarrow> users (locks ls) a = {}
        | Some m \<Rightarrow> users (locks ls) a \<noteq> {} \<and> ln_ref_count m = card (users (locks ls) a)"
      using counts_at [OF table_okD(2) [OF ok], of a] n n'(2)
      by (cases "a = k"; cases "node_at ls a") simp_all
  qed
  moreover have "tokens_ok (put_node k n' ls)"
  proof -
    have same: "(\<exists>l. ((locks ls)(k := node_lock n')) a = Some l \<and> P (dl_token l)) \<longleftrightarrow> (\<exists>l. locks ls a = Some l \<and> P (dl_token l))" for a P
      using n'(1) Lk by (auto simp: node_lock_def)
    have "ml_by_token (put_node k n' ls) t = Some a \<longleftrightarrow> (\<exists>l. locks (put_node k n' ls) a = Some l \<and> dl_token l = t)" for t a
      using table_okD(3) [OF ok] same [of a "\<lambda>x. x = t"] unfolding tokens_ok_def L by simp
    moreover have "\<exists>g>0. g \<le> ml_generation (put_node k n' ls) \<and> dl_token l = decimal g"
      if "locks (put_node k n' ls) a = Some l" for a l
    proof -
      have "\<exists>l'. ((locks ls)(k := node_lock n')) a = Some l' \<and> dl_token l' = dl_token l"
        using that unfolding L by blast
      then have "\<exists>l'. locks ls a = Some l' \<and> dl_token l' = dl_token l"
        using same [of a "\<lambda>x. x = dl_token l"] by blast
      then obtain l' where "locks ls a = Some l'" "dl_token l' = dl_token l" by blast
      then show ?thesis using table_okD(3) [OF ok] unfolding tokens_ok_def by fastforce
    qed
    ultimately show ?thesis unfolding tokens_ok_def by blast
  qed
  moreover have "exclusive (locks (put_node k n' ls))"
    unfolding exclusive_def L dom
  proof (intro ballI allI impI)
    fix r a l
    assume r: "r \<in> dom (locks ls)" "a \<in> set (path_up r)" "a \<noteq> r" and l: "((locks ls)(k := node_lock n')) a = Some l"
    have ex: "locks ls a = Some l' \<Longrightarrow> ld_zero_depth (dl_details l')" for l'
      using table_okD(4) [OF ok] r unfolding exclusive_def by blast
    show "ld_zero_depth (dl_details l)"
    proof (cases "a = k")
      case True
      then have "node_lock n' = Some l" using l by simp
      then have "node_lock n = Some (l\<lparr>dl_details := ln_details n, dl_expiry := ln_expiry n, dl_held := ln_held n\<rparr>)"
        using n'(1) by (simp add: node_lock_eq)
      then show ?thesis using ex [of "l\<lparr>dl_details := ln_details n, dl_expiry := ln_expiry n, dl_held := ln_held n\<rparr>"]
          True Lk n'(4) \<open>node_lock n' = Some l\<close> by (simp add: node_lock_eq)
    qed (use l ex in simp)
  qed
  ultimately show "table_ok (put_node k n' ls)" by (simp add: table_ok_def)
qed

definition hold :: "bool \<Rightarrow> string list \<Rightarrow> lock_map \<Rightarrow> lock_map" where
  "hold b rs L k = (if k \<in> set rs then map_option (dl_held_update (\<lambda>_. b)) (L k) else L k)"

lemma set_held_ok:
  assumes "table_ok ls" "b \<longrightarrow> r \<in> dom (locks ls)"
  shows "locks (set_held b r ls) = hold b [r] (locks ls)" "table_ok (set_held b r ls)"
    "ml_generation (set_held b r ls) = ml_generation ls"
proof -
  show "ml_generation (set_held b r ls) = ml_generation ls" by (simp add: set_held_def split: option.split)
  have "locks (set_held b r ls) = hold b [r] (locks ls) \<and> table_ok (set_held b r ls)"
  proof (cases "node_at ls r")
    case None
    then have "locks ls r = None" by (simp add: locks_def)
    with None assms show ?thesis by (auto simp: set_held_def hold_def fun_eq_iff)
  next
    case (Some n)
    have "b \<longrightarrow> ln_token n \<noteq> []" using assms(2) Some by (auto simp: locks_def node_lock_def)
    note u = update_node_ok [OF assms(1) Some, of "n\<lparr>ln_held := b\<rparr>", simplified, OF this]
    have "node_lock (n\<lparr>ln_held := b\<rparr>) = map_option (dl_held_update (\<lambda>_. b)) (locks ls r)"
      using Some by (simp add: locks_def node_lock_def)
    with u Some show ?thesis by (auto simp: set_held_def hold_def fun_eq_iff)
  qed
  then show "locks (set_held b r ls) = hold b [r] (locks ls)" "table_ok (set_held b r ls)" by blast+
qed

lemma hold_dom [simp]: "dom (hold b rs L) = dom L"
  by (auto simp: hold_def split: if_splits)

lemma hold_Cons: "hold b rs (hold b [r] L) = hold b (r # rs) L"
proof
  fix k
  show "hold b rs (hold b [r] L) k = hold b (r # rs) L k" by (cases "L k") (auto simp: hold_def)
qed

lemma fold_set_held_ok:
  assumes "table_ok ls" "b \<longrightarrow> set rs \<subseteq> dom (locks ls)"
  shows "locks (fold (set_held b) rs ls) = hold b rs (locks ls) \<and> table_ok (fold (set_held b) rs ls)
    \<and> ml_generation (fold (set_held b) rs ls) = ml_generation ls"
  using assms
proof (induction rs arbitrary: ls)
  case (Cons r rs)
  have "b \<longrightarrow> r \<in> dom (locks ls)" using Cons.prems by simp
  note h = set_held_ok [OF Cons.prems(1) this]
  have "b \<longrightarrow> set rs \<subseteq> dom (locks (set_held b r ls))" using Cons.prems(2) unfolding h(1) hold_dom by simp
  from Cons.IH [OF h(2) this] show ?case by (simp add: h hold_Cons)
qed (simp add: hold_def fun_eq_iff)

subsection \<open>The steps of the table\<close>

datatype lock_op =
    OpCreate nat lock_details
  | OpRefresh nat string "nat option"
  | OpUnlock nat string
  | OpConfirm nat string string "lock_condition list"
  | OpRelease "string list"

datatype lock_answer =
    IsToken string
  | IsDetails lock_details
  | IsRoots "string list"
  | IsDone

definition answer :: "('a \<Rightarrow> lock_answer) \<Rightarrow> 'a lock_act \<Rightarrow> lock_answer lock_act" where
  "answer f m = bnd m (\<lambda>x. ret (f x))"

fun lock_step :: "lock_op \<Rightarrow> lock_answer lock_act" where
  "lock_step (OpCreate now d) = answer IsToken (lock_create now d)"
| "lock_step (OpRefresh now t dur) = answer IsDetails (lock_refresh now t dur)"
| "lock_step (OpUnlock now t) = answer (\<lambda>_. IsDone) (lock_unlock now t)"
| "lock_step (OpConfirm now a b cs) = answer IsRoots (confirm now a b cs)"
| "lock_step (OpRelease rs) = answer (\<lambda>_. IsDone) (lock_release rs)"

definition lock_run :: "lock_op list \<Rightarrow> mem_ls \<Rightarrow> mem_ls" where
  "lock_run ops ls = fold (\<lambda>op s. fst (lock_step op s)) ops ls"

subsection \<open>Their specification on the map of locks\<close>

text \<open>The lock a token names; different locks have different tokens.\<close>

definition token_root :: "lock_map \<Rightarrow> string \<Rightarrow> string option" where
  "token_root L t =
     (if \<exists>k l. L k = Some l \<and> dl_token l = t then Some (THE k. \<exists>l. L k = Some l \<and> dl_token l = t) else None)"

definition covers :: "string \<Rightarrow> dav_lock \<Rightarrow> string \<Rightarrow> bool" where
  "covers k l name \<longleftrightarrow>
     name = k \<or> \<not> ld_zero_depth (dl_details l) \<and> (k = ''/'' \<or> starts_with name (k @ ''/''))"

fun spec_lookup :: "lock_map \<Rightarrow> string \<Rightarrow> lock_condition list \<Rightarrow> string option" where
  "spec_lookup L name [] = None"
| "spec_lookup L name (c # cs) =
     (case token_root L (cond_token c) of
        None \<Rightarrow> spec_lookup L name cs
      | Some k \<Rightarrow>
          if (case L k of None \<Rightarrow> False | Some l \<Rightarrow> \<not> dl_held l \<and> covers k l name) then Some k
          else spec_lookup L name cs)"

definition spec_confirm :: "lock_map \<Rightarrow> string \<Rightarrow> string \<Rightarrow> lock_condition list \<Rightarrow> lock_error + string list" where
  "spec_confirm L a b conds =
     (case map_option_all (\<lambda>n. spec_lookup L (slash_clean n) conds) (filter (\<lambda>n. n \<noteq> []) [a, b]) of
        None \<Rightarrow> Inl ConfirmationFailed
      | Some rs \<Rightarrow> Inr (rev (remdups (rev rs))))"

text \<open>A step on the number of tokens given out and the map.\<close>

fun spec_step :: "lock_op \<Rightarrow> nat \<times> lock_map \<Rightarrow> (nat \<times> lock_map) \<times> (lock_error + lock_answer)" where
  "spec_step (OpCreate now d) (g, L) =
     (let L = unexpired now L; d = d\<lparr>ld_root := slash_clean (ld_root d)\<rparr>; t = decimal (g + 1) in
      if conflict L (ld_root d) (ld_zero_depth d) then ((g, L), Inl Locked)
      else ((g + 1, L(ld_root d \<mapsto> new_lock now d t)), Inr (IsToken t)))"
| "spec_step (OpRefresh now t dur) (g, L) =
     (let L = unexpired now L in
      case token_root L t of
        None \<Rightarrow> ((g, L), Inl NoSuchLock)
      | Some k \<Rightarrow>
          (case L k of
             None \<Rightarrow> ((g, L), Inl NoSuchLock)
           | Some l \<Rightarrow>
               if dl_held l then ((g, L), Inl Locked)
               else
                 (let d = (dl_details l)\<lparr>ld_duration := dur\<rparr> in
                  ((g, L(k \<mapsto> l\<lparr>dl_details := d, dl_expiry := map_option (\<lambda>t. now + t) dur\<rparr>)), Inr (IsDetails d)))))"
| "spec_step (OpUnlock now t) (g, L) =
     (let L = unexpired now L in
      case token_root L t of
        None \<Rightarrow> ((g, L), Inl NoSuchLock)
      | Some k \<Rightarrow>
          if (case L k of None \<Rightarrow> False | Some l \<Rightarrow> dl_held l) then ((g, L), Inl Locked)
          else ((g, L(k := None)), Inr IsDone))"
| "spec_step (OpConfirm now a b conds) (g, L) =
     (let L = unexpired now L in
      case spec_confirm L a b conds of
        Inl e \<Rightarrow> ((g, L), Inl e)
      | Inr rs \<Rightarrow> ((g, hold True rs L), Inr (IsRoots rs)))"
| "spec_step (OpRelease rs) (g, L) = ((g, hold False rs L), Inr IsDone)"

definition table_view :: "mem_ls \<Rightarrow> nat \<times> lock_map" where
  "table_view ls = (ml_generation ls, locks ls)"

subsection \<open>The refinement\<close>

lemma token_root_ok:
  assumes "tokens_ok ls"
  shows "ml_by_token ls t = token_root (locks ls) t"
proof (cases "ml_by_token ls t")
  case None
  then have "\<not> (\<exists>k l. locks ls k = Some l \<and> dl_token l = t)"
    using assms unfolding tokens_ok_def by (metis option.distinct(1))
  then show ?thesis using None by (simp add: token_root_def)
next
  case (Some k)
  have iff: "(\<exists>l. locks ls a = Some l \<and> dl_token l = t) \<longleftrightarrow> a = k" for a
    using assms Some unfolding tokens_ok_def by (metis option.inject)
  then have "\<exists>a l. locks ls a = Some l \<and> dl_token l = t" by blast
  then show ?thesis using Some by (simp add: token_root_def iff)
qed

lemma lookup_ok:
  assumes "table_ok ls"
  shows "lookup ls name conds = Inr (spec_lookup (locks ls) name conds)"
proof (induction conds)
  case (Cons c cs)
  show ?case
  proof (cases "ml_by_token ls (cond_token c)")
    case None
    then show ?thesis using Cons token_root_ok [OF table_okD(3) [OF assms]] by simp
  next
    case (Some k)
    then obtain l n where l: "locks ls k = Some l" "node_at ls k = Some n" "node_lock n = Some l"
      using token_lock [OF table_okD(3) [OF assms] Some] by metis
    then have n: "dl_held l = ln_held n" "dl_details l = ln_details n" "ld_root (ln_details n) = k"
      using locks_root [OF table_okD(1) [OF assms] l(1)] by (auto simp: node_lock_eq)
    have t: "token_root (locks ls) (cond_token c) = Some k"
      using token_root_ok [OF table_okD(3) [OF assms]] Some by simp
    show ?thesis by (simp add: Some t l n Cons covers_def)
  qed
qed simp

lemma spec_lookup_dom: "spec_lookup L name conds = Some k \<Longrightarrow> k \<in> dom L"
  by (induction conds) (auto split: option.splits if_splits)

lemma confirm_roots_ok:
  assumes "table_ok ls"
  shows "confirm_roots conds names hs ls =
    (ls, case map_option_all (\<lambda>n. spec_lookup (locks ls) (slash_clean n) conds) (filter (\<lambda>n. n \<noteq> []) names) of
           None \<Rightarrow> Inl (LockErr ConfirmationFailed)
         | Some rs \<Rightarrow> Inr (fold (\<lambda>r hs. if r \<in> set hs then hs else hs @ [r]) rs hs))"
  by (induction names arbitrary: hs)
    (simp_all add: lookup_ok [OF assms] bnd_def split: option.split)

lemma fold_fresh: "fold (\<lambda>r hs. if r \<in> set hs then hs else hs @ [r]) rs [] = rev (remdups (rev rs))"
proof -
  have set: "set (fold (\<lambda>r hs. if r \<in> set hs then hs else hs @ [r]) rs hs) = set hs \<union> set rs" for hs
    by (induction rs arbitrary: hs) auto
  show ?thesis by (induction rs rule: rev_induct) (simp_all add: set)
qed

lemma confirm_ok:
  assumes "table_ok ls"
  shows "answer IsRoots (confirm now a b conds) ls =
    (case spec_confirm (unexpired now (locks ls)) a b conds of
       Inl e \<Rightarrow> (collect_expired now ls, Inl (LockErr e))
     | Inr rs \<Rightarrow> (fold (set_held True) rs (collect_expired now ls), Inr (IsRoots rs)))"
  using confirm_roots_ok [OF collect_expired_ok(2) [OF assms, of now], of conds "[a, b]" "[]"]
  by (simp add: answer_def confirm_def bnd_def spec_confirm_def collect_expired_ok(1) [OF assms]
      fold_fresh split: option.split del: filter.simps)

lemma spec_confirm_dom: "spec_confirm L a b conds = Inr rs \<Longrightarrow> set rs \<subseteq> dom L"
  by (auto simp: spec_confirm_def dest: spec_lookup_dom split: option.splits if_splits)

definition refines :: "lock_op \<Rightarrow> mem_ls \<Rightarrow> bool" where
  "refines op ls \<longleftrightarrow>
     (case lock_step op ls of
        (ls', r) \<Rightarrow>
          table_ok ls' \<and> table_view ls' = fst (spec_step op (table_view ls))
          \<and> r = map_sum LockErr id (snd (spec_step op (table_view ls))))"

lemma refinesI:
  assumes "lock_step op ls = (ls', r)" "table_ok ls'" "spec_step op (table_view ls) = (table_view ls', r')"
    "r = map_sum LockErr id r'"
  shows "refines op ls"
  using assms by (simp add: refines_def)

lemma create_refines:
  assumes "table_ok ls" "ml_generation ls + 1 < U64"
  shows "refines (OpCreate now d) ls"
proof -
  let ?c = "collect_expired now ls" and ?d = "d\<lparr>ld_root := slash_clean (ld_root d)\<rparr>"
  note c = collect_expired_ok [OF assms(1), of now]
  have g: "add64 (ml_generation ls) (Suc 0) = Suc (ml_generation ls)" using assms(2) by (simp add: add64_in_range)
  note free = can_create_ok [OF table_okD(2) [OF c(2)], of "ld_root ?d" "ld_zero_depth ?d", unfolded c(1)]
  show ?thesis
  proof (cases "conflict (unexpired now (locks ls)) (ld_root ?d) (ld_zero_depth ?d)")
    case True
    show ?thesis
    proof (rule refinesI)
      show "lock_step (OpCreate now d) ls = (?c, Inl (LockErr Locked))"
        using True free by (simp add: answer_def lock_create_eq bnd_def)
      show "spec_step (OpCreate now d) (table_view ls) = (table_view ?c, Inl Locked)"
        using True by (simp add: table_view_def c Let_def)
    qed (simp_all add: c)
  next
    case False
    have "\<not> conflict (locks ?c) (ld_root ?d) (ld_zero_depth ?d)" "ml_generation ?c + 1 < U64"
      using False assms(2) by (simp_all add: c)
    note p = placed_ok [OF c(2) this]
    show ?thesis
    proof (rule refinesI)
      show "lock_step (OpCreate now d) ls = (placed now ?d ?c, Inr (IsToken (decimal (ml_generation ls + 1))))"
        using False free g by (simp add: answer_def lock_create_eq bnd_def c)
      show "spec_step (OpCreate now d) (table_view ls)
          = (table_view (placed now ?d ?c), Inr (IsToken (decimal (ml_generation ls + 1))))"
        using False p(1,3) by (simp add: table_view_def c Let_def)
    qed (simp_all add: p)
  qed
qed

lemma token_step:
  assumes "table_ok ls"
  shows "ml_by_token (collect_expired now ls) t = token_root (unexpired now (locks ls)) t"
  using token_root_ok [OF table_okD(3) [OF collect_expired_ok(2) [OF assms, of now]]]
  by (simp add: collect_expired_ok(1) [OF assms])

lemma refresh_refines:
  assumes "table_ok ls"
  shows "refines (OpRefresh now t dur) ls"
proof -
  let ?c = "collect_expired now ls"
  note c = collect_expired_ok [OF assms(1), of now]
  show ?thesis
  proof (cases "ml_by_token ?c t")
    case None
    then show ?thesis
      using token_step [OF assms, of now t]
      by (intro refinesI [where ls' = ?c]) (simp_all add: answer_def lock_refresh_def bnd_def table_view_def c)
  next
    case (Some k)
    obtain l n where l: "locks ?c k = Some l" "node_at ?c k = Some n" "node_lock n = Some l"
      using token_lock [OF table_okD(3) [OF c(2)] Some] by metis
    have n: "dl_held l = ln_held n" "dl_details l = ln_details n" "dl_token l = ln_token n" "ln_token n \<noteq> []"
      using l(3) by (auto simp: node_lock_eq)
    note root = token_step [OF assms, of now t, unfolded Some, symmetric]
    show ?thesis
    proof (cases "ln_held n")
      case True
      then show ?thesis
        using Some l n root
        by (intro refinesI [where ls' = ?c])
          (simp_all add: answer_def lock_refresh_def bnd_def table_view_def c)
    next
      case False
      let ?n = "n\<lparr>ln_details := (ln_details n)\<lparr>ld_duration := dur\<rparr>, ln_expiry := map_option (\<lambda>t. now + t) dur\<rparr>"
      have u: "locks (put_node k ?n ?c) = (locks ?c)(k := node_lock ?n)" "table_ok (put_node k ?n ?c)"
        by (rule update_node_ok [OF c(2) l(2)]; simp add: False)+
      have nl: "node_lock ?n = Some (l\<lparr>dl_details := (dl_details l)\<lparr>ld_duration := dur\<rparr>,
          dl_expiry := map_option (\<lambda>t. now + t) dur\<rparr>)"
        using l(3) by (auto simp: node_lock_def split: if_splits)
      show ?thesis
      proof (rule refinesI)
        show "lock_step (OpRefresh now t dur) ls = (put_node k ?n ?c, Inr (IsDetails (ln_details ?n)))"
          using Some l False by (simp add: answer_def lock_refresh_def bnd_def Let_def)
        show "spec_step (OpRefresh now t dur) (table_view ls)
            = (table_view (put_node k ?n ?c), Inr (IsDetails (ln_details ?n)))"
          using root l n False u(1) nl by (simp add: table_view_def c Let_def)
      qed (simp_all add: u)
    qed
  qed
qed

lemma unlock_refines:
  assumes "table_ok ls"
  shows "refines (OpUnlock now t) ls"
proof -
  let ?c = "collect_expired now ls"
  note c = collect_expired_ok [OF assms(1), of now]
  show ?thesis
  proof (cases "ml_by_token ?c t")
    case None
    then show ?thesis
      using token_step [OF assms, of now t]
      by (intro refinesI [where ls' = ?c]) (simp_all add: answer_def lock_unlock_def bnd_def table_view_def c)
  next
    case (Some k)
    obtain l n where l: "locks ?c k = Some l" "node_at ?c k = Some n" "node_lock n = Some l"
      using token_lock [OF table_okD(3) [OF c(2)] Some] by metis
    have n: "dl_held l = ln_held n" using l(3) by (auto simp: node_lock_eq)
    note root = token_step [OF assms, of now t, unfolded Some, symmetric]
    show ?thesis
    proof (cases "ln_held n")
      case True
      then show ?thesis
        using Some l n root
        by (intro refinesI [where ls' = ?c])
          (simp_all add: answer_def lock_unlock_def bnd_def table_view_def c)
    next
      case False
      then have "\<not> dl_held l" using n by simp
      note rm = lock_remove_ok [OF c(2) l(1) this]
      show ?thesis
        using Some l n root False
        by (intro refinesI [where ls' = "lock_remove k ?c"])
          (simp_all add: answer_def lock_unlock_def bnd_def table_view_def c rm)
    qed
  qed
qed

lemma confirm_refines:
  assumes "table_ok ls"
  shows "refines (OpConfirm now a b conds) ls"
proof -
  let ?c = "collect_expired now ls"
  note c = collect_expired_ok [OF assms(1), of now]
  note eq = confirm_ok [OF assms, of now a b conds]
  show ?thesis
  proof (cases "spec_confirm (unexpired now (locks ls)) a b conds")
    case (Inl e)
    then show ?thesis
      using eq by (intro refinesI [where ls' = ?c]) (simp_all add: table_view_def c)
  next
    case (Inr rs)
    have "True \<longrightarrow> set rs \<subseteq> dom (locks ?c)" using spec_confirm_dom [OF Inr] by (simp add: c)
    note h = fold_set_held_ok [OF c(2) this]
    show ?thesis
      using eq Inr h by (intro refinesI [where ls' = "fold (set_held True) rs ?c"]) (simp_all add: table_view_def c)
  qed
qed

lemma release_refines:
  assumes "table_ok ls"
  shows "refines (OpRelease rs) ls"
proof -
  have h: "locks (fold (set_held False) rs ls) = hold False rs (locks ls) \<and> table_ok (fold (set_held False) rs ls)
      \<and> ml_generation (fold (set_held False) rs ls) = ml_generation ls"
    by (rule fold_set_held_ok [OF assms]) simp
  then show ?thesis
    by (intro refinesI [where ls' = "fold (set_held False) rs ls"])
      (simp_all add: answer_def lock_release_def bnd_def table_view_def)
qed

lemma step_refines:
  assumes "table_ok ls" "ml_generation ls + 1 < U64"
  shows "refines op ls"
  using assms create_refines refresh_refines unlock_refines confirm_refines release_refines
  by (cases op) simp_all

lemma spec_generation: "fst (fst (spec_step op (g, L))) \<le> g + 1"
  by (cases op) (simp_all add: Let_def split: option.split sum.split)

lemma table_ok_new: "g < U64 \<Longrightarrow> table_ok (mem_ls_new g)"
proof -
  have "locks (mem_ls_new g) = Map.empty" by (simp add: locks_def mem_ls_new_def fun_eq_iff)
  then show "g < U64 \<Longrightarrow> table_ok (mem_ls_new g)"
    unfolding table_ok_def shape_ok_def counts_ok_def tokens_ok_def exclusive_def users_def
    by (simp add: mem_ls_new_def)
qed

lemma step_view:
  assumes "refines op ls"
  shows "table_ok (fst (lock_step op ls))"
    "table_view (fst (lock_step op ls)) = fst (spec_step op (table_view ls))"
    "snd (lock_step op ls) = map_sum LockErr id (snd (spec_step op (table_view ls)))"
  using assms by (auto simp: refines_def split: prod.splits)

lemma lock_run_ok:
  assumes "table_ok ls" "ml_generation ls + length ops < U64"
  shows "table_ok (lock_run ops ls)" "ml_generation (lock_run ops ls) \<le> ml_generation ls + length ops"
    "table_view (lock_run ops ls) = fold (\<lambda>op v. fst (spec_step op v)) ops (table_view ls)"
proof -
  have "table_ok (lock_run ops ls) \<and> ml_generation (lock_run ops ls) \<le> ml_generation ls + length ops
      \<and> table_view (lock_run ops ls) = fold (\<lambda>op v. fst (spec_step op v)) ops (table_view ls)"
    using assms
  proof (induction ops arbitrary: ls)
    case (Cons op ops)
    have "refines op ls" using Cons.prems by (intro step_refines) simp_all
    note s = step_view [OF this]
    have g: "ml_generation (fst (lock_step op ls)) \<le> ml_generation ls + 1"
      using spec_generation [of op "ml_generation ls" "locks ls"] arg_cong [OF s(2), of fst]
      by (simp add: table_view_def)
    then show ?case
      using Cons.IH [OF s(1)] Cons.prems(2) s(2) by (simp add: lock_run_def)
  qed (simp add: lock_run_def)
  then show "table_ok (lock_run ops ls)" "ml_generation (lock_run ops ls) \<le> ml_generation ls + length ops"
    "table_view (lock_run ops ls) = fold (\<lambda>op v. fst (spec_step op v)) ops (table_view ls)"
    by blast+
qed

end
