(* ===== verification/DavLockProps.thy ===== *)
theory DavLockProps
  imports DavLockSpec
begin

text \<open>
  What the lock table promises to the WebDAV handlers, in every state it can be in.
\<close>

text \<open>
  C31. The lock table behaves as a plain map from names to locks. Whatever was done to it before,
  every operation gives the answer that the map gives and leaves the map that it leaves: expired
  locks that nobody holds are gone first; a new lock is refused exactly when its name is locked,
  when a lock of infinite depth is on the way to the root, or when it is itself infinite and there
  is a lock below; refreshing, unlocking, confirming and releasing act on the lock their token
  names. No operation ever indexes a missing node.
\<close>

theorem lock_table_refines:
  assumes "ls = lock_run ops (mem_ls_new g)" "g + length ops + 1 < U64"
    and "lock_step op ls = (ls', r)"
  shows "r \<noteq> Inl Panicked
    \<and> (table_view ls', r) = map_prod id (map_sum LockErr id) (spec_step op (table_view ls))"
proof -
  have "table_ok (mem_ls_new g)" "ml_generation (mem_ls_new g) + length ops < U64"
    using assms(2) table_ok_new by (simp_all add: mem_ls_new_def)
  note run = lock_run_ok [OF this]
  have "refines op ls"
    using run assms(1,2) by (intro step_refines) (simp_all add: mem_ls_new_def)
  then have "table_view ls' = fst (spec_step op (table_view ls))"
    "r = map_sum LockErr id (snd (spec_step op (table_view ls)))"
    using assms(3) by (simp_all add: refines_def)
  then show ?thesis
    by (cases "spec_step op (table_view ls)"; cases "snd (spec_step op (table_view ls))") auto
qed

definition plain_lock :: "string \<Rightarrow> bool \<Rightarrow> lock_details" where
  "plain_lock r zd = \<lparr>ld_root = r, ld_duration = None, ld_owner_xml = [], ld_zero_depth = zd\<rparr>"

lemma sample_paths:
  "slash_clean ''/a'' = ''/a''" "slash_clean ''/b'' = ''/b''" "slash_clean ''/a/b'' = ''/a/b''"
  "path_up ''/a'' = [''/a'', ''/'']" "path_up ''/b'' = [''/b'', ''/'']" "path_up ''/a/b'' = [''/a/b'', ''/a'', ''/'']"
  by (simp_all add: slash_clean_def clean_def starts_with_def path_up.simps cut_name_def)

lemma sample_tokens: "decimal 8 = ''8''" "decimal 9 = ''9''" "decimal 10 = ''10''"
  by code_simp+

lemma sample_view:
  "table_view (lock_run [OpCreate 0 (plain_lock ''/a'' False)] (mem_ls_new 7))
   = (8, [''/a'' \<mapsto> new_lock 0 (plain_lock ''/a'' False) ''8''])"
proof -
  have "table_ok (mem_ls_new 7)" by (rule table_ok_new) (simp add: U64_def)
  moreover have "ml_generation (mem_ls_new 7) + length [OpCreate 0 (plain_lock ''/a'' False)] < U64"
    by (simp add: U64_def mem_ls_new_def)
  ultimately have this: "table_ok (mem_ls_new 7)"
    "ml_generation (mem_ls_new 7) + length [OpCreate 0 (plain_lock ''/a'' False)] < U64" by blast+
  note run = lock_run_ok(3) [OF this]
  have "table_view (mem_ls_new 7) = (7, Map.empty)"
    by (simp add: table_view_def locks_def mem_ls_new_def fun_eq_iff)
  moreover have "unexpired 0 Map.empty = Map.empty" by (simp add: unexpired_def fun_eq_iff)
  ultimately show ?thesis
    unfolding run by (simp add: Let_def plain_lock_def sample_paths sample_tokens conflict_def users_def)
qed

theorem lock_table_refines_witness:
  "snd (lock_step (OpCreate 5 (plain_lock ''/a/b'' True))
     (lock_run [OpCreate 0 (plain_lock ''/a'' False)] (mem_ls_new 7))) = Inl (LockErr Locked)
   \<and> snd (lock_step (OpCreate 5 (plain_lock ''/b'' True))
     (lock_run [OpCreate 0 (plain_lock ''/a'' False)] (mem_ls_new 7))) = Inr (IsToken ''9'')"
proof -
  let ?ls = "lock_run [OpCreate 0 (plain_lock ''/a'' False)] (mem_ls_new 7)"
  have bound: "7 + length [OpCreate 0 (plain_lock ''/a'' False)] + 1 < U64" by (simp add: U64_def)
  have use: "snd (lock_step op ?ls) = map_sum LockErr id (snd (spec_step op (table_view ?ls)))" for op
    using lock_table_refines [OF refl bound, of op "fst (lock_step op ?ls)" "snd (lock_step op ?ls)"]
    by (cases "spec_step op (table_view ?ls)") simp
  have "unexpired 5 [''/a'' \<mapsto> new_lock 0 (plain_lock ''/a'' False) ''8''] = [''/a'' \<mapsto> new_lock 0 (plain_lock ''/a'' False) ''8'']"
    by (simp add: unexpired_def lapsed_def new_lock_def plain_lock_def fun_eq_iff)
  then show ?thesis
    unfolding use sample_view
    by (simp add: Let_def plain_lock_def sample_paths sample_tokens conflict_def users_def new_lock_def)
qed



end
