(* ===== verification/Xml.thy ===== *)
theory Xml
  imports Domain
begin

text \<open>
  Text helpers of the HTTP layer that several documents share: \<open>didl::escape\<close> of
  \<open>rustorr-http/src/dlna/didl.rs\<close>, \<open>String::from_utf8_lossy\<close> of the standard library, and the
  request bodies of \<open>rustorr-http/src/webdav/xml.rs\<close> with the documents it writes. The XML reader,
  the \<open>quick-xml\<close> crate, is outside: a body is the list of the events it reports for it, each
  with the byte positions before and after.
\<close>

subsection \<open>Lossy decoding\<close>

text \<open>
  \<open>from_utf8_lossy\<close> replaces every maximal ill-formed piece by U+FFFD. \<open>utf8_chunk\<close> gives the length of
  the piece at the front and whether it is a character.
\<close>

definition between :: "nat \<Rightarrow> nat list \<Rightarrow> nat \<Rightarrow> nat \<Rightarrow> bool" where
  "between i bs lo hi = (i < length bs \<and> lo \<le> bs ! i \<and> bs ! i \<le> hi)"

definition utf8_chunk :: "nat list \<Rightarrow> nat \<times> bool" where
  "utf8_chunk bs =
     (let b = bs ! 0 in
      if b < 128 then (1, True)
      else if 194 \<le> b \<and> b \<le> 223 then
        (if between 1 bs 128 191 then (2, True) else (1, False))
      else if 224 \<le> b \<and> b \<le> 239 then
        (if \<not> between 1 bs (if b = 224 then 160 else 128) (if b = 237 then 159 else 191) then (1, False)
         else if between 2 bs 128 191 then (3, True) else (2, False))
      else if 240 \<le> b \<and> b \<le> 244 then
        (if \<not> between 1 bs (if b = 240 then 144 else 128) (if b = 244 then 143 else 191) then (1, False)
         else if \<not> between 2 bs 128 191 then (2, False)
         else if between 3 bs 128 191 then (4, True) else (3, False))
      else (1, False))"

lemma utf8_chunk_pos: "0 < fst (utf8_chunk bs)"
  by (simp add: utf8_chunk_def Let_def)

function lossy_bytes :: "nat list \<Rightarrow> nat list" where
  "lossy_bytes [] = []"
| "lossy_bytes (b # bs) =
     (let chunk = utf8_chunk (b # bs)
      in (if snd chunk then take (fst chunk) (b # bs) else [239, 191, 189])
         @ lossy_bytes (drop (fst chunk) (b # bs)))"
  by pat_completeness auto
termination
proof (relation "measure length")
  fix b :: nat and bs x
  assume "x = utf8_chunk (b # bs)"
  then have "0 < fst x" using utf8_chunk_pos by simp
  then show "(drop (fst x) (b # bs), b # bs) \<in> measure length" by simp
qed simp

definition from_utf8_lossy :: "byte list \<Rightarrow> string" where
  "from_utf8_lossy bs = bytes_str (lossy_bytes (map unat bs))"

subsection \<open>Escaping\<close>

text \<open>
  A character is the list of its bytes; of the encodings of two bytes or more only U+FFFE and
  U+FFFF are not XML characters, as a \<open>char\<close> is never a surrogate.
\<close>

definition xml_allowed :: "string \<Rightarrow> bool" where
  "xml_allowed c =
     (if length c \<le> 1 then list_all (\<lambda>b. byte_val b \<in> {9, 10, 13} \<or> 32 \<le> byte_val b) c
      else c \<noteq> bytes_str [239, 191, 190] \<and> c \<noteq> bytes_str [239, 191, 191])"

definition escape_char :: "string \<Rightarrow> string" where
  "escape_char c =
     (if c = [CHR 0x22] then ''&#34;''
      else if c = [CHR 0x27] then ''&#39;''
      else if c = ''&'' then ''&amp;''
      else if c = ''<'' then ''&lt;''
      else if c = ''>'' then ''&gt;''
      else if c = [CHR 0x09] then ''&#x9;''
      else if c = [CHR 0x0A] then ''&#xA;''
      else if c = [CHR 0x0D] then ''&#xD;''
      else if xml_allowed c then c
      else bytes_str [239, 191, 189])"

definition xml_escape :: "string \<Rightarrow> string" where
  "xml_escape s = concat (map escape_char (utf8_chars s))"

subsection \<open>Searching\<close>

definition str_contains :: "string \<Rightarrow> string \<Rightarrow> bool" where
  "str_contains s p = list_ex (\<lambda>i. starts_with (drop i s) p) [0..<length s + 1]"

definition strip_suffix :: "string \<Rightarrow> string \<Rightarrow> string option" where
  "strip_suffix s p = map_option rev (strip_prefix (rev s) (rev p))"

end
