(* ===== verification/DavXml.thy ===== *)
theory DavXml
  imports Xml
begin

text \<open>
  \<open>rustorr-http/src/webdav/xml.rs\<close>: the request bodies of the WebDAV methods and the documents of
  the responses. A body's events come from the XML reader, which is a parameter; it reports every
  event with the positions around it, inside the body, and ends with \<open>EvEof\<close> or an error.
\<close>

subsection \<open>Elements\<close>

record prop_name =
  pn_space :: string
  pn_local :: string

definition DAV :: string where "DAV = ''DAV:''"

definition dav :: "string \<Rightarrow> prop_name" where
  "dav l = \<lparr>pn_space = DAV, pn_local = l\<rparr>"

definition quoted :: "string \<Rightarrow> string" where
  "quoted s = [CHR 0x22] @ s @ [CHR 0x22]"

definition tagged :: "string \<Rightarrow> string \<Rightarrow> string" where
  "tagged tag inner = ''<'' @ tag @ ''>'' @ inner @ ''</'' @ tag @ ''>''"

definition name_element :: "prop_name \<Rightarrow> string \<Rightarrow> string" where
  "name_element n inner =
     (if pn_space n = DAV then tagged (''D:'' @ pn_local n) inner
      else if pn_space n = [] then tagged (pn_local n) inner
      else ''<'' @ pn_local n @ '' xmlns='' @ quoted (xml_escape (pn_space n)) @ ''>'' @ inner
           @ ''</'' @ pn_local n @ ''>'')"

datatype xml_element =
  XmlElement (el_name: prop_name) (el_children: "xml_element list") (el_text: string) (el_content: "nat \<times> nat")

datatype xml_event =
    EvStart "byte list option" "byte list"
  | EvEmpty "byte list option" "byte list"
  | EvEnd
  | EvText "byte list"
  | EvCData "byte list"
  | EvRef "byte list"
  | EvEof
  | EvOther

type_synonym xml_item = "unit + nat \<times> xml_event \<times> nat"
type_synonym xml_reader = "byte list \<Rightarrow> xml_item list"

definition resolved :: "byte list option \<Rightarrow> string" where
  "resolved namespace = (case namespace of None \<Rightarrow> [] | Some s \<Rightarrow> from_utf8_lossy s)"

definition new_element :: "byte list option \<Rightarrow> byte list \<Rightarrow> nat \<Rightarrow> xml_element" where
  "new_element namespace l after =
     XmlElement \<lparr>pn_space = resolved namespace, pn_local = from_utf8_lossy l\<rparr> [] [] (after, after)"

fun push_text :: "string \<Rightarrow> xml_element list \<Rightarrow> xml_element list" where
  "push_text t [] = []"
| "push_text t (XmlElement n cs s r # stack) = XmlElement n cs (s @ t) r # stack"

text \<open>
  The loop of \<open>document\<close>. \<open>next_item\<close> is what one event does to the stack of open elements (the
  innermost first): it may finish the document, or leave a new stack.
\<close>

fun close_element :: "xml_element \<Rightarrow> xml_element list \<Rightarrow> (xml_element option) + xml_element list" where
  "close_element e [] = Inl (Some e)"
| "close_element e (XmlElement n cs s r # stack) = Inr (XmlElement n (cs @ [e]) s r # stack)"

fun end_element :: "nat \<Rightarrow> xml_element \<Rightarrow> xml_element" where
  "end_element before (XmlElement n cs s (a, b)) = XmlElement n cs s (a, before)"

fun next_item ::
    "nat \<times> xml_event \<times> nat \<Rightarrow> xml_element list \<Rightarrow> unit + ((xml_element option) + xml_element list)" where
  "next_item (before, EvStart ns l, after) stack = Inr (Inr (new_element ns l after # stack))"
| "next_item (before, EvEmpty ns l, after) stack = Inr (close_element (new_element ns l after) stack)"
| "next_item (before, EvEnd, after) stack =
     (case stack of
        [] \<Rightarrow> Inl ()
      | e # stack \<Rightarrow> Inr (close_element (end_element before e) stack))"
| "next_item (before, EvText t, after) stack = Inr (Inr (push_text (from_utf8_lossy t) stack))"
| "next_item (before, EvCData t, after) stack = Inr (Inr (push_text (from_utf8_lossy t) stack))"
| "next_item (before, EvRef t, after) stack =
     Inr (Inr (push_text (''&'' @ from_utf8_lossy t @ '';'') stack))"
| "next_item (before, EvEof, after) stack = (if stack = [] then Inr (Inl None) else Inl ())"
| "next_item (before, EvOther, after) stack = Inr (Inr stack)"

fun document_loop :: "xml_element list \<Rightarrow> xml_item list \<Rightarrow> unit + xml_element option" where
  "document_loop stack [] = Inl ()"
| "document_loop stack (item # items) =
     (case item of
        Inl e \<Rightarrow> Inl ()
      | Inr i \<Rightarrow>
          (case next_item i stack of
             Inl e \<Rightarrow> Inl ()
           | Inr (Inl found) \<Rightarrow> Inr found
           | Inr (Inr stack') \<Rightarrow> document_loop stack' items))"

definition document :: "xml_reader \<Rightarrow> byte list \<Rightarrow> unit + xml_element option" where
  "document reader body = document_loop [] (reader body)"

text \<open>\<open>document(body)?.ok_or(())?\<close>\<close>

definition document_root :: "xml_reader \<Rightarrow> byte list \<Rightarrow> unit + xml_element" where
  "document_root reader body =
     (case document reader body of Inl e \<Rightarrow> Inl () | Inr None \<Rightarrow> Inl () | Inr (Some e) \<Rightarrow> Inr e)"

definition content_of :: "byte list \<Rightarrow> xml_element \<Rightarrow> byte list" where
  "content_of body e = take (snd (el_content e) - fst (el_content e)) (drop (fst (el_content e)) body)"

subsection \<open>PROPFIND and PROPPATCH\<close>

definition property_names :: "xml_element \<Rightarrow> unit + prop_name list" where
  "property_names e =
     (if el_children e = [] then Inl ()
      else
        map_result_all
          (\<lambda>c. if el_children c = [] \<and> el_text c = [] then Inr (el_name c) else Inl ())
          (el_children e))"

record propfind =
  pf_allprop :: bool
  pf_propname :: bool
  pf_prop :: "prop_name list option"
  pf_include :: "prop_name list option"

definition propfind_default :: propfind where
  "propfind_default = \<lparr>pf_allprop = False, pf_propname = False, pf_prop = None, pf_include = None\<rparr>"

definition extended :: "prop_name list option \<Rightarrow> prop_name list \<Rightarrow> prop_name list option" where
  "extended o1 names = Some ((case o1 of None \<Rightarrow> [] | Some ns \<Rightarrow> ns) @ names)"

fun propfind_children :: "xml_element list \<Rightarrow> propfind \<Rightarrow> unit + propfind" where
  "propfind_children [] found = Inr found"
| "propfind_children (c # cs) found =
     (if pn_space (el_name c) \<noteq> DAV then propfind_children cs found
      else if pn_local (el_name c) = ''allprop'' then propfind_children cs (found\<lparr>pf_allprop := True\<rparr>)
      else if pn_local (el_name c) = ''propname'' then propfind_children cs (found\<lparr>pf_propname := True\<rparr>)
      else if pn_local (el_name c) = ''prop'' then
        (case property_names c of
           Inl e \<Rightarrow> Inl ()
         | Inr ns \<Rightarrow> propfind_children cs (found\<lparr>pf_prop := extended (pf_prop found) ns\<rparr>))
      else if pn_local (el_name c) = ''include'' then
        (case property_names c of
           Inl e \<Rightarrow> Inl ()
         | Inr ns \<Rightarrow> propfind_children cs (found\<lparr>pf_include := extended (pf_include found) ns\<rparr>))
      else propfind_children cs found)"

definition propfind_invalid :: "propfind \<Rightarrow> bool" where
  "propfind_invalid f =
     (\<not> pf_allprop f \<and> pf_include f \<noteq> None
      \<or> pf_allprop f \<and> (pf_prop f \<noteq> None \<or> pf_propname f)
      \<or> pf_prop f \<noteq> None \<and> pf_propname f
      \<or> \<not> pf_propname f \<and> \<not> pf_allprop f \<and> pf_prop f = None)"

definition read_propfind :: "xml_reader \<Rightarrow> byte list \<Rightarrow> unit + propfind" where
  "read_propfind reader body =
     (if body = [] then Inr (propfind_default\<lparr>pf_allprop := True\<rparr>)
      else
        (case document_root reader body of
           Inl e \<Rightarrow> Inl ()
         | Inr base \<Rightarrow>
             if el_name base \<noteq> dav ''propfind'' then Inl ()
             else
               (case propfind_children (el_children base) propfind_default of
                  Inl e \<Rightarrow> Inl ()
                | Inr found \<Rightarrow> if propfind_invalid found then Inl () else Inr found)))"

fun touched :: "byte list \<Rightarrow> bool \<Rightarrow> xml_element list \<Rightarrow> unit + prop_name list" where
  "touched body remove [] = Inr []"
| "touched body remove (p # ps) =
     (if remove \<and> content_of body p \<noteq> [] then Inl ()
      else map_sum id (\<lambda>ns. el_name p # ns) (touched body remove ps))"

fun patched :: "byte list \<Rightarrow> bool \<Rightarrow> xml_element list \<Rightarrow> unit + prop_name list" where
  "patched body remove [] = Inr []"
| "patched body remove (p # ps) =
     (if el_children p = [] then Inl ()
      else
        (case touched body remove (el_children p) of
           Inl e \<Rightarrow> Inl ()
         | Inr ns \<Rightarrow> map_sum id (\<lambda>ms. ns @ ms) (patched body remove ps)))"

fun patch_operations :: "byte list \<Rightarrow> xml_element list \<Rightarrow> unit + prop_name list" where
  "patch_operations body [] = Inr []"
| "patch_operations body (op # ops) =
     (if el_name op \<noteq> dav ''set'' \<and> el_name op \<noteq> dav ''remove'' then Inl ()
      else
        (case patched body (el_name op = dav ''remove'')
                (filter (\<lambda>c. el_name c = dav ''prop'') (el_children op)) of
           Inl e \<Rightarrow> Inl ()
         | Inr ns \<Rightarrow> map_sum id (\<lambda>ms. ns @ ms) (patch_operations body ops)))"

definition read_proppatch :: "xml_reader \<Rightarrow> byte list \<Rightarrow> unit + prop_name list" where
  "read_proppatch reader body =
     (case document_root reader body of
        Inl e \<Rightarrow> Inl ()
      | Inr base \<Rightarrow>
          if el_name base \<noteq> dav ''propertyupdate'' then Inl ()
          else patch_operations body (el_children base))"

subsection \<open>LOCK\<close>

datatype lock_info =
    LockInfoEmpty
  | LockInfoExclusive string
  | LockInfoUnsupported

record lock_request =
  lr_exclusive :: bool
  lr_shared :: bool
  lr_write :: bool
  lr_owner :: string

definition lock_child :: "byte list \<Rightarrow> lock_request \<Rightarrow> xml_element \<Rightarrow> lock_request" where
  "lock_child body rq c =
     (let l = pn_local (el_name c); items = map (\<lambda>i. pn_local (el_name i)) (el_children c) in
      if l = ''lockscope'' then
        rq\<lparr>lr_exclusive := lr_exclusive rq \<or> ''exclusive'' \<in> set items,
           lr_shared := lr_shared rq \<or> ''shared'' \<in> set items\<rparr>
      else if l = ''locktype'' then rq\<lparr>lr_write := lr_write rq \<or> ''write'' \<in> set items\<rparr>
      else if l = ''owner'' then rq\<lparr>lr_owner := from_utf8_lossy (content_of body c)\<rparr>
      else rq)"

definition read_lockinfo :: "xml_reader \<Rightarrow> byte list \<Rightarrow> unit + lock_info" where
  "read_lockinfo reader body =
     (if body = [] then Inr LockInfoEmpty
      else
        (case document_root reader body of
           Inl e \<Rightarrow> Inl ()
         | Inr base \<Rightarrow>
             if pn_local (el_name base) \<noteq> ''lockinfo'' then Inl ()
             else
               (let rq = foldl (lock_child body)
                      \<lparr>lr_exclusive = False, lr_shared = False, lr_write = False, lr_owner = []\<rparr>
                      (el_children base)
                in if \<not> lr_exclusive rq \<or> lr_shared rq \<or> \<not> lr_write rq then Inr LockInfoUnsupported
                   else Inr (LockInfoExclusive (lr_owner rq)))))"

subsection \<open>Documents\<close>

definition escape_markup :: "string \<Rightarrow> string" where
  "escape_markup s =
     (if list_ex (\<lambda>c. c \<in> {CHR 0x22, CHR ''&'', CHR 0x27, CHR ''<'', CHR ''>''}) s then xml_escape s else s)"

definition xml_head :: "string \<Rightarrow> string" where
  "xml_head enc = ''<?xml version='' @ quoted ''1.0'' @ '' encoding='' @ quoted enc @ ''?>''"

definition lock_body :: "string \<Rightarrow> string \<Rightarrow> string \<Rightarrow> nat option \<Rightarrow> bool \<Rightarrow> string" where
  "lock_body token r owner_xml timeout zero_depth =
     (let nl = [CHR 0x0A]; tab = [CHR 0x09] in
      xml_head ''utf-8'' @ nl
      @ ''<D:prop xmlns:D='' @ quoted DAV @ ''><D:lockdiscovery><D:activelock>'' @ nl
      @ tab @ ''<D:locktype><D:write/></D:locktype>'' @ nl
      @ tab @ ''<D:lockscope><D:exclusive/></D:lockscope>'' @ nl
      @ tab @ tagged ''D:depth'' (if zero_depth then ''0'' else ''infinity'') @ nl
      @ tab @ tagged ''D:owner'' owner_xml @ nl
      @ tab @ tagged ''D:timeout'' (''Second-'' @ decimal (case timeout of None \<Rightarrow> 0 | Some t \<Rightarrow> t)) @ nl
      @ tab @ tagged ''D:locktoken'' (tagged ''D:href'' (escape_markup token)) @ nl
      @ tab @ tagged ''D:lockroot'' (tagged ''D:href'' (escape_markup r)) @ nl
      @ ''</D:activelock></D:lockdiscovery></D:prop>'')"

record propstat =
  ps_props :: "(prop_name \<times> string) list"
  ps_status :: nat
  ps_error :: "string option"

text \<open>The reason phrases of the other codes are those of the \<open>http\<close> crate.\<close>

definition status_text :: "(nat \<Rightarrow> string) \<Rightarrow> nat \<Rightarrow> string" where
  "status_text reason code =
     (if code = 207 then ''Multi-Status''
      else if code = 422 then ''Unprocessable Entity''
      else if code = 423 then ''Locked''
      else if code = 424 then ''Failed Dependency''
      else if code = 507 then ''Insufficient Storage''
      else reason code)"

definition propstat_xml :: "(nat \<Rightarrow> string) \<Rightarrow> propstat \<Rightarrow> string" where
  "propstat_xml reason ps =
     ''<D:propstat><D:prop>'' @ concat (map (\<lambda>(n, v). name_element n v) (ps_props ps))
     @ ''</D:prop><D:status>HTTP/1.1 '' @ decimal (ps_status ps) @ '' '' @ status_text reason (ps_status ps)
     @ ''</D:status>''
     @ (case ps_error ps of None \<Rightarrow> [] | Some e \<Rightarrow> tagged ''D:error'' e)
     @ ''</D:propstat>''"

definition response_xml :: "(nat \<Rightarrow> string) \<Rightarrow> string \<Rightarrow> propstat list \<Rightarrow> string" where
  "response_xml reason href pss =
     ''<D:response>'' @ tagged ''D:href'' (xml_escape href) @ concat (map (propstat_xml reason) pss)
     @ ''</D:response>''"

definition multistatus :: "string \<Rightarrow> string" where
  "multistatus responses =
     xml_head ''UTF-8'' @ ''<D:multistatus xmlns:D='' @ quoted DAV @ ''>'' @ responses @ ''</D:multistatus>''"

end
