(* ===== verification/WebDav.thy ===== *)
theory WebDav
  imports DavXml DavLockSpec ServeContent
begin

text \<open>
  \<open>rustorr-http/src/webdav/mod.rs\<close>: the handlers of the WebDAV mount over the torrent file system and
  the lock table. A handler is an action on the client core's state and the lock table that ends
  in a response; early returns are \<open>Respond\<close>. One request runs at a time here: what the lock table
  promises to requests that interleave is the subject of \<open>DavLockProps\<close>.

  The clock, the sources of files, the XML reader, the URL parser, percent decoding and the reason
  phrases of the \<open>http\<close> crate are the record \<open>dav_env\<close>.
\<close>

subsection \<open>The mount\<close>

record 'c dav_env =
  de_core :: "'c client_core"
  de_lib :: http_lib
  de_src :: src_env
  de_nanos :: nat
  de_reader :: xml_reader
  de_reason :: "nat \<Rightarrow> string"
  de_decode :: "string \<Rightarrow> string"
  de_url :: "string \<Rightarrow> (string option \<times> nat option \<times> string) option"
  de_now :: nat
  de_later :: nat

record 'c web_dav =
  wd_core :: 'c
  wd_locks :: mem_ls

record dav_request =
  dq_path :: string
  dq_headers :: req_headers
  dq_host :: string
  dq_method :: string

text \<open>\<open>DavLoops\<close>: the handler would never answer.\<close>

datatype dav_stop = Respond http_response | DavPanic | DavLoops

type_synonym ('c, 'a) dav_act = "('c web_dav, dav_stop, 'a) act"

definition on_locks :: "'a lock_act \<Rightarrow> ('c, lock_error + 'a) dav_act" where
  "on_locks m = (\<lambda>s.
     case m (wd_locks s) of
       (ls, r) \<Rightarrow>
         (s\<lparr>wd_locks := ls\<rparr>,
          case r of
            Inl Panicked \<Rightarrow> Inl DavPanic
          | Inl (LockErr e) \<Rightarrow> Inr (Inl e)
          | Inr x \<Rightarrow> Inr (Inr x)))"

definition on_fs :: "('c, fs_error, 'a) act \<Rightarrow> ('c, fs_error + 'a) dav_act" where
  "on_fs m = (\<lambda>s. case m (wd_core s) of (c, r) \<Rightarrow> (s\<lparr>wd_core := c\<rparr>, Inr r))"

definition respond :: "http_response \<Rightarrow> ('c, 'a) dav_act" where
  "respond r = raise (Respond r)"

definition PREFIX :: string where "PREFIX = ''/dav''"

definition ROUTED :: "string list" where
  "ROUTED =
     [''GET'', ''POST'', ''PUT'', ''PATCH'', ''HEAD'', ''OPTIONS'', ''DELETE'', ''CONNECT'', ''TRACE'',
      ''PROPFIND'', ''PROPPATCH'', ''MKCOL'', ''COPY'', ''MOVE'', ''LOCK'', ''UNLOCK'']"

subsection \<open>Texts and paths\<close>

definition text_response :: "nat \<Rightarrow> string \<Rightarrow> string \<Rightarrow> http_response" where
  "text_response code kind body =
     \<lparr>rs_status = code, rs_headers = [(''content-type'', kind)], rs_body = stream_of (str_bytes body)\<rparr>"

definition dav_status :: "'c dav_env \<Rightarrow> nat \<Rightarrow> http_response" where
  "dav_status env code =
     (if code = 204 then empty_response 204
      else text_response code ''text/plain; charset=utf-8'' (status_text (de_reason env) code))"

definition fs_path :: "string \<Rightarrow> string" where
  "fs_path name = clean (''/'' @ name)"

definition upper_hex_char :: "nat \<Rightarrow> char" where
  "upper_hex_char d = char_of (if d < 10 then 48 + d else 55 + d)"

definition is_alphanumeric :: "char \<Rightarrow> bool" where
  "is_alphanumeric c =
     (48 \<le> byte_val c \<and> byte_val c \<le> 57 \<or> 65 \<le> byte_val c \<and> byte_val c \<le> 90
      \<or> 97 \<le> byte_val c \<and> byte_val c \<le> 122)"

definition escape_path :: "string \<Rightarrow> string" where
  "escape_path path = concat (map (\<lambda>c.
     if is_alphanumeric c \<or> c \<in> set ''-_.~$&+,/:;=@'' then [c]
     else [CHR ''%'', upper_hex_char (byte_val c div 16), upper_hex_char (byte_val c mod 16)]) path)"

definition join_path :: "string \<Rightarrow> string \<Rightarrow> string" where
  "join_path prefix path = clean (prefix @ ''/'' @ path)"

definition dav_header :: "'c dav_env \<Rightarrow> dav_request \<Rightarrow> string \<Rightarrow> string" where
  "dav_header env rq name = header_text (de_lib env) (dq_headers rq) name"

definition dav_stat :: "'c dav_env \<Rightarrow> string \<Rightarrow> ('c, fs_error + fs_info) dav_act" where
  "dav_stat env path = on_fs (fs_stat (de_core env) (fs_path path))"

definition authority :: "string option \<Rightarrow> nat option \<Rightarrow> string" where
  "authority host port =
     (let h = (case host of None \<Rightarrow> [] | Some h \<Rightarrow> h)
      in case port of Some p \<Rightarrow> h @ '':'' @ decimal p | None \<Rightarrow> h)"

definition parse_depth :: "string \<Rightarrow> int option" where
  "parse_depth v =
     (if v = ''0'' then Some 0 else if v = ''1'' then Some 1 else if v = ''infinity'' then Some (- 1) else None)"

definition split_url :: "'c dav_env \<Rightarrow> string \<Rightarrow> (string \<times> string) option" where
  "split_url env t =
     (if str_contains t ''://'' then
        (case de_url env t of
           None \<Rightarrow> None
         | Some (host, port, path) \<Rightarrow> Some (authority host port, de_decode env path))
      else Some ([], de_decode env (takeWhile (\<lambda>c. c \<noteq> CHR ''?'' \<and> c \<noteq> CHR ''#'') t)))"

subsection \<open>Locks around an operation\<close>

datatype held_locks = HeldTemporary "string list" | HeldConfirmed "string list"

definition unlock_all :: "nat \<Rightarrow> string list \<Rightarrow> ('c, unit) dav_act" where
  "unlock_all now tokens = for_each tokens (\<lambda>t. bnd (on_locks (lock_unlock now t)) (\<lambda>_. ret ()))"

fun temporary_locks :: "'c dav_env \<Rightarrow> string list \<Rightarrow> string list \<Rightarrow> ('c, string list) dav_act" where
  "temporary_locks env [] tokens = ret tokens"
| "temporary_locks env (name # names) tokens =
     (if name = [] then temporary_locks env names tokens
      else
        bnd (on_locks (lock_create (de_now env)
               \<lparr>ld_root = name, ld_duration = None, ld_owner_xml = [], ld_zero_depth = True\<rparr>)) (\<lambda>r.
        case r of
          Inr token \<Rightarrow> temporary_locks env names (tokens @ [token])
        | Inl e \<Rightarrow>
            seq (unlock_all (de_now env) tokens)
              (respond (dav_status env (if e = Locked then 423 else 500)))))"

text \<open>The resource an \<open>If\<close> list speaks of: none of this server's, one outside the mount, or a path.\<close>

datatype list_source = SourceSkip | SourceForeign | SourceIs string

definition source_of :: "'c dav_env \<Rightarrow> dav_request \<Rightarrow> string \<Rightarrow> string \<Rightarrow> list_source" where
  "source_of env rq src tag =
     (if tag = [] then SourceIs src
      else
        (case de_url env tag of
           None \<Rightarrow> SourceSkip
         | Some (host, port, path) \<Rightarrow>
             if authority host port \<noteq> dq_host rq then SourceSkip
             else (case strip_prefix (de_decode env path) PREFIX of None \<Rightarrow> SourceForeign | Some p \<Rightarrow> SourceIs p)))"

fun confirm_lists ::
    "'c dav_env \<Rightarrow> dav_request \<Rightarrow> string \<Rightarrow> string \<Rightarrow> if_list list \<Rightarrow> ('c, held_locks) dav_act" where
  "confirm_lists env rq src dest [] = respond (dav_status env 412)"
| "confirm_lists env rq src dest (l # ls) =
     (case source_of env rq src (il_resource_tag l) of
        SourceSkip \<Rightarrow> confirm_lists env rq src dest ls
      | SourceForeign \<Rightarrow> respond (dav_status env 404)
      | SourceIs locked_source \<Rightarrow>
          bnd (on_locks (confirm (de_now env) locked_source dest (il_conditions l))) (\<lambda>r.
          case r of
            Inr roots \<Rightarrow> ret (HeldConfirmed roots)
          | Inl e \<Rightarrow>
              if e = ConfirmationFailed then confirm_lists env rq src dest ls
              else respond (dav_status env 500)))"

definition confirm_locks :: "'c dav_env \<Rightarrow> dav_request \<Rightarrow> string \<Rightarrow> string \<Rightarrow> ('c, held_locks) dav_act" where
  "confirm_locks env rq src dest =
     (let header = dav_header env rq ''if'' in
      if header = [] then bnd (temporary_locks env [src, dest] []) (\<lambda>ts. ret (HeldTemporary ts))
      else
        (case parse_if header of
           None \<Rightarrow> respond (dav_status env 400)
         | Some ls \<Rightarrow> confirm_lists env rq src dest ls))"

fun release_held :: "'c dav_env \<Rightarrow> held_locks \<Rightarrow> ('c, unit) dav_act" where
  "release_held env (HeldTemporary tokens) = unlock_all (de_later env) tokens"
| "release_held env (HeldConfirmed roots) = bnd (on_locks (lock_release roots)) (\<lambda>_. ret ())"

text \<open>What the write methods share: hold the locks, compute an answer, release.\<close>

definition holding ::
    "'c dav_env \<Rightarrow> dav_request \<Rightarrow> string \<Rightarrow> string \<Rightarrow> ('c, http_response) dav_act \<Rightarrow> ('c, http_response) dav_act" where
  "holding env rq src dest body =
     bnd (confirm_locks env rq src dest) (\<lambda>h.
     bnd body (\<lambda>r.
     seq (release_held env h) (ret r)))"

subsection \<open>Methods\<close>

definition dav_options :: "'c dav_env \<Rightarrow> dav_request \<Rightarrow> ('c, http_response) dav_act" where
  "dav_options env rq =
     bnd (dav_stat env (dq_path rq)) (\<lambda>r.
     let allow = (case r of
           Inr info \<Rightarrow>
             if fi_is_dir info then ''OPTIONS, LOCK, DELETE, PROPPATCH, COPY, MOVE, UNLOCK, PROPFIND''
             else ''OPTIONS, LOCK, GET, HEAD, POST, DELETE, PROPPATCH, COPY, MOVE, UNLOCK, PROPFIND, PUT''
         | Inl e \<Rightarrow> ''OPTIONS, LOCK, PUT, MKCOL'')
     in ret \<lparr>rs_status = 200,
             rs_headers = [(''allow'', allow), (''dav'', ''1, 2''), (''ms-author-via'', ''DAV'')],
             rs_body = stream_of []\<rparr>)"

text \<open>\<open>{nanos:x}\<close> of an \<open>i128\<close> prints its two's complement.\<close>

definition dav_etag :: "fs_info \<Rightarrow> string" where
  "dav_etag info =
     quoted (hex_text (nat (fi_mtime info * 1000000000 mod 2 ^ 128)) @ hex_text (fi_size info))"

definition method_of :: "string \<Rightarrow> http_method" where
  "method_of m = (if m = ''GET'' then GET else if m = ''HEAD'' then HEAD else OtherMethod m)"

definition dav_get :: "'c dav_env \<Rightarrow> dav_request \<Rightarrow> ('c, http_response) dav_act" where
  "dav_get env rq =
     bnd (on_fs (fs_open (de_core env) (fs_path (dq_path rq)))) (\<lambda>r.
     case r of
       Inl e \<Rightarrow> respond (dav_status env 404)
     | Inr node \<Rightarrow>
         (case node of
            FsFile t name f \<Rightarrow>
              (case view_hash t of
                 None \<Rightarrow> respond (dav_status env 404)
               | Some h \<Rightarrow>
                   let info = node_info node in
                   ret (serve (de_lib env) (de_src env) (de_nanos env)
                     \<lparr>ct_source = Torrent h (fv_id f), ct_size = fi_size info, ct_name = dq_path rq,
                      ct_type = None, ct_modified = (if fi_mtime info < 0 then None else Some (nat (fi_mtime info))),
                      ct_etag = Some (dav_etag info)\<rparr>
                     (method_of (dq_method rq)) (dq_headers rq)))
          | _ \<Rightarrow> respond (dav_status env 405)))"

definition dav_delete :: "'c dav_env \<Rightarrow> dav_request \<Rightarrow> ('c, http_response) dav_act" where
  "dav_delete env rq =
     holding env rq (dq_path rq) []
       (bnd (dav_stat env (dq_path rq)) (\<lambda>r.
        ret (dav_status env (case r of Inl FsNotFound \<Rightarrow> 404 | _ \<Rightarrow> 405))))"

definition dav_put :: "'c dav_env \<Rightarrow> dav_request \<Rightarrow> ('c, http_response) dav_act" where
  "dav_put env rq = holding env rq (dq_path rq) [] (ret (dav_status env 404))"

definition dav_mkcol :: "'c dav_env \<Rightarrow> dav_request \<Rightarrow> bool \<Rightarrow> ('c, http_response) dav_act" where
  "dav_mkcol env rq no_body = holding env rq (dq_path rq) [] (ret (dav_status env (if no_body then 405 else 415)))"

definition copy_code :: "'c dav_env \<Rightarrow> dav_request \<Rightarrow> string \<Rightarrow> ('c, nat) dav_act" where
  "copy_code env rq dest =
     (let depth = dav_header env rq ''depth'' in
      if depth \<noteq> [] \<and> parse_depth depth \<notin> {Some 0, Some (- 1)} then ret 400
      else
        bnd (dav_stat env (dq_path rq)) (\<lambda>r.
        case r of
          Inl FsNotFound \<Rightarrow> ret 404
        | Inl _ \<Rightarrow> ret 500
        | Inr _ \<Rightarrow>
            bnd (dav_stat env dest) (\<lambda>r2.
            ret (case r2 of
                   Inl _ \<Rightarrow> 403
                 | Inr _ \<Rightarrow> if dav_header env rq ''overwrite'' = ''F'' then 412 else 403))))"

definition move_code :: "'c dav_env \<Rightarrow> dav_request \<Rightarrow> string \<Rightarrow> ('c, nat) dav_act" where
  "move_code env rq dest =
     (let depth = dav_header env rq ''depth'' in
      if depth \<noteq> [] \<and> parse_depth depth \<noteq> Some (- 1) then ret 400
      else
        bnd (dav_stat env dest) (\<lambda>r.
        ret (case r of
               Inl _ \<Rightarrow> 403
             | Inr _ \<Rightarrow> if dav_header env rq ''overwrite'' = ''T'' then 403 else 412)))"

definition dav_copy_move :: "'c dav_env \<Rightarrow> dav_request \<Rightarrow> ('c, http_response) dav_act" where
  "dav_copy_move env rq =
     (let destination = dav_header env rq ''destination'' in
      if destination = [] then respond (dav_status env 400)
      else
        (case split_url env destination of
           None \<Rightarrow> respond (dav_status env 400)
         | Some (host, path) \<Rightarrow>
             if host \<noteq> [] \<and> host \<noteq> dq_host rq then respond (dav_status env 502)
             else
               (case strip_prefix path PREFIX of
                  None \<Rightarrow> respond (dav_status env 404)
                | Some dest \<Rightarrow>
                    if dest = [] then respond (dav_status env 502)
                    else if dest = dq_path rq then respond (dav_status env 403)
                    else
                      (let copy = (dq_method rq = ''COPY'') in
                       holding env rq (if copy then [] else dq_path rq) dest
                         (bnd (if copy then copy_code env rq dest else move_code env rq dest) (\<lambda>code.
                          ret (dav_status env code)))))))"

end
