(* ===== verification/WebDavMethods.thy ===== *)
theory WebDavMethods
  imports WebDav
begin

text \<open>
  \<open>rustorr-http/src/webdav/mod.rs\<close>, continued: locking and unlocking, the properties of resources,
  and the dispatch of a request to its method.
\<close>

subsection \<open>LOCK and UNLOCK\<close>

definition lock_response :: "'c dav_env \<Rightarrow> string \<Rightarrow> lock_details \<Rightarrow> bool \<Rightarrow> http_response" where
  "lock_response env token d made =
     (let body = lock_body token (ld_root d) (ld_owner_xml d)
            (map_option (\<lambda>t. t div 1000000000) (ld_duration d)) (ld_zero_depth d);
          r = text_response 200 ''application/xml; charset=utf-8'' body
      in if made \<and> hl_value_ok (de_lib env) (''<'' @ token @ ''>'') then
           r\<lparr>rs_headers := hm_insert ''lock-token'' (''<'' @ token @ ''>'') (rs_headers r)\<rparr>
         else r)"

definition refresh_lock :: "'c dav_env \<Rightarrow> dav_request \<Rightarrow> nat option \<Rightarrow> ('c, http_response) dav_act" where
  "refresh_lock env rq duration =
     (case parse_if (dav_header env rq ''if'') of
        None \<Rightarrow> respond (dav_status env 400)
      | Some ls \<Rightarrow>
          (let token = (case ls of [l] \<Rightarrow> (case il_conditions l of [c] \<Rightarrow> cond_token c | _ \<Rightarrow> []) | _ \<Rightarrow> []) in
           if token = [] then respond (dav_status env 400)
           else
             bnd (on_locks (lock_refresh (de_now env) token duration)) (\<lambda>r.
             case r of
               Inr d \<Rightarrow> ret (lock_response env token d False)
             | Inl e \<Rightarrow> respond (dav_status env (if e = NoSuchLock then 412 else 500)))))"

definition create_lock ::
    "'c dav_env \<Rightarrow> dav_request \<Rightarrow> nat option \<Rightarrow> string \<Rightarrow> ('c, http_response) dav_act" where
  "create_lock env rq duration owner_xml =
     (let depth = dav_header env rq ''depth'';
          depth = (if depth = [] then Some (- 1) else parse_depth depth)
      in if depth \<notin> {Some 0, Some (- 1)} then respond (dav_status env 400)
         else
           (let d = \<lparr>ld_root = dq_path rq, ld_duration = duration, ld_owner_xml = owner_xml,
                     ld_zero_depth = (depth = Some 0)\<rparr> in
            bnd (on_locks (lock_create (de_now env) d)) (\<lambda>r.
            case r of
              Inl e \<Rightarrow> respond (dav_status env (if e = Locked then 423 else 500))
            | Inr token \<Rightarrow>
                bnd (dav_stat env (dq_path rq)) (\<lambda>found.
                case found of
                  Inl e \<Rightarrow> bnd (on_locks (lock_unlock (de_now env) token)) (\<lambda>_. respond (dav_status env 500))
                | Inr info \<Rightarrow> ret (lock_response env token d True)))))"

definition dav_lock_method :: "'c dav_env \<Rightarrow> dav_request \<Rightarrow> byte list \<Rightarrow> ('c, http_response) dav_act" where
  "dav_lock_method env rq body =
     (case parse_timeout (dav_header env rq ''timeout'') of
        Inl e \<Rightarrow> respond (dav_status env 400)
      | Inr duration \<Rightarrow>
          (case read_lockinfo (de_reader env) body of
             Inl e \<Rightarrow> respond (dav_status env 400)
           | Inr LockInfoUnsupported \<Rightarrow> respond (dav_status env 501)
           | Inr LockInfoEmpty \<Rightarrow> refresh_lock env rq duration
           | Inr (LockInfoExclusive owner_xml) \<Rightarrow> create_lock env rq duration owner_xml))"

definition lock_token_of :: "string \<Rightarrow> string option" where
  "lock_token_of token =
     (case strip_prefix token ''<'' of
        None \<Rightarrow> None
      | Some rest \<Rightarrow>
          (case strip_suffix rest ''>'' of
             None \<Rightarrow> None
           | Some t \<Rightarrow> if 2 \<le> length token then Some t else None))"

definition dav_unlock_method :: "'c dav_env \<Rightarrow> dav_request \<Rightarrow> ('c, http_response) dav_act" where
  "dav_unlock_method env rq =
     (case lock_token_of (dav_header env rq ''lock-token'') of
        None \<Rightarrow> respond (dav_status env 400)
      | Some token \<Rightarrow>
          bnd (on_locks (lock_unlock (de_now env) token)) (\<lambda>r.
          ret (dav_status env
            (case r of
               Inr _ \<Rightarrow> 204
             | Inl Locked \<Rightarrow> 423
             | Inl NoSuchLock \<Rightarrow> 409
             | Inl ConfirmationFailed \<Rightarrow> 500))))"

subsection \<open>Live properties\<close>

definition LIVE :: "string list" where
  "LIVE =
     [''resourcetype'', ''displayname'', ''getcontentlength'', ''getlastmodified'', ''creationdate'',
      ''getcontentlanguage'', ''getcontenttype'', ''getetag'', ''lockdiscovery'', ''supportedlock'']"

definition live_names :: "bool \<Rightarrow> prop_name list" where
  "live_names dir =
     map dav ([''resourcetype'', ''displayname'', ''getlastmodified'', ''supportedlock'']
              @ (if dir then [] else [''getcontentlength'', ''getcontenttype'', ''getetag'']))"

definition make_propstats :: "propstat \<Rightarrow> propstat \<Rightarrow> propstat list" where
  "make_propstats first second =
     (let pss = filter (\<lambda>p. ps_props p \<noteq> []) [first, second]
      in if pss = [] then [\<lparr>ps_props = [], ps_status = 200, ps_error = None\<rparr>] else pss)"

definition escape_display :: "string \<Rightarrow> string" where
  "escape_display name =
     (if list_all (\<lambda>c. c = CHR '' '' \<or> c = CHR ''_'' \<or> 43 \<le> byte_val c \<and> byte_val c \<le> 57
                        \<or> 65 \<le> byte_val c \<and> byte_val c \<le> 90 \<or> 97 \<le> byte_val c \<and> byte_val c \<le> 122) name
      then name else xml_escape name)"

definition SUPPORTED_LOCK :: string where
  "SUPPORTED_LOCK =
     ''<D:lockentry xmlns:D='' @ quoted ''DAV:''
     @ ''><D:lockscope><D:exclusive/></D:lockscope><D:locktype><D:write/></D:locktype></D:lockentry>''"

definition content_type_prop :: "'c dav_env \<Rightarrow> string \<Rightarrow> ('c, string option) dav_act" where
  "content_type_prop env path =
     (case by_extension (hl_guess (de_lib env)) path of
        Some k \<Rightarrow> ret (Some k)
      | None \<Rightarrow>
          bnd (on_fs (fs_open (de_core env) (fs_path path))) (\<lambda>r.
          ret (case r of
                 Inr (FsFile t name f) \<Rightarrow>
                   map_option (\<lambda>h. sniff_source (de_src env) (Torrent h (fv_id f)) (fv_length f)) (view_hash t)
               | _ \<Rightarrow> None)))"

definition live_value ::
    "'c dav_env \<Rightarrow> prop_name \<Rightarrow> string \<Rightarrow> fs_info \<Rightarrow> ('c, string option) dav_act" where
  "live_value env name path info =
     (let l = pn_local name; dir = fi_is_dir info in
      if pn_space name \<noteq> DAV then ret None
      else if l = ''resourcetype'' then
        ret (Some (if dir then ''<D:collection xmlns:D='' @ quoted ''DAV:'' @ ''/>'' else []))
      else if l = ''displayname'' then
        ret (Some (if slash_clean path = ''/'' then [] else escape_display (fi_name info)))
      else if l = ''getcontentlength'' \<and> \<not> dir then ret (Some (decimal (fi_size info)))
      else if l = ''getlastmodified'' then ret (Some (hl_fmt_date (de_lib env) (nat (fi_mtime info))))
      else if l = ''getcontenttype'' \<and> \<not> dir then content_type_prop env path
      else if l = ''getetag'' \<and> \<not> dir then ret (Some (dav_etag info))
      else if l = ''supportedlock'' then ret (Some SUPPORTED_LOCK)
      else ret None)"

fun live_values ::
    "'c dav_env \<Rightarrow> prop_name list \<Rightarrow> string \<Rightarrow> fs_info \<Rightarrow> propstat \<Rightarrow> propstat
     \<Rightarrow> ('c, propstat \<times> propstat) dav_act" where
  "live_values env [] path info found missing = ret (found, missing)"
| "live_values env (n # ns) path info found missing =
     bnd (live_value env n path info) (\<lambda>v.
     case v of
       Some x \<Rightarrow> live_values env ns path info (found\<lparr>ps_props := ps_props found @ [(n, x)]\<rparr>) missing
     | None \<Rightarrow> live_values env ns path info found (missing\<lparr>ps_props := ps_props missing @ [(n, [])]\<rparr>))"

definition asked_names :: "propfind \<Rightarrow> bool \<Rightarrow> prop_name list" where
  "asked_names pf dir =
     (if pf_allprop pf then
        foldl (\<lambda>ns n. if n \<in> set ns then ns else ns @ [n]) (live_names dir)
          (case pf_include pf of None \<Rightarrow> [] | Some ns \<Rightarrow> ns)
      else (case pf_prop pf of None \<Rightarrow> [] | Some ns \<Rightarrow> ns))"

definition propstats :: "'c dav_env \<Rightarrow> propfind \<Rightarrow> string \<Rightarrow> fs_info \<Rightarrow> ('c, propstat list) dav_act" where
  "propstats env pf path info =
     (if pf_propname pf then
        ret [\<lparr>ps_props = map (\<lambda>n. (n, [])) (live_names (fi_is_dir info)), ps_status = 200, ps_error = None\<rparr>]
      else
        bnd (live_values env (asked_names pf (fi_is_dir info)) path info
               \<lparr>ps_props = [], ps_status = 200, ps_error = None\<rparr> \<lparr>ps_props = [], ps_status = 404, ps_error = None\<rparr>)
          (\<lambda>(found, missing). ret (make_propstats found missing)))"

subsection \<open>PROPFIND\<close>

text \<open>The children of a directory that can be opened, with the information to show.\<close>

fun child_entries :: "'c dav_env \<Rightarrow> string \<Rightarrow> int \<Rightarrow> fs_node list \<Rightarrow> ('c, (string \<times> fs_info \<times> int) list) dav_act" where
  "child_entries env path depth [] = ret []"
| "child_entries env path depth (k # ks) =
     (let child_path = clean (path @ ''/'' @ node_name k) in
      bnd (dav_stat env child_path) (\<lambda>r.
      bnd (child_entries env path depth ks) (\<lambda>es.
      ret (case r of Inl e \<Rightarrow> es | Inr info \<Rightarrow> es @ [(child_path, info, depth)]))))"

definition walk_one ::
    "'c dav_env \<Rightarrow> propfind \<Rightarrow> string \<times> fs_info \<times> int
     \<Rightarrow> ('c, string \<times> (string \<times> fs_info \<times> int) list) dav_act" where
  "walk_one env pf entry =
     (case entry of (path, info, depth) \<Rightarrow>
     bnd (propstats env pf path info) (\<lambda>pss.
     let href = join_path PREFIX path;
         href = (if href \<noteq> ''/'' \<and> fi_is_dir info then href @ ''/'' else href);
         out = response_xml (de_reason env) (escape_path href) pss
     in
      if \<not> fi_is_dir info \<or> depth = 0 then ret (out, [])
      else
        bnd (on_fs (fs_open (de_core env) (fs_path path))) (\<lambda>r.
        case r of
          Inl e \<Rightarrow> ret (out, [])
        | Inr node \<Rightarrow>
            bnd (on_fs (read_dir (de_core env) node)) (\<lambda>r2.
            case r2 of
              Inl e \<Rightarrow> ret (out, [])
            | Inr children \<Rightarrow>
                bnd (child_entries env path (if depth = 1 then 0 else depth) (rev children)) (\<lambda>es.
                ret (out, es))))))"

text \<open>
  The stack of \<open>walk\<close>, its top first. The walk follows the tree the core lists, which the handler
  does not bound; a walk that never ends is \<open>None\<close>.
\<close>

partial_function (option) walk_tree ::
    "'c dav_env \<Rightarrow> propfind \<Rightarrow> (string \<times> fs_info \<times> int) list \<Rightarrow> string \<Rightarrow> 'c web_dav
     \<Rightarrow> ('c web_dav \<times> (dav_stop + string)) option" where
  "walk_tree env pf stack out s =
     (case stack of
        [] \<Rightarrow> Some (s, Inr out)
      | entry # rest \<Rightarrow>
          (case walk_one env pf entry s of
             (s', Inl stop) \<Rightarrow> Some (s', Inl stop)
           | (s', Inr (x, es)) \<Rightarrow> walk_tree env pf (es @ rest) (out @ x) s'))"

definition multistatus_response :: "string \<Rightarrow> http_response" where
  "multistatus_response responses = text_response 207 ''text/xml; charset=utf-8'' (multistatus responses)"

definition dav_propfind :: "'c dav_env \<Rightarrow> dav_request \<Rightarrow> byte list \<Rightarrow> ('c, http_response) dav_act" where
  "dav_propfind env rq body =
     bnd (dav_stat env (dq_path rq)) (\<lambda>r.
     case r of
       Inl FsNotFound \<Rightarrow> respond (dav_status env 404)
     | Inl FsInvalid \<Rightarrow> respond (dav_status env 405)
     | Inr info \<Rightarrow>
         (let depth = dav_header env rq ''depth'' in
          case (if depth = [] then Some (- 1) else parse_depth depth) of
            None \<Rightarrow> respond (dav_status env 400)
          | Some d \<Rightarrow>
              (case read_propfind (de_reader env) body of
                 Inl e \<Rightarrow> respond (dav_status env 400)
               | Inr pf \<Rightarrow>
                   bnd (\<lambda>s. case walk_tree env pf [(dq_path rq, info, d)] [] s of
                              None \<Rightarrow> (s, Inl DavLoops) | Some x \<Rightarrow> x) (\<lambda>responses.
                   ret (multistatus_response responses)))))"

subsection \<open>PROPPATCH\<close>

definition is_live :: "prop_name \<Rightarrow> bool" where
  "is_live n = (pn_space n = DAV \<and> pn_local n \<in> set LIVE)"

definition proppatch_locked :: "'c dav_env \<Rightarrow> dav_request \<Rightarrow> byte list \<Rightarrow> ('c, http_response) dav_act" where
  "proppatch_locked env rq body =
     bnd (dav_stat env (dq_path rq)) (\<lambda>r.
     ret (case r of
            Inl FsNotFound \<Rightarrow> dav_status env 404
          | Inl FsInvalid \<Rightarrow> dav_status env 405
          | Inr info \<Rightarrow>
              (case read_proppatch (de_reader env) body of
                 Inl e \<Rightarrow> dav_status env 400
               | Inr names \<Rightarrow>
                   if \<not> list_ex is_live names then dav_status env 500
                   else
                     (let forbidden = \<lparr>ps_props = map (\<lambda>n. (n, [])) (filter is_live names), ps_status = 403,
                            ps_error = Some (''<D:cannot-modify-protected-property xmlns:D='' @ quoted ''DAV:'' @ ''/>'')\<rparr>;
                          failed = \<lparr>ps_props = map (\<lambda>n. (n, [])) (filter (\<lambda>n. \<not> is_live n) names), ps_status = 424,
                            ps_error = None\<rparr>
                      in multistatus_response
                           (response_xml (de_reason env) (escape_path (PREFIX @ dq_path rq))
                             (make_propstats forbidden failed))))))"

definition dav_proppatch :: "'c dav_env \<Rightarrow> dav_request \<Rightarrow> byte list \<Rightarrow> ('c, http_response) dav_act" where
  "dav_proppatch env rq body = holding env rq (dq_path rq) [] (proppatch_locked env rq body)"

subsection \<open>The handler\<close>

definition dav_method :: "'c dav_env \<Rightarrow> dav_request \<Rightarrow> byte list \<Rightarrow> ('c, http_response) dav_act" where
  "dav_method env rq body =
     (let mt = dq_method rq in
      if mt = ''OPTIONS'' then dav_options env rq
      else if mt = ''GET'' \<or> mt = ''HEAD'' \<or> mt = ''POST'' then dav_get env rq
      else if mt = ''DELETE'' then dav_delete env rq
      else if mt = ''PUT'' then dav_put env rq
      else if mt = ''MKCOL'' then dav_mkcol env rq (body = [])
      else if mt = ''COPY'' \<or> mt = ''MOVE'' then dav_copy_move env rq
      else if mt = ''LOCK'' then dav_lock_method env rq body
      else if mt = ''UNLOCK'' then dav_unlock_method env rq
      else if mt = ''PROPFIND'' then dav_propfind env rq body
      else if mt = ''PROPPATCH'' then dav_proppatch env rq body
      else respond (dav_status env 400))"

record http_request =
  hq_method :: string
  hq_path :: string
  hq_headers :: req_headers
  hq_body :: "byte list option"

definition api_not_found :: http_response where
  "api_not_found = text_response 404 ''text/plain'' ''404 page not found''"

definition read_body :: "nat \<Rightarrow> byte list option \<Rightarrow> byte list" where
  "read_body limit b = (case b of None \<Rightarrow> [] | Some bs \<Rightarrow> if limit < length bs then [] else bs)"

text \<open>\<open>handle\<close> with the mount present; without \<open>--webdav\<close> every request gets \<open>api_not_found\<close>.\<close>

definition dav_handle :: "'c dav_env \<Rightarrow> http_request \<Rightarrow> ('c, http_response) dav_act" where
  "dav_handle env hq =
     (if hq_method hq \<notin> set ROUTED then respond api_not_found
      else
        (case strip_prefix (de_decode env (hq_path hq)) PREFIX of
           None \<Rightarrow> respond (dav_status env 404)
         | Some p \<Rightarrow>
             dav_method env
               \<lparr>dq_path = p, dq_headers = hq_headers hq,
                dq_host = header_text (de_lib env) (hq_headers hq) ''host'', dq_method = hq_method hq\<rparr>
               (read_body (push_bit 20 64) (hq_body hq))))"

end
