(* ===== verification/WebDavProps.thy ===== *)
theory WebDavProps
  imports WebDavMethods DavLockProps ServeProps VfsProps
begin

text \<open>
  What the methods of the WebDAV mount do to its locks. A write method takes temporary locks, or
  holds the locks its \<open>If\<close> header names, and gives both back: after the request the table is as
  before, but for the locks that have expired.
\<close>

subsection \<open>The table while a request holds locks\<close>

text \<open>\<open>L\<close> are the locks before the request; some of them may have expired since.\<close>

definition lapse :: "nat \<Rightarrow> lock_map \<Rightarrow> lock_map \<Rightarrow> bool" where
  "lapse later L M \<longleftrightarrow> unexpired later M = unexpired later L"

lemma lapse_refl [simp]: "lapse later L L"
  by (simp add: lapse_def)

lemma lapse_trans: "lapse later K L \<Longrightarrow> lapse later L M \<Longrightarrow> lapse later K M"
  by (simp add: lapse_def)

lemma lapsed_later: "lapsed now l \<Longrightarrow> now \<le> later \<Longrightarrow> lapsed later l"
  by (auto simp: lapsed_def split: option.splits)

lemma lapse_unexpired [simp]: "now \<le> later \<Longrightarrow> lapse later L (unexpired now L)"
  by (auto simp: lapse_def unexpired_def fun_eq_iff lapsed_later split: option.split)

text \<open>\<open>K\<close> are temporary locks with the tokens \<open>ts\<close>.\<close>

definition temporary :: "string list \<Rightarrow> lock_map \<Rightarrow> bool" where
  "temporary ts K \<longleftrightarrow>
     distinct ts \<and> dl_token ` ran K = set ts \<and> (\<forall>l \<in> ran K. \<not> dl_held l \<and> dl_expiry l = None)"

definition with_temporary :: "nat \<Rightarrow> lock_map \<Rightarrow> string list \<Rightarrow> mem_ls \<Rightarrow> bool" where
  "with_temporary later L ts ls \<longleftrightarrow>
     table_ok ls \<and> (\<exists>M K. lapse later L M \<and> temporary ts K \<and> dom M \<inter> dom K = {} \<and> locks ls = M ++ K)"

definition with_held :: "nat \<Rightarrow> lock_map \<Rightarrow> string list \<Rightarrow> mem_ls \<Rightarrow> bool" where
  "with_held later L rs ls \<longleftrightarrow>
     table_ok ls \<and> (\<exists>M. lapse later L M \<and> (\<forall>r \<in> set rs. \<forall>l. M r = Some l \<longrightarrow> \<not> dl_held l) \<and> locks ls = hold True rs M)"

fun holds :: "nat \<Rightarrow> lock_map \<Rightarrow> held_locks \<Rightarrow> mem_ls \<Rightarrow> bool" where
  "holds later L (HeldTemporary ts) ls = with_temporary later L ts ls"
| "holds later L (HeldConfirmed rs) ls = with_held later L rs ls"

lemma with_temporary_Nil:
  "with_temporary later L [] ls \<longleftrightarrow> table_ok ls \<and> lapse later L (locks ls)"
proof
  assume "with_temporary later L [] ls"
  then obtain M K where h: "table_ok ls" "lapse later L M" "temporary [] K" "locks ls = M ++ K"
    unfolding with_temporary_def by blast
  then have "K = Map.empty" by (auto simp: temporary_def ran_def fun_eq_iff) (metis option.exhaust)
  with h show "table_ok ls \<and> lapse later L (locks ls)" by simp
next
  have "temporary [] Map.empty" by (simp add: temporary_def)
  then show "table_ok ls \<and> lapse later L (locks ls) \<Longrightarrow> with_temporary later L [] ls"
    unfolding with_temporary_def by (intro conjI exI [of _ "locks ls"] exI [of _ Map.empty]) simp_all
qed

lemma unexpired_add:
  assumes "dom M \<inter> dom K = {}" "\<forall>l \<in> ran K. \<not> dl_held l \<and> dl_expiry l = None"
  shows "unexpired now (M ++ K) = unexpired now M ++ K" "dom (unexpired now M) \<inter> dom K = {}"
proof
  show "dom (unexpired now M) \<inter> dom K = {}"
    using assms(1) by (force simp: unexpired_def split: option.splits if_splits)
  fix k
  show "unexpired now (M ++ K) k = (unexpired now M ++ K) k"
  proof (cases "K k")
    case None
    then show ?thesis by (auto simp: unexpired_def map_add_def split: option.split)
  next
    case (Some l)
    then have "\<not> lapsed now l" using assms(2) by (auto simp: ran_def lapsed_def)
    with Some show ?thesis by (simp add: unexpired_def map_add_def)
  qed
qed

lemma temporary_token:
  assumes "temporary ts K" "t \<in> set ts"
  obtains a m where "K a = Some m" "dl_token m = t" "\<not> dl_held m"
proof -
  have "t \<in> dl_token ` ran K" using assms unfolding temporary_def by simp
  then obtain m where "m \<in> ran K" "dl_token m = t" by blast
  with assms(1) show thesis using that unfolding temporary_def by (auto simp: ran_def)
qed

lemma temporary_update:
  assumes "temporary ts K" "K k = None" "dl_token l \<notin> set ts" "\<not> dl_held l" "dl_expiry l = None"
  shows "temporary (ts @ [dl_token l]) (K(k \<mapsto> l))"
  using assms by (auto simp: temporary_def ran_map_upd)

subsection \<open>Temporary locks\<close>

lemma with_temporary_create:
  assumes h: "with_temporary later L ts ls" and room: "ml_generation ls + 1 < U64" and now: "now \<le> later"
    and d: "ld_duration d = None" and c: "lock_create now d ls = (ls', r)"
  shows "(case r of Inl e \<Rightarrow> e = LockErr Locked \<and> with_temporary later L ts ls'
           | Inr t \<Rightarrow> with_temporary later L (ts @ [t]) ls')
    \<and> ml_generation ls' \<le> ml_generation ls + 1"
proof -
  obtain M K where ok: "table_ok ls" and M: "lapse later L M" and K: "temporary ts K" "dom M \<inter> dom K = {}"
    and eq: "locks ls = M ++ K" using h unfolding with_temporary_def by blast
  let ?d = "d\<lparr>ld_root := slash_clean (ld_root d)\<rparr>" and ?U = "unexpired now M"
  have u: "unexpired now (locks ls) = ?U ++ K" "dom ?U \<inter> dom K = {}"
    using unexpired_add [OF K(2), of now] K(1) unfolding eq temporary_def by simp_all
  have U: "lapse later L ?U" using M lapse_trans lapse_unexpired [OF now] by blast
  note s = step_view [OF create_refines [OF ok room, of now d]]
  have st: "lock_step (OpCreate now d) ls = (ls', map_sum id IsToken r)"
    using c by (cases r) (simp_all add: answer_def bnd_def)
  show ?thesis
  proof (cases "conflict (?U ++ K) (ld_root ?d) (ld_zero_depth ?d)")
    case True
    then have "r = Inl (LockErr Locked)" "locks ls' = ?U ++ K" "ml_generation ls' = ml_generation ls"
      using s(2,3) unfolding st by (cases r; simp add: table_view_def u(1))+
    moreover have "table_ok ls'" using s(1) st by simp
    ultimately show ?thesis using U u(2) K(1) unfolding with_temporary_def by auto
  next
    case False
    define t where "t = decimal (ml_generation ls + 1)"
    define l where "l = new_lock now ?d t"
    have r: "r = Inr t" "locks ls' = (?U ++ K)(ld_root ?d \<mapsto> l)" "ml_generation ls' = ml_generation ls + 1"
      using False s(2,3) unfolding st t_def l_def by (cases r; simp add: table_view_def u(1) Let_def)+
    have ok': "table_ok ls'" using s(1) st by simp
    have free: "(?U ++ K) (ld_root ?d) = None" using False by (auto simp: conflict_def)
    have lt: "dl_token l = t" "\<not> dl_held l" "dl_expiry l = None" using d by (simp_all add: l_def new_lock_def)
    have "t \<notin> set ts"
    proof
      assume "t \<in> set ts"
      then obtain a m where a: "K a = Some m" "dl_token m = t" using temporary_token [OF K(1)] by blast
      then have "a \<noteq> ld_root ?d" using free by (auto simp: map_add_def)
      then have "locks ls' a = Some m" "locks ls' (ld_root ?d) = Some l" using a(1) by (auto simp: r(2))
      moreover have "ml_by_token ls' t = Some x \<longleftrightarrow> (\<exists>n. locks ls' x = Some n \<and> dl_token n = t)" for x
        using table_okD(3) [OF ok'] unfolding tokens_ok_def by simp
      ultimately have "ml_by_token ls' t = Some a" "ml_by_token ls' t = Some (ld_root ?d)"
        using a(2) lt(1) by blast+
      with \<open>a \<noteq> ld_root ?d\<close> show False by simp
    qed
    then have "temporary (ts @ [t]) (K(ld_root ?d \<mapsto> l))"
      using temporary_update [OF K(1), of "ld_root ?d" l] free lt by (simp add: map_add_None)
    moreover have "dom ?U \<inter> dom (K(ld_root ?d \<mapsto> l)) = {}" using u(2) free by auto
    moreover have "locks ls' = ?U ++ K(ld_root ?d \<mapsto> l)" by (simp add: r(2))
    ultimately have "with_temporary later L (ts @ [t]) ls'"
      using U ok' unfolding with_temporary_def by blast
    with r show ?thesis by simp
  qed
qed

lemma with_temporary_unlock:
  assumes h: "with_temporary later L (t # ts) ls" and now: "now \<le> later"
    and c: "lock_unlock now t ls = (ls', r)"
  shows "r = Inr () \<and> with_temporary later L ts ls'"
proof -
  obtain M K where ok: "table_ok ls" and M: "lapse later L M" and K: "temporary (t # ts) K" "dom M \<inter> dom K = {}"
    and eq: "locks ls = M ++ K" using h unfolding with_temporary_def by blast
  let ?U = "unexpired now M"
  have u: "unexpired now (locks ls) = ?U ++ K" "dom ?U \<inter> dom K = {}"
    using unexpired_add [OF K(2), of now] K(1) unfolding eq temporary_def by simp_all
  have U: "lapse later L ?U" using M lapse_trans lapse_unexpired [OF now] by blast
  obtain a m where a: "K a = Some m" "dl_token m = t" "\<not> dl_held m"
    using temporary_token [OF K(1), of t] by auto
  have ok1: "table_ok (collect_expired now ls)" "locks (collect_expired now ls) = ?U ++ K"
    using collect_expired_ok [OF ok, of now] u(1) by simp_all
  have tok: "ml_by_token (collect_expired now ls) t = Some x \<longleftrightarrow> (\<exists>l. (?U ++ K) x = Some l \<and> dl_token l = t)" for x
    using table_okD(3) [OF ok1(1)] unfolding tokens_ok_def ok1(2) by simp
  have one: "(?U ++ K) b = Some n \<and> dl_token n = t \<longleftrightarrow> b = a \<and> n = m" for b n
  proof
    assume b: "(?U ++ K) b = Some n \<and> dl_token n = t"
    have "(?U ++ K) a = Some m" using a(1) by simp
    then have "ml_by_token (collect_expired now ls) t = Some a" "ml_by_token (collect_expired now ls) t = Some b"
      using b a(2) by (simp_all add: tok)
    with b \<open>(?U ++ K) a = Some m\<close> show "b = a \<and> n = m" by simp
  qed (use a in simp)
  then have root: "token_root (?U ++ K) t = Some a" unfolding token_root_def by auto
  note s = step_view [OF unlock_refines [OF ok, of now t]]
  have st: "lock_step (OpUnlock now t) ls = (ls', map_sum id (\<lambda>_. IsDone) r)"
    using c by (cases r) (simp_all add: answer_def bnd_def)
  have r: "r = Inr ()" "locks ls' = (?U ++ K)(a := None)"
    using s(2,3) a unfolding st by (cases r; simp add: table_view_def u(1) root)+
  have "?U a = None" using u(2) a(1) by blast
  then have "locks ls' = ?U ++ K(a := None)" by (auto simp: r(2) map_add_def fun_eq_iff)
  moreover have "temporary ts (K(a := None))"
  proof -
    have same: "K b = Some n \<and> dl_token n = t \<Longrightarrow> b = a" for b n
      using one [of b n] by simp
    have t: "t \<notin> set ts" "distinct ts" "dl_token ` ran K = insert t (set ts)"
      using K(1) by (simp_all add: temporary_def)
    have sub: "ran (K(a := None)) \<subseteq> ran K" by (auto simp: ran_def)
    have "dl_token ` ran (K(a := None)) = set ts"
    proof (intro equalityI subsetI)
      fix x assume "x \<in> dl_token ` ran (K(a := None))"
      then obtain b n where b: "(K(a := None)) b = Some n" "x = dl_token n" by (auto simp: ran_def)
      then have n: "K b = Some n" "b \<noteq> a" by (simp_all split: if_splits)
      then have "x \<noteq> t" using same [of b n] b(2) by blast
      moreover have "x \<in> insert t (set ts)" using n(1) b(2) t(3) by (metis imageI ranI)
      ultimately show "x \<in> set ts" by simp
    next
      fix x assume x: "x \<in> set ts"
      then have "x \<in> set (t # ts)" by simp
      then obtain b n where b: "K b = Some n" "dl_token n = x" using temporary_token [OF K(1)] by metis
      with x t(1) a(1,2) have "b \<noteq> a" by auto
      with b have "n \<in> ran (K(a := None))" by (auto simp: ran_def)
      with b(2) show "x \<in> dl_token ` ran (K(a := None))" by blast
    qed
    then show ?thesis using K(1) t(2) sub unfolding temporary_def by blast
  qed
  moreover have "dom ?U \<inter> dom (K(a := None)) = {}" using u(2) by auto
  moreover have "table_ok ls'" using s(1) st by simp
  ultimately show ?thesis using r(1) U unfolding with_temporary_def by blast
qed

subsection \<open>Confirmed locks\<close>

lemma spec_lookup_free: "spec_lookup L name conds = Some k \<Longrightarrow> \<forall>l. L k = Some l \<longrightarrow> \<not> dl_held l"
  by (induction conds) (auto split: option.splits if_splits)

lemma spec_confirm_free:
  assumes "spec_confirm L a b conds = Inr rs"
  shows "\<forall>r \<in> set rs. \<forall>l. L r = Some l \<longrightarrow> \<not> dl_held l"
  using assms spec_lookup_free by (fastforce simp: spec_confirm_def split: option.splits if_splits)

lemma hold_release:
  assumes "\<forall>r \<in> set rs. \<forall>l. M r = Some l \<longrightarrow> \<not> dl_held l"
  shows "hold False rs (hold True rs M) = M"
proof
  fix k
  have "\<not> dl_held l \<Longrightarrow> dl_held_update (\<lambda>_. False) (dl_held_update (\<lambda>_. True) l) = l" for l :: dav_lock
    by simp
  then show "hold False rs (hold True rs M) k = M k"
    using assms by (cases "M k") (auto simp: hold_def)
qed

lemma with_held_confirm:
  assumes h: "with_temporary later L [] ls" and now: "now \<le> later" and c: "confirm now a b conds ls = (ls', r)"
  shows "case r of Inl e \<Rightarrow> e = LockErr ConfirmationFailed \<and> with_temporary later L [] ls'
           | Inr rs \<Rightarrow> with_held later L rs ls'"
proof -
  let ?U = "unexpired now (locks ls)"
  have ok: "table_ok ls" and M: "lapse later L (locks ls)" using h by (simp_all add: with_temporary_Nil)
  have U: "lapse later L ?U" using M lapse_trans lapse_unexpired [OF now] by blast
  note s = step_view [OF confirm_refines [OF ok, of now a b conds]]
  have st: "lock_step (OpConfirm now a b conds) ls = (ls', map_sum id IsRoots r)"
    using c by (cases r) (simp_all add: answer_def bnd_def)
  have ok': "table_ok ls'" using s(1) st by simp
  show ?thesis
  proof (cases "spec_confirm ?U a b conds")
    case (Inl e)
    then have "e = ConfirmationFailed" by (auto simp: spec_confirm_def split: option.splits)
    moreover have "r = Inl (LockErr e)" "locks ls' = ?U"
      using s(2,3) Inl unfolding st by (cases r; simp add: table_view_def)+
    ultimately show ?thesis using U ok' by (simp add: with_temporary_Nil)
  next
    case (Inr rs)
    have "r = Inr rs" "locks ls' = hold True rs ?U"
      using s(2,3) Inr unfolding st by (cases r; simp add: table_view_def)+
    then show ?thesis using U ok' spec_confirm_free [OF Inr] unfolding with_held_def by auto
  qed
qed

lemma with_held_release:
  assumes "with_held later L rs ls" "lock_release rs ls = (ls', r)"
  shows "r = Inr () \<and> with_temporary later L [] ls'"
proof -
  obtain M where ok: "table_ok ls" and M: "lapse later L M" "\<forall>r \<in> set rs. \<forall>l. M r = Some l \<longrightarrow> \<not> dl_held l"
    and eq: "locks ls = hold True rs M" using assms(1) unfolding with_held_def by blast
  note s = step_view [OF release_refines [OF ok, of rs]]
  have st: "lock_step (OpRelease rs) ls = (ls', Inr IsDone)" "r = Inr ()"
    using assms(2) by (auto simp: answer_def bnd_def lock_release_def)
  have "locks ls' = M" "table_ok ls'"
    using s(1,2) hold_release [OF M(2)] unfolding st by (simp_all add: table_view_def eq)
  with M(1) st show ?thesis by (simp add: with_temporary_Nil)
qed

subsection \<open>Handlers\<close>

text \<open>An action that leaves the locks alone and always has a result.\<close>

definition calm :: "('c, 'a) dav_act \<Rightarrow> bool" where
  "calm m \<longleftrightarrow> (\<forall>s. wd_locks (fst (m s)) = wd_locks s \<and> (\<exists>x. snd (m s) = Inr x))"

named_theorems calming \<open>introduction rules for calm\<close>

lemma calmD: "calm m \<Longrightarrow> \<exists>s' x. m s = (s', Inr x) \<and> wd_locks s' = wd_locks s"
  unfolding calm_def by (metis prod.collapse)

lemma calmI: "(\<And>s. \<exists>s' x. m s = (s', Inr x) \<and> wd_locks s' = wd_locks s) \<Longrightarrow> calm m"
  unfolding calm_def by (metis fst_conv snd_conv)

lemma calm_rules [calming]:
  "calm (ret x)" "calm (on_fs a)" "calm m \<Longrightarrow> (\<And>x. calm (f x)) \<Longrightarrow> calm (bnd m f)"
  "calm m \<Longrightarrow> calm n \<Longrightarrow> calm (if b then m else n)"
  "(\<And>e. calm (k1 e)) \<Longrightarrow> (\<And>y. calm (k2 y)) \<Longrightarrow> calm (case_sum k1 k2 z)"
  "calm k0 \<Longrightarrow> (\<And>y. calm (k3 y)) \<Longrightarrow> calm (case_option k0 k3 oo)"
proof -
  show "calm (bnd m f)" if m: "calm m" and f: "\<And>x. calm (f x)"
  proof (rule calmI)
    fix s
    obtain s1 x where "m s = (s1, Inr x)" "wd_locks s1 = wd_locks s" using calmD [OF m] by blast
    moreover obtain s2 y where "f x s1 = (s2, Inr y)" "wd_locks s2 = wd_locks s1" using calmD [OF f] by blast
    ultimately show "\<exists>s' x. bnd m f s = (s', Inr x) \<and> wd_locks s' = wd_locks s" by simp
  qed
qed (auto simp: calm_def on_fs_def split: sum.split option.split prod.split)

lemma calm_fs_error [calming]:
  "calm a \<Longrightarrow> calm b \<Longrightarrow> calm (case_fs_error a b e)"
  by (cases e) simp_all

lemma calm_stat [calming]: "calm (dav_stat env path)"
  by (simp add: dav_stat_def calming)

lemma calm_codes: "calm (copy_code env rq dest)" "calm (move_code env rq dest)" "calm (proppatch_locked env rq body)"
  by (auto simp: copy_code_def move_code_def proppatch_locked_def Let_def intro!: calming)

text \<open>What an action has done when it gives a result (\<open>Q\<close>) and when it stops (\<open>E\<close>).\<close>

definition ends :: "('s \<Rightarrow> bool) \<Rightarrow> ('s, 'e, 'a) act \<Rightarrow> ('a \<Rightarrow> 's \<Rightarrow> bool) \<Rightarrow> ('e \<Rightarrow> 's \<Rightarrow> bool) \<Rightarrow> bool" where
  "ends P m Q E \<longleftrightarrow> (\<forall>s s' r. P s \<longrightarrow> m s = (s', r) \<longrightarrow> (case r of Inl e \<Rightarrow> E e s' | Inr x \<Rightarrow> Q x s'))"

lemma endsI: "(\<And>s s' r. P s \<Longrightarrow> m s = (s', r) \<Longrightarrow> (case r of Inl e \<Rightarrow> E e s' | Inr x \<Rightarrow> Q x s')) \<Longrightarrow> ends P m Q E"
  unfolding ends_def by blast

lemma endsD: "ends P m Q E \<Longrightarrow> P s \<Longrightarrow> m s = (s', r) \<Longrightarrow> (case r of Inl e \<Rightarrow> E e s' | Inr x \<Rightarrow> Q x s')"
  unfolding ends_def by blast

lemma ends_bnd:
  assumes m: "ends P m R E" and f: "\<And>x. ends (R x) (f x) Q E"
  shows "ends P (bnd m f) Q E"
proof (rule endsI)
  fix s s' r assume P: "P s" and run: "bnd m f s = (s', r)"
  obtain t x where t: "m s = (t, x)" by fastforce
  show "case r of Inl e \<Rightarrow> E e s' | Inr x \<Rightarrow> Q x s'"
  proof (cases x)
    case (Inl e)
    then show ?thesis using endsD [OF m P t] run t by auto
  next
    case (Inr y)
    then have "R y t" "f y t = (s', r)" using endsD [OF m P t] run t by simp_all
    then show ?thesis using endsD [OF f] by blast
  qed
qed

lemma ends_weaken:
  assumes "ends P m Q E" "\<And>s. P' s \<Longrightarrow> P s" "\<And>x s. Q x s \<Longrightarrow> Q' x s" "\<And>e s. E e s \<Longrightarrow> E' e s"
  shows "ends P' m Q' E'"
proof (rule endsI)
  fix s s' r assume "P' s" "m s = (s', r)"
  then show "case r of Inl e \<Rightarrow> E' e s' | Inr x \<Rightarrow> Q' x s'"
    using endsD [OF assms(1) assms(2)] assms(3,4) by (cases r) fastforce+
qed

lemma ends_ret: "(\<And>s. P s \<Longrightarrow> Q x s) \<Longrightarrow> ends P (ret x) Q E"
  by (simp add: ends_def)

lemma ends_respond: "(\<And>s. P s \<Longrightarrow> E (Respond x) s) \<Longrightarrow> ends P (respond x) Q E"
  by (simp add: ends_def respond_def)

lemma ends_calm:
  fixes m :: "('c, 'a) dav_act" and P :: "'c web_dav \<Rightarrow> bool"
  assumes "calm m" "\<And>s s'. P s \<Longrightarrow> wd_locks s' = wd_locks s \<Longrightarrow> P s'"
  shows "ends P m (\<lambda>_. P) E"
proof (rule endsI)
  fix s s' r assume h: "P s" "m s = (s', r)"
  obtain t x where "m s = (t, Inr x)" "wd_locks t = wd_locks s" using calmD [OF assms(1)] by blast
  with h show "case r of Inl e \<Rightarrow> E e s' | Inr x \<Rightarrow> P s'" using assms(2) by auto
qed

lemma ends_cases:
  "(\<And>e. ends P (k1 e) Q E) \<Longrightarrow> (\<And>x. ends P (k2 x) Q E) \<Longrightarrow> ends P (case_sum k1 k2 r) Q E"
  "ends P k0 Q E \<Longrightarrow> (\<And>x. ends P (k3 x) Q E) \<Longrightarrow> ends P (case_option k0 k3 oo) Q E"
  "ends P n1 Q E \<Longrightarrow> (\<And>c. ends P (n2 c) Q E) \<Longrightarrow> (\<And>t x p. ends P (n3 t x p) Q E) \<Longrightarrow>
     (\<And>t x f. ends P (n4 t x f) Q E) \<Longrightarrow> ends P (case_fs_node n1 n2 n3 n4 node) Q E"
  "ends P f1 Q E \<Longrightarrow> ends P f2 Q E \<Longrightarrow> ends P (case_fs_error f1 f2 err) Q E"
  "ends P m Q E \<Longrightarrow> ends P n Q E \<Longrightarrow> ends P (if b then m else n) Q E"
  "(\<And>x y. ends P (k x y) Q E) \<Longrightarrow> ends P (case_prod k pp) Q E"
  by (simp_all split: sum.split option.split fs_node.split fs_error.split prod.split)

abbreviation undisturbed :: "nat \<Rightarrow> lock_map \<Rightarrow> 'c web_dav \<Rightarrow> bool" where
  "undisturbed later L s \<equiv> with_temporary later L [] (wd_locks s)"

definition quits :: "nat \<Rightarrow> lock_map \<Rightarrow> dav_stop \<Rightarrow> 'c web_dav \<Rightarrow> bool" where
  "quits later L e s \<longleftrightarrow> e \<noteq> DavPanic \<and> undisturbed later L s"

lemma quits_respond: "(\<And>s. P s \<Longrightarrow> undisturbed later L s) \<Longrightarrow> ends P (respond x) Q (quits later L)"
  by (simp add: ends_def respond_def quits_def)

lemma create_ends:
  fixes E :: "dav_stop \<Rightarrow> 'c web_dav \<Rightarrow> bool"
  assumes "now \<le> later" "ld_duration d = None"
  shows "ends (\<lambda>s. with_temporary later L ts (wd_locks s) \<and> ml_generation (wd_locks s) + Suc n < U64)
    (on_locks (lock_create now d))
    (\<lambda>r s. (case r of Inl e \<Rightarrow> with_temporary later L ts (wd_locks s) | Inr t \<Rightarrow> with_temporary later L (ts @ [t]) (wd_locks s))
       \<and> ml_generation (wd_locks s) + n < U64) E"
proof (rule endsI)
  fix s s' :: "'c web_dav" and r
  assume h: "with_temporary later L ts (wd_locks s) \<and> ml_generation (wd_locks s) + Suc n < U64"
    "on_locks (lock_create now d) s = (s', r)"
  obtain ls x where c: "lock_create now d (wd_locks s) = (ls, x)" by fastforce
  have "ml_generation (wd_locks s) + 1 < U64" using h(1) by simp
  note w = with_temporary_create [OF conjunct1 [OF h(1)] this assms c]
  with h c show "case r of Inl e \<Rightarrow> E e s'
      | Inr r \<Rightarrow> (case r of Inl e \<Rightarrow> with_temporary later L ts (wd_locks s')
          | Inr t \<Rightarrow> with_temporary later L (ts @ [t]) (wd_locks s')) \<and> ml_generation (wd_locks s') + n < U64"
    by (cases x) (auto simp: on_locks_def)
qed

lemma unlock_all_ends:
  fixes E :: "dav_stop \<Rightarrow> 'c web_dav \<Rightarrow> bool"
  assumes "now \<le> later"
  shows "ends (\<lambda>s. with_temporary later L ts (wd_locks s)) (unlock_all now ts) (\<lambda>_. undisturbed later L) E"
proof (induction ts)
  case Nil
  show ?case unfolding unlock_all_def for_each.simps by (rule ends_ret)
next
  case (Cons t ts)
  have "ends (\<lambda>s. with_temporary later L (t # ts) (wd_locks s)) (on_locks (lock_unlock now t))
      (\<lambda>_ s. with_temporary later L ts (wd_locks s)) E"
  proof (rule endsI)
    fix s s' :: "'c web_dav" and r
    assume h: "with_temporary later L (t # ts) (wd_locks s)" "on_locks (lock_unlock now t) s = (s', r)"
    obtain ls x where c: "lock_unlock now t (wd_locks s) = (ls, x)" by fastforce
    from with_temporary_unlock [OF h(1) assms c] h c
    show "case r of Inl e \<Rightarrow> E e s' | Inr x \<Rightarrow> with_temporary later L ts (wd_locks s')"
      by (auto simp: on_locks_def)
  qed
  then show ?case
    using Cons unfolding unlock_all_def for_each.simps
    by (intro ends_bnd [where R = "\<lambda>_ s. with_temporary later L ts (wd_locks s)"] ends_ret) simp_all
qed

lemma temporary_locks_ends:
  fixes env :: "'c dav_env"
  assumes now: "de_now env \<le> later"
  shows "ends (\<lambda>s. with_temporary later L ts (wd_locks s) \<and> ml_generation (wd_locks s) + length names < U64)
    (temporary_locks env names ts) (\<lambda>ts' s. with_temporary later L ts' (wd_locks s)) (quits later L)"
proof (induction names arbitrary: ts)
  case Nil
  show ?case unfolding temporary_locks.simps by (rule ends_ret) simp
next
  case (Cons name names)
  show ?case
  proof (cases "name = []")
    case True
    then show ?thesis using Cons [of ts] by (auto elim!: ends_weaken)
  next
    case False
    let ?d = "\<lparr>ld_root = name, ld_duration = None, ld_owner_xml = [], ld_zero_depth = True\<rparr>"
    let ?mid = "\<lambda>r s :: 'c web_dav. (case r of Inl e \<Rightarrow> with_temporary later L ts (wd_locks s) | Inr t \<Rightarrow> with_temporary later L (ts @ [t]) (wd_locks s))
       \<and> ml_generation (wd_locks s) + length names < U64"
    have create: "ends (\<lambda>s. with_temporary later L ts (wd_locks s) \<and> ml_generation (wd_locks s) + length (name # names) < U64)
        (on_locks (lock_create (de_now env) ?d)) ?mid (quits later L)"
      by (rule ends_weaken [OF create_ends [OF now, where n = "length names"]]) simp_all
    have undo: "ends (\<lambda>s. with_temporary later L ts (wd_locks s))
        (seq (unlock_all (de_now env) ts) (respond x)) (\<lambda>ts' s. with_temporary later L ts' (wd_locks s)) (quits later L)" for x
      by (rule ends_bnd [OF unlock_all_ends [OF now]], rule quits_respond)
    have rest: "ends (?mid r)
        (case r of Inr token \<Rightarrow> temporary_locks env names (ts @ [token])
         | Inl e \<Rightarrow> seq (unlock_all (de_now env) ts) (respond (dav_status env (if e = Locked then 423 else 500))))
        (\<lambda>ts' s. with_temporary later L ts' (wd_locks s)) (quits later L)" for r
    proof (cases r)
      case (Inl e)
      show ?thesis unfolding Inl sum.case by (rule ends_weaken [OF undo]) simp_all
    next
      case (Inr t)
      then show ?thesis using Cons [of "ts @ [t]"] by simp
    qed
    show ?thesis using False ends_bnd [OF create rest] by simp
  qed
qed

lemma confirm_lists_ends:
  fixes env :: "'c dav_env"
  assumes now: "de_now env \<le> later"
  shows "ends (undisturbed later L) (confirm_lists env rq src dest ls) (\<lambda>h s. holds later L h (wd_locks s)) (quits later L)"
proof (induction ls)
  case Nil
  show ?case by (auto intro: quits_respond)
next
  case (Cons l ls)
  let ?mid = "\<lambda>r s :: 'c web_dav. case r of Inl e \<Rightarrow> e = ConfirmationFailed \<and> undisturbed later L s
      | Inr rs \<Rightarrow> with_held later L rs (wd_locks s)"
  have c: "ends (undisturbed later L) (on_locks (confirm (de_now env) a dest conds)) ?mid (quits later L)" for a conds
  proof (rule endsI)
    fix s s' :: "'c web_dav" and r
    assume h: "undisturbed later L s" "on_locks (confirm (de_now env) a dest conds) s = (s', r)"
    obtain m x where run: "confirm (de_now env) a dest conds (wd_locks s) = (m, x)" by fastforce
    from with_held_confirm [OF h(1) now run] h run
    show "case r of Inl e \<Rightarrow> quits later L e s' | Inr x \<Rightarrow> ?mid x s'"
      by (cases x) (auto simp: on_locks_def)
  qed
  have k: "ends (?mid r)
      (case r of Inr roots \<Rightarrow> ret (HeldConfirmed roots)
       | Inl e \<Rightarrow> if e = ConfirmationFailed then confirm_lists env rq src dest ls else respond (dav_status env 500))
      (\<lambda>h s. holds later L h (wd_locks s)) (quits later L)" for r
    using Cons by (cases r) (auto intro: ends_ret simp: ends_def)
  show ?case
    using Cons ends_bnd [OF c k]
    by (cases "source_of env rq src (il_resource_tag l)") (auto intro: quits_respond)
qed

lemma confirm_locks_ends:
  fixes env :: "'c dav_env"
  assumes now: "de_now env \<le> later"
  shows "ends (\<lambda>s. undisturbed later L s \<and> ml_generation (wd_locks s) + 2 < U64) (confirm_locks env rq src dest)
    (\<lambda>h s. holds later L h (wd_locks s)) (quits later L)"
proof -
  have "ends (\<lambda>s. undisturbed later L s \<and> ml_generation (wd_locks s) + 2 < U64)
      (bnd (temporary_locks env [src, dest] []) (\<lambda>ts. ret (HeldTemporary ts)))
      (\<lambda>h s. holds later L h (wd_locks s)) (quits later L)"
    by (rule ends_bnd [OF ends_weaken [OF temporary_locks_ends [OF now, of L "[]" "[src, dest]"],
          where Q' = "\<lambda>ts s. with_temporary later L ts (wd_locks s)" and E' = "quits later L"]])
      (auto intro: ends_ret)
  moreover have "ends (\<lambda>s. undisturbed later L s \<and> ml_generation (wd_locks s) + 2 < U64) (confirm_lists env rq src dest ls)
      (\<lambda>h s. holds later L h (wd_locks s)) (quits later L)" for ls
    by (rule ends_weaken [OF confirm_lists_ends [OF now]]) simp_all
  ultimately show ?thesis
    unfolding confirm_locks_def Let_def by (auto intro: quits_respond split: option.split)
qed

lemma release_ends:
  fixes env :: "'c dav_env"
  assumes "de_later env \<le> later"
  shows "ends (\<lambda>s. holds later L h (wd_locks s)) (release_held env h) (\<lambda>_. undisturbed later L) E"
proof (cases h)
  case (HeldTemporary ts)
  then show ?thesis using unlock_all_ends [OF assms, of L ts E] by simp
next
  case (HeldConfirmed rs)
  have "ends (\<lambda>s. with_held later L rs (wd_locks s)) (on_locks (lock_release rs)) (\<lambda>_. undisturbed later L) E"
  proof (rule endsI)
    fix s s' :: "'c web_dav" and r
    assume h: "with_held later L rs (wd_locks s)" "on_locks (lock_release rs) s = (s', r)"
    obtain ls x where c: "lock_release rs (wd_locks s) = (ls, x)" by fastforce
    from with_held_release [OF h(1) c] h c show "case r of Inl e \<Rightarrow> E e s' | Inr x \<Rightarrow> undisturbed later L s'"
      by (auto simp: on_locks_def)
  qed
  then show ?thesis using HeldConfirmed by (auto intro: ends_bnd ends_ret)
qed

lemma holding_ends:
  fixes env :: "'c dav_env"
  assumes "de_now env \<le> later" "de_later env \<le> later" "calm body"
  shows "ends (\<lambda>s. undisturbed later L s \<and> ml_generation (wd_locks s) + 2 < U64) (holding env rq src dest body)
    (\<lambda>_. undisturbed later L) (quits later L)"
  unfolding holding_def
  by (rule ends_bnd [OF confirm_locks_ends [OF assms(1)]], rule ends_bnd, rule ends_calm [OF assms(3)], simp,
      rule ends_bnd [OF release_ends [OF assms(2)]], rule ends_ret)

subsection \<open>The methods that read\<close>

lemma calm_walk_one: "calm (walk_one env pf entry)"
proof -
  have live: "calm (live_value env n path info)" for n path info
    by (auto simp: live_value_def content_type_prop_def Let_def intro!: calming split: option.split)
  have "calm (live_values env ns path info a b)" for ns path info a b
  proof (induction ns arbitrary: a b)
    case Nil
    show ?case unfolding live_values.simps by (rule calming)
  next
    case (Cons n ns)
    show ?case unfolding live_values.simps by (intro calming live Cons)
  qed
  then have "calm (propstats env pf path info)" for path info
    by (auto simp: propstats_def Let_def intro!: calming split: prod.split)
  moreover have "calm (child_entries env path d ks)" for path d ks
  proof (induction ks)
    case Nil
    show ?case unfolding child_entries.simps by (rule calming)
  next
    case (Cons k ks)
    show ?case unfolding child_entries.simps Let_def by (intro calming Cons)
  qed
  ultimately show ?thesis
    by (auto simp: walk_one_def Let_def intro!: calming split: prod.split)
qed

lemma calm_walk_tree:
  fixes env :: "'c dav_env"
  assumes "walk_tree env pf stack out s = Some (s', r)"
  shows "wd_locks s' = wd_locks s \<and> (\<exists>x. r = Inr x)"
proof -
  have "wd_locks (fst y) = wd_locks s \<and> (\<exists>x. snd y = Inr x)"
    if "walk_tree env pf stack out s = Some y" for env :: "'c dav_env" and pf stack out s y
  proof (rule walk_tree.raw_induct [OF _ that])
    fix walk :: "'c dav_env \<Rightarrow> propfind \<Rightarrow> (string \<times> fs_info \<times> int) list \<Rightarrow> string \<Rightarrow> 'c web_dav \<Rightarrow> ('c web_dav \<times> (dav_stop + string)) option"
    fix env pf stack out s y
    assume IH: "\<And>env pf stack out s y. walk env pf stack out s = Some y \<Longrightarrow> wd_locks (fst y) = wd_locks s \<and> (\<exists>x. snd y = Inr x)"
      and run: "(case stack of [] \<Rightarrow> Some (s, Inr out)
        | entry # rest \<Rightarrow> (case walk_one env pf entry s of
             (s', Inl stop) \<Rightarrow> Some (s', Inl stop) | (s', Inr (x, es)) \<Rightarrow> walk env pf (es @ rest) (out @ x) s')) = Some y"
    show "wd_locks (fst y) = wd_locks s \<and> (\<exists>x. snd y = Inr x)"
    proof (cases stack)
      case (Cons entry rest)
      obtain t x es where w: "walk_one env pf entry s = (t, Inr (x, es))" "wd_locks t = wd_locks s"
        using calmD [OF calm_walk_one, of env pf entry s] by (metis prod.collapse)
      then have "walk env pf (es @ rest) (out @ x) t = Some y" using run Cons by simp
      from IH [OF this] w(2) show ?thesis by simp
    qed (use run in auto)
  qed
  from this [OF assms] show ?thesis by simp
qed

lemma propfind_ends:
  fixes env :: "'c dav_env"
  shows "ends (undisturbed later L) (dav_propfind env rq body) (\<lambda>_. undisturbed later L) (quits later L)"
proof -
  have walk: "ends (undisturbed later L)
      (\<lambda>s. case walk_tree env pf stack [] s of None \<Rightarrow> (s, Inl DavLoops) | Some x \<Rightarrow> x)
      (\<lambda>_. undisturbed later L) (quits later L)" for pf stack
  proof (rule endsI)
    fix s s' :: "'c web_dav" and r
    assume h: "undisturbed later L s"
      "(case walk_tree env pf stack [] s of None \<Rightarrow> (s, Inl DavLoops) | Some x \<Rightarrow> x) = (s', r)"
    then show "case r of Inl e \<Rightarrow> quits later L e s' | Inr x \<Rightarrow> undisturbed later L s'"
      using calm_walk_tree [of env pf stack "[]" s] by (auto simp: quits_def split: option.splits)
  qed
  have rest: "ends (undisturbed later L) (bnd (\<lambda>s. case walk_tree env pf stack [] s of None \<Rightarrow> (s, Inl DavLoops) | Some x \<Rightarrow> x)
      (\<lambda>x. ret (multistatus_response x))) (\<lambda>_. undisturbed later L) (quits later L)" for pf stack
    by (rule ends_bnd [OF walk], rule ends_ret)
  show ?thesis
    unfolding dav_propfind_def Let_def
    by (rule ends_bnd [OF ends_calm [OF calm_stat]], simp, intro ends_cases quits_respond rest)
qed

lemma method_ends:
  fixes env :: "'c dav_env"
  assumes now: "de_now env \<le> later" "de_later env \<le> later" and m: "dq_method rq \<noteq> ''LOCK''" "dq_method rq \<noteq> ''UNLOCK''"
  shows "ends (\<lambda>s. undisturbed later L s \<and> ml_generation (wd_locks s) + 2 < U64) (dav_method env rq body)
    (\<lambda>_. undisturbed later L) (quits later L)"
proof -
  let ?P = "\<lambda>s :: 'c web_dav. undisturbed later L s \<and> ml_generation (wd_locks s) + 2 < U64"
  have calm: "ends ?P k (\<lambda>_. undisturbed later L) (quits later L)" if "calm k" for k :: "('c, http_response) dav_act"
    by (rule ends_weaken [OF ends_calm [OF that, of ?P]]) auto
  have respond: "ends ?P (respond x) (\<lambda>_. undisturbed later L) (quits later L)" for x
    by (rule quits_respond) simp
  have read: "ends ?P (dav_get env rq) (\<lambda>_. undisturbed later L) (quits later L)"
  proof (rule ends_weaken)
    show "ends (undisturbed later L) (dav_get env rq) (\<lambda>_. undisturbed later L) (quits later L)"
      unfolding dav_get_def Let_def
      by (rule ends_bnd [OF ends_calm [OF calm_rules(2)]], simp, intro ends_cases quits_respond ends_ret)
  qed simp_all
  note hold = holding_ends [OF now]
  have writes: "ends ?P (dav_delete env rq) (\<lambda>_. undisturbed later L) (quits later L)"
    "ends ?P (dav_put env rq) (\<lambda>_. undisturbed later L) (quits later L)"
    "ends ?P (dav_mkcol env rq b) (\<lambda>_. undisturbed later L) (quits later L)"
    "ends ?P (dav_proppatch env rq body) (\<lambda>_. undisturbed later L) (quits later L)" for b
    unfolding dav_delete_def dav_put_def dav_mkcol_def dav_proppatch_def
    by (intro hold calming calm_codes)+
  have copy: "ends ?P (dav_copy_move env rq) (\<lambda>_. undisturbed later L) (quits later L)"
    unfolding dav_copy_move_def Let_def
    by (intro ends_cases respond hold calming calm_codes)
  have opt: "calm (dav_options env rq)" unfolding dav_options_def Let_def by (intro calming)
  have find: "ends ?P (dav_propfind env rq body) (\<lambda>_. undisturbed later L) (quits later L)"
    by (rule ends_weaken [OF propfind_ends]) simp_all
  show ?thesis
    unfolding dav_method_def Let_def using m
    by (simp only: if_False, intro ends_cases respond read writes copy find calm opt)
qed

subsection \<open>What a request leaves\<close>

lemma confirm_conflict:
  assumes "table_ok (wd_locks s)" "dav_header env rq ''if'' = []" "src \<noteq> []"
    "conflict (unexpired (de_now env) (locks (wd_locks s))) (slash_clean src) True"
  shows "\<exists>s'. confirm_locks env rq src dest s = (s', Inl (Respond (dav_status env 423)))"
proof -
  let ?d = "\<lparr>ld_root = src, ld_duration = None, ld_owner_xml = [], ld_zero_depth = True\<rparr>"
  note c = collect_expired_ok [OF assms(1), of "de_now env"]
  have "\<not> can_create (collect_expired (de_now env) (wd_locks s)) (slash_clean src) True"
    using can_create_ok [OF table_okD(2) [OF c(2)]] assms(4) by (simp add: c(1))
  then have "lock_create (de_now env) ?d (wd_locks s) = (collect_expired (de_now env) (wd_locks s), Inl (LockErr Locked))"
    by (simp add: lock_create_eq)
  then have "on_locks (lock_create (de_now env) ?d) s
      = (s\<lparr>wd_locks := collect_expired (de_now env) (wd_locks s)\<rparr>, Inr (Inl Locked))"
    by (simp add: on_locks_def)
  then show ?thesis
    using assms(2,3) by (simp add: confirm_locks_def unlock_all_def respond_def bnd_def)
qed


definition sample_dav_env :: "unit dav_env" where
  "sample_dav_env =
     \<lparr>de_core = tree_core, de_lib = sample_lib, de_src = sample_env, de_nanos = 0,
      de_reader = (\<lambda>body. [Inl ()]), de_reason = (\<lambda>code. []), de_decode = (\<lambda>t. t), de_url = (\<lambda>t. None),
      de_now = 5, de_later = 6\<rparr>"

definition sample_put :: dav_request where
  "sample_put = \<lparr>dq_path = ''/a/b'', dq_headers = Map.empty, dq_host = [], dq_method = ''PUT''\<rparr>"


end
