(* ===== verification/WebDavWalk.thy ===== *)
theory WebDavWalk
  imports WebDavProps
begin

text \<open>
  The walk of PROPFIND ends: over a core that keeps answering the same list of loaded torrents,
  every step goes down in a tree of bounded depth.
\<close>

subsection \<open>The elements of a path\<close>

lemma split_on_both: "split_on c (a @ c # b) = split_on c a @ split_on c b"
proof (induction a)
  case (Cons x a)
  then show ?case by (cases "split_on c a") (auto split: list.splits)
qed simp

lemma split_on_parts: "e \<in> set (split_on c s) \<Longrightarrow> c \<notin> set e"
proof (induction s arbitrary: e)
  case (Cons x s)
  then show ?case by (cases "split_on c s") (auto split: if_splits)
qed simp

definition elems :: "string \<Rightarrow> string list" where
  "elems p = foldl (clean_part True) [] (split_on (CHR ''/'') p)"

definition ups :: "nat \<Rightarrow> string list" where
  "ups n = replicate n ''..''"

lemma clean_parts_shape:
  assumes "list_all plain ps" "\<forall>x \<in> set xs. CHR ''/'' \<notin> set x"
  shows "list_all plain (foldl (clean_part True) ps xs)
    \<and> (\<exists>n. foldl (clean_part False) (ups k @ ps) xs = ups n @ foldl (clean_part True) ps xs)"
  using assms
proof (induction xs arbitrary: ps k)
  case (Cons x xs)
  have "\<exists>j. clean_part False (ups k @ ps) x = ups j @ clean_part True ps x \<and> list_all plain (clean_part True ps x)"
  proof (cases "x = ''..''")
    case True
    show ?thesis
    proof (cases ps rule: rev_cases)
      case Nil
      have "clean_part False (ups k) ''..'' = ups (Suc k)"
        by (cases k) (simp_all add: ups_def replicate_append_same)
      with True Nil show ?thesis by (intro exI [of _ "Suc k"]) simp
    next
      case (snoc qs q)
      then have "plain q" "list_all plain qs" using Cons.prems(1) by simp_all
      then show ?thesis using True snoc
        by (intro exI [of _ k]) (simp add: butlast_append)
    qed
  next
    case False
    show ?thesis
    proof (cases "x = [] \<or> x = ''.''")
      case True
      then show ?thesis using Cons.prems(1) by (intro exI [of _ k]) auto
    next
      case no: False
      moreover have "CHR ''/'' \<notin> set x" using Cons.prems(2) by simp
      ultimately have "plain x" using False unfolding plain_def valid_element_def by blast
      then show ?thesis using Cons.prems(1) by (intro exI [of _ k]) simp
    qed
  qed
  then obtain j where step: "clean_part False (ups k @ ps) x = ups j @ clean_part True ps x" "list_all plain (clean_part True ps x)"
    by blast
  then show ?case using Cons.IH [OF step(2), of j] Cons.prems(2) by simp
qed auto

lemma elems_plain: "list_all plain (elems p)"
  using clean_parts_shape [of "[]" "split_on (CHR ''/'') p" 0] split_on_parts unfolding elems_def by auto

lemma fs_path_elems: "fs_path p = ''/'' @ join ''/'' (elems p)"
  by (simp add: fs_path_def clean_def elems_def starts_with_def)

lemma fs_open_elems: "fs_open core (fs_path p) = walk_path core FsRoot (elems p)"
  unfolding fs_path_elems by (rule fs_open_plain(2) [OF elems_plain])

lemma elems_ups: "foldl (clean_part True) [] (ups n @ ps) = foldl (clean_part True) [] ps"
  by (induction n) (simp_all add: ups_def)

lemma elems_join: "list_all plain es \<Longrightarrow> elems (''/'' @ join ''/'' es) = es"
  using split_on_plain [of es] clean_parts_plain [of es True "[]"]
  by (cases "es = []") (simp_all add: elems_def)

lemma elems_clean: "elems (clean q) = elems q"
proof (cases "starts_with q ''/''")
  case True
  then have "clean q = ''/'' @ join ''/'' (elems q)" by (simp add: clean_def elems_def)
  then show ?thesis using elems_join [OF elems_plain] by simp
next
  case False
  define F where "F = foldl (clean_part False) [] (split_on (CHR ''/'') q)"
  obtain n where F: "F = ups n @ elems q"
    using clean_parts_shape [of "[]" "split_on (CHR ''/'') q" 0] split_on_parts
    unfolding F_def elems_def by (auto simp: ups_def)
  have "x \<noteq> []" "CHR ''/'' \<notin> set x" if "x \<in> set (elems q)" for x
    using elems_plain [of q] plainD(1,4) that unfolding list_all_iff by blast+
  then have sep: "\<forall>x \<in> set F. CHR ''/'' \<notin> set x" "\<forall>x \<in> set F. x \<noteq> []"
    unfolding F by (auto simp: ups_def)
  have c: "clean q = (if join ''/'' F = [] then ''.'' else join ''/'' F)"
    using False by (simp add: clean_def F_def)
  show ?thesis
  proof (cases "F = []")
    case True
    then have "clean q = ''.''" "elems q = []" using c F by simp_all
    then show ?thesis by (simp add: elems_def)
  next
    case nonempty: False
    then have "join ''/'' F \<noteq> []" using sep(2) by (cases F; cases "tl F") auto
    then have "elems (clean q) = foldl (clean_part True) [] F"
      using c split_on_join [OF nonempty sep(1)] by (simp add: elems_def)
    also have "\<dots> = elems q"
      unfolding F elems_ups using clean_parts_plain [OF elems_plain, of True "[]"] by simp
    finally show ?thesis .
  qed
qed

lemma elems_child: "plain x \<Longrightarrow> elems (clean (path @ ''/'' @ x)) = elems path @ [x]"
  unfolding elems_clean by (simp add: elems_def split_on_both split_on_no_sep)

subsection \<open>A core that stands still\<close>

text \<open>
  \<open>tidy\<close>: the names a listing shows can be used as elements of paths. A core whose torrents are
  not, say with a file path through \<open>..\<close>, sends the walk up again.
\<close>

definition steady :: "'c client_core \<Rightarrow> 'c \<Rightarrow> torrent_view list \<Rightarrow> bool" where
  "steady core c ts \<longleftrightarrow>
     cc_torrents core ListCmd c = (c, Inr (ListReply ts)) \<and> fst (cc_settings core GetSettings c) = c
     \<and> list_all got_info ts"

definition tidy :: "torrent_view list \<Rightarrow> bool" where
  "tidy ts \<longleftrightarrow> (\<forall>t \<in> set ts. (sanitize_name (tv_title t) = [] \<longrightarrow> plain (hash_text t))
     \<and> (\<forall>f \<in> set (tv_file_stats t). \<forall>e \<in> set (split_on (CHR ''/'') (fs_display_path t f)). e \<noteq> ''.'' \<and> e \<noteq> ''..''))"

lemma set_trim: "set (trim s) \<subseteq> set s"
proof -
  have "set (dropWhile is_whitespace (rev (dropWhile is_whitespace (utf8_chars s)))) \<subseteq> set (utf8_chars s)"
    using set_dropWhileD by (metis set_rev subsetI)
  then have "set (trim s) \<subseteq> set (concat (utf8_chars s))" unfolding trim_def set_concat set_rev by blast
  then show ?thesis by (simp add: concat_utf8_chars)
qed

lemma sanitize_plain: "sanitize_name x \<noteq> [] \<Longrightarrow> plain (sanitize_name x)"
proof -
  let ?m = "concat (map (\<lambda>c. if c = CHR ''/'' \<or> c = CHR 0x5C then ''_''
      else if byte_val c \<le> 31 \<or> byte_val c = 127 then [] else [c]) x)"
  assume ne: "sanitize_name x \<noteq> []"
  have "CHR ''/'' \<notin> set ?m" by (auto split: if_splits)
  then have "CHR ''/'' \<notin> set (trim ?m)" using set_trim by blast
  moreover have "sanitize_name x = trim ?m" "trim ?m \<noteq> []" "trim ?m \<noteq> ''.''" "trim ?m \<noteq> ''..''"
    using ne unfolding sanitize_name_def Let_def by (auto split: if_splits)
  ultimately show ?thesis unfolding plain_def valid_element_def by metis
qed

lemma plain_other: "plain ''other''"
  by (simp add: plain_def valid_element_def)

lemma category_plain: "plain (category_name x)"
  using sanitize_plain [of x] plain_other by (simp add: category_name_def Let_def)

lemma torrent_plain: "tidy ts \<Longrightarrow> t \<in> set ts \<Longrightarrow> plain (torrent_name t)"
  using sanitize_plain [of "tv_title t"] by (simp add: torrent_name_def Let_def tidy_def)

subsection \<open>The depth of the tree\<close>

definition longest :: "torrent_view list \<Rightarrow> nat" where
  "longest ts = sum_list (map (\<lambda>t. sum_list (map (\<lambda>f. length (fs_display_path t f)) (tv_file_stats t))) ts)"

lemma longest_ge:
  assumes "t \<in> set ts" "f \<in> set (tv_file_stats t)"
  shows "length (fs_display_path t f) \<le> longest ts"
proof -
  have "length (fs_display_path t f) \<le> sum_list (map (\<lambda>f. length (fs_display_path t f)) (tv_file_stats t))"
    using assms(2) by (intro member_le_sum_list) simp_all
  also have "\<dots> \<le> longest ts" unfolding longest_def using assms(1) by (intro member_le_sum_list) simp_all
  finally show ?thesis .
qed

fun rank :: "torrent_view list \<Rightarrow> fs_node \<Rightarrow> nat" where
  "rank ts FsRoot = longest ts + 3"
| "rank ts (FsCategory k) = longest ts + 2"
| "rank ts (FsDir t x p) = longest ts + 1 - length p"
| "rank ts (FsFile t x f) = 0"

fun known_node :: "torrent_view list \<Rightarrow> fs_node \<Rightarrow> bool" where
  "known_node ts (FsDir t x p) = (t \<in> set ts)"
| "known_node ts n = True"

definition below :: "torrent_view list \<Rightarrow> fs_node \<Rightarrow> fs_node \<Rightarrow> bool" where
  "below ts n k \<longleftrightarrow> known_node ts k \<and> plain (node_name k) \<and> rank ts k < rank ts n"

lemma add_entry_below:
  assumes "tidy ts" "t \<in> set ts" "f \<in> set (tv_file_stats t)" "\<forall>k \<in> set ns. below ts (FsDir t x p) k"
  shows "\<forall>k \<in> set (add_entry t p ns f). below ts (FsDir t x p) k"
proof (cases "if p = [] then Some (fs_display_path t f) else strip_dir p (fs_display_path t f)")
  case None
  then show ?thesis using assms(4) unfolding add_entry_def by simp
next
  case (Some rel)
  let ?d = "fs_display_path t f" and ?e = "hd (split_on (CHR ''/'') rel)"
  let ?q = "if p = [] then ?e else p @ ''/'' @ ?e"
  have d: "?d = (if p = [] then rel else p @ ''/'' @ rel)"
    using Some by (auto simp: strip_dir_def strip_prefix_eq_Some split: if_splits option.splits)
  obtain rest where rel: "rel = ?e @ rest" "?e \<in> set (split_on (CHR ''/'') ?d)"
  proof -
    have "rel = hd (split_on (CHR ''/'') rel) @ drop (length ?e) rel"
    proof (induction rel)
      case (Cons c r)
      then show ?case by (cases "split_on (CHR ''/'') r") auto
    qed simp
    moreover have "?e \<in> set (split_on (CHR ''/'') rel)" by simp
    ultimately show thesis using that d by (auto simp: split_on_both)
  qed
  have small: "length p < length ?q" "length ?q \<le> longest ts" if "?e \<noteq> []"
    using that longest_ge [OF assms(2,3)] arg_cong [OF rel(1), of length] by (auto simp: d)
  have "?e \<noteq> ''.''" "?e \<noteq> ''..''" using assms(1-3) rel(2) unfolding tidy_def by blast+
  then have e: "plain ?e" if "?e \<noteq> []"
    using that split_on_parts [OF rel(2)] unfolding plain_def valid_element_def by blast
  have entries: "below ts (FsDir t x p) (FsDir t ?e ?q)" "below ts (FsDir t x p) (FsFile t ?e f)" if "?e \<noteq> []"
    using e [OF that] small [OF that] assms(2) by (simp_all add: below_def dir_info_def)
  show ?thesis
  proof (cases "?e = []")
    case True
    then show ?thesis using assms(4) Some unfolding add_entry_def Let_def by simp
  next
    case False
    have "set (add_entry t p ns f) \<subseteq> set ns \<union> {FsFile t ?e f, FsDir t ?e ?q}"
      using False Some unfolding add_entry_def Let_def by auto
    with assms(4) entries [OF False] show ?thesis by blast
  qed
qed

lemma add_entries_below:
  assumes "tidy ts" "t \<in> set ts" "set fs \<subseteq> set (tv_file_stats t)" "\<forall>k \<in> set ns. below ts (FsDir t x p) k"
  shows "\<forall>k \<in> set (foldl (add_entry t p) ns fs). below ts (FsDir t x p) k"
  using assms(3,4)
proof (induction fs arbitrary: ns)
  case (Cons f fs)
  have "f \<in> set (tv_file_stats t)" "set fs \<subseteq> set (tv_file_stats t)" using Cons.prems(1) by simp_all
  with Cons.IH [OF _ add_entry_below [OF assms(1,2)]] Cons.prems(2) show ?case by simp
qed simp

subsection \<open>Reading the tree\<close>

lemma steadyD:
  assumes "steady core c ts"
  shows "cc_torrents core ListCmd c = (c, Inr (ListReply ts))" "cc_settings core GetSettings c = (c, snd (cc_settings core GetSettings c))"
    "t \<in> set ts \<Longrightarrow> got_info t"
  using assms by (auto simp: steady_def list_all_iff prod_eq_iff)

lemma steady_read_dir:
  assumes s: "steady core c ts" and tidy: "tidy ts" and n: "known_node ts n" "read_dir core n c = (c', r)"
  shows "c' = c \<and> (\<forall>ns. r = Inr ns \<longrightarrow> (\<forall>k \<in> set ns. below ts n k))"
proof (cases n)
  case FsRoot
  have "below ts FsRoot (FsCategory (category_name x))" for x
    using category_plain by (simp add: below_def dir_info_def)
  with n(2) FsRoot show ?thesis
    by (auto simp: fs_torrents_def bnd_def ask_def steadyD(1) [OF s] set_sort_by)
next
  case (FsCategory k)
  have b: "below ts n (FsDir t (torrent_name t) [])" if "t \<in> set ts" for t
    using torrent_plain [OF tidy that] FsCategory that by (simp add: below_def dir_info_def)
  obtain sr where "cc_settings core GetSettings c = (c, sr)" using steadyD(2) [OF s] by blast
  then have l: "c' = c \<and> (\<forall>ns. r = Inr ns \<longrightarrow> (\<forall>x \<in> set ns. \<exists>t \<in> set ts. x = FsDir t (torrent_name t) []))"
    using n(2) FsCategory steadyD(1) [OF s] by (auto simp: fs_torrents_def bnd_def ask_def Let_def)
  show ?thesis
  proof (intro conjI allI impI ballI)
    fix ns x assume "r = Inr ns" "x \<in> set ns"
    then obtain t where "t \<in> set ts" "x = FsDir t (torrent_name t) []" using l by metis
    then show "below ts n x" using b by simp
  qed (use l in simp)
next
  case (FsDir t x p)
  then have t: "t \<in> set ts" using n(1) by simp
  then have "r = Inr (sort_by by_name (foldl (add_entry t p) [] (tv_file_stats t)))" "c' = c"
    using n(2) FsDir steadyD(3) [OF s t] by (auto simp: fs_loaded_def bnd_def)
  then show ?thesis
    using add_entries_below [OF tidy t, of "tv_file_stats t" "[]" x p] FsDir by (simp add: set_sort_by)
next
  case (FsFile t x f)
  with n(2) show ?thesis by auto
qed

lemma steady_walk_path:
  assumes "steady core c ts" "tidy ts" "known_node ts n" "walk_path core n es c = (c', r)"
  shows "c' = c \<and> (\<forall>m. r = Inr m \<longrightarrow> known_node ts m)"
  using assms(3,4)
proof (induction es arbitrary: n)
  case (Cons e es)
  show ?case
  proof (cases "is_file n")
    case False
    obtain c1 q where q: "read_dir core n c = (c1, q)" by fastforce
    note d = steady_read_dir [OF assms(1,2) Cons.prems(1) q]
    show ?thesis
    proof (cases q)
      case (Inr ns)
      show ?thesis
      proof (cases "List.find (\<lambda>k. node_name k = e) ns")
        case (Some k)
        then have "k \<in> set ns" by (auto simp: find_Some_iff)
        then have "known_node ts k" using d Inr by (simp add: below_def)
        from Cons.IH [OF this] show ?thesis using Cons.prems(2) q d False Inr Some by simp
      qed (use Cons.prems(2) q d False Inr in auto)
    qed (use Cons.prems(2) q d False in auto)
  qed (use Cons.prems in auto)
qed auto

abbreviation still :: "'c \<Rightarrow> ('c, 'a) dav_act \<Rightarrow> bool" where
  "still c m \<equiv> keeps (\<lambda>s. wd_core s = c) m"

lemma still_on_fs: "fst (m c) = c \<Longrightarrow> still c (on_fs m)"
  by (auto simp: keeps_def on_fs_def split: prod.split)

lemma still_open:
  assumes "steady core c ts" "tidy ts"
  shows "fst (fs_open core (fs_path p) c) = c"
  unfolding fs_open_elems
  using steady_walk_path [OF assms, of FsRoot "elems p"] by (cases "walk_path core FsRoot (elems p) c") simp

lemma still_stat:
  assumes "steady (de_core env) c ts" "tidy ts"
  shows "still c (dav_stat env p)"
proof -
  have "fst (fs_stat (de_core env) (fs_path p) c) = c"
    using still_open [OF assms, of p] by (auto simp: fs_stat_def bnd_def split: prod.splits sum.splits)
  then show ?thesis unfolding dav_stat_def by (rule still_on_fs)
qed

lemma still_propstats:
  assumes "steady (de_core env) c ts" "tidy ts"
  shows "still c (propstats env pf path info)"
proof -
  have live: "still c (live_value env n path info)" for n
    unfolding live_value_def content_type_prop_def Let_def
    by (intro keeping still_on_fs still_open [OF assms])
  have "still c (live_values env ns path info a b)" for ns a b
  proof (induction ns arbitrary: a b)
    case Nil
    show ?case unfolding live_values.simps by (rule keeping)
  next
    case (Cons n ns)
    show ?case unfolding live_values.simps by (intro keeping live Cons)
  qed
  then show ?thesis unfolding propstats_def Let_def by (intro keeping)
qed

subsection \<open>Steps of the walk\<close>

lemma child_entries_paths:
  assumes "child_entries env path d ks s = (s', Inr es)" "e \<in> set es"
  shows "\<exists>k \<in> set ks. fst e = clean (path @ ''/'' @ node_name k)"
  using assms
proof (induction ks arbitrary: s s' es)
  case (Cons k ks)
  define p where "p = clean (path @ ''/'' @ node_name k)"
  obtain s1 r where r: "dav_stat env p s = (s1, Inr r)"
    using calmD [OF calm_stat, of env _ s] by blast
  then obtain s2 es2 where es2: "child_entries env path d ks s1 = (s2, Inr es2)"
    "es = (case r of Inl e \<Rightarrow> es2 | Inr info \<Rightarrow> es2 @ [(p, info, d)])"
    using Cons.prems(1) unfolding child_entries.simps Let_def p_def [symmetric] by (auto elim!: bnd_OkE)
  from Cons.prems(2) es2(2) consider "e \<in> set es2" | "fst e = p"
    by (cases r) auto
  then show ?case
  proof cases
    case 1
    from Cons.IH [OF es2(1) this] show ?thesis by auto
  qed (simp add: p_def)
qed simp

lemma still_child_entries:
  assumes "steady (de_core env) c ts" "tidy ts"
  shows "still c (child_entries env path d ks)"
proof (induction ks)
  case Nil
  show ?case unfolding child_entries.simps by (rule keeping)
next
  case (Cons k ks)
  show ?case unfolding child_entries.simps Let_def by (intro keeping still_stat [OF assms] Cons)
qed

text \<open>\<open>r\<close> bounds what can be opened at a path.\<close>

definition depth_ok :: "'c client_core \<Rightarrow> 'c \<Rightarrow> torrent_view list \<Rightarrow> nat \<Rightarrow> string \<Rightarrow> bool" where
  "depth_ok core c ts r path \<longleftrightarrow>
     (\<forall>n. walk_path core FsRoot (elems path) c = (c, Inr n) \<longrightarrow> rank ts n < r)"

lemma depth_ok_child:
  assumes s: "steady core c ts" "tidy ts" and w: "depth_ok core c ts (Suc r) path"
    and n: "fs_open core (fs_path path) c = (c1, Inr n)" and d: "read_dir core n c1 = (c2, Inr ks)" and k: "k \<in> set ks"
  shows "depth_ok core c ts r (clean (path @ ''/'' @ node_name k))"
proof -
  have open_n: "walk_path core FsRoot (elems path) c = (c, Inr n)" "c1 = c" "known_node ts n"
    using n steady_walk_path [OF s, of FsRoot "elems path" c1 "Inr n"] unfolding fs_open_elems by auto
  note b = steady_read_dir [OF s open_n(3) d [unfolded open_n(2)]]
  then have plain: "plain (node_name k)" using k by (auto simp: below_def)
  show ?thesis
    unfolding depth_ok_def elems_child [OF plain] walk_append
  proof (intro allI impI)
    fix m assume m: "bnd (walk_path core FsRoot (elems path)) (\<lambda>n. walk_path core n [node_name k]) c = (c, Inr m)"
    have leaf: "\<not> is_file n" using d by (cases n) auto
    obtain k' where k': "List.find (\<lambda>q. node_name q = node_name k) ks = Some k'"
      using k by (cases "List.find (\<lambda>q. node_name q = node_name k) ks") (auto simp: find_None_iff)
    then have "k' \<in> set ks" by (auto simp: find_Some_iff)
    moreover have "m = k'" using m open_n d leaf k' b by simp
    ultimately have "rank ts m < rank ts n" using b by (simp add: below_def)
    moreover have "rank ts n < Suc r" using w open_n(1) unfolding depth_ok_def by blast
    ultimately show "rank ts m < r" by simp
  qed
qed

lemma walk_one_step:
  assumes s: "steady (de_core env) c ts" "tidy ts" and c: "wd_core s = c"
    and run: "walk_one env pf (path, info, d) s = (s', Inr (x, es))"
  shows "wd_core s' = c
    \<and> (es \<noteq> [] \<longrightarrow> \<not> depth_ok (de_core env) c ts 0 path)
    \<and> (\<forall>r. depth_ok (de_core env) c ts (Suc r) path \<longrightarrow> (\<forall>e \<in> set es. depth_ok (de_core env) c ts r (fst e)))"
proof -
  obtain pss s1 where pss: "propstats env pf path info s = (s1, Inr pss)"
    using run by (auto simp: walk_one_def elim!: bnd_OkE)
  then have c1: "wd_core s1 = c" using keepsD [OF still_propstats [OF s] c] by blast
  obtain c2 q where q: "fs_open (de_core env) (fs_path path) c = (c2, q)" by fastforce
  then have c2: "c2 = c" using still_open [OF s, of path] by simp
  have opened: "on_fs (fs_open (de_core env) (fs_path path)) s1 = (s1, Inr q)"
    using q c1 c2 by (simp add: on_fs_def)
  show ?thesis
  proof (cases "fi_is_dir info \<and> d \<noteq> 0")
    case False
    then have "es = []" "s' = s1" using run pss by (auto simp: walk_one_def Let_def)
    with c1 show ?thesis by simp
  next
    case dir: True
    show ?thesis
    proof (cases q)
      case (Inl e)
      then have "es = []" "s' = s1" using run pss opened dir by (auto simp: walk_one_def Let_def)
      with c1 show ?thesis by simp
    next
      case (Inr n)
      have n: "walk_path (de_core env) FsRoot (elems path) c = (c, Inr n)" "known_node ts n"
        using q Inr c2 steady_walk_path [OF s, of FsRoot "elems path" c2 "Inr n"] unfolding fs_open_elems by auto
      obtain c3 ks where ks: "read_dir (de_core env) n c = (c3, ks)" by fastforce
      then have c3: "c3 = c" using steady_read_dir [OF s n(2)] by blast
      have listed: "on_fs (read_dir (de_core env) n) s1 = (s1, Inr ks)"
        using ks c1 c3 by (simp add: on_fs_def)
      show ?thesis
      proof (cases ks)
        case (Inl e)
        then have "es = []" "s' = s1" using run pss opened listed dir \<open>q = Inr n\<close> by (auto simp: walk_one_def Let_def)
        with c1 show ?thesis by simp
      next
        case (Inr kids)
        obtain d' where kids: "child_entries env path d' (rev kids) s1 = (s', Inr es)"
          using run pss opened listed dir \<open>q = Inr n\<close> Inr by (auto simp: walk_one_def Let_def elim!: bnd_OkE split: if_splits)
        have "wd_core s' = c" using keepsD [OF still_child_entries [OF s] c1 kids] .
        moreover have "depth_ok (de_core env) c ts r (fst e)" if w: "depth_ok (de_core env) c ts (Suc r) path" "e \<in> set es" for r e
        proof -
          obtain k where k: "k \<in> set kids" "fst e = clean (path @ ''/'' @ node_name k)"
            using child_entries_paths [OF kids w(2)] by auto
          show ?thesis unfolding k(2)
            by (rule depth_ok_child [OF s w(1) q [unfolded \<open>q = Inr n\<close> c2] _ k(1)]) (use ks Inr c3 in simp)
        qed
        moreover have "\<not> depth_ok (de_core env) c ts 0 path" using n(1) by (simp add: depth_ok_def)
        ultimately show ?thesis by blast
      qed
    qed
  qed
qed

lemma walk_ends:
  fixes env :: "'c dav_env"
  assumes s: "steady (de_core env) c ts" "tidy ts"
    and "\<forall>e \<in> set stack. depth_ok (de_core env) c ts r (fst e)"
    and "\<And>out s. wd_core s = c \<Longrightarrow> \<exists>y. walk_tree env pf rest out s = Some y"
    and "wd_core s = c"
  shows "\<exists>y. walk_tree env pf (stack @ rest) out s = Some y"
  using assms(3-)
proof (induction r arbitrary: stack rest out s)
  have step: "\<exists>y. walk_tree env pf ((e # stack) @ rest) out s = Some y"
    if e: "\<And>path info d s1 x es out. e = (path, info, d) \<Longrightarrow> wd_core s1 = c \<Longrightarrow> walk_one env pf e s = (s1, Inr (x, es)) \<Longrightarrow>
        \<exists>y. walk_tree env pf (es @ stack @ rest) out s1 = Some y"
      and c: "wd_core s = c" for e stack rest out and s :: "'c web_dav"
  proof -
    obtain s1 x es where w: "walk_one env pf e s = (s1, Inr (x, es))"
      using calmD [OF calm_walk_one, of env pf e s] by (metis prod.collapse)
    obtain path info d where p: "e = (path, info, d)" by (cases e)
    have "wd_core s1 = c" using walk_one_step [OF s c w [unfolded p]] by simp
    from e [OF p this w] show ?thesis using w by (subst walk_tree.simps) simp
  qed
  {
    case 0
    show ?case
      using "0.prems"
    proof (induction stack arbitrary: out s)
      case (Cons e stack)
      show ?case
      proof (rule step [OF _ Cons.prems(3)])
        fix path info d s1 x es out
        assume p: "e = (path, info, d)" and c1: "wd_core s1 = c" and w: "walk_one env pf e s = (s1, Inr (x, es))"
        have "depth_ok (de_core env) c ts 0 path" using Cons.prems(1) p by simp
        then have "es = []" using walk_one_step [OF s Cons.prems(3) w [unfolded p]] by blast
        moreover have "\<forall>e \<in> set stack. depth_ok (de_core env) c ts 0 (fst e)" using Cons.prems(1) by simp
        ultimately show "\<exists>y. walk_tree env pf (es @ stack @ rest) out s1 = Some y"
          using Cons.IH [OF _ Cons.prems(2) c1] by simp
      qed
    qed simp
  next
    case (Suc r)
    show ?case
      using Suc.prems
    proof (induction stack arbitrary: out s)
      case (Cons e stack)
      show ?case
      proof (rule step [OF _ Cons.prems(3)])
        fix path info d s1 x es out
        assume p: "e = (path, info, d)" and c1: "wd_core s1 = c" and w: "walk_one env pf e s = (s1, Inr (x, es))"
        have "depth_ok (de_core env) c ts (Suc r) path" using Cons.prems(1) p by simp
        then have "\<forall>e \<in> set es. depth_ok (de_core env) c ts r (fst e)"
          using walk_one_step [OF s Cons.prems(3) w [unfolded p]] by blast
        moreover have "\<forall>e \<in> set stack. depth_ok (de_core env) c ts (Suc r) (fst e)" using Cons.prems(1) by simp
        note Cons.IH [OF this Cons.prems(2)]
        ultimately show "\<exists>y. walk_tree env pf (es @ stack @ rest) out s1 = Some y"
          using c1 by (rule Suc.IH)
      qed
    qed simp
  }
qed


definition sample_tree :: "torrent_view list" where
  "sample_tree = [tree_show, tree_view [] ''movie'' ''film.mp4'' [(''film.mp4'', 7)]]"


end
