(* ===== verification/Dns.thy ===== *)
theory Dns
  imports Domain
begin

text \<open>
  \<open>rustorr-discovery/src/dns.rs\<close>: the DNS messages of the mDNS responder, packed with or without
  shared name suffixes and parsed back. A name is text with dots between its labels; \<open>names\<close> of
  the writer remembers where a suffix has been written.
\<close>

unbundle bit_operations_syntax

subsection \<open>Data\<close>

type_synonym u16 = "16 word"
type_synonym u32 = "32 word"

definition TYPE_A :: u16 where "TYPE_A = 1"
definition TYPE_PTR :: u16 where "TYPE_PTR = 12"
definition TYPE_TXT :: u16 where "TYPE_TXT = 16"
definition TYPE_AAAA :: u16 where "TYPE_AAAA = 28"
definition TYPE_SRV :: u16 where "TYPE_SRV = 33"
definition CLASS_IN :: u16 where "CLASS_IN = 1"
definition CACHE_FLUSH :: u16 where "CACHE_FLUSH = push_bit 15 1"

text \<open>An address is the list of its octets.\<close>

datatype dns_data =
    Ptr string
  | Srv u16 string
  | Txt "string list"
  | AddrA "byte list"
  | AddrAaaa "byte list"

record dns_record =
  rr_name :: string
  rr_class :: u16
  rr_ttl :: u32
  rr_data :: dns_data

definition record_kind :: "dns_record \<Rightarrow> u16" where
  "record_kind r =
     (case rr_data r of
        Ptr _ \<Rightarrow> TYPE_PTR
      | Srv _ _ \<Rightarrow> TYPE_SRV
      | Txt _ \<Rightarrow> TYPE_TXT
      | AddrA _ \<Rightarrow> TYPE_A
      | AddrAaaa _ \<Rightarrow> TYPE_AAAA)"

record dns_question =
  qu_name :: string
  qu_kind :: u16
  qu_class :: u16

record dns_message =
  dm_id :: u16
  dm_response :: bool
  dm_opcode :: byte
  dm_authoritative :: bool
  dm_recursion_desired :: bool
  dm_checking_disabled :: bool
  dm_questions :: "dns_question list"
  dm_answers :: "dns_record list"
  dm_authority :: "dns_record list"
  dm_additional :: "dns_record list"

subsection \<open>Big-endian fields\<close>

definition be16 :: "u16 \<Rightarrow> byte list" where
  "be16 w = [ucast (drop_bit 8 w), ucast w]"

definition be32 :: "u32 \<Rightarrow> byte list" where
  "be32 w = [ucast (drop_bit 24 w), ucast (drop_bit 16 w), ucast (drop_bit 8 w), ucast w]"

definition from_be16 :: "byte \<Rightarrow> byte \<Rightarrow> u16" where
  "from_be16 a b = push_bit 8 (ucast a) OR ucast b"

definition count16 :: "nat \<Rightarrow> u16" where
  "count16 n = (if n < 65536 then of_nat n else - 1)"

subsection \<open>Writing\<close>

record dns_writer =
  dw_out :: "byte list"
  dw_names :: "(string \<rightharpoonup> u16) option"

definition emit :: "byte list \<Rightarrow> dns_writer \<Rightarrow> dns_writer" where
  "emit bs w = w\<lparr>dw_out := dw_out w @ bs\<rparr>"

definition name_labels :: "string \<Rightarrow> string list" where
  "name_labels name =
     filter (\<lambda>l. l \<noteq> [])
       (split_on (CHR ''.'') (rev (dropWhile (\<lambda>c. c = CHR ''.'') (rev name))))"

text \<open>The suffix is remembered where it starts, if the position fits a pointer and is the first.\<close>

definition remember :: "string \<Rightarrow> dns_writer \<Rightarrow> dns_writer" where
  "remember suffix w =
     (case dw_names w of
        None \<Rightarrow> w
      | Some names \<Rightarrow>
          if length (dw_out w) < 65536 \<and> (of_nat (length (dw_out w)) :: u16) < 0x3FFF then
            (case names suffix of
               None \<Rightarrow> w\<lparr>dw_names := Some (names(suffix \<mapsto> of_nat (length (dw_out w))))\<rparr>
             | Some _ \<Rightarrow> w)
          else w)"

definition label_bytes :: "string \<Rightarrow> byte list" where
  "label_bytes l = (let n = min (length l) 63 in of_nat n # take n (str_bytes l))"

fun write_labels :: "bool \<Rightarrow> string list \<Rightarrow> dns_writer \<Rightarrow> dns_writer" where
  "write_labels compressible [] w = emit [0] w"
| "write_labels compressible (l # ls) w =
     (let suffix = to_ascii_lowercase (join ''.'' (l # ls)) in
      case (if compressible then (case dw_names w of None \<Rightarrow> None | Some names \<Rightarrow> names suffix) else None) of
        Some pointer \<Rightarrow> emit (be16 (0xC000 OR pointer)) w
      | None \<Rightarrow> write_labels compressible ls (emit (label_bytes l) (remember suffix w)))"

definition write_name :: "string \<Rightarrow> bool \<Rightarrow> dns_writer \<Rightarrow> dns_writer" where
  "write_name name compressible w = write_labels compressible (name_labels name) w"

definition text_bytes :: "string \<Rightarrow> byte list" where
  "text_bytes s = (let n = min (length s) 255 in of_nat n # take n (str_bytes s))"

definition write_data :: "dns_data \<Rightarrow> dns_writer \<Rightarrow> dns_writer" where
  "write_data d w =
     (case d of
        Ptr target \<Rightarrow> write_name target True w
      | Srv port target \<Rightarrow> write_name target False (emit (be16 port) (emit [0, 0, 0, 0] w))
      | Txt strings \<Rightarrow> foldl (\<lambda>w s. emit (text_bytes s) w) w strings
      | AddrA ip \<Rightarrow> emit ip w
      | AddrAaaa ip \<Rightarrow> emit ip w)"

text \<open>The two bytes of the data's length are written last, in the place kept for them.\<close>

definition patch16 :: "nat \<Rightarrow> u16 \<Rightarrow> dns_writer \<Rightarrow> dns_writer" where
  "patch16 at v w = w\<lparr>dw_out := take at (dw_out w) @ be16 v @ drop (at + 2) (dw_out w)\<rparr>"

definition write_record :: "dns_record \<Rightarrow> dns_writer \<Rightarrow> dns_writer" where
  "write_record r w =
     (let w = write_name (rr_name r) True w;
          w = emit (be16 (record_kind r)) w;
          w = emit (be16 (rr_class r)) w;
          w = emit (be32 (rr_ttl r)) w;
          length_at = length (dw_out w);
          w = emit [0, 0] w;
          w = write_data (rr_data r) w;
          n = length (dw_out w) - length_at - 2
      in patch16 length_at (count16 n) w)"

definition write_question :: "dns_question \<Rightarrow> dns_writer \<Rightarrow> dns_writer" where
  "write_question q w =
     emit (be16 (qu_class q)) (emit (be16 (qu_kind q)) (write_name (qu_name q) True w))"

definition message_flags :: "dns_message \<Rightarrow> u16" where
  "message_flags m =
     (if dm_response m then push_bit 15 1 else 0)
     OR push_bit 11 (ucast (dm_opcode m AND 0x0F))
     OR (if dm_authoritative m then push_bit 10 1 else 0)
     OR (if dm_recursion_desired m then push_bit 8 1 else 0)
     OR (if dm_checking_disabled m then push_bit 4 1 else 0)"

definition dns_pack :: "dns_message \<Rightarrow> bool \<Rightarrow> byte list" where
  "dns_pack m compress =
     (let w = \<lparr>dw_out = [], dw_names = if compress then Some Map.empty else None\<rparr>;
          w = foldl (\<lambda>w v. emit (be16 v) w) w
            [dm_id m, message_flags m, count16 (length (dm_questions m)), count16 (length (dm_answers m)),
             count16 (length (dm_authority m)), count16 (length (dm_additional m))];
          w = fold write_question (dm_questions m) w;
          w = fold write_record (dm_answers m @ dm_authority m @ dm_additional m) w
      in dw_out w)"

subsection \<open>Parsing\<close>

definition escape_byte :: "byte \<Rightarrow> string" where
  "escape_byte b =
     (let c = char_of (unat b) in
      if c \<in> set ''. @;()'' \<or> c \<in> {CHR 0x22, CHR 0x27, CHR 0x5C} then [CHR 0x5C, c]
      else if 0x21 \<le> b \<and> b \<le> 0x7E then [c]
      else [CHR 0x5C, digit_char (unat b div 100), digit_char (unat b div 10 mod 10), digit_char (unat b mod 10)])"

definition escape_label :: "byte list \<Rightarrow> string" where
  "escape_label bs = concat (map escape_byte bs)"

text \<open>
  The loop of \<open>read_name\<close>, its 128 turns as the first argument: the labels so far, and the place
  after the name once a pointer has been followed.
\<close>

fun read_labels :: "nat \<Rightarrow> byte list \<Rightarrow> nat \<Rightarrow> string list \<Rightarrow> nat option \<Rightarrow> (string \<times> nat) option" where
  "read_labels 0 bytes offset ls e = None"
| "read_labels (Suc n) bytes offset ls e =
     (case get_opt bytes offset of
        None \<Rightarrow> None
      | Some len \<Rightarrow>
          if len AND 0xC0 = 0xC0 then
            (case get_opt bytes (offset + 1) of
               None \<Rightarrow> None
             | Some lo \<Rightarrow>
                 read_labels n bytes (push_bit 8 (unat (len AND 0x3F)) OR unat lo) ls
                   (case e of None \<Rightarrow> Some (offset + 2) | Some x \<Rightarrow> Some x))
          else if len = 0 then
            Some (join ''.'' ls @ ''.'', case e of None \<Rightarrow> offset + 1 | Some x \<Rightarrow> x)
          else
            (case slice_opt bytes (offset + 1) (offset + 1 + unat len) of
               None \<Rightarrow> None
             | Some label \<Rightarrow> read_labels n bytes (offset + 1 + unat len) (ls @ [escape_label label]) e))"

definition read_name :: "byte list \<Rightarrow> nat \<Rightarrow> (string \<times> nat) option" where
  "read_name bytes offset = read_labels 128 bytes offset [] None"

definition read_field :: "byte list \<Rightarrow> nat \<Rightarrow> u16 option" where
  "read_field bytes at =
     (case (get_opt bytes at, get_opt bytes (at + 1)) of
        (Some a, Some b) \<Rightarrow> Some (from_be16 a b)
      | _ \<Rightarrow> None)"

definition read_question :: "byte list \<Rightarrow> nat \<Rightarrow> (dns_question \<times> nat) option" where
  "read_question bytes offset =
     (case read_name bytes offset of
        None \<Rightarrow> None
      | Some (name, next) \<Rightarrow>
          (case (read_field bytes next, read_field bytes (next + 2)) of
             (Some kind, Some cls) \<Rightarrow> Some (\<lparr>qu_name = name, qu_kind = kind, qu_class = cls\<rparr>, next + 4)
           | _ \<Rightarrow> None))"

definition read_ttl :: "u16 \<Rightarrow> u16 \<Rightarrow> u32" where
  "read_ttl a b = push_bit 16 (ucast a) OR ucast b"

definition read_record :: "byte list \<Rightarrow> nat \<Rightarrow> (dns_record option \<times> nat) option" where
  "read_record bytes offset =
     (case read_name bytes offset of
        None \<Rightarrow> None
      | Some (name, offset) \<Rightarrow>
          (case map_option_all (read_field bytes) [offset, offset + 2, offset + 4, offset + 6, offset + 8] of
             Some [kind, cls, t1, t2, len] \<Rightarrow>
               (let start = offset + 10; e = start + unat len in
                case slice_opt bytes start e of
                  None \<Rightarrow> None
                | Some _ \<Rightarrow>
                    (let data = (if kind = TYPE_PTR then map_option (\<lambda>(target, _). Ptr target) (read_name bytes start)
                                 else None)
                     in Some (map_option
                          (\<lambda>d. \<lparr>rr_name = name, rr_class = cls, rr_ttl = read_ttl t1 t2, rr_data = d\<rparr>) data, e)))
           | _ \<Rightarrow> None))"

definition record_unread :: dns_record where
  "record_unread = \<lparr>rr_name = [], rr_class = 0, rr_ttl = 0, rr_data = Txt []\<rparr>"

fun read_questions :: "nat \<Rightarrow> byte list \<Rightarrow> nat \<Rightarrow> (dns_question list \<times> nat) option" where
  "read_questions 0 bytes offset = Some ([], offset)"
| "read_questions (Suc n) bytes offset =
     (case read_question bytes offset of
        None \<Rightarrow> None
      | Some (q, next) \<Rightarrow> map_option (\<lambda>(qs, e). (q # qs, e)) (read_questions n bytes next))"

fun read_records :: "nat \<Rightarrow> byte list \<Rightarrow> nat \<Rightarrow> (dns_record list \<times> nat) option" where
  "read_records 0 bytes offset = Some ([], offset)"
| "read_records (Suc n) bytes offset =
     (case read_record bytes offset of
        None \<Rightarrow> None
      | Some (r, next) \<Rightarrow>
          map_option (\<lambda>(rs, e). ((case r of None \<Rightarrow> record_unread | Some r \<Rightarrow> r) # rs, e))
            (read_records n bytes next))"

definition dns_parse :: "byte list \<Rightarrow> dns_message option" where
  "dns_parse bytes =
     (case map_option_all (read_field bytes) [0, 2, 4, 6, 8, 10] of
        Some [ident, flags, questions, answers, authority, additional] \<Rightarrow>
          (case read_questions (unat questions) bytes 12 of
             None \<Rightarrow> None
           | Some (qs, o1) \<Rightarrow>
          (case read_records (unat answers) bytes o1 of
             None \<Rightarrow> None
           | Some (an, o2) \<Rightarrow>
          (case read_records (unat authority) bytes o2 of
             None \<Rightarrow> None
           | Some (au, o3) \<Rightarrow>
          (case read_records (unat additional) bytes o3 of
             None \<Rightarrow> None
           | Some (ad, o4) \<Rightarrow>
               Some \<lparr>dm_id = ident, dm_response = (flags AND push_bit 15 1 \<noteq> 0),
                 dm_opcode = ucast (drop_bit 11 flags AND 0x0F),
                 dm_authoritative = (flags AND push_bit 10 1 \<noteq> 0),
                 dm_recursion_desired = (flags AND push_bit 8 1 \<noteq> 0),
                 dm_checking_disabled = (flags AND push_bit 4 1 \<noteq> 0),
                 dm_questions = qs, dm_answers = an, dm_authority = au, dm_additional = ad\<rparr>))))
      | _ \<Rightarrow> None)"

end
