(* ===== verification/DnsProps.thy ===== *)
theory DnsProps
  imports Dns
begin

text \<open>
  The codec of the mDNS responder: what is packed is parsed back, names shared or not, and what is
  parsed from any bytes is bounded.
\<close>

unbundle bit_operations_syntax

subsection \<open>Fields\<close>

lemma be16_from: "be16 w = [a, b] \<Longrightarrow> from_be16 a b = w"
  unfolding be16_def from_be16_def by (auto intro!: bit_word_eqI simp: bit_simps)

lemma length_be16 [simp]: "length (be16 w) = 2"
  by (simp add: be16_def)

lemma length_be32 [simp]: "length (be32 w) = 4"
  by (simp add: be32_def)

lemma be32_halves: "be32 w = be16 (ucast (drop_bit 16 w)) @ be16 (ucast w)"
proof -
  have "ucast (drop_bit 24 w) = (ucast (drop_bit 8 (ucast (drop_bit 16 w) :: u16)) :: byte)"
    "ucast (drop_bit 8 w) = (ucast (drop_bit 8 (ucast w :: u16)) :: byte)"
    "ucast (drop_bit 16 w) = (ucast (ucast (drop_bit 16 w) :: u16) :: byte)"
    "ucast w = (ucast (ucast w :: u16) :: byte)"
    by (auto intro!: bit_word_eqI simp: bit_simps)
  then show ?thesis by (simp add: be32_def be16_def)
qed

lemma read_ttl_halves: "read_ttl (ucast (drop_bit 16 w)) (ucast w) = w"
  unfolding read_ttl_def
  by (auto intro!: bit_word_eqI simp: bit_simps)

text \<open>A pointer of 14 bits.\<close>

lemma masks:
  "(0xC000 :: u16) = push_bit 14 (mask 2)" "(0xC0 :: byte) = push_bit 6 (mask 2)" "(0x3F :: byte) = mask 6"
  by (simp_all add: mask_eq_exp_minus_1 push_bit_eq_mult)

lemma pointer_bytes:
  assumes "unat p < 0x3FFF"
  obtains hi lo where "be16 (0xC000 OR p) = [hi, lo]" "hi AND 0xC0 = 0xC0"
    "push_bit 8 (unat (hi AND 0x3F)) OR unat lo = unat p"
proof -
  let ?w = "0xC000 OR p :: u16"
  let ?hi = "ucast (drop_bit 8 ?w) :: byte" and ?lo = "ucast ?w :: byte"
  have high: "bit p n \<Longrightarrow> n < 14" for n
  proof -
    assume "bit p n"
    then have "bit (unat p) n" by (simp add: bit_unsigned_iff)
    then have "unat p div 2 ^ n \<noteq> 0" by (metis bit_iff_odd even_zero)
    then have "2 ^ n \<le> unat p" by (metis div_less not_less)
    then have "(2::nat) ^ n < 2 ^ 14" using assms by simp
    then show "n < 14" by (rule power_less_imp_less_exp [rotated]) simp
  qed
  have "?hi AND 0xC0 = 0xC0"
    unfolding masks by (rule bit_word_eqI) (auto simp: bit_simps)
  moreover have "push_bit 8 (unat (?hi AND 0x3F)) OR unat ?lo = unat p"
    unfolding masks by (rule bit_eqI) (auto simp: bit_simps dest: high)
  ultimately show thesis using that by (simp add: be16_def)
qed

subsection \<open>Names in a message\<close>

text \<open>
  \<open>reads F p ls c e\<close>: in the bytes that are settled (\<open>F\<close>, positions to bytes) a name with the labels
  \<open>ls\<close> starts at \<open>p\<close>; reading it takes \<open>c\<close> turns and goes on at \<open>e\<close>.
\<close>

type_synonym settled = "nat \<rightharpoonup> byte"

inductive reads :: "settled \<Rightarrow> nat \<Rightarrow> byte list list \<Rightarrow> nat \<Rightarrow> nat \<Rightarrow> bool" where
  stop: "F p = Some 0 \<Longrightarrow> reads F p [] 1 (p + 1)"
| label: "F p = Some b \<Longrightarrow> b \<noteq> 0 \<Longrightarrow> b AND 0xC0 \<noteq> 0xC0 \<Longrightarrow> unat b = length l \<Longrightarrow>
    \<forall>i < length l. F (p + 1 + i) = Some (l ! i) \<Longrightarrow> reads F (p + 1 + length l) ls c e \<Longrightarrow>
    reads F p (l # ls) (Suc c) e"
| jump: "F p = Some b \<Longrightarrow> b AND 0xC0 = 0xC0 \<Longrightarrow> F (p + 1) = Some lo \<Longrightarrow>
    reads F (push_bit 8 (unat (b AND 0x3F)) OR unat lo) ls c e \<Longrightarrow> reads F p ls (Suc c) (p + 2)"

inductive_cases reads_NilE: "reads F p [] c e"

lemma reads_mono: "reads F p ls c e \<Longrightarrow> F \<subseteq>\<^sub>m G \<Longrightarrow> reads G p ls c e"
proof (induction rule: reads.induct)
  case (stop F p)
  then show ?case by (intro reads.stop) (auto simp: map_le_def dom_def)
next
  case (label F p b l ls c e)
  have g: "F q = Some x \<Longrightarrow> G q = Some x" for q x using label.prems by (auto simp: map_le_def dom_def)
  then show ?case using label by (intro reads.label) auto
next
  case (jump F p b lo ls c e)
  have g: "F q = Some x \<Longrightarrow> G q = Some x" for q x using jump.prems by (auto simp: map_le_def dom_def)
  then show ?case using jump by (intro reads.jump) auto
qed

lemma read_labels_ok:
  assumes "reads F p ls c e" "F \<subseteq>\<^sub>m get_opt bytes" "c \<le> n"
  shows "read_labels n bytes p acc eo
    = Some (join ''.'' (acc @ map escape_label ls) @ ''.'', case eo of None \<Rightarrow> e | Some x \<Rightarrow> x)"
  using assms
proof (induction arbitrary: n acc eo rule: reads.induct)
  case (stop F p)
  have at: "get_opt bytes p = Some 0" using stop by (auto simp: map_le_def dom_def)
  obtain k where k: "n = Suc k" using stop(3) by (cases n) auto
  show ?case unfolding k read_labels.simps at option.case by (simp split: option.split)
next
  case (label F p b l ls c e)
  have g: "F q = Some x \<Longrightarrow> get_opt bytes q = Some x" for q x using label.prems(1) by (auto simp: map_le_def dom_def)
  obtain k where k: "n = Suc k" "c \<le> k" using label.prems(2) by (cases n) auto
  have at: "\<forall>i < length l. p + 1 + i < length bytes \<and> bytes ! (p + 1 + i) = l ! i"
    using label.hyps(5) g by auto
  have pos: "0 < length l" using label.hyps(2,4) by (cases l) (auto simp: unat_eq_0)
  then have len: "p + 1 + length l \<le> length bytes" using at by (metis Suc_leI Suc_pred add_Suc_right lessI)
  have "take (length l) (drop (p + 1) bytes) = l"
    using at len by (intro nth_equalityI) auto
  then have slice: "slice_opt bytes (p + 1) (p + 1 + unat b) = Some l"
    using len label.hyps(4) by (simp add: slice_opt_def)
  show ?case
    unfolding k(1) read_labels.simps g [OF label.hyps(1)] option.case slice
    using label.IH [OF label.prems(1) k(2)] label.hyps(2,3,4) by simp
next
  case (jump F p b lo ls c e)
  have g: "F q = Some x \<Longrightarrow> get_opt bytes q = Some x" for q x using jump.prems(1) by (auto simp: map_le_def dom_def)
  obtain k where k: "n = Suc k" "c \<le> k" using jump.prems(2) by (cases n) auto
  show ?case
    unfolding k(1) read_labels.simps g [OF jump.hyps(1)] g [OF jump.hyps(3)] option.case
    using jump.IH [OF jump.prems(1) k(2)] jump.hyps(2) by (simp split: option.split)
qed

lemma read_name_ok:
  assumes "reads F p ls c e" "F \<subseteq>\<^sub>m get_opt bytes" "c \<le> 128"
  shows "read_name bytes p = Some (join ''.'' (map escape_label ls) @ ''.'', e)"
  using read_labels_ok [OF assms, of "[]" None] by (simp add: read_name_def)

subsection \<open>Labels that are written as they are\<close>

definition simple_char :: "char \<Rightarrow> bool" where
  "simple_char c \<longleftrightarrow> 0x21 \<le> byte_val c \<and> byte_val c \<le> 0x7E \<and> c \<notin> set ''. @;()''
     \<and> c \<notin> {CHR 0x22, CHR 0x27, CHR 0x5C}"

definition simple_label :: "string \<Rightarrow> bool" where
  "simple_label l \<longleftrightarrow> l \<noteq> [] \<and> length l \<le> 63 \<and> list_all simple_char l"

lemma escape_simple: "list_all simple_char l \<Longrightarrow> escape_label (str_bytes l) = l"
proof (induction l)
  case (Cons c l)
  have "unat (of_nat (byte_val c) :: byte) = byte_val c"
    using Cons.prems by (simp add: simple_char_def unat_of_nat)
  moreover have "char_of (byte_val c) = c" by (simp add: byte_val_def)
  ultimately have "escape_byte (of_nat (byte_val c)) = [c]"
    using Cons.prems unfolding escape_byte_def Let_def simple_char_def by (simp add: word_le_nat_alt)
  with Cons show ?case by (simp add: escape_label_def str_bytes_def)
qed (simp add: escape_label_def str_bytes_def)

subsection \<open>The table of suffixes\<close>

definition lowered :: "string list \<Rightarrow> string list" where
  "lowered ls = map to_ascii_lowercase ls"

definition key :: "string list \<Rightarrow> string" where
  "key ls = to_ascii_lowercase (join ''.'' ls)"

lemma key_join: "key ls = join ''.'' (lowered ls)"
proof -
  have dot: "to_ascii_lower (CHR ''.'') = CHR ''.''" by (simp add: to_ascii_lower_def byte_val_def)
  show ?thesis
    by (induction "''.''" ls rule: join.induct)
      (simp_all add: key_def lowered_def to_ascii_lowercase_def dot)
qed

lemma key_Cons: "l \<noteq> [] \<Longrightarrow> length (key ls) < length (key (l # ls))"
  by (cases ls) (simp_all add: key_def to_ascii_lowercase_def)

lemma lowered_no_dot:
  assumes "list_all simple_label ls" "x \<in> set (lowered ls)"
  shows "CHR ''.'' \<notin> set x"
proof
  assume "CHR ''.'' \<in> set x"
  then obtain l c where l: "l \<in> set ls" "c \<in> set l" "to_ascii_lower c = CHR ''.''"
    using assms(2) by (auto simp: lowered_def to_ascii_lowercase_def)
  have "to_ascii_lower c = c"
  proof (rule ccontr)
    assume "to_ascii_lower c \<noteq> c"
    then have u: "65 \<le> byte_val c" "byte_val c \<le> 90" "to_ascii_lower c = char_of (byte_val c + 32)"
      by (auto simp: to_ascii_lower_def split: if_splits)
    then have "byte_val (to_ascii_lower c) = byte_val c + 32" by (simp add: byte_val_def)
    with u(1) l(3) show False by (simp add: byte_val_def)
  qed
  then have "c = CHR ''.''" using l(3) by simp
  with l assms(1) show False unfolding list_all_iff simple_label_def simple_char_def by auto
qed

lemma key_inj:
  assumes "key ks = key ls" "list_all simple_label ks" "list_all simple_label ls" "ks \<noteq> []" "ls \<noteq> []"
  shows "lowered ks = lowered ls"
proof -
  have "split_on (CHR ''.'') (key xs) = lowered xs" if "list_all simple_label xs" "xs \<noteq> []" for xs
    unfolding key_join using that lowered_no_dot [OF that(1)] by (intro split_on_join) (auto simp: lowered_def)
  from this [OF assms(2,4)] this [OF assms(3,5)] assms(1) show ?thesis by simp
qed

definition good :: "settled \<Rightarrow> string \<Rightarrow> u16 \<Rightarrow> bool" where
  "good F s p \<longleftrightarrow> unat p < 0x3FFF \<and> (\<exists>ls c e. ls \<noteq> [] \<and> key ls = s \<and> list_all simple_label ls
     \<and> reads F (unat p) (map str_bytes ls) c e \<and> c \<le> 2 * length ls)"

lemma goodI:
  "unat p < 0x3FFF \<Longrightarrow> ls \<noteq> [] \<Longrightarrow> key ls = s \<Longrightarrow> list_all simple_label ls \<Longrightarrow>
    reads F (unat p) (map str_bytes ls) c e \<Longrightarrow> c \<le> 2 * length ls \<Longrightarrow> good F s p"
  unfolding good_def by blast

lemma good_mono: "good F s p \<Longrightarrow> F \<subseteq>\<^sub>m G \<Longrightarrow> good G s p"
  unfolding good_def using reads_mono by blast

text \<open>The bytes written from \<open>a\<close> on are settled.\<close>

definition settle :: "settled \<Rightarrow> nat \<Rightarrow> byte list \<Rightarrow> settled" where
  "settle F a out p = (if a \<le> p \<and> p < length out then Some (out ! p) else F p)"

lemma settle_more:
  assumes "F \<subseteq>\<^sub>m get_opt out"
  shows "F \<subseteq>\<^sub>m settle F (length out) out'" "settle F (length out) (out @ x) \<subseteq>\<^sub>m get_opt (out @ x)"
proof -
  have d: "F p = Some b \<Longrightarrow> p < length out \<and> out ! p = b" for p b
    using assms by (auto simp: map_le_def dom_def)
  show "F \<subseteq>\<^sub>m settle F (length out) out'" using d by (fastforce simp: map_le_def settle_def)
  show "settle F (length out) (out @ x) \<subseteq>\<^sub>m get_opt (out @ x)"
    using d by (fastforce simp: map_le_def settle_def nth_append get_opt_def dom_def split: if_splits)
qed

lemma settle_settle:
  "settle (settle F (length a) (a @ b)) (length (a @ b)) (a @ b @ c) = settle F (length a) (a @ b @ c)"
  by (auto simp: settle_def fun_eq_iff nth_append)

definition names_good :: "settled \<Rightarrow> nat \<Rightarrow> dns_writer \<Rightarrow> bool" where
  "names_good F n w \<longleftrightarrow>
     (\<forall>names s p. dw_names w = Some names \<longrightarrow> names s = Some p \<longrightarrow> length s \<le> n \<longrightarrow> good F s p)"

lemma names_goodD: "names_good F n w \<Longrightarrow> dw_names w = Some names \<Longrightarrow> names s = Some p \<Longrightarrow> length s \<le> n \<Longrightarrow> good F s p"
  unfolding names_good_def by blast

lemma names_good_mono: "names_good F n w \<Longrightarrow> F \<subseteq>\<^sub>m G \<Longrightarrow> m \<le> n \<Longrightarrow> dw_names v = dw_names w \<Longrightarrow> names_good G m v"
  unfolding names_good_def using good_mono by (metis order_trans)

lemma emit_simps [simp]:
  "dw_out (emit bs w) = dw_out w @ bs" "dw_names (emit bs w) = dw_names w"
  by (simp_all add: emit_def)

lemma remember_out [simp]: "dw_out (remember s w) = dw_out w" "dw_names (remember s w) = None \<longleftrightarrow> dw_names w = None"
  by (simp_all add: remember_def split: option.split)

lemma remember_names:
  assumes "dw_names (remember s w) = Some names" "names k = Some p"
  shows "(\<exists>n0. dw_names w = Some n0 \<and> n0 k = Some p)
    \<or> k = s \<and> unat p = length (dw_out w) \<and> length (dw_out w) < 0x3FFF"
proof -
  have u: "unat (of_nat n :: u16) = n" if "n < 65536" for n using that by (simp add: unat_of_nat)
  have "n < 0x3FFF" if "n < 65536" "(of_nat n :: u16) < 0x3FFF" for n
    using that(2) u [OF that(1)] by (simp add: word_less_nat_alt)
  then show ?thesis
    using assms u unfolding remember_def by (auto split: option.splits if_splits)
qed

lemma label_length_byte:
  assumes "n < 64" "0 < n"
  shows "unat (of_nat n :: byte) = n" "(of_nat n :: byte) \<noteq> 0" "(of_nat n :: byte) AND 0xC0 \<noteq> 0xC0"
proof -
  show u: "unat (of_nat n :: byte) = n" using assms by (simp add: unat_of_nat)
  then show "(of_nat n :: byte) \<noteq> 0" using assms(2) by (metis unat_0 less_irrefl)
  show "(of_nat n :: byte) AND 0xC0 \<noteq> 0xC0"
  proof
    assume "(of_nat n :: byte) AND 0xC0 = 0xC0"
    then have "bit ((of_nat n :: byte) AND 0xC0) 7 = bit (0xC0 :: byte) 7" by simp
    then have "bit (of_nat n :: byte) 7" by (simp add: bit_simps masks)
    then have "bit (unat (of_nat n :: byte)) 7" unfolding bit_unsigned_iff by simp
    then have "bit n 7" unfolding u .
    then have "n div 128 \<noteq> 0" by (intro notI) (simp add: bit_iff_odd)
    with assms(1) show False by simp
  qed
qed

lemma settle_at: "a \<le> p \<Longrightarrow> p < length out \<Longrightarrow> settle F a out p = Some (out ! p)"
  by (simp add: settle_def)

lemma reads_label:
  assumes "simple_label l" "F p = Some (of_nat (length l))"
    "\<forall>i < length l. F (p + 1 + i) = Some (str_bytes l ! i)" "reads F (p + 1 + length l) ls c e"
  shows "reads F p (str_bytes l # ls) (Suc c) e"
  using assms label_length_byte [of "length l"]
  by (intro reads.label) (auto simp: simple_label_def)

lemma label_bytes_simple: "simple_label l \<Longrightarrow> label_bytes l = of_nat (length l) # str_bytes l"
  by (simp add: label_bytes_def simple_label_def Let_def min_absorb1)

lemma write_labels_grows: "\<exists>x. dw_out (write_labels b ls w) = dw_out w @ x \<and> x \<noteq> []"
proof (induction ls arbitrary: w)
  case (Cons l ls)
  show ?case
  proof (cases "if b then (case dw_names w of None \<Rightarrow> None | Some names \<Rightarrow> names (to_ascii_lowercase (join ''.'' (l # ls)))) else None")
    case None
    then show ?thesis using Cons [of "emit (label_bytes l) (remember (to_ascii_lowercase (join ''.'' (l # ls))) w)"]
      by (auto simp: Let_def)
  next
    case (Some p)
    have "be16 (0xC000 OR p) \<noteq> []" by (simp add: be16_def)
    with Some show ?thesis by (simp add: Let_def)
  qed
qed simp

text \<open>Writing a name keeps the table true, although suffixes are entered before they are written.\<close>

lemma write_labels_ok:
  assumes "list_all simple_label ls" "F \<subseteq>\<^sub>m get_opt (dw_out w)" "names_good F (length (key ls)) w"
    and "w' = write_labels b ls w" "G = settle F (length (dw_out w)) (dw_out w')"
  shows "\<exists>ks c. list_all simple_label ks \<and> lowered ks = lowered ls \<and> (b \<and> dw_names w \<noteq> None \<or> ks = ls)
      \<and> reads G (length (dw_out w)) (map str_bytes ks) c (length (dw_out w')) \<and> c \<le> 2 * length ls + 1
      \<and> (dw_names w' = None \<longleftrightarrow> dw_names w = None) \<and> names_good G (length (key ls)) w'
      \<and> (\<forall>names s p. dw_names w' = Some names \<longrightarrow> names s = Some p \<longrightarrow> length (key ls) < length s \<longrightarrow>
           (\<exists>n0. dw_names w = Some n0 \<and> n0 s = Some p))"
  using assms
proof (induction ls arbitrary: w F w' G)
  case Nil
  have w': "dw_out w' = dw_out w @ [0]" "dw_names w' = dw_names w" using Nil.prems(4) by simp_all
  have "G (length (dw_out w)) = Some 0" by (simp add: Nil.prems(5) w' settle_def)
  then have "reads G (length (dw_out w)) [] 1 (length (dw_out w) + 1)" by (rule reads.stop)
  moreover have "names_good G (length (key [])) w'"
    using names_good_mono [OF Nil.prems(3) settle_more(1) [OF Nil.prems(2)] order_refl w'(2)] Nil.prems(5) by simp
  ultimately show ?case by (intro exI [of _ "[]"] exI [of _ 1]) (auto simp: w')
next
  case (Cons l ls)
  let ?n = "length (dw_out w)" and ?s = "key (l # ls)"
  have l: "simple_label l" "list_all simple_label ls" using Cons.prems(1) by simp_all
  then have "l \<noteq> []" by (simp add: simple_label_def)
  note l = l this
  obtain x where x: "dw_out w' = dw_out w @ x" using write_labels_grows [of b "l # ls" w] Cons.prems(4) by auto
  have FG: "F \<subseteq>\<^sub>m G" using settle_more(1) [OF Cons.prems(2)] Cons.prems(5) by simp
  show ?case
  proof (cases "if b then (case dw_names w of None \<Rightarrow> None | Some names \<Rightarrow> names ?s) else None")
    case (Some p)
    then obtain names where n: "b" "dw_names w = Some names" "names ?s = Some p" by (auto split: if_splits option.splits)
    have w': "dw_out w' = dw_out w @ be16 (0xC000 OR p)" "dw_names w' = dw_names w"
      using Cons.prems(4) n by (simp_all add: key_def)
    obtain ks c e where ks: "unat p < 0x3FFF" "ks \<noteq> []" "key ks = ?s" "list_all simple_label ks"
      "reads F (unat p) (map str_bytes ks) c e" "c \<le> 2 * length ks"
      using names_goodD [OF Cons.prems(3) n(2,3)] unfolding good_def by auto
    have low: "lowered ks = lowered (l # ls)" by (rule key_inj [OF ks(3,4) Cons.prems(1) ks(2)]) simp
    then have len: "length ks = length (l # ls)" unfolding lowered_def by (metis length_map)
    obtain hi lo where hl: "be16 (0xC000 OR p) = [hi, lo]" "hi AND 0xC0 = 0xC0" "push_bit 8 (unat (hi AND 0x3F)) OR unat lo = unat p"
      using pointer_bytes [OF ks(1)] by metis
    have at: "G ?n = Some hi" "G (?n + 1) = Some lo"
      unfolding Cons.prems(5) w'(1) hl(1) by (simp_all add: settle_def nth_append)
    have "reads G (push_bit 8 (unat (hi AND 0x3F)) OR unat lo) (map str_bytes ks) c e"
      unfolding hl(3) by (rule reads_mono [OF ks(5) FG])
    then have "reads G ?n (map str_bytes ks) (Suc c) (?n + 2)"
      by (rule reads.jump [OF at(1) hl(2) at(2)])
    moreover have "names_good G (length ?s) w'" by (rule names_good_mono [OF Cons.prems(3) FG order_refl w'(2)])
    ultimately show ?thesis
      using ks(4,6) low len n(1,2) by (intro exI [of _ ks] exI [of _ "Suc c"]) (auto simp: w')
  next
    case None
    define v where "v = emit (label_bytes l) (remember ?s w)"
    define H where "H = settle F ?n (dw_out v)"
    have w': "w' = write_labels b ls v"
      unfolding Cons.prems(4) write_labels.simps Let_def None [unfolded key_def] option.case v_def key_def ..
    have v: "dw_out v = dw_out w @ label_bytes l" by (simp add: v_def)
    have FH: "F \<subseteq>\<^sub>m H" unfolding H_def by (rule settle_more(1) [OF Cons.prems(2)])
    have H: "H \<subseteq>\<^sub>m get_opt (dw_out v)" unfolding H_def v by (rule settle_more(2) [OF Cons.prems(2)])
    have short: "length (key ls) < length ?s" using key_Cons [OF l(3)] .
    have old: "(\<exists>n0. dw_names w = Some n0 \<and> n0 k = Some p) \<or> k = ?s \<and> unat p = ?n \<and> ?n < 0x3FFF"
      if "dw_names v = Some names" "names k = Some p" for names k p
      using remember_names [of ?s w names k p] that by (simp add: v_def)
    have "names_good H (length (key ls)) v"
      unfolding names_good_def
    proof (intro allI impI)
      fix names k p assume h: "dw_names v = Some names" "names k = Some p" "length k \<le> length (key ls)"
      then obtain n0 where "dw_names w = Some n0" "n0 k = Some p" using old [OF h(1,2)] short by auto
      then have "good F k p" using names_goodD [OF Cons.prems(3)] h(3) short by auto
      then show "good H k p" using FH by (rule good_mono)
    qed
    from Cons.IH [OF l(2) H this w' refl] obtain ks c where
      ks: "list_all simple_label ks" "lowered ks = lowered ls" "b \<and> dw_names v \<noteq> None \<or> ks = ls"
      "reads (settle H (length (dw_out v)) (dw_out w')) (length (dw_out v)) (map str_bytes ks) c (length (dw_out w'))"
      "c \<le> 2 * length ls + 1" "dw_names w' = None \<longleftrightarrow> dw_names v = None"
      "names_good (settle H (length (dw_out v)) (dw_out w')) (length (key ls)) w'"
      "\<forall>names s p. dw_names w' = Some names \<longrightarrow> names s = Some p \<longrightarrow> length (key ls) < length s \<longrightarrow>
           (\<exists>n0. dw_names v = Some n0 \<and> n0 s = Some p)" by (elim exE conjE) (rule that; assumption)
    obtain y where y: "dw_out w' = dw_out v @ y" using write_labels_grows [of b ls v] w' by auto
    have G: "settle H (length (dw_out v)) (dw_out w') = G"
      unfolding Cons.prems(5) H_def y v append_assoc by (rule settle_settle)
    have none: "dw_names v = None \<longleftrightarrow> dw_names w = None" by (simp add: v_def)
    have at: "G (?n + i) = Some (label_bytes l ! i)" if "i < length (label_bytes l)" for i
      using that unfolding Cons.prems(5) y v by (simp add: settle_def nth_append)
    have "reads G ?n (map str_bytes (l # ks)) (Suc c) (length (dw_out w'))"
    proof -
      have "reads G (?n + 1 + length l) (map str_bytes ks) c (length (dw_out w'))"
        using ks(4) unfolding G by (simp add: v label_bytes_simple [OF l(1)])
      moreover have "G ?n = Some (of_nat (length l))" using at [of 0] by (simp add: label_bytes_simple [OF l(1)])
      moreover have "\<forall>i < length l. G (?n + 1 + i) = Some (str_bytes l ! i)"
        using at by (auto simp: label_bytes_simple [OF l(1)]) (metis Suc_less_eq add_Suc_right nth_Cons_Suc)
      ultimately show ?thesis using reads_label [OF l(1)] by simp
    qed
    note this_name = this
    have low: "lowered (l # ks) = lowered (l # ls)" using ks(2) by (simp add: lowered_def)
    have len: "length ks = length ls" using ks(2) unfolding lowered_def by (metis length_map)
    have all: "list_all simple_label (l # ks)" using l(1) ks(1) by simp
    have suffixes: "(length k \<le> length ?s \<longrightarrow> good G k p) \<and> (length ?s < length k \<longrightarrow> (\<exists>n0. dw_names w = Some n0 \<and> n0 k = Some p))"
      if h: "dw_names w' = Some names" "names k = Some p" for names k p
    proof (cases "length k \<le> length (key ls)")
      case True
      then show ?thesis using names_goodD [OF ks(7) h] short by (simp add: G)
    next
      case False
      then obtain n1 where "dw_names v = Some n1" "n1 k = Some p" using ks(8) h by (meson not_le)
      from old [OF this] show ?thesis
      proof
        assume "\<exists>n0. dw_names w = Some n0 \<and> n0 k = Some p"
        then show ?thesis using names_goodD [OF Cons.prems(3)] good_mono [OF _ FG] by blast
      next
        assume p: "k = ?s \<and> unat p = ?n \<and> ?n < 0x3FFF"
        have "key (l # ks) = ?s" unfolding key_join low ..
        moreover have "unat p < 0x3FFF" "Suc c \<le> 2 * length (l # ks)" using p ks(5) len by simp_all
        moreover have "reads G (unat p) (map str_bytes (l # ks)) (Suc c) (length (dw_out w'))" using p this_name by simp
        ultimately have "good G ?s p" using goodI [OF _ _ _ all] by blast
        then show ?thesis using p by simp
      qed
    qed
    show ?thesis
      using all low ks(3,5,6) this_name none suffixes unfolding names_good_def
      by (intro exI [of _ "l # ks"] exI [of _ "Suc c"]) auto
  qed
qed

subsection \<open>Names written and read\<close>

definition canon :: "string \<Rightarrow> string" where
  "canon name = join ''.'' (name_labels name) @ ''.''"

definition name_fine :: "string \<Rightarrow> bool" where
  "name_fine name \<longleftrightarrow> list_all simple_label (name_labels name) \<and> length (name_labels name) \<le> 63"

text \<open>With shared suffixes the letters may come back in the case in which they were first written.\<close>

definition same_name :: "bool \<Rightarrow> string \<Rightarrow> string \<Rightarrow> bool" where
  "same_name shared name x \<longleftrightarrow>
     to_ascii_lowercase x = to_ascii_lowercase (canon name) \<and> (\<not> shared \<longrightarrow> x = canon name)"

definition all_good :: "settled \<Rightarrow> dns_writer \<Rightarrow> bool" where
  "all_good F w \<longleftrightarrow> (\<forall>names s p. dw_names w = Some names \<longrightarrow> names s = Some p \<longrightarrow> good F s p)"

lemma all_good_mono: "all_good F w \<Longrightarrow> F \<subseteq>\<^sub>m G \<Longrightarrow> dw_names v = dw_names w \<Longrightarrow> all_good G v"
  unfolding all_good_def using good_mono by metis

lemma escape_labels: "list_all simple_label ks \<Longrightarrow> map escape_label (map str_bytes ks) = ks"
  by (induction ks) (simp_all add: simple_label_def escape_simple)

lemma lowercase_append: "to_ascii_lowercase (a @ b) = to_ascii_lowercase a @ to_ascii_lowercase b"
  by (simp add: to_ascii_lowercase_def)

lemma write_name_ok:
  assumes "name_fine name" "F \<subseteq>\<^sub>m get_opt (dw_out w)" "all_good F w"
  shows "\<exists>x. dw_out (write_name name b w) = dw_out w @ x \<and> x \<noteq> []"
    "settle F (length (dw_out w)) (dw_out (write_name name b w)) \<subseteq>\<^sub>m get_opt (dw_out (write_name name b w))"
    "all_good (settle F (length (dw_out w)) (dw_out (write_name name b w))) (write_name name b w)"
    "dw_names (write_name name b w) = None \<longleftrightarrow> dw_names w = None"
    "\<exists>x. same_name (dw_names w \<noteq> None) name x \<and>
       (\<forall>bytes. settle F (length (dw_out w)) (dw_out (write_name name b w)) \<subseteq>\<^sub>m get_opt bytes \<longrightarrow>
          read_name bytes (length (dw_out w)) = Some (x, length (dw_out (write_name name b w))))"
proof -
  let ?ls = "name_labels name" and ?w' = "write_name name b w"
  let ?G = "settle F (length (dw_out w)) (dw_out ?w')"
  show grow: "\<exists>x. dw_out ?w' = dw_out w @ x \<and> x \<noteq> []"
    unfolding write_name_def by (rule write_labels_grows)
  then obtain x where x: "dw_out ?w' = dw_out w @ x" by blast
  show "?G \<subseteq>\<^sub>m get_opt (dw_out ?w')" unfolding x by (rule settle_more(2) [OF assms(2)])
  have FG: "F \<subseteq>\<^sub>m ?G" by (rule settle_more(1) [OF assms(2)])
  have ng: "names_good F n w" for n using assms(3) unfolding all_good_def names_good_def by blast
  have ls: "list_all simple_label ?ls" "length ?ls \<le> 63" using assms(1) by (simp_all add: name_fine_def)
  from write_labels_ok [OF ls(1) assms(2) ng refl refl, of b, folded write_name_def]
  obtain ks c where ks: "list_all simple_label ks" "lowered ks = lowered ?ls" "b \<and> dw_names w \<noteq> None \<or> ks = ?ls"
    "reads ?G (length (dw_out w)) (map str_bytes ks) c (length (dw_out ?w'))" "c \<le> 2 * length ?ls + 1"
    "dw_names ?w' = None \<longleftrightarrow> dw_names w = None" "names_good ?G (length (key ?ls)) ?w'"
    "\<forall>names s p. dw_names ?w' = Some names \<longrightarrow> names s = Some p \<longrightarrow> length (key ?ls) < length s \<longrightarrow>
       (\<exists>n0. dw_names w = Some n0 \<and> n0 s = Some p)"
    by (elim exE conjE) (rule that; assumption)
  show "dw_names ?w' = None \<longleftrightarrow> dw_names w = None" by (rule ks(6))
  show "all_good ?G ?w'"
    unfolding all_good_def
  proof (intro allI impI)
    fix names s p assume h: "dw_names ?w' = Some names" "names s = Some p"
    show "good ?G s p"
    proof (cases "length s \<le> length (key ?ls)")
      case True
      then show ?thesis using names_goodD [OF ks(7) h] by blast
    next
      case False
      then obtain n0 where "dw_names w = Some n0" "n0 s = Some p" using ks(8) h by (meson not_le)
      then show ?thesis using assms(3) good_mono [OF _ FG] unfolding all_good_def by blast
    qed
  qed
  let ?x = "join ''.'' ks @ ''.''"
  have "same_name (dw_names w \<noteq> None) name ?x"
    using ks(2,3) key_join [of ks] key_join [of ?ls] by (auto simp: same_name_def canon_def lowercase_append key_def)
  moreover have "read_name bytes (length (dw_out w)) = Some (?x, length (dw_out ?w'))" if "?G \<subseteq>\<^sub>m get_opt bytes" for bytes
    using read_name_ok [OF ks(4) that] ks(5) ls(2) escape_labels [OF ks(1)] by simp
  ultimately show "\<exists>x. same_name (dw_names w \<noteq> None) name x \<and>
      (\<forall>bytes. ?G \<subseteq>\<^sub>m get_opt bytes \<longrightarrow> read_name bytes (length (dw_out w)) = Some (x, length (dw_out ?w')))" by blast
qed

subsection \<open>Records\<close>

lemma prefix_le: "get_opt (a @ b) \<subseteq>\<^sub>m get_opt bytes \<Longrightarrow> get_opt a \<subseteq>\<^sub>m get_opt bytes"
  by (auto simp: map_le_def dom_def get_opt_def nth_append split: if_splits)

lemma settled_length: "get_opt out \<subseteq>\<^sub>m get_opt bytes \<Longrightarrow> length out \<le> length bytes"
proof (rule ccontr)
  assume "get_opt out \<subseteq>\<^sub>m get_opt bytes" "\<not> length out \<le> length bytes"
  then have "length bytes \<in> dom (get_opt out)" by (simp add: get_opt_def dom_def)
  with \<open>get_opt out \<subseteq>\<^sub>m get_opt bytes\<close> have "get_opt bytes (length bytes) = get_opt out (length bytes)"
    by (auto simp: map_le_def)
  with \<open>length bytes \<in> dom (get_opt out)\<close> show False by (auto simp: get_opt_def split: if_splits)
qed

lemma field_after:
  assumes "get_opt (a @ be16 v @ b) \<subseteq>\<^sub>m get_opt bytes"
  shows "read_field bytes (length a) = Some v"
proof -
  obtain x y where v: "be16 v = [x, y]" by (simp add: be16_def)
  have "get_opt (a @ be16 v @ b) (length a) = Some x" "get_opt (a @ be16 v @ b) (length a + 1) = Some y"
    by (simp_all add: v nth_append)
  then have at: "get_opt bytes (length a) = Some x" "get_opt bytes (length a + 1) = Some y"
    using assms unfolding map_le_def by (metis domI)+
  show ?thesis unfolding read_field_def at prod.case option.case be16_from [OF v] ..
qed

definition data_fine :: "dns_data \<Rightarrow> bool" where
  "data_fine d = (case d of Ptr t \<Rightarrow> name_fine t | Srv _ t \<Rightarrow> name_fine t | _ \<Rightarrow> True)"

lemma get_opt_prefix: "get_opt a \<subseteq>\<^sub>m get_opt (a @ b)"
  by (auto simp: map_le_def dom_def get_opt_def nth_append)

lemma write_texts: "\<exists>x. dw_out (foldl (\<lambda>w s. emit (text_bytes s) w) w ss) = dw_out w @ x
    \<and> dw_names (foldl (\<lambda>w s. emit (text_bytes s) w) w ss) = dw_names w"
proof (induction ss arbitrary: w)
  case (Cons s ss)
  from Cons [of "emit (text_bytes s) w"] show ?case by auto
qed simp

lemma settle_later:
  assumes "F \<subseteq>\<^sub>m get_opt out" "length out \<le> b"
  shows "settle F b out' \<subseteq>\<^sub>m settle F (length out) out'"
proof -
  have d: "F p = Some y \<Longrightarrow> p < length out" for p y using assms(1) by (auto simp: map_le_def dom_def)
  show ?thesis using assms(2) d by (fastforce simp: map_le_def settle_def dom_def split: if_splits)
qed

lemma write_data_ok:
  assumes "data_fine d" "F \<subseteq>\<^sub>m get_opt (dw_out w)" "all_good F w"
  shows "\<exists>x. dw_out (write_data d w) = dw_out w @ x"
    "all_good (settle F (length (dw_out w)) (dw_out (write_data d w))) (write_data d w)"
    "dw_names (write_data d w) = None \<longleftrightarrow> dw_names w = None"
    "\<And>t. d = Ptr t \<Longrightarrow> \<exists>x. same_name (dw_names w \<noteq> None) t x \<and>
       (\<forall>bytes. settle F (length (dw_out w)) (dw_out (write_data d w)) \<subseteq>\<^sub>m get_opt bytes \<longrightarrow>
          (\<exists>e. read_name bytes (length (dw_out w)) = Some (x, e)))"
proof -
  let ?G = "settle F (length (dw_out w)) (dw_out (write_data d w))"
  have FG: "F \<subseteq>\<^sub>m ?G" by (rule settle_more(1) [OF assms(2)])
  have "(\<exists>x. dw_out (write_data d w) = dw_out w @ x) \<and> all_good ?G (write_data d w)
      \<and> (dw_names (write_data d w) = None \<longleftrightarrow> dw_names w = None)"
  proof (cases d)
    case (Ptr t)
    then show ?thesis
      using write_name_ok [of t F w True] assms by (auto simp: write_data_def data_fine_def)
  next
    case (Srv port t)
    let ?v = "emit (be16 port) (emit [0, 0, 0, 0] w)"
    have v: "F \<subseteq>\<^sub>m get_opt (dw_out ?v)" "all_good F ?v"
      using map_le_trans [OF assms(2) get_opt_prefix] all_good_mono [OF assms(3) map_le_refl] by simp_all
    note n = write_name_ok [OF _ v, of t False]
    have d: "write_data d w = write_name t False ?v" by (simp add: Srv write_data_def)
    have "settle F (length (dw_out ?v)) (dw_out (write_data d w)) \<subseteq>\<^sub>m ?G"
      by (rule settle_later [OF assms(2)]) simp
    then show ?thesis
      using n assms(1) all_good_mono [OF n(3)] unfolding d by (auto simp: Srv data_fine_def)
  next
    case (Txt ss)
    then show ?thesis
      using write_texts [of w ss] all_good_mono [OF assms(3) FG] by (auto simp: write_data_def)
  next
    case (AddrA ip)
    then show ?thesis using all_good_mono [OF assms(3) FG] by (simp add: write_data_def)
  next
    case (AddrAaaa ip)
    then show ?thesis using all_good_mono [OF assms(3) FG] by (simp add: write_data_def)
  qed
  then show "\<exists>x. dw_out (write_data d w) = dw_out w @ x" "all_good ?G (write_data d w)"
    "dw_names (write_data d w) = None \<longleftrightarrow> dw_names w = None" by blast+
  fix t assume "d = Ptr t"
  then show "\<exists>x. same_name (dw_names w \<noteq> None) t x \<and>
      (\<forall>bytes. ?G \<subseteq>\<^sub>m get_opt bytes \<longrightarrow> (\<exists>e. read_name bytes (length (dw_out w)) = Some (x, e)))"
    using write_name_ok(5) [of t F w True] assms by (auto simp: write_data_def data_fine_def)
qed

definition record_fine :: "dns_record \<Rightarrow> bool" where
  "record_fine r \<longleftrightarrow> name_fine (rr_name r) \<and> data_fine (rr_data r)"

text \<open>What a record reads back as: a pointer as it was, any other as a record not understood.\<close>

definition seen_record :: "bool \<Rightarrow> dns_record \<Rightarrow> dns_record \<Rightarrow> bool" where
  "seen_record shared r q \<longleftrightarrow>
     (case rr_data r of
        Ptr t \<Rightarrow> same_name shared (rr_name r) (rr_name q) \<and> rr_class q = rr_class r \<and> rr_ttl q = rr_ttl r
          \<and> (\<exists>t'. rr_data q = Ptr t' \<and> same_name shared t t')
      | _ \<Rightarrow> q = record_unread)"

lemma kind_ptr: "record_kind r = TYPE_PTR \<longleftrightarrow> (\<exists>t. rr_data r = Ptr t)"
  by (cases "rr_data r")
    (simp_all add: record_kind_def TYPE_PTR_def TYPE_SRV_def TYPE_TXT_def TYPE_A_def TYPE_AAAA_def)

lemma count16_fits: "n < 65536 \<Longrightarrow> unat (count16 n) = n"
  by (simp add: count16_def unat_of_nat)

lemma write_record_ok:
  assumes r: "record_fine r" and good: "all_good (get_opt (dw_out w)) w"
    and w': "w' = write_record r w" and small: "length (dw_out w') < 65536"
  shows "\<exists>x. dw_out w' = dw_out w @ x \<and> x \<noteq> []" "all_good (get_opt (dw_out w')) w'"
    "dw_names w' = None \<longleftrightarrow> dw_names w = None"
    "\<exists>q. seen_record (dw_names w \<noteq> None) r q \<and> (\<forall>bytes. get_opt (dw_out w') \<subseteq>\<^sub>m get_opt bytes \<longrightarrow>
       (\<exists>k. read_record bytes (length (dw_out w)) = Some (k, length (dw_out w'))
          \<and> (case k of None \<Rightarrow> record_unread | Some k \<Rightarrow> k) = q))"
proof -
  define w1 where "w1 = write_name (rr_name r) True w"
  define hd1 where "hd1 = be16 (record_kind r) @ be16 (rr_class r) @ be32 (rr_ttl r)"
  define w2 where "w2 = emit (be32 (rr_ttl r)) (emit (be16 (rr_class r)) (emit (be16 (record_kind r)) w1))"
  define w3 where "w3 = emit [0, 0] w2"
  define w4 where "w4 = write_data (rr_data r) w3"
  note n = write_name_ok [OF _ map_le_refl good, of "rr_name r" True, folded w1_def]
  have fine: "name_fine (rr_name r)" "data_fine (rr_data r)" using r by (simp_all add: record_fine_def)
  obtain x1 where x1: "dw_out w1 = dw_out w @ x1" "x1 \<noteq> []" using n(1) fine(1) by blast
  have o2: "dw_out w2 = dw_out w1 @ hd1" "dw_names w2 = dw_names w1" by (simp_all add: w2_def hd1_def)
  have o3: "dw_out w3 = dw_out w2 @ [0, 0]" "dw_names w3 = dw_names w2" by (simp_all add: w3_def)
  let ?F = "get_opt (dw_out w2)"
  have sub12: "get_opt (dw_out w1) \<subseteq>\<^sub>m ?F" unfolding o2(1) by (rule get_opt_prefix)
  have settled2: "settle (get_opt (dw_out w)) (length (dw_out w)) (dw_out w1) \<subseteq>\<^sub>m ?F"
    using n(2) [OF fine(1)] sub12 by (rule map_le_trans)
  have good3: "all_good ?F w3" by (rule all_good_mono [OF n(3) [OF fine(1)] settled2]) (simp add: o2 o3)
  have sub23: "?F \<subseteq>\<^sub>m get_opt (dw_out w3)" unfolding o3(1) by (rule get_opt_prefix)
  note d = write_data_ok [OF fine(2) sub23 good3, folded w4_def]
  obtain x4 where x4: "dw_out w4 = dw_out w3 @ x4" using d(1) by blast
  let ?G = "settle ?F (length (dw_out w3)) (dw_out w4)" and ?n = "count16 (length x4)"
  have eq: "w' = patch16 (length (dw_out w2)) (count16 (length (dw_out w4) - length (dw_out w2) - 2)) w4"
    unfolding w' write_record_def Let_def w4_def w3_def w2_def w1_def ..
  have o': "dw_out w' = dw_out w2 @ be16 ?n @ x4" "dw_names w' = dw_names w4"
    by (simp_all add: eq patch16_def x4 o3)
  have all: "dw_out w' = dw_out w @ (x1 @ hd1 @ be16 ?n @ x4)" by (simp add: o' o2 x1)
  then show "\<exists>x. dw_out w' = dw_out w @ x \<and> x \<noteq> []" using x1(2) by blast
  have G: "?G \<subseteq>\<^sub>m get_opt (dw_out w')"
    unfolding x4 o3(1) o' by (auto simp: map_le_def dom_def settle_def nth_append get_opt_def split: if_splits)
  show "all_good (get_opt (dw_out w')) w'" by (rule all_good_mono [OF d(2) G o'(2)])
  show "dw_names w' = None \<longleftrightarrow> dw_names w = None"
    using d(3) n(4) [OF fine(1)] by (simp add: o'(2) o3(2) o2(2))
  have len: "unat ?n = length x4" using small by (intro count16_fits) (simp add: o')
  obtain nm where nm: "same_name (dw_names w \<noteq> None) (rr_name r) nm"
    "\<forall>bytes. settle (get_opt (dw_out w)) (length (dw_out w)) (dw_out w1) \<subseteq>\<^sub>m get_opt bytes \<longrightarrow>
       read_name bytes (length (dw_out w)) = Some (nm, length (dw_out w1))" using n(5) [OF fine(1)] by blast
  have named: "dw_names w3 \<noteq> None \<longleftrightarrow> dw_names w \<noteq> None" using n(4) [OF fine(1)] by (simp add: o3(2) o2(2))
  have read: "read_record bytes (length (dw_out w)) =
      Some (map_option (\<lambda>d. \<lparr>rr_name = nm, rr_class = rr_class r, rr_ttl = rr_ttl r, rr_data = d\<rparr>)
        (if record_kind r = TYPE_PTR then map_option (\<lambda>(t, _). Ptr t) (read_name bytes (length (dw_out w3))) else None),
        length (dw_out w'))"
    if b: "get_opt (dw_out w') \<subseteq>\<^sub>m get_opt bytes" for bytes
  proof -
    let ?p = "length (dw_out w1)"
    have "get_opt (dw_out w1) \<subseteq>\<^sub>m get_opt bytes"
      using prefix_le [of "dw_out w1" "hd1 @ be16 ?n @ x4"] b by (simp add: o' o2)
    then have name: "read_name bytes (length (dw_out w)) = Some (nm, ?p)"
      using nm(2) map_le_trans [OF n(2) [OF fine(1)]] by blast
    have out: "dw_out w' = dw_out w1 @ be16 (record_kind r) @ be16 (rr_class r) @ be16 (ucast (drop_bit 16 (rr_ttl r)))
        @ be16 (ucast (rr_ttl r)) @ be16 ?n @ x4" by (simp add: o' o2 hd1_def be32_halves)
    have f: "read_field bytes ?p = Some (record_kind r)" "read_field bytes (?p + 2) = Some (rr_class r)"
      "read_field bytes (?p + 4) = Some (ucast (drop_bit 16 (rr_ttl r)))" "read_field bytes (?p + 6) = Some (ucast (rr_ttl r))"
      "read_field bytes (?p + 8) = Some ?n"
      using field_after [of "dw_out w1" _ _ bytes]
        field_after [of "dw_out w1 @ be16 (record_kind r)" _ _ bytes]
        field_after [of "dw_out w1 @ be16 (record_kind r) @ be16 (rr_class r)" _ _ bytes]
        field_after [of "dw_out w1 @ be16 (record_kind r) @ be16 (rr_class r) @ be16 (ucast (drop_bit 16 (rr_ttl r)))" _ _ bytes]
        field_after [of "dw_out w1 @ be16 (record_kind r) @ be16 (rr_class r) @ be16 (ucast (drop_bit 16 (rr_ttl r))) @ be16 (ucast (rr_ttl r))" _ _ bytes]
        b unfolding out by simp_all
    have ends: "?p + 10 = length (dw_out w3)" "?p + 10 + unat ?n = length (dw_out w')"
      by (simp_all add: o3 o2 hd1_def o' len)
    obtain y where slice: "slice_opt bytes (length (dw_out w3)) (length (dw_out w')) = Some y"
      using settled_length [OF b] ends by (simp add: slice_opt_def)
    have sum: "length (dw_out w3) + unat ?n = length (dw_out w')" using ends by simp
    show ?thesis
      unfolding read_record_def name option.case prod.case map_option_all.simps f ends(1) sum Let_def
      by (simp add: slice read_ttl_halves Let_def ends(1) sum)
  qed
  show "\<exists>q. seen_record (dw_names w \<noteq> None) r q \<and> (\<forall>bytes. get_opt (dw_out w') \<subseteq>\<^sub>m get_opt bytes \<longrightarrow>
       (\<exists>k. read_record bytes (length (dw_out w)) = Some (k, length (dw_out w'))
          \<and> (case k of None \<Rightarrow> record_unread | Some k \<Rightarrow> k) = q))"
  proof (cases "\<exists>t. rr_data r = Ptr t")
    case True
    then obtain t where t: "rr_data r = Ptr t" by blast
    obtain t' where t': "same_name (dw_names w \<noteq> None) t t'"
      "\<forall>bytes. ?G \<subseteq>\<^sub>m get_opt bytes \<longrightarrow> (\<exists>e. read_name bytes (length (dw_out w3)) = Some (t', e))"
      using d(4) [OF t] unfolding named by blast
    let ?q = "\<lparr>rr_name = nm, rr_class = rr_class r, rr_ttl = rr_ttl r, rr_data = Ptr t'\<rparr>"
    have "seen_record (dw_names w \<noteq> None) r ?q" using nm(1) t'(1) by (simp add: seen_record_def t)
    moreover have "read_record bytes (length (dw_out w)) = Some (Some ?q, length (dw_out w'))"
      if b: "get_opt (dw_out w') \<subseteq>\<^sub>m get_opt bytes" for bytes
    proof -
      obtain e where "read_name bytes (length (dw_out w3)) = Some (t', e)" using t'(2) map_le_trans [OF G b] by blast
      then show ?thesis using read [OF b] True kind_ptr [of r] by simp
    qed
    ultimately show ?thesis by (intro exI [of _ ?q]) simp
  next
    case False
    then have "seen_record (dw_names w \<noteq> None) r record_unread" by (auto simp: seen_record_def split: dns_data.split)
    then show ?thesis using read False kind_ptr [of r] by (intro exI [of _ record_unread]) simp
  qed
qed

subsection \<open>Sections\<close>

text \<open>A section is a list of items written one after the other and read the same way.\<close>

fun read_many :: "(byte list \<Rightarrow> nat \<Rightarrow> ('b \<times> nat) option) \<Rightarrow> nat \<Rightarrow> byte list \<Rightarrow> nat \<Rightarrow> ('b list \<times> nat) option" where
  "read_many one 0 bytes offset = Some ([], offset)"
| "read_many one (Suc n) bytes offset =
     (case one bytes offset of
        None \<Rightarrow> None
      | Some (q, next) \<Rightarrow> map_option (\<lambda>(qs, e). (q # qs, e)) (read_many one n bytes next))"

definition written :: "(bool \<Rightarrow> 'q \<Rightarrow> bool) \<Rightarrow> (byte list \<Rightarrow> nat \<Rightarrow> ('q \<times> nat) option) \<Rightarrow> dns_writer \<Rightarrow> dns_writer \<Rightarrow> bool" where
  "written seen one w w' \<longleftrightarrow>
     (\<exists>x. dw_out w' = dw_out w @ x \<and> x \<noteq> []) \<and> all_good (get_opt (dw_out w')) w'
     \<and> (dw_names w' = None \<longleftrightarrow> dw_names w = None)
     \<and> (\<exists>q. seen (dw_names w \<noteq> None) q \<and> (\<forall>bytes. get_opt (dw_out w') \<subseteq>\<^sub>m get_opt bytes \<longrightarrow>
          one bytes (length (dw_out w)) = Some (q, length (dw_out w'))))"

locale section_codec =
  fixes put :: "'a \<Rightarrow> dns_writer \<Rightarrow> dns_writer"
    and one :: "byte list \<Rightarrow> nat \<Rightarrow> ('b \<times> nat) option"
    and fine :: "'a \<Rightarrow> bool"
    and seen :: "bool \<Rightarrow> 'a \<Rightarrow> 'b \<Rightarrow> bool"
  assumes put_grows: "length (dw_out w) \<le> length (dw_out (put r w))"
    and put_written: "fine r \<Longrightarrow> all_good (get_opt (dw_out w)) w \<Longrightarrow> length (dw_out (put r w)) < 65536 \<Longrightarrow>
      written (\<lambda>b. seen b r) one w (put r w)"
begin

lemma puts_grow: "length (dw_out w) \<le> length (dw_out (fold put rs w))"
proof (induction rs arbitrary: w)
  case (Cons r rs)
  from Cons [of "put r w"] put_grows [of w r] show ?case by simp
qed simp

lemma puts_written:
  assumes "list_all fine rs" "all_good (get_opt (dw_out w)) w" "length (dw_out (fold put rs w)) < 65536"
  shows "(\<exists>x. dw_out (fold put rs w) = dw_out w @ x \<and> length rs \<le> length x)
    \<and> all_good (get_opt (dw_out (fold put rs w))) (fold put rs w)
    \<and> (dw_names (fold put rs w) = None \<longleftrightarrow> dw_names w = None)
    \<and> (\<exists>qs. list_all2 (seen (dw_names w \<noteq> None)) rs qs \<and>
         (\<forall>bytes. get_opt (dw_out (fold put rs w)) \<subseteq>\<^sub>m get_opt bytes \<longrightarrow>
            read_many one (length rs) bytes (length (dw_out w)) = Some (qs, length (dw_out (fold put rs w)))))"
  using assms
proof (induction rs arbitrary: w)
  case (Cons r rs)
  let ?v = "put r w" and ?u = "fold put rs (put r w)"
  have u: "length (dw_out ?u) < 65536" using Cons.prems(3) by simp
  then have "length (dw_out ?v) < 65536" using puts_grow [of ?v rs] by simp
  then have v: "written (\<lambda>b. seen b r) one w ?v" using put_written Cons.prems(1,2) by simp
  then obtain x q where x: "dw_out ?v = dw_out w @ x" "x \<noteq> []" and good: "all_good (get_opt (dw_out ?v)) ?v"
    and none: "dw_names ?v = None \<longleftrightarrow> dw_names w = None" and q: "seen (dw_names w \<noteq> None) r q"
    "\<forall>bytes. get_opt (dw_out ?v) \<subseteq>\<^sub>m get_opt bytes \<longrightarrow> one bytes (length (dw_out w)) = Some (q, length (dw_out ?v))"
    unfolding written_def by (elim exE conjE) (rule that; assumption)
  have "list_all fine rs" using Cons.prems(1) by simp
  from Cons.IH [OF this good u] obtain y qs where y: "dw_out ?u = dw_out ?v @ y" "length rs \<le> length y"
    and rest: "all_good (get_opt (dw_out ?u)) ?u" "dw_names ?u = None \<longleftrightarrow> dw_names ?v = None"
    "list_all2 (seen (dw_names w \<noteq> None)) rs qs"
    "\<forall>bytes. get_opt (dw_out ?u) \<subseteq>\<^sub>m get_opt bytes \<longrightarrow>
        read_many one (length rs) bytes (length (dw_out ?v)) = Some (qs, length (dw_out ?u))"
    unfolding none by (elim exE conjE) (rule that; (assumption | simp add: none))
  have "read_many one (length (r # rs)) bytes (length (dw_out w)) = Some (q # qs, length (dw_out ?u))"
    if b: "get_opt (dw_out ?u) \<subseteq>\<^sub>m get_opt bytes" for bytes
  proof -
    have "get_opt (dw_out ?v) \<subseteq>\<^sub>m get_opt bytes" using b unfolding y(1) by (rule prefix_le)
    then show ?thesis using q(2) rest(4) b by simp
  qed
  moreover have "dw_out (fold put (r # rs) w) = dw_out w @ (x @ y)" using x y by simp
  moreover have "length (r # rs) \<le> length (x @ y)" using x(2) y(2) by (cases x) simp_all
  ultimately show ?case
    using rest(1-3) none q(1) by (intro conjI exI [of _ "x @ y"] exI [of _ "q # qs"]) simp_all
qed (simp add: map_le_def)

end

lemma write_name_grows: "length (dw_out w) \<le> length (dw_out (write_name name b w))"
  using write_labels_grows [of b "name_labels name" w] by (auto simp: write_name_def)

definition question_fine :: "dns_question \<Rightarrow> bool" where
  "question_fine q \<longleftrightarrow> name_fine (qu_name q)"

definition seen_question :: "bool \<Rightarrow> dns_question \<Rightarrow> dns_question \<Rightarrow> bool" where
  "seen_question shared r q \<longleftrightarrow>
     same_name shared (qu_name r) (qu_name q) \<and> qu_kind q = qu_kind r \<and> qu_class q = qu_class r"

interpretation questions: section_codec write_question read_question question_fine seen_question
proof unfold_locales
  show "length (dw_out w) \<le> length (dw_out (write_question r w))" for r w
    using write_name_grows [of w "qu_name r" True] by (simp add: write_question_def)
next
  fix r w
  assume fine: "question_fine r" and good: "all_good (get_opt (dw_out w)) w"
  let ?v = "write_name (qu_name r) True w" and ?w' = "write_question r w"
  note n = write_name_ok [OF fine [unfolded question_fine_def] map_le_refl good, of True]
  have o': "dw_out ?w' = dw_out ?v @ be16 (qu_kind r) @ be16 (qu_class r)" "dw_names ?w' = dw_names ?v"
    by (simp_all add: write_question_def)
  obtain x where x: "dw_out ?v = dw_out w @ x" "x \<noteq> []" using n(1) by blast
  have G: "settle (get_opt (dw_out w)) (length (dw_out w)) (dw_out ?v) \<subseteq>\<^sub>m get_opt (dw_out ?w')"
    unfolding o'(1) by (rule map_le_trans [OF n(2) get_opt_prefix])
  obtain nm where nm: "same_name (dw_names w \<noteq> None) (qu_name r) nm"
    "\<forall>bytes. settle (get_opt (dw_out w)) (length (dw_out w)) (dw_out ?v) \<subseteq>\<^sub>m get_opt bytes \<longrightarrow>
       read_name bytes (length (dw_out w)) = Some (nm, length (dw_out ?v))" using n(5) by blast
  let ?q = "\<lparr>qu_name = nm, qu_kind = qu_kind r, qu_class = qu_class r\<rparr>"
  have "read_question bytes (length (dw_out w)) = Some (?q, length (dw_out ?w'))"
    if b: "get_opt (dw_out ?w') \<subseteq>\<^sub>m get_opt bytes" for bytes
  proof -
    have f: "read_field bytes (length (dw_out ?v)) = Some (qu_kind r)"
      "read_field bytes (length (dw_out ?v) + 2) = Some (qu_class r)"
      using field_after [of "dw_out ?v" _ _ bytes] field_after [of "dw_out ?v @ be16 (qu_kind r)" _ "[]" bytes] b
      unfolding o'(1) by simp_all
    have "read_name bytes (length (dw_out w)) = Some (nm, length (dw_out ?v))"
      using nm(2) map_le_trans [OF G b] by blast
    then show ?thesis by (simp add: read_question_def f [simplified] o'(1))
  qed
  moreover have "all_good (get_opt (dw_out ?w')) ?w'" by (rule all_good_mono [OF n(3) G o'(2)])
  moreover have "dw_out ?w' = dw_out w @ (x @ be16 (qu_kind r) @ be16 (qu_class r))" by (simp add: o'(1) x(1))
  moreover have "seen_question (dw_names w \<noteq> None) r ?q" using nm(1) by (simp add: seen_question_def)
  ultimately show "written (\<lambda>b. seen_question b r) read_question w ?w'"
    using x(2) n(4) unfolding written_def o'(2) by blast
qed

definition read_kept :: "byte list \<Rightarrow> nat \<Rightarrow> (dns_record \<times> nat) option" where
  "read_kept bytes offset =
     map_option (\<lambda>(r, e). (case r of None \<Rightarrow> record_unread | Some r \<Rightarrow> r, e)) (read_record bytes offset)"

lemma write_data_grows: "length (dw_out w) \<le> length (dw_out (write_data d w))"
proof (cases d)
  case (Srv port t)
  then show ?thesis
    using write_name_grows [of "emit (be16 port) (emit [0, 0, 0, 0] w)" t False] by (simp add: write_data_def)
next
  case (Txt ss)
  then show ?thesis using write_texts [of w ss] by (auto simp: write_data_def)
qed (simp_all add: write_data_def write_name_grows)

interpretation records: section_codec write_record read_kept record_fine seen_record
proof unfold_locales
  fix r w
  let ?w2 = "emit (be32 (rr_ttl r)) (emit (be16 (rr_class r)) (emit (be16 (record_kind r)) (write_name (rr_name r) True w)))"
  let ?w4 = "write_data (rr_data r) (emit [0, 0] ?w2)"
  have "length (dw_out ?w2) + 2 \<le> length (dw_out ?w4)" using write_data_grows [of "emit [0, 0] ?w2" "rr_data r"] by simp
  moreover have "length (dw_out w) \<le> length (dw_out ?w2)" using write_name_grows [of w "rr_name r" True] by simp
  ultimately show "length (dw_out w) \<le> length (dw_out (write_record r w))"
    by (simp add: write_record_def Let_def patch16_def)
next
  fix r w
  assume "record_fine r" "all_good (get_opt (dw_out w)) w" "length (dw_out (write_record r w)) < 65536"
  note ok = write_record_ok [OF this(1,2) refl this(3)]
  obtain q where q: "seen_record (dw_names w \<noteq> None) r q" "\<forall>bytes. get_opt (dw_out (write_record r w)) \<subseteq>\<^sub>m get_opt bytes \<longrightarrow>
       (\<exists>k. read_record bytes (length (dw_out w)) = Some (k, length (dw_out (write_record r w)))
          \<and> (case k of None \<Rightarrow> record_unread | Some k \<Rightarrow> k) = q)" using ok(4) by blast
  have "read_kept bytes (length (dw_out w)) = Some (q, length (dw_out (write_record r w)))"
    if "get_opt (dw_out (write_record r w)) \<subseteq>\<^sub>m get_opt bytes" for bytes
    using q(2) that unfolding read_kept_def by fastforce
  then show "written (\<lambda>b. seen_record b r) read_kept w (write_record r w)"
    using ok(1-3) q(1) unfolding written_def by blast
qed

lemma sections_read:
  "read_questions n bytes offset = read_many read_question n bytes offset"
  "read_records n bytes offset = read_many read_kept n bytes offset"
  by (induction n arbitrary: offset) (auto simp: read_kept_def split: option.split)

subsection \<open>Messages\<close>

lemma flag_bits:
  "(message_flags m AND push_bit 15 1 \<noteq> 0) = dm_response m"
  "(message_flags m AND push_bit 10 1 \<noteq> 0) = dm_authoritative m"
  "(message_flags m AND push_bit 8 1 \<noteq> 0) = dm_recursion_desired m"
  "(message_flags m AND push_bit 4 1 \<noteq> 0) = dm_checking_disabled m"
proof -
  have m15: "(0x0F :: byte) = mask 4" by (simp add: mask_eq_exp_minus_1)
  show "(message_flags m AND push_bit 15 1 \<noteq> 0) = dm_response m"
    "(message_flags m AND push_bit 10 1 \<noteq> 0) = dm_authoritative m"
    "(message_flags m AND push_bit 8 1 \<noteq> 0) = dm_recursion_desired m"
    "(message_flags m AND push_bit 4 1 \<noteq> 0) = dm_checking_disabled m"
    unfolding bit_iff_and_push_bit_not_eq_0 [symmetric] message_flags_def m15
    by (simp_all add: bit_simps)
qed

lemma opcode_bits: "dm_opcode m < 16 \<Longrightarrow> ucast (drop_bit 11 (message_flags m) AND 0x0F) = dm_opcode m"
proof -
  assume small: "dm_opcode m < 16"
  have m15: "(0x0F :: byte) = mask 4" "(0x0F :: u16) = mask 4" by (simp_all add: mask_eq_exp_minus_1)
  have "unat (dm_opcode m) < 16" using small by (simp add: word_less_nat_alt)
  then have high: "bit (dm_opcode m) n \<Longrightarrow> n < 4" for n
  proof -
    assume b: "bit (dm_opcode m) n" and u: "unat (dm_opcode m) < 16"
    then have "bit (unat (dm_opcode m)) n" unfolding bit_unsigned_iff by simp
    then have "unat (dm_opcode m) div 2 ^ n \<noteq> 0" by (metis bit_iff_odd even_zero)
    then have "2 ^ n \<le> unat (dm_opcode m)" by (metis div_less not_less)
    then have "(2::nat) ^ n < 2 ^ 4" using u by simp
    then show "n < 4" by (rule power_less_imp_less_exp [rotated]) simp
  qed
  show ?thesis
  proof (rule bit_word_eqI)
    fix n assume "n < LENGTH(8)"
    show "bit (ucast (drop_bit 11 (message_flags m) AND 0x0F) :: byte) n = bit (dm_opcode m) n"
    proof (cases "n < 4")
      case True
      then have "n = 0 \<or> n = 1 \<or> n = 2 \<or> n = 3" by auto
      then show ?thesis
        unfolding message_flags_def m15 by (elim disjE) (simp_all add: bit_simps)
    next
      case False
      then show ?thesis using high unfolding m15 by (auto simp: bit_simps)
    qed
  qed
qed

definition message_fine :: "dns_message \<Rightarrow> bool" where
  "message_fine m \<longleftrightarrow> dm_opcode m < 16 \<and> list_all question_fine (dm_questions m)
     \<and> list_all record_fine (dm_answers m) \<and> list_all record_fine (dm_authority m)
     \<and> list_all record_fine (dm_additional m)"

definition seen_message :: "bool \<Rightarrow> dns_message \<Rightarrow> dns_message \<Rightarrow> bool" where
  "seen_message shared m m' \<longleftrightarrow>
     dm_id m' = dm_id m \<and> dm_response m' = dm_response m \<and> dm_opcode m' = dm_opcode m
     \<and> dm_authoritative m' = dm_authoritative m \<and> dm_recursion_desired m' = dm_recursion_desired m
     \<and> dm_checking_disabled m' = dm_checking_disabled m
     \<and> list_all2 (seen_question shared) (dm_questions m) (dm_questions m')
     \<and> list_all2 (seen_record shared) (dm_answers m) (dm_answers m')
     \<and> list_all2 (seen_record shared) (dm_authority m) (dm_authority m')
     \<and> list_all2 (seen_record shared) (dm_additional m) (dm_additional m')"


subsection \<open>Bounds on what is parsed\<close>

lemma label_length_bound: "(b :: byte) AND 0xC0 \<noteq> 0xC0 \<Longrightarrow> unat b \<le> 191"
proof (rule ccontr)
  assume a: "b AND 0xC0 \<noteq> 0xC0" and "\<not> unat b \<le> 191"
  then have u: "192 \<le> unat b" by simp
  have "unat b < 256" using unsigned_less [of b] by simp
  with u have "unat b div 128 = 1" "unat b div 64 = 3" by linarith+
  then have "bit (unat b) 7" "bit (unat b) 6" by (simp_all add: bit_iff_odd)
  then have bits: "bit b 7" "bit b 6" by (simp_all add: bit_unsigned_iff)
  have "b AND 0xC0 = 0xC0"
    unfolding masks
  proof (rule bit_word_eqI)
    fix n assume "n < LENGTH(8)"
    then have "n < 6 \<or> n = 6 \<or> n = 7" by auto
    then show "bit (b AND push_bit 6 (mask 2)) n = bit (push_bit 6 (mask 2) :: byte) n"
      using bits by (elim disjE) (simp_all add: bit_simps)
  qed
  with a show False ..
qed

lemma length_escape_label: "length (escape_label bs) \<le> 4 * length bs"
proof (induction bs)
  case (Cons b bs)
  have "length (escape_byte b) \<le> 4" by (simp add: escape_byte_def Let_def)
  with Cons show ?case by (simp add: escape_label_def)
qed (simp add: escape_label_def)

definition text_size :: "string list \<Rightarrow> nat" where
  "text_size ls = sum_list (map (\<lambda>l. length l + 1) ls)"

lemma length_join: "length (join ''.'' ls @ ''.'') \<le> text_size ls + 1"
  by (induction "''.''" ls rule: join.induct) (simp_all add: text_size_def)

lemma read_labels_bounds:
  assumes "read_labels n bytes offset ls e = Some (x, y)"
  shows "length x \<le> text_size ls + 765 * (n - 1) + 1
    \<and> (case e of None \<Rightarrow> offset + 1 \<le> y \<and> y \<le> length bytes | Some z \<Rightarrow> y = z)"
  using assms
proof (induction n arbitrary: offset ls e)
  case (Suc n)
  obtain b where b: "get_opt bytes offset = Some b" using Suc.prems by (cases "get_opt bytes offset") auto
  note run = Suc.prems [unfolded read_labels.simps b option.case]
  have more: "0 < n" if "read_labels n bytes o2 ls2 e2 = Some (x, y)" for o2 ls2 e2 using that by (cases n) auto
  show ?case
  proof (cases "b AND 0xC0 = 0xC0")
    case True
    note run2 = run [unfolded if_P [OF True]]
    obtain lo where lo: "get_opt bytes (offset + 1) = Some lo"
    proof (cases "get_opt bytes (offset + 1)")
      case None
      with run2 have False unfolding None option.case by simp
      then show ?thesis ..
    qed
    let ?e = "case e of None \<Rightarrow> Some (offset + 2) | Some z \<Rightarrow> Some z"
    have r: "read_labels n bytes (push_bit 8 (unat (b AND 0x3F)) OR unat lo) ls ?e = Some (x, y)"
      using run2 unfolding lo option.case .
    have "y = (case e of None \<Rightarrow> offset + 2 | Some z \<Rightarrow> z)" using Suc.IH [OF r] by (cases e) simp_all
    moreover have "offset + 2 \<le> length bytes" using lo by simp
    ultimately show ?thesis using Suc.IH [OF r] more [OF r] by (cases e) auto
  next
    case no: False
    show ?thesis
    proof (cases "b = 0")
      case True
      then have "x = join ''.'' ls @ ''.''" "y = (case e of None \<Rightarrow> offset + 1 | Some z \<Rightarrow> z)" using run no by simp_all
      then show ?thesis using length_join [of ls] b by (cases e) auto
    next
      case False
      note run2 = run [unfolded if_not_P [OF no] if_not_P [OF False]]
      obtain l where l: "slice_opt bytes (offset + 1) (offset + 1 + unat b) = Some l"
        using run2 by (cases "slice_opt bytes (offset + 1) (offset + 1 + unat b)") auto
      have r: "read_labels n bytes (offset + 1 + unat b) (ls @ [escape_label l]) e = Some (x, y)"
        using run2 unfolding l option.case .
      have "length l \<le> 191" using l label_length_bound [OF no] by (auto simp: slice_opt_def split: if_splits)
      then have "length (escape_label l) \<le> 764" using length_escape_label [of l] by simp
      then have "text_size (ls @ [escape_label l]) \<le> text_size ls + 765" by (simp add: text_size_def)
      moreover have "765 + 765 * (n - 1) = 765 * n" using more [OF r] by (cases n) simp_all
      ultimately show ?thesis using Suc.IH [OF r] by (cases e) auto
    qed
  qed
qed simp

lemma read_name_bounds:
  "read_name bytes offset = Some (x, e) \<Longrightarrow> length x \<le> 97156 \<and> offset + 1 \<le> e \<and> e \<le> length bytes"
  using read_labels_bounds [of 128 bytes offset "[]" None x e] by (simp add: read_name_def text_size_def)

lemma read_field_bounds: "read_field bytes p = Some v \<Longrightarrow> p + 2 \<le> length bytes"
  by (auto simp: read_field_def split: option.splits)

lemma read_question_bounds:
  assumes "read_question bytes offset = Some (q, next)"
  shows "length (qu_name q) \<le> 97156 \<and> offset + 5 \<le> next \<and> next \<le> length bytes"
  using assms by (auto simp: read_question_def split: option.splits prod.splits dest!: read_name_bounds read_field_bounds)

definition bounded_record :: "dns_record \<Rightarrow> bool" where
  "bounded_record r \<longleftrightarrow> length (rr_name r) \<le> 97156
     \<and> (case rr_data r of Ptr t \<Rightarrow> length t \<le> 97156 | Txt ss \<Rightarrow> ss = [] | _ \<Rightarrow> False)"

lemma read_kept_bounds:
  assumes "read_kept bytes offset = Some (r, next)"
  shows "bounded_record r \<and> offset + 11 \<le> next \<and> next \<le> length bytes"
proof -
  obtain k where k: "read_record bytes offset = Some (k, next)" "r = (case k of None \<Rightarrow> record_unread | Some r \<Rightarrow> r)"
    using assms by (auto simp: read_kept_def)
  then obtain name p where p: "read_name bytes offset = Some (name, p)"
    by (cases "read_name bytes offset") (auto simp: read_record_def)
  note run = k(1) [unfolded read_record_def p option.case prod.case map_option_all.simps]
  then obtain kind cls t1 t2 len where f: "read_field bytes p = Some kind" "read_field bytes (p + 2) = Some cls"
    "read_field bytes (p + 4) = Some t1" "read_field bytes (p + 6) = Some t2" "read_field bytes (p + 8) = Some len"
    by (auto split: option.splits)
  then have n: "next = p + 10 + unat len" "p + 10 + unat len \<le> length bytes"
    using run by (auto simp: Let_def slice_opt_def split: option.splits if_splits)
  have "bounded_record r"
  proof (cases k)
    case None
    then show ?thesis using k(2) by (simp add: bounded_record_def record_unread_def)
  next
    case (Some q)
    then obtain t e where "read_name bytes (p + 10) = Some (t, e)" "q = \<lparr>rr_name = name, rr_class = cls, rr_ttl = read_ttl t1 t2, rr_data = Ptr t\<rparr>"
      using run f by (auto simp: Let_def split: option.splits if_splits)
    then show ?thesis using k(2) Some read_name_bounds p by (fastforce simp: bounded_record_def)
  qed
  then show ?thesis using n read_name_bounds [OF p] by simp
qed

lemma read_many_bounds:
  assumes "\<And>a r e. one bytes a = Some (r, e) \<Longrightarrow> P r \<and> a + k \<le> e \<and> e \<le> length bytes"
    and "read_many one n bytes offset = Some (rs, e)" "offset \<le> length bytes"
  shows "length rs = n \<and> (\<forall>r \<in> set rs. P r) \<and> offset + k * length rs \<le> e \<and> e \<le> length bytes"
  using assms(2,3)
proof (induction n arbitrary: offset rs)
  case (Suc n)
  then obtain q nx qs where q: "one bytes offset = Some (q, nx)" "read_many one n bytes nx = Some (qs, e)" "rs = q # qs"
    by (auto split: option.splits)
  note first = assms(1) [OF q(1)]
  from Suc.IH [OF q(2)] first show ?case by (auto simp: q(3))
qed auto

text \<open>
  C36. Whatever bytes arrive, a message that is accepted cannot hold more than they pay for: at
  least 5 bytes for each question and 11 for each record, and no name in it is longer than 97156
  characters, as the reader follows at most 128 labels and pointers of at most 191 bytes each.
\<close>

theorem parsed_message_bounded:
  assumes "dns_parse bytes = Some m"
  shows "12 + 5 * length (dm_questions m)
      + 11 * (length (dm_answers m) + length (dm_authority m) + length (dm_additional m)) \<le> length bytes
    \<and> (\<forall>q \<in> set (dm_questions m). length (qu_name q) \<le> 97156)
    \<and> (\<forall>r \<in> set (dm_answers m @ dm_authority m @ dm_additional m). bounded_record r)"
proof -
  obtain ident flags c1 c2 c3 c4 where h: "map_option_all (read_field bytes) [0, 2, 4, 6, 8, 10] = Some [ident, flags, c1, c2, c3, c4]"
    using assms by (auto simp: dns_parse_def split: option.splits list.splits)
  then have "read_field bytes 10 = Some c4" by (auto split: option.splits)
  then have start: "12 \<le> length bytes" using read_field_bounds by fastforce
  obtain qs o1 an o2 au o3 ad o4 where r: "read_questions (unat c1) bytes 12 = Some (qs, o1)"
    "read_records (unat c2) bytes o1 = Some (an, o2)" "read_records (unat c3) bytes o2 = Some (au, o3)"
    "read_records (unat c4) bytes o3 = Some (ad, o4)"
    and m: "dm_questions m = qs" "dm_answers m = an" "dm_authority m = au" "dm_additional m = ad"
    using assms unfolding dns_parse_def h option.case list.case by (auto split: option.splits)
  note b1 = read_many_bounds [where P = "\<lambda>q. length (qu_name q) \<le> 97156" and k = 5, OF read_question_bounds r(1) [unfolded sections_read] start]
  note b2 = read_many_bounds [where P = bounded_record and k = 11, OF read_kept_bounds r(2) [unfolded sections_read]]
  note b3 = read_many_bounds [where P = bounded_record and k = 11, OF read_kept_bounds r(3) [unfolded sections_read]]
  note b4 = read_many_bounds [where P = bounded_record and k = 11, OF read_kept_bounds r(4) [unfolded sections_read]]
  have q: "(\<forall>q \<in> set qs. length (qu_name q) \<le> 97156) \<and> 12 + 5 * length qs \<le> o1 \<and> o1 \<le> length bytes" using b1 by simp
  then have a: "(\<forall>r \<in> set an. bounded_record r) \<and> o1 + 11 * length an \<le> o2 \<and> o2 \<le> length bytes" using b2 by simp
  then have u: "(\<forall>r \<in> set au. bounded_record r) \<and> o2 + 11 * length au \<le> o3 \<and> o3 \<le> length bytes" using b3 by simp
  then have d: "(\<forall>r \<in> set ad. bounded_record r) \<and> o3 + 11 * length ad \<le> o4 \<and> o4 \<le> length bytes" using b4 by simp
  from q a u d show ?thesis unfolding m by auto
qed

text \<open>A service with its instance; and a question whose name has a label of 64 bytes, a length the DNS reserves.\<close>

definition sample_service :: dns_message where
  "sample_service =
     \<lparr>dm_id = 7, dm_response = True, dm_opcode = 0, dm_authoritative = True, dm_recursion_desired = False,
      dm_checking_disabled = False, dm_questions = [],
      dm_answers = [\<lparr>rr_name = ''_http._tcp.local.'', rr_class = CLASS_IN, rr_ttl = 3200,
        rr_data = Ptr ''tv._http._tcp.local.''\<rparr>],
      dm_authority = [], dm_additional = []\<rparr>"

definition odd_query :: "byte list" where
  "odd_query = [0, 0, 0, 0, 0, 1, 0, 0, 0, 0, 0, 0, 64] @ replicate 64 97 @ [0, 0, 12, 0, 1]"

lemma sample_labels: "name_labels ''_http._tcp.local.'' = [''_http'', ''_tcp'', ''local'']"
  "name_labels ''tv._http._tcp.local.'' = [''tv'', ''_http'', ''_tcp'', ''local'']"
  by (simp_all add: name_labels_def)

lemma odd_query_parsed: "map_option (\<lambda>m. map (\<lambda>q. length (qu_name q)) (dm_questions m)) (dns_parse odd_query) = Some [65]"
  by code_simp

lemma write_labels_length: "length (dw_out (write_labels b ls w)) \<le> length (dw_out w) + 64 * length ls + 2"
proof (induction ls arbitrary: w)
  case (Cons l ls)
  let ?v = "emit (label_bytes l) (remember (to_ascii_lowercase (join ''.'' (l # ls))) w)"
  have "length (label_bytes l) \<le> 64" by (simp add: label_bytes_def Let_def)
  with Cons [of ?v] show ?case by (auto simp: Let_def split: option.split)
qed simp

lemma sample_service_length: "length (dns_pack sample_service compress) < 65536"
proof -
  define w where "w = \<lparr>dw_out = be16 7 @ be16 (message_flags sample_service) @ be16 (count16 0) @ be16 (count16 1)
      @ be16 (count16 0) @ be16 (count16 0), dw_names = if compress then Some Map.empty else None\<rparr>"
  define v where "v = emit [0, 0] (emit (be32 3200) (emit (be16 CLASS_IN) (emit (be16 TYPE_PTR) (write_name ''_http._tcp.local.'' True w))))"
  have "length (dw_out v) \<le> 220"
    using write_labels_length [of True "name_labels ''_http._tcp.local.''" w]
    by (simp add: v_def w_def write_name_def sample_labels)
  moreover have "length (dns_pack sample_service compress) \<le> length (dw_out (write_name ''tv._http._tcp.local.'' True v)) + 2"
    by (simp add: dns_pack_def sample_service_def v_def w_def write_record_def write_data_def record_kind_def patch16_def emit_def Let_def)
  moreover have "length (dw_out (write_name ''tv._http._tcp.local.'' True v)) \<le> length (dw_out v) + 258"
    using write_labels_length [of True "name_labels ''tv._http._tcp.local.''" v] by (simp add: write_name_def sample_labels)
  ultimately show ?thesis by simp
qed


theorem parsed_message_bounded_witness:
  "\<exists>m. dns_parse odd_query = Some m \<and> map (\<lambda>q. length (qu_name q)) (dm_questions m) = [65]
     \<and> 12 + 5 * length (dm_questions m) \<le> length odd_query"
proof -
  obtain m where m: "dns_parse odd_query = Some m" "map (\<lambda>q. length (qu_name q)) (dm_questions m) = [65]"
    using odd_query_parsed by (cases "dns_parse odd_query") simp_all
  have "12 + 5 * length (dm_questions m) \<le> length odd_query"
    using parsed_message_bounded [OF m(1), THEN conjunct1] by (rule order_trans [rotated]) simp
  with m show ?thesis by (intro exI [of _ m]) simp
qed

end
