(* ===== verification/Access.thy ===== *)
theory Access
  imports ServeContent StateDb
begin

text \<open>
  \<open>rustorr-http/src/access.rs\<close>: who may talk to the server and how it names itself. Credentials
  and the \<open>Authorization\<close> header, the forwarding headers of trusted proxies, and the lists of
  blocked addresses and referers. A network (\<open>ipnet\<close>) is opaque: the crate that parses it and
  tests membership is \<open>ip_lib\<close>; Base64 and JSON are \<open>auth_lib\<close>. Single addresses are read by
  the standard library, whose parser is written out.
\<close>

subsection \<open>Text\<close>

definition trim_start_in :: "char set \<Rightarrow> string \<Rightarrow> string" where
  "trim_start_in cs s = dropWhile (\<lambda>c. c \<in> cs) s"

definition trim_end_in :: "char set \<Rightarrow> string \<Rightarrow> string" where
  "trim_end_in cs s = rev (dropWhile (\<lambda>c. c \<in> cs) (rev s))"

definition trim_in :: "char set \<Rightarrow> string \<Rightarrow> string" where
  "trim_in cs s = trim_end_in cs (trim_start_in cs s)"

text \<open>\<open>split_once\<close> at a separator of several bytes: the text before and after the first one.\<close>

fun split_once_str :: "string \<Rightarrow> string \<Rightarrow> (string \<times> string) option" where
  "split_once_str p [] = (if p = [] then Some ([], []) else None)"
| "split_once_str p (c # s) =
     (if starts_with (c # s) p then Some ([], drop (length p) (c # s))
      else map_option (\<lambda>(a, b). (c # a, b)) (split_once_str p s))"

definition or_opt :: "'a option \<Rightarrow> 'a option \<Rightarrow> 'a option" where
  "or_opt a b = (case a of None \<Rightarrow> b | Some x \<Rightarrow> Some x)"

definition the_default :: "'a \<Rightarrow> 'a option \<Rightarrow> 'a" where
  "the_default d a = (case a of None \<Rightarrow> d | Some x \<Rightarrow> x)"

subsection \<open>Addresses\<close>

datatype ip_addr = V4 "32 word" | V6 "128 word"

definition ip_digit :: "nat \<Rightarrow> char \<Rightarrow> nat option" where
  "ip_digit radix c =
     (let b = byte_val c;
          d = (if 48 \<le> b \<and> b \<le> 57 then b - 48
               else if 97 \<le> b \<and> b \<le> 122 then b - 87
               else if 65 \<le> b \<and> b \<le> 90 then b - 55 else radix)
      in if d < radix then Some d else None)"

text \<open>\<open>Parser::read_number\<close> with a limit on the digits.\<close>

fun read_digits :: "nat \<Rightarrow> nat \<Rightarrow> nat \<Rightarrow> nat \<Rightarrow> string \<Rightarrow> (nat \<times> nat \<times> string) option" where
  "read_digits radix most n acc [] = Some (n, acc, [])"
| "read_digits radix most n acc (c # cs) =
     (case ip_digit radix c of
        None \<Rightarrow> Some (n, acc, c # cs)
      | Some d \<Rightarrow> if most < n + 1 then None else read_digits radix most (n + 1) (acc * radix + d) cs)"

definition read_number :: "nat \<Rightarrow> nat \<Rightarrow> bool \<Rightarrow> nat \<Rightarrow> string \<Rightarrow> (nat \<times> string) option" where
  "read_number radix most zero_prefix limit s =
     (case read_digits radix most 0 0 s of
        None \<Rightarrow> None
      | Some (n, v, t) \<Rightarrow>
          if n = 0 \<or> \<not> zero_prefix \<and> starts_with s ''0'' \<and> 1 < n \<or> limit \<le> v then None
          else Some (v, t))"

definition read_given :: "char \<Rightarrow> string \<Rightarrow> string option" where
  "read_given c s = (case s of [] \<Rightarrow> None | x # t \<Rightarrow> if x = c then Some t else None)"

definition octet_text :: "string \<Rightarrow> (nat \<times> string) option" where
  "octet_text s = read_number 10 3 False 256 s"

fun read_octets :: "nat \<Rightarrow> bool \<Rightarrow> string \<Rightarrow> (nat list \<times> string) option" where
  "read_octets 0 initial s = Some ([], s)"
| "read_octets (Suc n) initial s =
     (case (if initial then Some s else read_given CHR ''.'' s) of
        None \<Rightarrow> None
      | Some t \<Rightarrow>
          (case octet_text t of
             None \<Rightarrow> None
           | Some (v, u) \<Rightarrow>
               (case read_octets n False u of None \<Rightarrow> None | Some (vs, w) \<Rightarrow> Some (v # vs, w))))"

definition join_digits :: "nat \<Rightarrow> nat list \<Rightarrow> nat" where
  "join_digits base ds = foldl (\<lambda>a d. a * base + d) 0 ds"

text \<open>\<open>read_groups\<close>: at most \<open>n\<close> groups of an IPv6 address; the last two may be an IPv4 address.\<close>

fun read_groups :: "nat \<Rightarrow> bool \<Rightarrow> string \<Rightarrow> nat list \<times> bool \<times> string" where
  "read_groups 0 initial s = ([], False, s)"
| "read_groups (Suc n) initial s =
     (let here = (if initial then Some s else read_given CHR '':'' s)
      in case (if n = 0 then None else Option.bind here (read_octets 4 True)) of
           Some (v4, t) \<Rightarrow> ([join_digits 256 (take 2 v4), join_digits 256 (drop 2 v4)], True, t)
         | None \<Rightarrow>
             (case Option.bind here (read_number 16 4 True 65536) of
                None \<Rightarrow> ([], False, s)
              | Some (g, t) \<Rightarrow> (case read_groups n False t of (gs, v4, u) \<Rightarrow> (g # gs, v4, u))))"

definition read_ipv6 :: "string \<Rightarrow> (nat list \<times> string) option" where
  "read_ipv6 s =
     (case read_groups 8 True s of (front, v4, t) \<Rightarrow>
        if length front = 8 then Some (front, t)
        else if v4 then None
        else case Option.bind (read_given CHR '':'' t) (read_given CHR '':'') of
               None \<Rightarrow> None
             | Some u \<Rightarrow>
                 (case read_groups (8 - (length front + 1)) True u of (back, _, w) \<Rightarrow>
                    Some (front @ replicate (8 - length front - length back) 0 @ back, w)))"

definition parse_ip :: "string \<Rightarrow> ip_addr option" where
  "parse_ip s =
     (case read_octets 4 True s of
        Some (vs, t) \<Rightarrow> if t = [] then Some (V4 (of_nat (join_digits 256 vs))) else None
      | None \<Rightarrow>
          (case read_ipv6 s of
             Some (gs, t) \<Rightarrow> if t = [] then Some (V6 (of_nat (join_digits 65536 gs))) else None
           | None \<Rightarrow> None))"

definition ip_number :: "ip_addr \<Rightarrow> nat \<times> 128 word" where
  "ip_number a = (case a of V4 w \<Rightarrow> (4, ucast w) | V6 w \<Rightarrow> (6, w))"

record 'n ip_lib =
  ip_parse_net :: "string \<Rightarrow> 'n option"
  ip_net_has :: "'n \<Rightarrow> ip_addr \<Rightarrow> bool"

datatype 'n ip_rule = Address ip_addr | Network 'n | Range ip_addr ip_addr

definition rule_contains :: "'n ip_lib \<Rightarrow> 'n ip_rule \<Rightarrow> ip_addr \<Rightarrow> bool" where
  "rule_contains ip r a =
     (case r of
        Address e \<Rightarrow> e = a
      | Network n \<Rightarrow> ip_net_has ip n a
      | Range x y \<Rightarrow> ip_number x \<le> ip_number a \<and> ip_number a \<le> ip_number y)"

subsection \<open>Credentials\<close>

record auth_lib =
  al_base64 :: "string \<Rightarrow> string option"
  al_accounts :: "string \<Rightarrow> (string \<times> string) list option"

type_synonym credentials = "(string \<times> string) list"

datatype credentials_error = CannotRead | NotAccounts | NoUsableAccounts

definition credentials_read :: "auth_lib \<Rightarrow> string option \<Rightarrow> credentials_error + credentials" where
  "credentials_read al content =
     (case content of
        None \<Rightarrow> Inl CannotRead
      | Some bytes \<Rightarrow>
          (case al_accounts al bytes of
             None \<Rightarrow> Inl NotAccounts
           | Some accounts \<Rightarrow>
               if accounts = [] \<or> list_ex (\<lambda>(u, p). u = [] \<or> p = []) accounts then Inl NoUsableAccounts
               else Inr accounts))"

definition header_str :: "http_lib \<Rightarrow> req_headers \<Rightarrow> string \<Rightarrow> string option" where
  "header_str lib hs name =
     (case hs name of None \<Rightarrow> None | Some v \<Rightarrow> if hl_to_str_ok lib v then Some v else None)"

definition utf8_text :: "string \<Rightarrow> string option" where
  "utf8_text s = (if valid_utf8 (map byte_val s) then Some s else None)"

definition recognizes :: "http_lib \<Rightarrow> auth_lib \<Rightarrow> credentials \<Rightarrow> req_headers \<Rightarrow> bool" where
  "recognizes lib al accounts hs =
     (case Option.bind (header_str lib hs ''authorization'')
             (\<lambda>v. Option.bind (strip_prefix v ''Basic '')
             (\<lambda>v. Option.bind (al_base64 al v) utf8_text)) of
        None \<Rightarrow> False
      | Some v \<Rightarrow>
          (case split_once CHR '':'' v of
             None \<Rightarrow> False
           | Some (user, password) \<Rightarrow> map_of accounts user = Some password))"

subsection \<open>The configuration and the public address\<close>

record 'n http_config =
  hc_credentials :: "credentials option"
  hc_trusted :: "'n list"
  hc_read_only :: bool
  hc_max_stream :: "nat option"
  hc_open_search :: bool
  hc_webdav :: bool
  hc_port :: nat

definition http_config_default :: "'n list \<Rightarrow> 'n http_config" where
  "http_config_default loopback =
     \<lparr>hc_credentials = None, hc_trusted = loopback, hc_read_only = False, hc_max_stream = None,
      hc_open_search = False, hc_webdav = False, hc_port = 8090\<rparr>"

definition authorized :: "http_lib \<Rightarrow> auth_lib \<Rightarrow> 'n http_config \<Rightarrow> req_headers \<Rightarrow> bool" where
  "authorized lib al cfg hs =
     (case hc_credentials cfg of None \<Rightarrow> True | Some c \<Rightarrow> recognizes lib al c hs)"

definition auth_enabled :: "'n http_config \<Rightarrow> bool" where
  "auth_enabled cfg = (hc_credentials cfg \<noteq> None)"

definition trusts :: "'n ip_lib \<Rightarrow> 'n http_config \<Rightarrow> ip_addr \<Rightarrow> bool" where
  "trusts ip cfg peer = list_ex (\<lambda>n. ip_net_has ip n peer) (hc_trusted cfg)"

definition first_header :: "http_lib \<Rightarrow> req_headers \<Rightarrow> string \<Rightarrow> string option" where
  "first_header lib hs name =
     Option.bind (header_str lib hs name)
       (\<lambda>v. let t = trim (hd (split_on CHR '','' v)) in if t = [] then None else Some t)"

fun forwarded_fields ::
    "string list \<Rightarrow> string option \<times> string option \<Rightarrow> (string option \<times> string option) option" where
  "forwarded_fields [] (proto, host) = Some (proto, host)"
| "forwarded_fields (f # fs) (proto, host) =
     (case split_once CHR ''='' (trim f) of
        None \<Rightarrow> None
      | Some (name, v) \<Rightarrow>
          (let v = trim_in {CHR 0x22} v; name = to_ascii_lowercase name
           in forwarded_fields fs
                (if name = ''proto'' then (Some (to_ascii_lowercase v), host)
                 else if name = ''host'' then (proto, Some v) else (proto, host))))"

definition parse_forwarded :: "string \<Rightarrow> (string option \<times> string option) option" where
  "parse_forwarded s = forwarded_fields (split_on CHR '';'' (hd (split_on CHR '','' s))) (None, None)"

definition forwarded :: "http_lib \<Rightarrow> bool \<Rightarrow> req_headers \<Rightarrow> (string option \<times> string option) option" where
  "forwarded lib trusted hs =
     (if trusted then Option.bind (header_str lib hs ''forwarded'') parse_forwarded else None)"

definition public_scheme ::
    "http_lib \<Rightarrow> 'n ip_lib \<Rightarrow> 'n http_config \<Rightarrow> ip_addr \<Rightarrow> req_headers \<Rightarrow> string option \<Rightarrow> string" where
  "public_scheme lib ip cfg peer hs uri_scheme =
     (let trusted = trusts ip cfg peer;
          named = or_opt (Option.bind (forwarded lib trusted hs) fst)
                    (if trusted then first_header lib hs ''x-forwarded-proto'' else None)
      in case named of
           Some s \<Rightarrow> if s = ''http'' \<or> s = ''https'' then s else the_default ''http'' uri_scheme
         | None \<Rightarrow> the_default ''http'' uri_scheme)"

definition public_base ::
    "http_lib \<Rightarrow> 'n ip_lib \<Rightarrow> 'n http_config \<Rightarrow> ip_addr \<Rightarrow> req_headers \<Rightarrow> string option \<Rightarrow> string" where
  "public_base lib ip cfg peer hs uri_scheme =
     (let trusted = trusts ip cfg peer;
          host = or_opt (Option.bind (forwarded lib trusted hs) snd)
                   (or_opt (if trusted then first_header lib hs ''x-forwarded-host'' else None)
                      (header_str lib hs ''host''))
      in public_scheme lib ip cfg peer hs uri_scheme @ ''://'' @ the_default ''127.0.0.1:8090'' host)"

subsection \<open>The lists of blocked addresses and referers\<close>

datatype waf_code = InvalidIpRange | InvalidReferer

record waf_warning =
  ww_list :: string
  ww_line :: "nat option"
  ww_code :: waf_code

record 'n waf_snapshot =
  ws_warnings :: "waf_warning list"
  ws_whitelist :: "'n ip_rule list"
  ws_blacklist :: "'n ip_rule list"
  ws_referers :: "string list"

definition DEFAULT_BLOCKED_REFERERS :: "string list" where
  "DEFAULT_BLOCKED_REFERERS =
     [''abhq.ru'', ''abmsx.tech'', ''akter.black'', ''bylampa.online'', ''lampa.click'', ''lampa.land'',
      ''lampa1.ru'', ''line.pm'', ''nnmtv.pw'', ''tvigl.info'', ''uspeh.sbs'', ''usph.xyz'', ''xabb.ru'']"

text \<open>One candidate text of a line: a network, an address, or a range of two addresses.\<close>

definition ip_rule_of :: "'n ip_lib \<Rightarrow> string \<Rightarrow> 'n ip_rule option" where
  "ip_rule_of ip s =
     or_opt (map_option Network (ip_parse_net ip s))
       (or_opt (map_option Address (parse_ip s))
          (Option.bind (split_once CHR ''-'' s)
             (\<lambda>(x, y). Option.bind (parse_ip (trim x)) (\<lambda>a. map_option (Range a) (parse_ip (trim y))))))"

definition line_rule :: "'n ip_lib \<Rightarrow> string \<Rightarrow> 'n ip_rule option" where
  "line_rule ip raw =
     or_opt (ip_rule_of ip raw)
       (ip_rule_of ip (case split_once CHR '':'' raw of None \<Rightarrow> raw | Some (_, v) \<Rightarrow> trim v))"

definition skipped_line :: "string \<Rightarrow> bool" where
  "skipped_line raw = (raw = [] \<or> starts_with raw ''#'')"

text \<open>The loop over the lines, counted from 1, with what one line yields.\<close>

fun list_lines ::
    "(string \<Rightarrow> 'r option) \<Rightarrow> (nat \<Rightarrow> waf_warning) \<Rightarrow> nat \<Rightarrow> string list \<Rightarrow> 'r list \<times> waf_warning list" where
  "list_lines entry warn n [] = ([], [])"
| "list_lines entry warn n (l # ls) =
     (let raw = trim l; (rs, ws) = list_lines entry warn (n + 1) ls
      in if skipped_line raw then (rs, ws)
         else case entry raw of Some r \<Rightarrow> (r # rs, ws) | None \<Rightarrow> (rs, warn n # ws))"

definition parse_ip_rules :: "'n ip_lib \<Rightarrow> string \<Rightarrow> string \<Rightarrow> 'n ip_rule list \<times> waf_warning list" where
  "parse_ip_rules ip name s =
     list_lines (line_rule ip)
       (\<lambda>n. \<lparr>ww_list = name, ww_line = Some n, ww_code = InvalidIpRange\<rparr>) 1 (lines s)"

definition referer_host :: "string \<Rightarrow> string option" where
  "referer_host raw =
     (let host =
        (if CHR ''*'' \<in> set raw \<or> list_ex (\<lambda>c. c \<in> set ''/?#@'') raw \<and> split_once_str ''://'' raw = None
         then None
         else case split_once_str ''://'' raw of
                Some (_, rest) \<Rightarrow> Some (hd (split_on CHR '':'' (trim_end_in {CHR ''/''} rest)))
              | None \<Rightarrow> Some (hd (split_on CHR '':'' raw)))
      in case host of
           None \<Rightarrow> None
         | Some h \<Rightarrow>
             if h = [] then None
             else Some (to_ascii_lowercase (trim_in {CHR ''['', CHR '']'', CHR ''.''} h)))"

definition parse_referers :: "string \<Rightarrow> string list \<times> waf_warning list" where
  "parse_referers s =
     list_lines referer_host
       (\<lambda>n. \<lparr>ww_list = ''referers'', ww_line = Some n, ww_code = InvalidReferer\<rparr>) 1 (lines s)"

definition add_host :: "string \<Rightarrow> string list \<Rightarrow> string list" where
  "add_host h hosts = (if h \<in> set hosts then hosts else hosts @ [h])"

definition waf_parse :: "'n ip_lib \<Rightarrow> waf_lists \<Rightarrow> 'n waf_snapshot" where
  "waf_parse ip wl =
     (let (white, w1) = parse_ip_rules ip ''whitelist'' (wl_whitelist wl);
          (black, w2) = parse_ip_rules ip ''blacklist'' (wl_blacklist wl);
          (hosts, w3) = parse_referers (wl_referers wl)
      in \<lparr>ws_warnings = w1 @ w2 @ w3, ws_whitelist = white, ws_blacklist = black,
          ws_referers = fold add_host hosts DEFAULT_BLOCKED_REFERERS\<rparr>)"

definition ip_enabled :: "'n waf_snapshot \<Rightarrow> bool" where
  "ip_enabled ws = (ws_whitelist ws \<noteq> [] \<or> ws_blacklist ws \<noteq> [])"

definition referer_enabled :: "'n waf_snapshot \<Rightarrow> bool" where
  "referer_enabled ws = (ws_referers ws \<noteq> [])"

fun split_in :: "char set \<Rightarrow> string \<Rightarrow> string" where
  "split_in cs [] = []"
| "split_in cs (c # s) = (if c \<in> cs then [] else c # split_in cs s)"

definition header_host :: "string \<Rightarrow> string option" where
  "header_host s =
     Option.bind (split_once_str ''://'' s)
       (\<lambda>(_, rest).
          let authority = hd (split_on CHR ''/'' rest);
              host = to_ascii_lowercase
                (trim_end_in {CHR ''.''} (split_in {CHR '']'', CHR '':''} (trim_start_in {CHR ''[''} authority)))
          in if host = [] then None else Some host)"

definition blocked_host :: "string list \<Rightarrow> string \<Rightarrow> bool" where
  "blocked_host referers host =
     list_ex (\<lambda>b. host = b \<or> ends_with host (CHR ''.'' # b)) referers"

definition waf_blocks ::
    "http_lib \<Rightarrow> 'n ip_lib \<Rightarrow> 'n waf_snapshot \<Rightarrow> ip_addr \<Rightarrow> req_headers \<Rightarrow> bool" where
  "waf_blocks lib ip ws peer hs =
     (if list_ex (\<lambda>name. case Option.bind (header_str lib hs name) header_host of
                           None \<Rightarrow> False
                         | Some host \<Rightarrow> blocked_host (ws_referers ws) host) [''referer'', ''origin'']
      then True
      else if ws_whitelist ws \<noteq> [] \<and> \<not> list_ex (\<lambda>r. rule_contains ip r peer) (ws_whitelist ws) then True
      else list_ex (\<lambda>r. rule_contains ip r peer) (ws_blacklist ws))"

end
