(* ===== verification/Playlist.thy ===== *)
theory Playlist
  imports Client Xml Access
begin

text \<open>
  \<open>rustorr-http/src/m3u.rs\<close>: the M3U playlists of one torrent and of all of them, with the part of
  \<open>std::path::Path\<close> they use, and the magnet links of \<open>web_api.rs\<close>.
\<close>

subsection \<open>File names\<close>

definition path_file_name :: "string \<Rightarrow> string option" where
  "path_file_name p =
     (let cs = filter (\<lambda>c. c \<noteq> [] \<and> c \<noteq> ''.'') (split_on CHR ''/'' p)
      in if cs = [] \<or> last cs = ''..'' then None else Some (last cs))"

text \<open>The name cut at its last dot; a dot that begins the name does not cut it.\<close>

definition split_dot :: "string \<Rightarrow> string \<times> string option" where
  "split_dot name =
     (let ps = split_on CHR ''.'' name; stem = join ''.'' (butlast ps)
      in if length ps = 1 \<or> stem = [] then (name, None) else (stem, Some (last ps)))"

definition m3u_escaped :: "string \<Rightarrow> string" where
  "m3u_escaped s =
     replace_str ''%5F'' ''_'' (replace_str ''%2D'' ''-'' (replace_str ''%2E'' ''.'' (percent_encode s)))"

definition m3u_file_name :: "string \<Rightarrow> string" where
  "m3u_file_name p =
     (case path_file_name p of None \<Rightarrow> p | Some name \<Rightarrow> if name = [] then p else name)"

definition m3u_extensions :: "string list" where
  "m3u_extensions =
     [''3gp'', ''aac'', ''ac3'', ''avi'', ''flac'', ''flv'', ''m2ts'', ''m4a'', ''m4v'', ''mka'', ''mkv'',
      ''mov'', ''mp3'', ''mp4'', ''mpeg'', ''mpg'', ''ogg'', ''opus'', ''ts'', ''wav'', ''webm'']"

definition m3u_is_media :: "string \<Rightarrow> bool" where
  "m3u_is_media p =
     (let ext = the_default [] (Option.bind (path_file_name p) (\<lambda>n. snd (split_dot n)))
      in to_ascii_lowercase ext \<in> set m3u_extensions)"

definition m3u_stem :: "string \<Rightarrow> string" where
  "m3u_stem p = (case path_file_name p of None \<Rightarrow> p | Some n \<Rightarrow> fst (split_dot n))"

text \<open>Other files whose path holds the stem of a file: its external tracks.\<close>

definition namesakes :: "torrent_file_view list \<Rightarrow> torrent_file_view \<Rightarrow> torrent_file_view list" where
  "namesakes fs f =
     filter (\<lambda>c. fv_id c \<noteq> fv_id f \<and> str_contains (fv_path c) (m3u_stem (fv_path f))) fs"

subsection \<open>Playlists\<close>

definition NL :: string where "NL = [CHR 0x0A]"

definition stream_url :: "string \<Rightarrow> string \<Rightarrow> torrent_file_view \<Rightarrow> string" where
  "stream_url base hash f =
     base @ ''/stream/'' @ m3u_escaped (m3u_file_name (fv_path f)) @ ''?link='' @ hash @ ''&index=''
     @ decimal (fv_id f) @ ''&play''"

definition file_entry :: "string \<Rightarrow> string \<Rightarrow> torrent_file_view list \<Rightarrow> torrent_file_view \<Rightarrow> string" where
  "file_entry base hash fs f =
     (let external = namesakes fs f
      in ''#EXTINF:0,'' @ m3u_file_name (fv_path f) @ NL
         @ (if external = [] then []
            else ''#EXTVLCOPT:input-slave=''
                 @ concat (map (\<lambda>s. stream_url base hash s @ ''#'') external) @ NL)
         @ stream_url base hash f @ NL)"

definition first_position :: "('a \<Rightarrow> bool) \<Rightarrow> 'a list \<Rightarrow> nat option" where
  "first_position P xs =
     (let n = length (takeWhile (\<lambda>x. \<not> P x) xs) in if n < length xs then Some n else None)"

definition playlist_from :: "torrent_view \<Rightarrow> bool \<Rightarrow> nat option \<Rightarrow> viewed_file list \<Rightarrow> nat" where
  "playlist_from v from_last start_index viewed =
     (let seen = map vf_index (filter (\<lambda>e. tv_hash v = Some (info_hash_to_string (vf_hash e))) viewed);
          start = or_opt start_index
            (if from_last then Some (if seen = [] then 1 else Max (set seen)) else None)
      in the_default 0
           (Option.bind start (\<lambda>i. first_position (\<lambda>f. fv_id f = i) (tv_file_stats v))))"

definition m3u_one ::
    "torrent_view \<Rightarrow> string \<Rightarrow> bool \<Rightarrow> nat option \<Rightarrow> viewed_file list \<Rightarrow> string" where
  "m3u_one v base from_last start_index viewed =
     ''#EXTM3U'' @ NL
     @ concat (map (file_entry base (the_default [] (tv_hash v)) (tv_file_stats v))
         (filter (\<lambda>f. m3u_is_media (fv_path f))
            (drop (playlist_from v from_last start_index viewed) (tv_file_stats v))))"

definition m3u_listed :: "string option \<Rightarrow> string option \<Rightarrow> torrent_view \<Rightarrow> bool" where
  "m3u_listed category search v \<longleftrightarrow>
     (case category of
        None \<Rightarrow> True
      | Some c \<Rightarrow> if c = ''uncategorized'' then tv_category v = [] else tv_category v = c)
     \<and> (case search of
          None \<Rightarrow> True
        | Some s \<Rightarrow> str_contains (to_ascii_lowercase (tv_title v)) (to_ascii_lowercase s))"

text \<open>\<open>trim_start_matches\<close> of a text: all its copies at the start.\<close>

function trim_start_str :: "string \<Rightarrow> string \<Rightarrow> string" where
  "trim_start_str p s =
     (if p \<noteq> [] \<and> starts_with s p then trim_start_str p (drop (length p) s) else s)"
  by pat_completeness auto
termination
proof (relation "measure (\<lambda>(p, s). length s)")
  fix p s :: string
  assume "p \<noteq> [] \<and> starts_with s p"
  then have "p \<noteq> []" "s \<noteq> []" by (auto simp: starts_with_def)
  then show "((p, drop (length p) s), (p, s)) \<in> measure (\<lambda>(p, s). length s)" by (cases p; cases s) auto
qed simp

declare trim_start_str.simps [simp del]

definition m3u_torrent :: "string \<Rightarrow> bool \<Rightarrow> torrent_view \<Rightarrow> string" where
  "m3u_torrent base merge v =
     (if merge then trim_start_str (''#EXTM3U'' @ NL) (m3u_one v base False None [])
      else ''#EXTINF:0''
           @ (if tv_poster v = [] then [] else '' tvg-logo='' @ [CHR 0x22] @ tv_poster v @ [CHR 0x22])
           @ '' type='' @ [CHR 0x22] @ ''playlist'' @ [CHR 0x22] @ '','' @ tv_title v @ NL
           @ base @ ''/stream/'' @ m3u_escaped (tv_title v) @ ''.m3u?link='' @ the_default [] (tv_hash v)
           @ ''&m3u&fn=file.m3u'' @ NL)"

definition m3u_all ::
    "torrent_view list \<Rightarrow> string \<Rightarrow> bool \<Rightarrow> string option \<Rightarrow> string option \<Rightarrow> string" where
  "m3u_all vs base merge category search =
     ''#EXTM3U'' @ NL @ concat (map (m3u_torrent base merge) (filter (m3u_listed category search) vs))"

definition playlist_name :: "string option \<Rightarrow> string \<Rightarrow> string" where
  "playlist_name requested torrent_name =
     (let asked = (case requested of None \<Rightarrow> [] | Some n \<Rightarrow> trim_start_in {CHR ''/''} n);
          name = (if asked = [] then torrent_name @ ''.m3u'' else asked);
          lower = to_ascii_lowercase name
      in if ends_with lower ''.m3u'' \<or> ends_with lower ''.m3u8'' then name else name @ ''.m3u'')"

definition hex_bytes :: "string \<Rightarrow> string" where
  "hex_bytes s =
     concat (map (\<lambda>c. [hex_digit_char (byte_val c div 16), hex_digit_char (byte_val c mod 16)]) s)"

definition quoted_hex :: "string \<Rightarrow> string" where
  "quoted_hex s = [CHR 0x22] @ hex_bytes s @ [CHR 0x22]"

definition m3u_etag :: "string \<Rightarrow> string \<Rightarrow> string" where
  "m3u_etag hash name = quoted_hex (hash @ ''/'' @ name)"

subsection \<open>Magnet links\<close>

definition query_kept :: "char \<Rightarrow> bool" where
  "query_kept c = (is_alnum c \<or> c \<in> set ''-_.~'')"

definition query_escape :: "string \<Rightarrow> string" where
  "query_escape s =
     replace_str ''%20'' ''+''
       (concat (map (\<lambda>c. if query_kept c then [c]
                         else [CHR ''%'', upper_hex (byte_val c div 16), upper_hex (byte_val c mod 16)]) s))"

definition magnet_uri :: "magnet_view \<Rightarrow> string" where
  "magnet_uri m =
     ''magnet:?xt=urn:btih:'' @ info_hash_to_string (mv_hash m) @ ''&''
     @ join ''&'' ((if mv_name m = [] then [] else [''dn='' @ query_escape (mv_name m)])
                   @ map (\<lambda>t. ''tr='' @ query_escape t) (mv_trackers m))"

definition magnets_html :: "magnet_view list \<Rightarrow> string" where
  "magnets_html ms =
     ''<div>''
     @ concat (map (\<lambda>m. ''<p><a href='' @ [CHR 0x27] @ magnet_uri m @ [CHR 0x27] @ ''>magnet:?xt=urn:btih:''
                        @ info_hash_to_string (mv_hash m) @ ''</a></p>'') ms)
     @ ''</div>''"

end
