(* ===== verification/HttpApi.thy ===== *)
theory HttpApi
  imports Service Playlist
begin

text \<open>
  \<open>rustorr-http/src/app.rs\<close>, with the routes of \<open>web_api.rs\<close> and \<open>settings_api.rs\<close>: the HTTP
  application over the coordinator. A handler is an action on the coordinator, the readers that are
  open and the messages sent to the other integrations, and ends in a response; an early return is
  its error. Each call of the client core meets its own \<open>world\<close>, the \<open>n\<close>-th call \<open>ws n\<close>.

  What the application uses of axum, serde, \<open>percent_encoding\<close> and \<open>httpdate\<close> is the record
  \<open>http_env\<close>: how a JSON body decodes, the text of a JSON document and of an error, and percent
  decoding. A panic in a handler becomes the answer 500, as \<open>CatchPanicLayer\<close> makes it.
\<close>

subsection \<open>Documents\<close>

record viewed_response =
  vr_hash :: string
  vr_file_index :: nat
  vr_timecode :: f64

record cache_piece =
  cp_id :: nat
  cp_length :: nat
  cp_size :: nat
  cp_completed :: bool
  cp_priority :: int

record cache_reader =
  cr_start :: nat
  cr_end :: nat
  cr_reader :: nat

record cache_response =
  cx_hash :: string
  cx_capacity :: nat
  cx_filled :: nat
  cx_pieces_length :: nat
  cx_pieces_count :: nat
  cx_torrent :: torrent_view
  cx_pieces :: "(nat \<times> cache_piece) list"
  cx_readers :: "cache_reader list"

record waf_response =
  wr_lists :: waf_lists
  wr_ip_enabled :: bool
  wr_referer_enabled :: bool
  wr_read_only :: bool
  wr_warnings :: "waf_warning list"

datatype payload =
    ErrorDoc string
  | TorrentDoc torrent_view
  | TorrentsDoc "torrent_view list"
  | SettingsDoc settings
  | ViewedDoc "viewed_response list"
  | CacheDoc cache_response
  | WafDoc waf_response
  | StorageDoc string string nat
  | StatusOk
  | TmdbDoc tmdb_config

text \<open>A body is text, what is left of a reader, or parts that a stream reads one after another.\<close>

datatype api_body =
    NoBody
  | Text string
  | ReaderBody playback nat
  | PartsBody info_hash nat string nat string "http_range list"
  | Zeros nat
  | ZeroParts string nat "http_range list"

record api_response =
  ar_status :: nat
  ar_headers :: resp_headers
  ar_body :: api_body

subsection \<open>Requests\<close>

record torrent_action =
  ta_action :: string
  ta_link :: string
  ta_hash :: "string option"
  ta_title :: string
  ta_poster :: string
  ta_category :: string
  ta_data :: string
  ta_save_to_db :: bool

record settings_action =
  sa_action :: string
  sa_sets :: "settings option"

record viewed_action =
  va_action :: string
  va_hash :: string
  va_file_index :: int
  va_timecode :: f64

record cache_action =
  ca_action :: string
  ca_hash :: string

text \<open>A field of an upload: a named text, or a file.\<close>

datatype upload_field = TextField string "string + string" | FileField "string + byte list"

datatype json_failure = JsonEof | JsonFailed string

text \<open>A storage preference of \<open>/storage/settings\<close>: a string, or any other JSON value.\<close>

type_synonym preferences = "(string \<times> string option) list"

record api_request =
  aq_method :: http_method
  aq_path :: string
  aq_query :: "string option"
  aq_headers :: req_headers
  aq_peer :: ip_addr
  aq_scheme :: "string option"
  aq_body :: string
  aq_fields :: "(string + upload_field) list"

record 'n http_env =
  he_lib :: http_lib
  he_auth :: auth_lib
  he_ip :: "'n ip_lib"
  he_cfg :: "'n http_config"
  he_decode :: "string \<Rightarrow> string"
  he_json :: "payload \<Rightarrow> string option"
  he_error :: "coord_error \<Rightarrow> string"
  he_hash_error :: "string \<Rightarrow> string"
  he_too_long :: string
  he_torrent_action :: "string \<Rightarrow> json_failure + torrent_action"
  he_settings_action :: "string \<Rightarrow> json_failure + settings_action"
  he_viewed_action :: "string \<Rightarrow> json_failure + viewed_action"
  he_cache_action :: "string \<Rightarrow> json_failure + cache_action"
  he_waf_update :: "string \<Rightarrow> json_failure + waf_lists"
  he_preferences :: "string \<Rightarrow> json_failure + preferences"
  he_gstreamer :: bool
  he_version :: string
  he_now :: nat

text \<open>What a handler tells the transcoder, the discovery and search services and the server.\<close>

datatype notice =
    TaskRemoved string
  | CatalogChanged
  | SettingsChanged "(bool \<times> bool \<times> settings) option"
  | RutorEnabled bool
  | ShutdownRequested

record ('e, 's) app =
  ap_core :: "('e, 's) coord"
  ap_readers :: "playback_reader list"
  ap_notices :: "notice list"

type_synonym ('e, 's, 'a) app_act = "(('e, 's) app, api_response, 'a) act"

subsection \<open>Responses\<close>

definition status_only :: "nat \<Rightarrow> api_response" where
  "status_only st = \<lparr>ar_status = st, ar_headers = [], ar_body = NoBody\<rparr>"

definition http_not_found :: api_response where
  "http_not_found =
     \<lparr>ar_status = 404, ar_headers = [(''content-type'', ''text/plain'')], ar_body = Text ''404 page not found''\<rparr>"

text \<open>\<open>go_json\<close>: the characters that Go escapes.\<close>

definition go_char :: "string \<Rightarrow> string" where
  "go_char c =
     (if c = ''<'' then [CHR 0x5C] @ ''u003c''
      else if c = ''>'' then [CHR 0x5C] @ ''u003e''
      else if c = ''&'' then [CHR 0x5C] @ ''u0026''
      else if c = bytes_str [226, 128, 168] then [CHR 0x5C] @ ''u2028''
      else if c = bytes_str [226, 128, 169] then [CHR 0x5C] @ ''u2029''
      else c)"

definition go_json :: "'n http_env \<Rightarrow> payload \<Rightarrow> string option" where
  "go_json env p = map_option (\<lambda>s. concat (map go_char (utf8_chars s))) (he_json env p)"

definition JSON :: string where "JSON = ''application/json; charset=utf-8''"

definition json_error :: "'n http_env \<Rightarrow> nat \<Rightarrow> string \<Rightarrow> api_response" where
  "json_error env st message =
     (case go_json env (ErrorDoc message) of
        None \<Rightarrow> status_only 500
      | Some b \<Rightarrow> \<lparr>ar_status = st, ar_headers = [(''content-type'', JSON)], ar_body = Text b\<rparr>)"

definition json_bad_request :: "'n http_env \<Rightarrow> string \<Rightarrow> api_response" where
  "json_bad_request env message = json_error env 400 message"

definition api_lifecycle :: "'n http_env \<Rightarrow> coord_error \<Rightarrow> api_response" where
  "api_lifecycle env e = json_bad_request env (he_error env e)"

definition read_only_refused :: "'n http_env \<Rightarrow> api_response" where
  "read_only_refused env = json_error env 403 ''Read-only mode''"

definition api_unauthorized :: api_response where
  "api_unauthorized =
     \<lparr>ar_status = 401, ar_headers = [(''www-authenticate'', ''Basic realm=Authorization Required'')],
      ar_body = NoBody\<rparr>"

definition json_response :: "'n http_env \<Rightarrow> payload \<Rightarrow> api_response" where
  "json_response env p =
     (case go_json env p of
        None \<Rightarrow> status_only 500
      | Some b \<Rightarrow>
          \<lparr>ar_status = 200, ar_headers = [(''content-type'', JSON), (''content-length'', decimal (length b))],
           ar_body = Text b\<rparr>)"

definition text_body :: "string \<Rightarrow> nat \<Rightarrow> string \<Rightarrow> api_response" where
  "text_body kind st b = \<lparr>ar_status = st, ar_headers = [(''content-type'', kind)], ar_body = Text b\<rparr>"

definition api_go_http_error :: "nat \<Rightarrow> string \<Rightarrow> api_response" where
  "api_go_http_error st message =
     \<lparr>ar_status = st,
      ar_headers = [(''content-type'', ''text/plain; charset=utf-8''), (''x-content-type-options'', ''nosniff'')],
      ar_body = Text (message @ NL)\<rparr>"

subsection \<open>Calls\<close>

definition ask_core :: "('e, 's, 'a) coord_act \<Rightarrow> ('e, 's, coord_error + 'a) app_act" where
  "ask_core m = (\<lambda>a. case m (ap_core a) of (s, r) \<Rightarrow> (a\<lparr>ap_core := s\<rparr>, Inr r))"

text \<open>\<open>.map_err(|error| lifecycle(error).into_response())?\<close>\<close>

definition call_core :: "'n http_env \<Rightarrow> ('e, 's, 'a) coord_act \<Rightarrow> ('e, 's, 'a) app_act" where
  "call_core env m =
     bnd (ask_core m) (\<lambda>r. case r of Inl e \<Rightarrow> raise (api_lifecycle env e) | Inr x \<Rightarrow> ret x)"

definition tell :: "notice \<Rightarrow> ('e, 's, unit) app_act" where
  "tell n = modify (\<lambda>a. a\<lparr>ap_notices := ap_notices a @ [n]\<rparr>)"

text \<open>A playback opens a reader that lives until it is dropped; what is dropped is the one opened last.\<close>

definition open_playback ::
    "('e, 's) engine_ops \<Rightarrow> 's world \<Rightarrow> playback_request \<Rightarrow> ('e, 's, coord_error + playback) app_act" where
  "open_playback en w pq =
     (\<lambda>a. case playback_command en w pq (ap_core a) of
            (s, Inl e) \<Rightarrow> (a\<lparr>ap_core := s\<rparr>, Inr (Inl e))
          | (s, Inr p) \<Rightarrow> (a\<lparr>ap_core := s, ap_readers := ap_readers a @ [pl_reader p]\<rparr>, Inr (Inr p)))"

definition close_playback :: "playback \<Rightarrow> ('e, 's, unit) app_act" where
  "close_playback p =
     modify (\<lambda>a. a\<lparr>ap_core := fst (reader_drop (pl_reader p) (ap_core a)),
                   ap_readers := rev (remove1 (pl_reader p) (rev (ap_readers a)))\<rparr>)"

definition try_playback ::
    "'n http_env \<Rightarrow> ('e, 's) engine_ops \<Rightarrow> 's world \<Rightarrow> playback_request \<Rightarrow> ('e, 's, playback) app_act" where
  "try_playback env en w pq =
     bnd (open_playback en w pq) (\<lambda>r.
       case r of Inl e \<Rightarrow> raise (api_lifecycle env e) | Inr p \<Rightarrow> ret p)"

definition management_authorized :: "'n http_env \<Rightarrow> api_request \<Rightarrow> bool" where
  "management_authorized env rq = authorized (he_lib env) (he_auth env) (he_cfg env) (aq_headers rq)"

text \<open>The first lines of every management handler.\<close>

definition guarded :: "'n http_env \<Rightarrow> api_request \<Rightarrow> ('e, 's, 'a) app_act \<Rightarrow> ('e, 's, 'a) app_act" where
  "guarded env rq m = (if \<not> management_authorized env rq then raise api_unauthorized else m)"

definition MAX_JSON :: nat where "MAX_JSON = 4 * 2 ^ 20"

definition json_body ::
    "'n http_env \<Rightarrow> (string \<Rightarrow> json_failure + 'a) \<Rightarrow> api_request \<Rightarrow> ('e, 's, 'a) app_act" where
  "json_body env decode rq =
     (if MAX_JSON < length (aq_body rq) then raise (json_bad_request env (he_too_long env))
      else case decode (aq_body rq) of
             Inl JsonEof \<Rightarrow> raise (json_bad_request env ''unexpected EOF'')
           | Inl (JsonFailed m) \<Rightarrow> raise (json_bad_request env m)
           | Inr x \<Rightarrow> ret x)"

text \<open>\<open>query\<close>: later pairs of a name win.\<close>

definition percent_text :: "'n http_env \<Rightarrow> string \<Rightarrow> string" where
  "percent_text env s = he_decode env (replace_str ''+'' '' '' s)"

definition query_pair :: "'n http_env \<Rightarrow> string \<Rightarrow> string \<times> string" where
  "query_pair env part =
     (case split_once CHR ''='' part of
        None \<Rightarrow> (percent_text env part, percent_text env [])
      | Some (k, v) \<Rightarrow> (percent_text env k, percent_text env v))"

definition query_of :: "'n http_env \<Rightarrow> api_request \<Rightarrow> string \<rightharpoonup> string" where
  "query_of env rq =
     map_of (rev (map (query_pair env)
       (filter (\<lambda>p. p \<noteq> []) (split_on CHR ''&'' (the_default [] (aq_query rq))))))"

definition query_text :: "(string \<rightharpoonup> string) \<Rightarrow> string \<Rightarrow> string" where
  "query_text q k = the_default [] (q k)"

definition query_has :: "(string \<rightharpoonup> string) \<Rightarrow> string \<Rightarrow> bool" where
  "query_has q k = (q k \<noteq> None)"

end
