(* ===== verification/HttpHandlers.thy ===== *)
theory HttpHandlers
  imports HttpApi
begin

text \<open>
  The management handlers: torrents, uploads, settings, viewed history, the cache report, the WAF
  lists, the storage choice, and the small routes of \<open>web_api.rs\<close>. All but \<open>/echo\<close> ask for
  credentials first.
\<close>

subsection \<open>Torrents\<close>

definition required_hash :: "'n http_env \<Rightarrow> string option \<Rightarrow> ('e, 's, info_hash) app_act" where
  "required_hash env h =
     (case h of
        None \<Rightarrow> raise (json_bad_request env ''hash is empty'')
      | Some t \<Rightarrow>
          if t = [] then raise (json_bad_request env ''hash is empty'')
          else case info_hash_from_str t of
                 Inl e \<Rightarrow> raise (json_bad_request env ''invalid info hash'')
               | Inr h \<Rightarrow> ret h)"

definition torrent_command_of :: "'n http_env \<Rightarrow> torrent_action \<Rightarrow> ('e, 's, torrent_command) app_act" where
  "torrent_command_of env a =
     (if ta_action a = ''add'' then
        (if ta_link a = [] then raise (json_bad_request env ''link is empty'')
         else ret (AddCmd \<lparr>rq_link = ta_link a, rq_title = ta_title a, rq_poster = ta_poster a,
                           rq_category = ta_category a, rq_data = ta_data a, rq_save_to_db = ta_save_to_db a\<rparr>))
      else if ta_action a = ''get'' then bnd (required_hash env (ta_hash a)) (\<lambda>h. ret (GetCmd h))
      else if ta_action a = ''set'' then
        bnd (required_hash env (ta_hash a)) (\<lambda>h.
        ret (SetCmd \<lparr>up_hash = h, up_title = ta_title a, up_poster = ta_poster a,
                     up_category = ta_category a, up_data = ta_data a\<rparr>))
      else if ta_action a = ''rem'' then bnd (required_hash env (ta_hash a)) (\<lambda>h. ret (RemoveCmd h))
      else if ta_action a = ''list'' then ret ListCmd
      else if ta_action a = ''drop'' then bnd (required_hash env (ta_hash a)) (\<lambda>h. ret (DropCmd h))
      else if ta_action a = ''wipe'' then ret WipeCmd
      else raise (json_bad_request env (''unknown action: '' @ [CHR 0x22] @ ta_action a @ [CHR 0x22])))"

definition changes_catalog :: "torrent_command \<Rightarrow> bool" where
  "changes_catalog cmd = (case cmd of AddCmd _ \<Rightarrow> True | RemoveCmd _ \<Rightarrow> True | WipeCmd \<Rightarrow> True | _ \<Rightarrow> False)"

definition removed_tasks ::
    "'n http_env \<Rightarrow> ('e, 's) engine_ops \<Rightarrow> 's world \<Rightarrow> torrent_command \<Rightarrow> ('e, 's, string list) app_act" where
  "removed_tasks env en w cmd =
     (case cmd of
        RemoveCmd h \<Rightarrow> ret [info_hash_to_string h]
      | DropCmd h \<Rightarrow> ret [info_hash_to_string h]
      | WipeCmd \<Rightarrow>
          if he_gstreamer env then
            bnd (ask_core (torrents_command en w ListCmd)) (\<lambda>r.
              case r of
                Inr (ListReply vs) \<Rightarrow> ret (List.map_filter tv_hash vs)
              | _ \<Rightarrow> ret [])
          else ret []
      | _ \<Rightarrow> ret [])"

text \<open>\<open>gstreamer_api::remove_task\<close> tells the transcoder, if there is one.\<close>

definition remove_task :: "'n http_env \<Rightarrow> string \<Rightarrow> ('e, 's, unit) app_act" where
  "remove_task env h = (if he_gstreamer env then tell (TaskRemoved h) else ret ())"

definition announce_catalog ::
    "'n http_env \<Rightarrow> ('e, 's) engine_ops \<Rightarrow> 's world \<Rightarrow> bool \<Rightarrow> ('e, 's, unit) app_act" where
  "announce_catalog env en w changed =
     (if changed then
        bnd (ask_core (settings_command_act en w GetSettings)) (\<lambda>r.
          case r of Inr st \<Rightarrow> if enable_dlna st then tell CatalogChanged else ret () | Inl e \<Rightarrow> ret ())
      else ret ())"

definition torrents_handler ::
    "'n http_env \<Rightarrow> ('e, 's) engine_ops \<Rightarrow> (nat \<Rightarrow> 's world) \<Rightarrow> api_request \<Rightarrow> ('e, 's, api_response) app_act" where
  "torrents_handler env en ws rq =
     guarded env rq (
     bnd (json_body env (he_torrent_action env) rq) (\<lambda>a.
     bnd (torrent_command_of env a) (\<lambda>cmd.
     bnd (removed_tasks env en (ws 0) cmd) (\<lambda>tasks.
     bnd (call_core env (torrents_command en (ws 1) cmd)) (\<lambda>reply.
     seq (for_each tasks (remove_task env)) (
     seq (announce_catalog env en (ws 2) (changes_catalog cmd)) (
     case reply of
       TorrentReply (Some v) \<Rightarrow> ret (json_response env (TorrentDoc v))
     | TorrentReply None \<Rightarrow> raise (status_only 404)
     | ListReply vs \<Rightarrow> ret (json_response env (TorrentsDoc vs))
     | MagnetsReply _ \<Rightarrow> ret (status_only 200)
     | EmptyReply \<Rightarrow> ret (status_only 200))))))))"

text \<open>The fields of an upload: options and files, in the order they come.\<close>

fun upload_fields ::
    "'n http_env \<Rightarrow> (string + upload_field) list \<Rightarrow> add_request \<Rightarrow> byte list list
       \<Rightarrow> ('e, 's, add_request \<times> byte list list) app_act" where
  "upload_fields env [] opts files = ret (opts, files)"
| "upload_fields env (f # fs) opts files =
     (case f of
        Inl e \<Rightarrow> raise (json_bad_request env e)
      | Inr (FileField (Inl e)) \<Rightarrow> raise (json_bad_request env e)
      | Inr (FileField (Inr bytes)) \<Rightarrow> upload_fields env fs opts (files @ [bytes])
      | Inr (TextField name (Inl e)) \<Rightarrow> raise (json_bad_request env e)
      | Inr (TextField name (Inr v)) \<Rightarrow>
          upload_fields env fs
            (if name = ''save'' then opts\<lparr>rq_save_to_db := True\<rparr>
             else if name = ''title'' then opts\<lparr>rq_title := v\<rparr>
             else if name = ''poster'' then opts\<lparr>rq_poster := v\<rparr>
             else if name = ''category'' then opts\<lparr>rq_category := v\<rparr>
             else if name = ''data'' then opts\<lparr>rq_data := v\<rparr> else opts) files)"

fun add_uploads ::
    "'n http_env \<Rightarrow> ('e, 's) engine_ops \<Rightarrow> (nat \<Rightarrow> 's world) \<Rightarrow> nat \<Rightarrow> add_request \<Rightarrow> byte list list
       \<Rightarrow> torrent_view list \<Rightarrow> ('e, 's, torrent_view list) app_act" where
  "add_uploads env en ws n opts [] added = ret added"
| "add_uploads env en ws n opts (b # bs) added =
     bnd (call_core env (torrents_command en (ws n) (AddMetainfoCmd b opts))) (\<lambda>reply.
     case reply of
       TorrentReply (Some v) \<Rightarrow> add_uploads env en ws (n + 1) opts bs (added @ [v])
     | _ \<Rightarrow> add_uploads env en ws (n + 1) opts bs added)"

definition upload_handler ::
    "'n http_env \<Rightarrow> ('e, 's) engine_ops \<Rightarrow> (nat \<Rightarrow> 's world) \<Rightarrow> api_request \<Rightarrow> ('e, 's, api_response) app_act" where
  "upload_handler env en ws rq =
     guarded env rq (
     bnd (upload_fields env (aq_fields rq) add_request_default []) (\<lambda>(opts, files).
     bnd (add_uploads env en ws 0 opts files []) (\<lambda>added.
     ret (json_response env (case added of [v] \<Rightarrow> TorrentDoc v | _ \<Rightarrow> TorrentsDoc added)))))"

subsection \<open>Settings\<close>

definition settings_command_of ::
    "'n http_env \<Rightarrow> settings_action \<Rightarrow> ('e, 's, settings_command) app_act" where
  "settings_command_of env a =
     (if sa_action a = ''get'' then ret GetSettings
      else if sa_action a = ''set'' then
        (case sa_sets a of
           None \<Rightarrow> raise (json_bad_request env ''sets is empty'')
         | Some st \<Rightarrow> ret (SetSettings st))
      else if sa_action a = ''def'' then ret DefaultSettings
      else raise (status_only 400))"

definition discovery_change ::
    "settings_action \<Rightarrow> settings \<Rightarrow> (bool \<times> bool \<times> settings) option option" where
  "discovery_change a st =
     (if sa_action a = ''set'' then
        map_option (\<lambda>asked. Some (enable_dlna asked, enable_bonjour asked, st)) (sa_sets a)
      else if sa_action a = ''def'' then Some None
      else None)"

definition settings_handler ::
    "'n http_env \<Rightarrow> ('e, 's) engine_ops \<Rightarrow> (nat \<Rightarrow> 's world) \<Rightarrow> api_request \<Rightarrow> ('e, 's, api_response) app_act" where
  "settings_handler env en ws rq =
     guarded env rq (
     bnd (json_body env (he_settings_action env) rq) (\<lambda>a.
     bnd (settings_command_of env a) (\<lambda>cmd.
     bnd (call_core env (settings_command_act en (ws 0) cmd)) (\<lambda>st.
     seq (case discovery_change a st of None \<Rightarrow> ret () | Some c \<Rightarrow> tell (SettingsChanged c)) (
     seq (if sa_action a \<noteq> ''get'' then tell (RutorEnabled (enable_rutor_search st)) else ret ()) (
     ret (if sa_action a = ''get'' then json_response env (SettingsDoc st) else status_only 200)))))))"

definition storage_name :: "bool \<Rightarrow> string" where
  "storage_name b = (if b then ''json'' else ''bbolt'')"

definition get_storage ::
    "'n http_env \<Rightarrow> ('e, 's) engine_ops \<Rightarrow> (nat \<Rightarrow> 's world) \<Rightarrow> api_request \<Rightarrow> ('e, 's, api_response) app_act" where
  "get_storage env en ws rq =
     guarded env rq (
     bnd (call_core env (settings_command_act en (ws 0) GetSettings)) (\<lambda>st.
     bnd (call_core env (viewed_command_act (ws 1) (ListViewed None))) (\<lambda>vs.
     ret (json_response env
       (StorageDoc (storage_name (store_settings_in_json st)) (storage_name (store_viewed_in_json st))
          (card (set (map vf_hash vs))))))))"

text \<open>\<open>form_preferences\<close>: the first of each of the two fields that is not empty.\<close>

fun form_fields :: "'n http_env \<Rightarrow> string list \<Rightarrow> preferences \<Rightarrow> preferences" where
  "form_fields env [] ps = ps"
| "form_fields env (t # ts) ps =
     (let (k, v) = (case split_once CHR ''='' t of None \<Rightarrow> (t, []) | Some kv \<Rightarrow> kv);
          v = percent_text env v
      in form_fields env ts
           (if (k = ''settings'' \<or> k = ''viewed'') \<and> v \<noteq> [] \<and> map_of ps k = None
            then ps @ [(k, Some v)] else ps))"

definition form_preferences :: "'n http_env \<Rightarrow> (string \<Rightarrow> string) \<Rightarrow> string \<Rightarrow> preferences" where
  "form_preferences env lossy body =
     (if 2 ^ 20 < length body then form_fields env [[]] []
      else form_fields env (map lossy (split_on CHR ''&'' body)) [])"

definition preference :: "preferences \<Rightarrow> string \<Rightarrow> string option" where
  "preference ps k =
     (case map_of ps k of Some (Some v) \<Rightarrow> if v = [] then None else Some v | _ \<Rightarrow> None)"

definition bad_choice :: "preferences \<Rightarrow> string \<Rightarrow> bool" where
  "bad_choice ps k =
     (case preference ps k of None \<Rightarrow> False | Some v \<Rightarrow> v \<noteq> ''json'' \<and> v \<noteq> ''bbolt'')"

definition set_storage ::
    "'n http_env \<Rightarrow> ('e, 's) engine_ops \<Rightarrow> (nat \<Rightarrow> 's world) \<Rightarrow> api_request \<Rightarrow> ('e, 's, api_response) app_act" where
  "set_storage env en ws rq =
     guarded env rq (
     if hc_read_only (he_cfg env) then raise (read_only_refused env)
     else
       bnd (if aq_headers rq ''content-type'' = Some ''application/x-www-form-urlencoded''
            then ret (form_preferences env (\<lambda>s. from_utf8_lossy (str_bytes s)) (aq_body rq))
            else json_body env (he_preferences env) rq) (\<lambda>ps.
       if bad_choice ps ''settings'' then raise (json_bad_request env ''Invalid settings storage value'')
       else if bad_choice ps ''viewed'' then raise (json_bad_request env ''Invalid viewed storage value'')
       else if ps = [] then raise (json_bad_request env ''No preferences provided'')
       else
         bnd (call_core env (settings_command_act en (ws 0)
                (SetStorage (map_option (\<lambda>v. v = ''json'') (preference ps ''settings''))
                            (map_option (\<lambda>v. v = ''json'') (preference ps ''viewed''))))) (\<lambda>_.
         ret (json_response env StatusOk))))"

definition tmdb_handler ::
    "'n http_env \<Rightarrow> ('e, 's) engine_ops \<Rightarrow> (nat \<Rightarrow> 's world) \<Rightarrow> api_request \<Rightarrow> ('e, 's, api_response) app_act" where
  "tmdb_handler env en ws rq =
     guarded env rq (
     bnd (call_core env (settings_command_act en (ws 0) GetSettings)) (\<lambda>st.
     ret (json_response env (TmdbDoc (tmdb_settings st)))))"

subsection \<open>Viewed history\<close>

definition viewed_index :: "'n http_env \<Rightarrow> int \<Rightarrow> ('e, 's, nat) app_act" where
  "viewed_index env i = (if i < 0 then raise (json_bad_request env ''file index is invalid'') else ret (nat i))"

definition viewed_hash :: "'n http_env \<Rightarrow> info_hash option \<Rightarrow> ('e, 's, info_hash) app_act" where
  "viewed_hash env h =
     (case h of None \<Rightarrow> raise (json_bad_request env ''hash is required'') | Some h \<Rightarrow> ret h)"

definition viewed_command_of ::
    "'n http_env \<Rightarrow> viewed_action \<Rightarrow> info_hash option \<Rightarrow> ('e, 's, viewed_command) app_act" where
  "viewed_command_of env a h =
     (if va_action a = ''set'' then
        bnd (viewed_hash env h) (\<lambda>h.
        bnd (viewed_index env (va_file_index a)) (\<lambda>i. ret (SetViewed h i (va_timecode a))))
      else if va_action a = ''rem'' then
        bnd (viewed_hash env h) (\<lambda>h.
        if va_file_index a = - 1 then ret (RemoveViewed h None)
        else bnd (viewed_index env (va_file_index a)) (\<lambda>i. ret (RemoveViewed h (Some i))))
      else if va_action a = ''list'' then ret (ListViewed h)
      else raise (status_only 200))"

definition viewed_handler ::
    "'n http_env \<Rightarrow> ('e, 's) engine_ops \<Rightarrow> (nat \<Rightarrow> 's world) \<Rightarrow> api_request \<Rightarrow> ('e, 's, api_response) app_act" where
  "viewed_handler env en ws rq =
     guarded env rq (
     bnd (json_body env (he_viewed_action env) rq) (\<lambda>a.
     bnd (if va_hash a = [] then ret None
          else case info_hash_from_str (va_hash a) of
                 Inl e \<Rightarrow> raise (json_bad_request env (he_hash_error env (va_hash a)))
               | Inr h \<Rightarrow> ret (Some h)) (\<lambda>h.
     bnd (viewed_command_of env a h) (\<lambda>cmd.
     bnd (call_core env (viewed_command_act (ws 0) cmd)) (\<lambda>vs.
     ret (if va_action a = ''list'' then
            json_response env (ViewedDoc (map (\<lambda>v.
              \<lparr>vr_hash = info_hash_to_string (vf_hash v), vr_file_index = vf_index v,
               vr_timecode = vf_timecode v\<rparr>) vs))
          else status_only 200))))))"

subsection \<open>The cache report\<close>

definition report_pieces :: "torrent_snapshot \<Rightarrow> (nat \<times> cache_piece) list" where
  "report_pieces sn =
     (if sn_demanded_bytes sn \<noteq> 0 then
        map (\<lambda>p. (piece_get (dp_piece p),
          \<lparr>cp_id = piece_get (dp_piece p), cp_length = sn_piece_length sn, cp_size = dp_size p,
           cp_completed = dp_completed p, cp_priority = 0\<rparr>)) (sn_demanded_pieces sn)
      else
        map (\<lambda>p. (piece_get p,
          \<lparr>cp_id = piece_get p, cp_length = sn_piece_length sn, cp_size = sn_piece_length sn,
           cp_completed = True, cp_priority = 0\<rparr>)) (sn_completed_pieces sn))"

definition as_u32 :: "nat \<Rightarrow> nat option" where
  "as_u32 n = (if n < U32 then Some n else None)"

definition report_reader :: "nat \<Rightarrow> nat \<times> reader_range \<Rightarrow> cache_reader" where
  "report_reader pl = (\<lambda>(i, r).
     \<lparr>cr_start = rr_start r div pl,
      cr_end = (sat_add64 (rr_end r) 1 + pl - 1) div pl,
      cr_reader = the_default (the_default (U32 - 1) (as_u32 i)) (as_u32 (rr_start r div pl))\<rparr>)"

definition cache_report ::
    "'n http_env \<Rightarrow> ('e, 's) engine_ops \<Rightarrow> (nat \<Rightarrow> 's world) \<Rightarrow> info_hash \<Rightarrow> ('e, 's, cache_response) app_act" where
  "cache_report env en ws h =
     bnd (ask_core (cache_command_act (GetCache h))) (\<lambda>cv.
     case cv of
       Inl e \<Rightarrow> raise (status_only 404)
     | Inr cv \<Rightarrow>
         (case cv_snapshots cv of
            [] \<Rightarrow> raise (status_only 404)
          | sn # _ \<Rightarrow>
              bnd (call_core env (torrents_command en (ws 0) (GetCmd h))) (\<lambda>reply.
              case reply of
                TorrentReply (Some v) \<Rightarrow>
                  if sn_piece_length sn = 0 \<and> sn_active_readers sn \<noteq> [] then raise (status_only 500)
                  else ret
                    \<lparr>cx_hash = info_hash_to_string h, cx_capacity = cv_capacity cv,
                     cx_filled = (if sn_demanded_bytes sn = 0 then sn_stored_bytes sn else sn_demanded_bytes sn),
                     cx_pieces_length = sn_piece_length sn, cx_pieces_count = sn_piece_count sn,
                     cx_torrent = v, cx_pieces = report_pieces sn,
                     cx_readers = map (report_reader (sn_piece_length sn)) (enumerate 0 (sn_active_readers sn))\<rparr>
              | _ \<Rightarrow> raise (status_only 404))))"

definition cache_handler ::
    "'n http_env \<Rightarrow> ('e, 's) engine_ops \<Rightarrow> (nat \<Rightarrow> 's world) \<Rightarrow> api_request \<Rightarrow> ('e, 's, api_response) app_act" where
  "cache_handler env en ws rq =
     guarded env rq (
     bnd (json_body env (he_cache_action env) rq) (\<lambda>a.
     if ca_action a \<noteq> ''get'' \<or> ca_hash a = [] then raise (status_only 400)
     else case info_hash_from_str (ca_hash a) of
            Inl e \<Rightarrow> raise (json_bad_request env ''invalid info hash'')
          | Inr h \<Rightarrow>
              bnd (cache_report env en ws h) (\<lambda>doc. ret (json_response env (CacheDoc doc)))))"

subsection \<open>WAF lists\<close>

definition waf_document :: "'n http_env \<Rightarrow> waf_lists \<Rightarrow> bool \<Rightarrow> waf_response" where
  "waf_document env wl read_only =
     (let ws = waf_parse (he_ip env) wl
      in \<lparr>wr_lists = wl, wr_ip_enabled = ip_enabled ws, wr_referer_enabled = referer_enabled ws,
          wr_read_only = read_only, wr_warnings = ws_warnings ws\<rparr>)"

definition get_waf ::
    "'n http_env \<Rightarrow> ('e, 's) engine_ops \<Rightarrow> (nat \<Rightarrow> 's world) \<Rightarrow> api_request \<Rightarrow> ('e, 's, api_response) app_act" where
  "get_waf env en ws rq =
     guarded env rq (
     bnd (call_core env (waf_command_act (ws 0) GetWaf)) (\<lambda>wl.
     ret (json_response env (WafDoc (waf_document env wl (hc_read_only (he_cfg env)))))))"

definition set_waf ::
    "'n http_env \<Rightarrow> ('e, 's) engine_ops \<Rightarrow> (nat \<Rightarrow> 's world) \<Rightarrow> api_request \<Rightarrow> ('e, 's, api_response) app_act" where
  "set_waf env en ws rq =
     guarded env rq (
     if hc_read_only (he_cfg env) then raise (read_only_refused env)
     else
       bnd (json_body env (he_waf_update env) rq) (\<lambda>wl.
       bnd (call_core env (waf_command_act (ws 0) (SetWaf wl))) (\<lambda>wl.
       ret (json_response env (WafDoc (waf_document env wl False))))))"

subsection \<open>Magnets, the speed test and shutdown\<close>

definition magnets_handler ::
    "'n http_env \<Rightarrow> ('e, 's) engine_ops \<Rightarrow> (nat \<Rightarrow> 's world) \<Rightarrow> api_request \<Rightarrow> ('e, 's, api_response) app_act" where
  "magnets_handler env en ws rq =
     guarded env rq (
     bnd (call_core env (torrents_command en (ws 0) MagnetsCmd)) (\<lambda>reply.
     case reply of
       MagnetsReply ms \<Rightarrow> ret (text_body ''text/html; charset=utf-8'' 200 (magnets_html ms))
     | _ \<Rightarrow> raise (status_only 500)))"

definition MIB :: nat where "MIB = 1024 * 1024"

text \<open>\<open>str::parse::<i32>\<close>: a sign, then digits, in range.\<close>

definition parse_i32 :: "string \<Rightarrow> int option" where
  "parse_i32 s =
     (let neg = starts_with s ''-''; ds = (if neg then tl s else s)
      in if neg \<and> starts_with ds ''+'' then None
         else case parse_u64 ds of
                None \<Rightarrow> None
              | Some n \<Rightarrow>
                  if neg then (if n \<le> 2 ^ 31 then Some (- int n) else None)
                  else (if n < 2 ^ 31 then Some (int n) else None))"

definition invalid_range :: "nat \<Rightarrow> api_response" where
  "invalid_range sz =
     \<lparr>ar_status = 416,
      ar_headers = [(''content-type'', ''text/plain; charset=utf-8''),
                    (''content-range'', ''bytes */'' @ decimal sz), (''x-content-type-options'', ''nosniff'')],
      ar_body = Text (''invalid range: failed to overlap'' @ NL)\<rparr>"

definition range_text :: "nat \<Rightarrow> http_range \<Rightarrow> string" where
  "range_text sz r = ''bytes '' @ decimal (hr_start r) @ ''-'' @ decimal (hr_end r) @ ''/'' @ decimal sz"

definition multipart_zeros :: "http_range list \<Rightarrow> nat \<Rightarrow> api_response" where
  "multipart_zeros rs sz =
     (let bnd = boundary sz
      in \<lparr>ar_status = 206,
          ar_headers = [(''content-length'', decimal (multipart_length bnd sz ''application/octet-stream'' rs)),
                        (''content-type'', ''multipart/byteranges; boundary='' @ bnd)],
          ar_body = ZeroParts bnd sz rs\<rparr>)"

definition download_handler :: "'n http_env \<Rightarrow> string \<Rightarrow> api_request \<Rightarrow> ('e, 's, api_response) app_act" where
  "download_handler env sz_text rq =
     guarded env rq (
     case parse_i32 sz_text of
       None \<Rightarrow> ret (status_only 200)
     | Some n \<Rightarrow>
         (let sz = nat n * MIB;
              finish = (\<lambda>r. r\<lparr>ar_headers :=
                (let hs = hm_insert ''last-modified'' (hl_fmt_date (he_lib env) (he_now env))
                            (hm_insert ''accept-ranges'' ''bytes'' (ar_headers r))
                 in if map_of hs ''content-type'' = None
                    then hm_insert ''content-type'' ''application/octet-stream'' hs else hs)\<rparr>)
          in case map_option (\<lambda>v. range_parse v sz) (header_str (he_lib env) (aq_headers rq) ''range'') of
               None \<Rightarrow> ret (finish
                 \<lparr>ar_status = 200, ar_headers = [(''content-length'', decimal sz)], ar_body = Zeros sz\<rparr>)
             | Some (Inl e) \<Rightarrow> ret (invalid_range sz)
             | Some (Inr [r]) \<Rightarrow> ret (finish
                 \<lparr>ar_status = 206,
                  ar_headers = [(''content-length'', decimal (hr_len r)), (''content-range'', range_text sz r)],
                  ar_body = Zeros (hr_len r)\<rparr>)
             | Some (Inr rs) \<Rightarrow> ret (finish (multipart_zeros rs sz))))"

definition shutdown_handler ::
    "'n http_env \<Rightarrow> bool \<Rightarrow> string option \<Rightarrow> api_request \<Rightarrow> ('e, 's, api_response) app_act" where
  "shutdown_handler env can_stop reason rq =
     guarded env rq (
     let reason = replace_str ''/'' [] (the_default [] reason)
     in if hc_read_only (he_cfg env) \<and> reason = [] then raise (status_only 403)
        else seq (if can_stop then tell ShutdownRequested else ret ()) (ret (status_only 200)))"

definition echo_handler :: "'n http_env \<Rightarrow> ('e, 's, api_response) app_act" where
  "echo_handler env = ret (text_body ''text/plain; charset=utf-8'' 200 (he_version env))"

end
