(* ===== verification/HttpPlayback.thy ===== *)
theory HttpPlayback
  imports HttpHandlers
begin

text \<open>
  Streams, playback and playlists of \<open>app.rs\<close>, and the application around the handlers: routes,
  the HEAD filter, CORS, the WAF and the headers every answer gets. The header values that
  \<open>playback_headers\<close> unwraps (media types of the table, hexadecimal tags, dates) are valid ones.
  Routes of the parts that are not modelled (search, DLNA pages, the transcoder, WebDAV, static
  files) are the argument \<open>other\<close>.
\<close>

subsection \<open>Conditional requests\<close>

definition parse_u32 :: "string \<Rightarrow> nat option" where
  "parse_u32 s = Option.bind (parse_u64 s) as_u32"

definition view_time :: "int \<Rightarrow> nat" where
  "view_time t = (if t < 0 then 0 else nat t)"

definition file_etag :: "info_hash \<Rightarrow> string \<Rightarrow> string" where
  "file_etag h p = quoted_hex (info_hash_to_string h @ ''/'' @ p)"

definition weak_tag :: "string \<Rightarrow> string" where
  "weak_tag v = the_default (trim v) (strip_prefix (trim v) ''W/'')"

definition header_date :: "http_lib \<Rightarrow> req_headers \<Rightarrow> string \<Rightarrow> int option" where
  "header_date lib hs name = Option.bind (header_str lib hs name) (hl_parse_date lib)"

definition api_not_modified :: "http_lib \<Rightarrow> req_headers \<Rightarrow> string \<Rightarrow> int \<Rightarrow> bool" where
  "api_not_modified lib hs etag t =
     (case header_str lib hs ''if-none-match'' of
        Some v \<Rightarrow> list_ex (\<lambda>p. weak_tag p = etag \<or> weak_tag p = ''*'') (split_on CHR '','' v)
      | None \<Rightarrow>
          (case header_date lib hs ''if-modified-since'' of
             None \<Rightarrow> False | Some since \<Rightarrow> int (view_time t) \<le> since))"

definition precondition_failed :: "http_lib \<Rightarrow> req_headers \<Rightarrow> string \<Rightarrow> int \<Rightarrow> bool" where
  "precondition_failed lib hs etag t =
     (if (case header_str lib hs ''if-match'' of
            None \<Rightarrow> False
          | Some v \<Rightarrow> \<not> list_ex (\<lambda>p. trim p = etag \<or> trim p = ''*'') (split_on CHR '','' v))
      then True
      else case header_date lib hs ''if-unmodified-since'' of
             None \<Rightarrow> False | Some since \<Rightarrow> since < int (view_time t))"

definition if_range_matches :: "http_lib \<Rightarrow> string \<Rightarrow> string \<Rightarrow> int \<Rightarrow> bool" where
  "if_range_matches lib v etag t =
     (if starts_with v [CHR 0x22] then v = etag
      else case hl_parse_date lib v of None \<Rightarrow> False | Some since \<Rightarrow> int (view_time t) \<le> since)"

definition playback_headers ::
    "http_lib \<Rightarrow> req_headers \<Rightarrow> string \<Rightarrow> string \<Rightarrow> int \<Rightarrow> api_response \<Rightarrow> api_response" where
  "playback_headers lib hs mime etag t r =
     (let own = (if map_of (ar_headers r) ''content-type'' = None
                 then hm_insert ''content-type'' mime (ar_headers r) else ar_headers r);
          full = fold (\<lambda>(n, v). hm_insert n v)
            [(''connection'', ''close''),
             (''server'', ''TorrServer (Portable SDK for UPnP devices)''),
             (''etag'', etag),
             (''last-modified'', hl_fmt_date lib (view_time t)),
             (''x-stream-timeout'', ''30''),
             (''transfermode.dlna.org'', ''Streaming''),
             (''accept-ranges'', ''bytes'')] own
      in r\<lparr>ar_headers :=
           (if hs ''getcontentfeatures.dlna.org'' \<noteq> None
            then hm_insert ''contentfeatures.dlna.org''
                   ''DLNA.ORG_OP=01;DLNA.ORG_CI=0;DLNA.ORG_FLAGS=01700000000000000000000000000000'' full
            else full)\<rparr>)"

definition without_headers :: "string list \<Rightarrow> api_response \<Rightarrow> api_response" where
  "without_headers ns r = r\<lparr>ar_headers := fold hm_remove ns (ar_headers r)\<rparr>"

definition with_header :: "string \<Rightarrow> string \<Rightarrow> api_response \<Rightarrow> api_response" where
  "with_header n v r = r\<lparr>ar_headers := hm_insert n v (ar_headers r)\<rparr>"

subsection \<open>Playback\<close>

text \<open>\<open>touch_viewed\<close> keeps the stored position of the file, or stores 0.\<close>

definition touch_viewed ::
    "'n http_env \<Rightarrow> (nat \<Rightarrow> 's world) \<Rightarrow> info_hash \<Rightarrow> nat \<Rightarrow> ('e, 's, unit) app_act" where
  "touch_viewed env ws h i =
     bnd (call_core env (viewed_command_act (ws 10) (ListViewed (Some h)))) (\<lambda>vs.
     let t = (case List.find (\<lambda>v. vf_index v = i) vs of None \<Rightarrow> Finite 0 | Some v \<Rightarrow> vf_timecode v)
     in bnd (call_core env (viewed_command_act (ws 11) (SetViewed h i t))) (\<lambda>_. ret ()))"

definition api_boundary :: "info_hash \<Rightarrow> nat \<Rightarrow> string" where
  "api_boundary h i =
     info_hash_to_string h @ replicate (20 - length (decimal i)) CHR ''0'' @ decimal i"

definition multipart_response ::
    "info_hash \<Rightarrow> nat \<Rightarrow> nat \<Rightarrow> string \<Rightarrow> http_range list \<Rightarrow> bool \<Rightarrow> api_response" where
  "multipart_response h i full mime rs is_head =
     (let bnd = api_boundary h i
      in \<lparr>ar_status = 206,
          ar_headers = [(''content-type'', ''multipart/byteranges; boundary='' @ bnd),
                        (''content-length'', decimal (multipart_length bnd full mime rs))],
          ar_body = (if is_head then NoBody else PartsBody h i bnd full mime rs)\<rparr>)"

text \<open>
  What the body of several parts does when it is read: each part opens a playback, takes its range
  of what the reader \<open>read\<close> delivers, and drops it. The first failure ends the stream.
\<close>

fun parts_stream ::
    "'n http_env \<Rightarrow> ('e, 's) engine_ops \<Rightarrow> (nat \<Rightarrow> 's world) \<Rightarrow> (playback \<Rightarrow> http_stream) \<Rightarrow> info_hash \<Rightarrow> string
       \<Rightarrow> nat \<Rightarrow> nat \<Rightarrow> string \<Rightarrow> nat \<Rightarrow> http_range list \<Rightarrow> ('e, 's, http_stream) app_act" where
  "parts_stream env en ws rd h bnd1 i full mime n [] = ret (stream_of (str_bytes (closing bnd1)))"
| "parts_stream env en ws rd h bnd1 i full mime n (r # rs) =
     bnd (open_playback en (ws n)
            \<lparr>pq_hash = h, pq_index = i, pq_offset = hr_start r, pq_end = Some (hr_end r), pq_prefetch_offset = None\<rparr>)
       (\<lambda>p.
        let top = stream_of (str_bytes (part_head bnd1 full mime r)) in
        case p of
          Inl e \<Rightarrow> ret (stream_then top ([], Some (he_error env e)))
        | Inr p \<Rightarrow>
            (let part = stream_take (hr_len r) (rd p) in
             seq (close_playback p)
               (case snd part of
                  Some e \<Rightarrow> ret (stream_then top part)
                | None \<Rightarrow>
                    bnd (parts_stream env en ws rd h bnd1 i full mime (n + 1) rs) (\<lambda>rest.
                    ret (stream_then top (stream_then part (stream_then (stream_of (str_bytes CRLF)) rest)))))))"

definition asked_ranges :: "http_lib \<Rightarrow> req_headers \<Rightarrow> string \<Rightarrow> int \<Rightarrow> string option" where
  "asked_ranges lib hs etag t =
     (if (case header_str lib hs ''if-range'' of
            None \<Rightarrow> False | Some v \<Rightarrow> \<not> if_range_matches lib v etag t)
      then None else header_str lib hs ''range'')"

text \<open>A body that reads one playback; a HEAD request drops it at once.\<close>

definition reader_response ::
    "'n http_env \<Rightarrow> ('e, 's) engine_ops \<Rightarrow> 's world \<Rightarrow> playback_request \<Rightarrow> bool \<Rightarrow> nat
       \<Rightarrow> (api_body \<Rightarrow> api_response) \<Rightarrow> ('e, 's, api_response) app_act" where
  "reader_response env en w pq is_head len mk =
     bnd (try_playback env en w pq) (\<lambda>p.
     if is_head then seq (close_playback p) (ret (mk NoBody)) else ret (mk (ReaderBody p len)))"

definition ranges_response ::
    "'n http_env \<Rightarrow> ('e, 's) engine_ops \<Rightarrow> 's world \<Rightarrow> info_hash \<Rightarrow> torrent_file_view \<Rightarrow> string \<Rightarrow> bool
       \<Rightarrow> http_range list option \<Rightarrow> ('e, 's, api_response) app_act" where
  "ranges_response env en w h f mime is_head ranges =
     (let sz = fv_length f; i = fv_id f;
          pq = (\<lambda>off e. \<lparr>pq_hash = h, pq_index = i, pq_offset = off, pq_end = Some e,
                         pq_prefetch_offset = None\<rparr>) in
      case ranges of
        None \<Rightarrow>
          reader_response env en w (pq 0 (sat_sub sz 1)) is_head sz
            (\<lambda>b. \<lparr>ar_status = 200, ar_headers = [(''content-length'', decimal sz)], ar_body = b\<rparr>)
      | Some [r] \<Rightarrow>
          reader_response env en w (pq (hr_start r) (hr_end r)) is_head (hr_len r)
            (\<lambda>b. \<lparr>ar_status = 206,
                  ar_headers = [(''content-length'', decimal (hr_len r)), (''content-range'', range_text sz r)],
                  ar_body = b\<rparr>)
      | Some rs \<Rightarrow> ret (multipart_response h i sz mime rs is_head))"

text \<open>\<open>raw_playback\<close> from the file it has found on.\<close>

definition serve_file ::
    "'n http_env \<Rightarrow> ('e, 's) engine_ops \<Rightarrow> (nat \<Rightarrow> 's world) \<Rightarrow> info_hash \<Rightarrow> torrent_file_view \<Rightarrow> int \<Rightarrow> api_request
       \<Rightarrow> ('e, 's, api_response) app_act" where
  "serve_file env en ws h f t rq =
     (let lib = he_lib env; hs = aq_headers rq; etag = file_etag h (fv_path f);
          mime = the_default ''application/octet-stream'' (by_extension (hl_guess lib) (fv_path f));
          dress = playback_headers lib hs mime etag t in
      if precondition_failed lib hs etag t then
        ret (without_headers [''content-type''] (dress (status_only 412)))
      else if api_not_modified lib hs etag t then
        ret (without_headers [''content-type'', ''accept-ranges'', ''last-modified''] (dress (status_only 304)))
      else
        seq (touch_viewed env ws h (fv_id f)) (
        case map_option (\<lambda>s. range_parse s (fv_length f)) (asked_ranges lib hs etag t) of
          Some (Inl e) \<Rightarrow>
            ret (with_header ''x-content-type-options'' ''nosniff''
              (without_headers [''etag'', ''last-modified'']
                (dress (with_header ''content-range'' (''bytes */'' @ decimal (fv_length f))
                   (text_body ''text/plain; charset=utf-8'' 416
                     (''invalid range: failed to overlap'' @ NL))))))
        | Some (Inr rs) \<Rightarrow>
            bnd (ranges_response env en (ws 12) h f mime (aq_method rq = HEAD) (Some rs)) (\<lambda>r. ret (dress r))
        | None \<Rightarrow>
            bnd (ranges_response env en (ws 12) h f mime (aq_method rq = HEAD) None) (\<lambda>r. ret (dress r))))"

definition too_large :: "'n http_config \<Rightarrow> nat \<Rightarrow> nat option" where
  "too_large cfg len =
     (case hc_max_stream cfg of None \<Rightarrow> None | Some limit \<Rightarrow> if limit < len then Some limit else None)"

definition raw_playback ::
    "'n http_env \<Rightarrow> ('e, 's) engine_ops \<Rightarrow> (nat \<Rightarrow> 's world) \<Rightarrow> torrent_view \<Rightarrow> nat \<Rightarrow> api_request
       \<Rightarrow> ('e, 's, api_response) app_act" where
  "raw_playback env en ws v i rq =
     (case view_hash v of
        None \<Rightarrow> raise (status_only 500)
      | Some h \<Rightarrow>
          (case List.find (\<lambda>f. fv_id f = i) (tv_file_stats v) of
             None \<Rightarrow> raise (json_bad_request env (''file with id '' @ decimal i @ '' not found''))
           | Some f \<Rightarrow>
               (case too_large (he_cfg env) (fv_length f) of
                  Some limit \<Rightarrow>
                    raise (api_go_http_error 403
                      (''file size exceeded max allowed '' @ decimal limit @ '' bytes''))
                | None \<Rightarrow> serve_file env en ws h f (tv_timestamp v) rq)))"

end
