(* ===== verification/HttpRouter.thy ===== *)
theory HttpRouter
  imports HttpPlayback
begin

text \<open>
  The routes that clients play from (\<open>/stream\<close>, \<open>/play\<close>, \<open>/playlist\<close>) and the application: the table
  of routes, the HEAD filter, CORS, the WAF, and the headers every answer gets. The routes of parts
  that are not modelled (search, Media Station X, the transcoder, WebDAV, web files, metrics) are
  the argument \<open>other\<close> of the application.
\<close>

subsection \<open>Playlists\<close>

definition m3u_response :: "'n http_env \<Rightarrow> string \<Rightarrow> string \<Rightarrow> int \<Rightarrow> string \<Rightarrow> api_response" where
  "m3u_response env name etag t body =
     (let disposition = ''attachment; filename='' @ [CHR 0x22] @ name @ [CHR 0x22]
      in if hl_value_ok (he_lib env) disposition then
           \<lparr>ar_status = 200,
            ar_headers =
              [(''content-type'', ''audio/x-mpegurl''), (''connection'', ''close''), (''etag'', etag),
               (''last-modified'', hl_fmt_date (he_lib env) (view_time t)),
               (''content-disposition'', disposition), (''accept-ranges'', ''bytes''),
               (''content-length'', decimal (length body))],
            ar_body = Text body\<rparr>
         else status_only 500)"

definition individual_playlist ::
    "'n http_env \<Rightarrow> (nat \<Rightarrow> 's world) \<Rightarrow> torrent_view \<Rightarrow> string \<Rightarrow> string option \<Rightarrow> bool \<Rightarrow> nat option
       \<Rightarrow> api_request \<Rightarrow> ('e, 's, api_response) app_act" where
  "individual_playlist env ws v base fname from_last start_index rq =
     bnd (call_core env (viewed_command_act (ws 20) (ListViewed (view_hash v)))) (\<lambda>viewed.
     let name = playlist_name fname (the_default (tv_title v) (tv_name v));
         etag = m3u_etag (the_default [] (tv_hash v)) name
     in ret (if api_not_modified (he_lib env) (aq_headers rq) etag (tv_timestamp v)
             then \<lparr>ar_status = 304, ar_headers = [(''etag'', etag)], ar_body = NoBody\<rparr>
             else m3u_response env name etag (tv_timestamp v)
                    (m3u_one v base from_last start_index viewed)))"

definition base_of :: "'n http_env \<Rightarrow> api_request \<Rightarrow> string" where
  "base_of env rq =
     public_base (he_lib env) (he_ip env) (he_cfg env) (aq_peer rq) (aq_headers rq) (aq_scheme rq)"

definition query_index :: "(string \<rightharpoonup> string) \<Rightarrow> nat option" where
  "query_index q = Option.bind (q ''index'') parse_u32"

text \<open>The torrent an \<open>Add\<close> answers with, or the early return \<open>failed\<close>.\<close>

definition added_torrent ::
    "('e, 's) engine_ops \<Rightarrow> 's world \<Rightarrow> add_request \<Rightarrow> (coord_error \<Rightarrow> api_response) \<Rightarrow> nat
       \<Rightarrow> ('e, 's, torrent_view) app_act" where
  "added_torrent en w rq failed none_status =
     bnd (ask_core (torrents_command en w (AddCmd rq))) (\<lambda>r.
     case r of
       Inl e \<Rightarrow> raise (failed e)
     | Inr (TorrentReply (Some v)) \<Rightarrow> ret v
     | Inr _ \<Rightarrow> raise (status_only none_status))"

definition playlist_handler ::
    "'n http_env \<Rightarrow> ('e, 's) engine_ops \<Rightarrow> (nat \<Rightarrow> 's world) \<Rightarrow> string option \<Rightarrow> api_request
       \<Rightarrow> ('e, 's, api_response) app_act" where
  "playlist_handler env en ws fname rq =
     (let q = query_of env rq in
      case q ''hash'' of
        None \<Rightarrow> raise (status_only 400)
      | Some t \<Rightarrow>
          (case info_hash_from_str t of
             Inl e \<Rightarrow> raise (status_only 400)
           | Inr h \<Rightarrow>
               bnd (added_torrent en (ws 0) (add_request_default\<lparr>rq_link := info_hash_to_string h\<rparr>)
                      (\<lambda>_. status_only 404) 404) (\<lambda>v.
               individual_playlist env ws v (base_of env rq) fname (query_has q ''fromlast'') (query_index q) rq)))"

definition playlist_all_handler ::
    "'n http_env \<Rightarrow> ('e, 's) engine_ops \<Rightarrow> (nat \<Rightarrow> 's world) \<Rightarrow> api_request \<Rightarrow> ('e, 's, api_response) app_act" where
  "playlist_all_handler env en ws rq =
     guarded env rq (
     bnd (call_core env (torrents_command en (ws 0) ListCmd)) (\<lambda>reply.
     bnd (call_core env (settings_command_act en (ws 1) GetSettings)) (\<lambda>st.
     let q = query_of env rq;
         vs = (case reply of ListReply vs \<Rightarrow> vs | _ \<Rightarrow> [])
     in ret (m3u_response env ''all.m3u'' (m3u_etag (concat (List.map_filter tv_hash vs)) ''all.m3u'') 0
               (m3u_all vs (base_of env rq) (merge_all_m3u st) (q ''category'') (q ''search''))))))"

subsection \<open>Streams\<close>

definition shareable_link_exists ::
    "('e, 's) engine_ops \<Rightarrow> 's world \<Rightarrow> string \<Rightarrow> ('e, 's, bool) app_act" where
  "shareable_link_exists en w link =
     (case link_info_hash (wo_zlib w) link of
        None \<Rightarrow> ret False
      | Some h \<Rightarrow>
          bnd (ask_core (torrents_command en w (GetCmd h))) (\<lambda>r.
          ret (case r of Inr (TorrentReply (Some v)) \<Rightarrow> True | _ \<Rightarrow> False)))"

definition locked_out :: "'n http_env \<Rightarrow> api_request \<Rightarrow> bool" where
  "locked_out env rq = (auth_enabled (he_cfg env) \<and> \<not> management_authorized env rq)"

text \<open>Who may stream: a client with credentials, or anyone who plays or lists a torrent known already.\<close>

definition stream_allowed ::
    "'n http_env \<Rightarrow> ('e, 's) engine_ops \<Rightarrow> 's world \<Rightarrow> string \<Rightarrow> bool \<Rightarrow> api_request \<Rightarrow> ('e, 's, unit) app_act" where
  "stream_allowed env en w link shares rq =
     (if \<not> locked_out env rq then ret ()
      else if \<not> shares then raise api_unauthorized
      else bnd (shareable_link_exists en w link) (\<lambda>known.
           if known then ret () else raise api_unauthorized))"

definition preload ::
    "'n http_env \<Rightarrow> ('e, 's) engine_ops \<Rightarrow> 's world \<Rightarrow> torrent_view \<Rightarrow> nat \<Rightarrow> ('e, 's, unit) app_act" where
  "preload env en w v i =
     (case view_hash v of
        None \<Rightarrow> raise (status_only 500)
      | Some h \<Rightarrow>
          bnd (try_playback env en w
                 \<lparr>pq_hash = h, pq_index = i, pq_offset = 0, pq_end = Some 0, pq_prefetch_offset = Some 0\<rparr>)
            close_playback)"

definition current_view ::
    "('e, 's) engine_ops \<Rightarrow> 's world \<Rightarrow> torrent_view \<Rightarrow> ('e, 's, torrent_view) app_act" where
  "current_view en w v =
     (case view_hash v of
        None \<Rightarrow> ret v
      | Some h \<Rightarrow>
          bnd (ask_core (torrents_command en w (GetCmd h))) (\<lambda>r.
          ret (case r of Inr (TorrentReply (Some u)) \<Rightarrow> u | _ \<Rightarrow> v)))"

definition stream_request :: "(string \<rightharpoonup> string) \<Rightarrow> string \<Rightarrow> add_request" where
  "stream_request q link =
     \<lparr>rq_link = link, rq_title = query_text q ''title'', rq_poster = query_text q ''poster'',
      rq_category = query_text q ''category'', rq_data = [], rq_save_to_db = query_has q ''save''\<rparr>"

definition stream_handler ::
    "'n http_env \<Rightarrow> ('e, 's) engine_ops \<Rightarrow> (nat \<Rightarrow> 's world) \<Rightarrow> string option \<Rightarrow> api_request
       \<Rightarrow> ('e, 's, api_response) app_act" where
  "stream_handler env en ws fname rq =
     (let q = query_of env rq; link = query_text q ''link'';
          plays = query_has q ''play''; lists = query_has q ''m3u'';
          index = the_default 1 (query_index q) in
      if link = [] then raise (json_bad_request env ''link should not be empty'')
      else
        seq (stream_allowed env en (ws 0) link (plays \<or> lists) rq) (
        bnd (added_torrent en (ws 1) (stream_request q link) (api_lifecycle env) 500) (\<lambda>v.
        seq (if query_has q ''preload'' then preload env en (ws 2) v index else ret ()) (
        if query_has q ''stat'' then
          bnd (current_view en (ws 3) v) (\<lambda>u. ret (json_response env (TorrentDoc u)))
        else if lists then
          individual_playlist env ws v (base_of env rq) fname (query_has q ''fromlast'') (query_index q) rq
        else if plays then raw_playback env en ws v index rq
        else ret (status_only 200)))))"

text \<open>\<open>str::parse::<i64>\<close>.\<close>

definition parse_i64 :: "string \<Rightarrow> int option" where
  "parse_i64 s =
     (let neg = starts_with s ''-''; ds = (if neg then tl s else s)
      in if neg \<and> starts_with ds ''+'' then None
         else case parse_u64 ds of
                None \<Rightarrow> None
              | Some n \<Rightarrow>
                  if neg then (if n \<le> 2 ^ 63 then Some (- int n) else None)
                  else (if n < 2 ^ 63 then Some (int n) else None))"

definition play_index :: "torrent_view \<Rightarrow> string \<Rightarrow> nat option" where
  "play_index v s =
     (case tv_file_stats v of
        [f] \<Rightarrow> Some (fv_id f)
      | _ \<Rightarrow>
          (case parse_i64 s of
             None \<Rightarrow> None
           | Some n \<Rightarrow>
               if n = - 1 then None
               else Some (if 0 \<le> n \<and> n < int U32 then nat n else U32 - 1)))"

definition play_handler ::
    "'n http_env \<Rightarrow> ('e, 's) engine_ops \<Rightarrow> (nat \<Rightarrow> 's world) \<Rightarrow> string \<Rightarrow> string \<Rightarrow> api_request
       \<Rightarrow> ('e, 's, api_response) app_act" where
  "play_handler env en ws hash_text index_text rq =
     (case info_hash_from_str hash_text of
        Inl e \<Rightarrow> raise (status_only 500)
      | Inr h \<Rightarrow>
          bnd (ask_core (torrents_command en (ws 0) (GetCmd h))) (\<lambda>r.
          case r of
            Inr (TorrentReply (Some _)) \<Rightarrow>
              bnd (added_torrent en (ws 1) (add_request_default\<lparr>rq_link := info_hash_to_string h\<rparr>)
                     (\<lambda>_. status_only 500) 500) (\<lambda>v.
              case play_index v index_text of
                None \<Rightarrow> raise (status_only 400)
              | Some i \<Rightarrow> raw_playback env en ws v i rq)
          | _ \<Rightarrow> raise (if locked_out env rq then api_unauthorized else status_only 500)))"

subsection \<open>Routes\<close>

datatype route =
    EchoRoute | TorrentsRoute | UploadRoute | SettingsRoute | ViewedRoute | CacheRoute | GetWafRoute
  | SetWafRoute | StreamRoute "string option" | PlayRoute string string | PlaylistRoute "string option"
  | PlaylistAllRoute | MagnetsRoute | GetStorageRoute | SetStorageRoute | TmdbRoute | DownloadRoute string
  | ShutdownRoute "string option" | OtherRoute | MissingRoute

definition is_post :: "http_method \<Rightarrow> bool" where
  "is_post m = (m = OtherMethod ''POST'')"

definition is_get :: "http_method \<Rightarrow> bool" where
  "is_get m = (m = GET \<or> m = HEAD)"

text \<open>What a wildcard matches: the rest of the path after a prefix, if it is not empty.\<close>

definition under :: "string \<Rightarrow> string \<Rightarrow> string option" where
  "under prefix p =
     (case strip_prefix p prefix of None \<Rightarrow> None | Some t \<Rightarrow> if t = [] then None else Some t)"

definition when_post :: "http_method \<Rightarrow> route \<Rightarrow> route" where
  "when_post m r = (if is_post m then r else MissingRoute)"

definition when_get :: "http_method \<Rightarrow> route \<Rightarrow> route" where
  "when_get m r = (if is_get m then r else MissingRoute)"

text \<open>The routes whose first segment is fixed and that take no parameter.\<close>

definition plain_route :: "http_method \<Rightarrow> string \<Rightarrow> route option" where
  "plain_route m p =
     (if p = ''/echo'' then Some (when_get m EchoRoute)
      else if p = ''/torrents'' then Some (when_post m TorrentsRoute)
      else if p = ''/torrent/upload'' then Some (when_post m UploadRoute)
      else if p = ''/settings'' then Some (when_post m SettingsRoute)
      else if p = ''/viewed'' then Some (when_post m ViewedRoute)
      else if p = ''/cache'' then Some (when_post m CacheRoute)
      else if p = ''/waf'' then Some (if is_post m then SetWafRoute else when_get m GetWafRoute)
      else if p = ''/stream'' \<or> p = ''/stream/'' then Some (when_get m (StreamRoute None))
      else if p = ''/playlist'' \<or> p = ''/playlist/'' then Some (when_get m (PlaylistRoute None))
      else if p = ''/playlistall/all.m3u'' then Some (when_get m PlaylistAllRoute)
      else if p = ''/magnets'' then Some (when_get m MagnetsRoute)
      else if p = ''/storage/settings'' then
        Some (if is_post m then SetStorageRoute else when_get m GetStorageRoute)
      else if p = ''/tmdb/settings'' then Some (when_get m TmdbRoute)
      else if p = ''/shutdown'' then Some (when_get m (ShutdownRoute None))
      else None)"

definition segment :: "string \<Rightarrow> bool" where
  "segment s = (s \<noteq> [] \<and> CHR ''/'' \<notin> set s)"

definition parameter_route :: "(string \<Rightarrow> string) \<Rightarrow> http_method \<Rightarrow> string \<Rightarrow> route option" where
  "parameter_route decode m p =
     (case under ''/stream/'' p of
        Some t \<Rightarrow> Some (when_get m (StreamRoute (Some (decode t))))
      | None \<Rightarrow>
     (case under ''/playlist/'' p of
        Some t \<Rightarrow> Some (when_get m (PlaylistRoute (Some (decode t))))
      | None \<Rightarrow>
     (case under ''/shutdown/'' p of
        Some t \<Rightarrow> Some (when_get m (ShutdownRoute (Some (decode t))))
      | None \<Rightarrow>
     (case under ''/download/'' p of
        Some t \<Rightarrow> if segment t then Some (when_get m (DownloadRoute (decode t))) else None
      | None \<Rightarrow>
     (case Option.bind (under ''/play/'' p) (split_once CHR ''/'') of
        Some (h, i) \<Rightarrow>
          if segment h \<and> segment i then Some (when_get m (PlayRoute (decode h) (decode i))) else None
      | None \<Rightarrow> None)))))"

definition route_of :: "(string \<Rightarrow> string) \<Rightarrow> http_method \<Rightarrow> string \<Rightarrow> route" where
  "route_of decode m p =
     the_default OtherRoute (or_opt (plain_route m p) (parameter_route decode m p))"

definition dispatch ::
    "'n http_env \<Rightarrow> ('e, 's) engine_ops \<Rightarrow> bool \<Rightarrow> (api_request \<Rightarrow> ('e, 's, api_response) app_act)
       \<Rightarrow> (nat \<Rightarrow> 's world) \<Rightarrow> api_request \<Rightarrow> ('e, 's, api_response) app_act" where
  "dispatch env en can_stop other ws rq =
     (case route_of (he_decode env) (aq_method rq) (aq_path rq) of
        EchoRoute \<Rightarrow> echo_handler env
      | TorrentsRoute \<Rightarrow> torrents_handler env en ws rq
      | UploadRoute \<Rightarrow> upload_handler env en ws rq
      | SettingsRoute \<Rightarrow> settings_handler env en ws rq
      | ViewedRoute \<Rightarrow> viewed_handler env en ws rq
      | CacheRoute \<Rightarrow> cache_handler env en ws rq
      | GetWafRoute \<Rightarrow> get_waf env en ws rq
      | SetWafRoute \<Rightarrow> set_waf env en ws rq
      | StreamRoute fname \<Rightarrow> stream_handler env en ws fname rq
      | PlayRoute h i \<Rightarrow> play_handler env en ws h i rq
      | PlaylistRoute fname \<Rightarrow> playlist_handler env en ws fname rq
      | PlaylistAllRoute \<Rightarrow> playlist_all_handler env en ws rq
      | MagnetsRoute \<Rightarrow> magnets_handler env en ws rq
      | GetStorageRoute \<Rightarrow> get_storage env en ws rq
      | SetStorageRoute \<Rightarrow> set_storage env en ws rq
      | TmdbRoute \<Rightarrow> tmdb_handler env en ws rq
      | DownloadRoute sz \<Rightarrow> download_handler env sz rq
      | ShutdownRoute reason \<Rightarrow> shutdown_handler env can_stop reason rq
      | OtherRoute \<Rightarrow> other rq
      | MissingRoute \<Rightarrow> raise http_not_found)"

subsection \<open>The layers around the routes\<close>

definition head_under :: "string \<Rightarrow> string \<Rightarrow> bool" where
  "head_under prefix p = (p = prefix \<or> starts_with p (prefix @ ''/''))"

definition head_routed :: "string \<Rightarrow> bool" where
  "head_routed p =
     (head_under ''/stream'' p \<or> starts_with p ''/play/'' \<or> head_under ''/dav'' p \<or> head_under ''/mcp'' p
      \<or> p = ''/msx/proxy'' \<or> starts_with p ''/files/'')"

definition head_only_where_routed ::
    "api_request \<Rightarrow> ('e, 's, api_response) app_act \<Rightarrow> ('e, 's, api_response) app_act" where
  "head_only_where_routed rq inner =
     (if aq_method rq = HEAD \<and> \<not> head_routed (aq_path rq) then ret http_not_found else inner)"

text \<open>A handler's early return is its response.\<close>

definition settle :: "('e, 's, api_response) app_act \<Rightarrow> ('e, 's, api_response) app_act" where
  "settle m = bnd (attempt m) (\<lambda>r. ret (case r of Inl x \<Rightarrow> x | Inr x \<Rightarrow> x))"

definition cors_headers :: "req_headers \<Rightarrow> resp_headers" where
  "cors_headers hs =
     [(''access-control-allow-origin'', ''*''),
      (''access-control-allow-methods'', ''GET,POST,PUT,PATCH,HEAD,OPTIONS,DELETE''),
      (''access-control-allow-headers'',
       ''Origin,Content-Length,Content-Type,X-Requested-With,Accept,Authorization,Mcp-Protocol-Version,''
       @ ''Mcp-Session-Id,Last-Event-Id,Mcp-Method,Mcp-Name''),
      (''access-control-max-age'', ''43200'')]
     @ (if hs ''access-control-request-private-network'' = Some ''true''
        then [(''access-control-allow-private-network'', ''true'')] else [])"

definition cors :: "api_request \<Rightarrow> ('e, 's, api_response) app_act \<Rightarrow> ('e, 's, api_response) app_act" where
  "cors rq inner =
     (let hs = aq_headers rq in
      if aq_method rq = OtherMethod ''OPTIONS'' \<and> hs ''origin'' \<noteq> None
         \<and> hs ''access-control-request-method'' \<noteq> None
      then ret \<lparr>ar_status = 204, ar_headers = cors_headers hs, ar_body = NoBody\<rparr>
      else bnd inner (\<lambda>r.
             ret (if hs ''origin'' \<noteq> None then with_header ''access-control-allow-origin'' ''*'' r else r)))"

definition waf_layer ::
    "'n http_env \<Rightarrow> 's world \<Rightarrow> api_request \<Rightarrow> ('e, 's, api_response) app_act \<Rightarrow> ('e, 's, api_response) app_act" where
  "waf_layer env w rq inner =
     bnd (ask_core (waf_command_act w GetWaf)) (\<lambda>r.
     case r of
       Inl e \<Rightarrow> ret (status_only 500)
     | Inr wl \<Rightarrow>
         if waf_blocks (he_lib env) (he_ip env) (waf_parse (he_ip env) wl) (aq_peer rq) (aq_headers rq)
         then ret (text_body ''text/plain; charset=utf-8'' 403 ''Banned'')
         else inner)"

definition final_headers :: "api_response \<Rightarrow> api_response" where
  "final_headers r =
     with_header ''connection'' ''close''
       (if ar_status r = 404 then without_headers [''allow''] r else r)"

definition http_app ::
    "'n http_env \<Rightarrow> ('e, 's) engine_ops \<Rightarrow> bool \<Rightarrow> (api_request \<Rightarrow> ('e, 's, api_response) app_act)
       \<Rightarrow> (nat \<Rightarrow> 's world) \<Rightarrow> api_request \<Rightarrow> ('e, 's, api_response) app_act" where
  "http_app env en can_stop other ws rq =
     bnd (waf_layer env (ws 100) rq
            (cors rq (head_only_where_routed rq (settle (dispatch env en can_stop other ws rq)))))
       (\<lambda>r. ret (final_headers r))"

end
