(* ===== verification/HttpServes.thy ===== *)
theory HttpServes
  imports HttpRouter CoordProps
begin

text \<open>
  Every HTTP request is a sequence of steps of the running service, so what holds of the service in
  every reachable state holds behind the HTTP server. \<open>quiet\<close> is the judgement for the parts of a
  handler that leave no reader open, \<open>serves\<close> the one for handlers: the readers they leave open are
  those their response reads.
\<close>

subsection \<open>Runs\<close>

lemma service_run_trans: "service_run en b c \<Longrightarrow> service_run en a b \<Longrightarrow> service_run en a c"
  by (induction rule: service_run.induct) (auto intro: service_run.Step)

lemma run_command: "client_act en w cmd s = (s', r) \<Longrightarrow> service_run en (s, rs) (s', rs)"
  by (rule service_run.Step [OF service_run.Start service_step.Command])

lemma done_with_state: "fst (done_with x m s) = fst (m s)"
  by (simp add: done_with_def bnd_def split: prod.split sum.split)

lemma run_done:
  assumes "client_act en w cmd = done_with () m" "m s = (s', r)"
  shows "service_run en (s, rs) (s', rs)"
proof -
  have "fst (client_act en w cmd s) = s'" using assms by (simp add: done_with_state)
  then show ?thesis by (metis run_command prod.collapse)
qed

definition served :: "('e, 's) app \<Rightarrow> ('e, 's) service" where
  "served a = (ap_core a, ap_readers a)"

abbreviation fits :: "('e, 's) app \<Rightarrow> bool" where
  "fits a \<equiv> length (ap_readers a) + 3 < U64"

definition body_readers :: "api_response \<Rightarrow> playback_reader list" where
  "body_readers r = (case ar_body r of ReaderBody p n \<Rightarrow> [pl_reader p] | _ \<Rightarrow> [])"

definition answer :: "api_response + api_response \<Rightarrow> api_response" where
  "answer r = (case r of Inl x \<Rightarrow> x | Inr x \<Rightarrow> x)"

lemma answer_simps [simp]: "answer (Inl x) = x" "answer (Inr x) = x"
  by (simp_all add: answer_def)

definition quiet :: "('e, 's) engine_ops \<Rightarrow> ('e, 's, 'a) app_act \<Rightarrow> bool" where
  "quiet en m \<longleftrightarrow>
     (\<forall>a a' r. fits a \<longrightarrow> m a = (a', r) \<longrightarrow>
        service_run en (served a) (served a') \<and> ap_readers a' = ap_readers a
        \<and> (\<forall>x. r = Inl x \<longrightarrow> body_readers x = []))"

definition serves :: "('e, 's) engine_ops \<Rightarrow> ('e, 's, api_response) app_act \<Rightarrow> bool" where
  "serves en m \<longleftrightarrow>
     (\<forall>a a' r. fits a \<longrightarrow> m a = (a', r) \<longrightarrow>
        service_run en (served a) (served a') \<and> ap_readers a' = ap_readers a @ body_readers (answer r))"

lemma quietD:
  assumes "quiet en m" "fits a" "m a = (a', r)"
  shows "service_run en (served a) (served a')" "ap_readers a' = ap_readers a" "r = Inl x \<Longrightarrow> body_readers x = []"
  using assms unfolding quiet_def by blast+

lemma servesD:
  assumes "serves en m" "fits a" "m a = (a', r)"
  shows "service_run en (served a) (served a')" "ap_readers a' = ap_readers a @ body_readers (answer r)"
  using assms unfolding serves_def by blast+

named_theorems serving \<open>introduction rules for quiet and serves\<close>

subsection \<open>Rules\<close>

lemma quiet_same:
  assumes "\<And>a. served (fst (m a)) = served a" "\<And>a x. snd (m a) = Inl x \<Longrightarrow> body_readers x = []"
  shows "quiet en m"
  unfolding quiet_def
proof (intro allI impI)
  fix a a' r
  assume m: "m a = (a', r)"
  then have same: "served a' = served a" using assms(1) [of a] by simp
  moreover have "r = Inl x \<longrightarrow> body_readers x = []" for x using assms(2) [of a x] m by simp
  ultimately show "service_run en (served a) (served a') \<and> ap_readers a' = ap_readers a
      \<and> (\<forall>x. r = Inl x \<longrightarrow> body_readers x = [])"
    by (auto simp: served_def intro: service_run.Start)
qed

lemma quiet_ret [serving]: "quiet en (ret x)"
  by (rule quiet_same) simp_all

lemma quiet_raise [serving]: "body_readers x = [] \<Longrightarrow> quiet en (raise x)"
  by (rule quiet_same) simp_all

lemma quiet_tell [serving]: "quiet en (tell n)"
  by (rule quiet_same) (simp_all add: tell_def served_def)

lemma quiet_bnd [serving]:
  assumes "quiet en m" "\<And>x. quiet en (f x)"
  shows "quiet en (bnd m f)"
  unfolding quiet_def
proof (intro allI impI)
  fix a a' r
  assume a: "fits a" "bnd m f a = (a', r)"
  obtain b q where m: "m a = (b, q)" by fastforce
  note first = quietD [OF assms(1) a(1) m]
  show "service_run en (served a) (served a') \<and> ap_readers a' = ap_readers a
      \<and> (\<forall>x. r = Inl x \<longrightarrow> body_readers x = [])"
  proof (cases q)
    case (Inl e)
    then show ?thesis using a(2) m first(1,2) first(3) [of e] by auto
  next
    case (Inr x)
    then have f: "f x b = (a', r)" using a(2) m by simp
    have "fits b" using a(1) first(2) by simp
    note rest = quietD [OF assms(2) this f]
    have "service_run en (served a) (served a')" by (rule service_run_trans [OF rest(1) first(1)])
    moreover have "r = Inl y \<longrightarrow> body_readers y = []" for y using rest(3) by blast
    ultimately show ?thesis using rest(2) first(2) by simp
  qed
qed

lemma quiet_cases [serving]:
  "(b \<Longrightarrow> quiet en m) \<Longrightarrow> (\<not> b \<Longrightarrow> quiet en n) \<Longrightarrow> quiet en (if b then m else n)"
  "(o1 = None \<Longrightarrow> quiet en m) \<Longrightarrow> (\<And>x. o1 = Some x \<Longrightarrow> quiet en (k x)) \<Longrightarrow> quiet en (case_option m k o1)"
  "(\<And>e. r = Inl e \<Longrightarrow> quiet en (k1 e)) \<Longrightarrow> (\<And>x. r = Inr x \<Longrightarrow> quiet en (k2 x)) \<Longrightarrow> quiet en (case_sum k1 k2 r)"
  "(\<And>x y. p = (x, y) \<Longrightarrow> quiet en (k3 x y)) \<Longrightarrow> quiet en (case_prod k3 p)"
  by (auto split: option.split sum.split prod.split)

lemma quiet_Let [serving]: "quiet en (f x) \<Longrightarrow> quiet en (Let x f)"
  by (simp add: Let_def)

lemma quiet_for_each [serving]: "(\<And>x. quiet en (f x)) \<Longrightarrow> quiet en (for_each xs f)"
  by (induction xs) (auto intro: serving)

lemma quiet_ask:
  assumes "\<And>s s' r rs. m s = (s', r) \<Longrightarrow> service_run en (s, rs) (s', rs)"
  shows "quiet en (ask_core m)"
  unfolding quiet_def ask_core_def served_def using assms by (auto split: prod.splits)

lemma quiet_asks [serving]:
  "quiet en (ask_core (torrents_command en w cmd))" "quiet en (ask_core (settings_command_act en w sc))"
  "quiet en (ask_core (viewed_command_act w vc))" "quiet en (ask_core (cache_command_act cc))"
  "quiet en (ask_core (waf_command_act w wc))"
  by (rule quiet_ask, erule run_done [OF client_act.simps(1)], rule quiet_ask, erule run_done [OF client_act.simps(2)],
      rule quiet_ask, erule run_done [OF client_act.simps(3)], rule quiet_ask, erule run_done [OF client_act.simps(4)],
      rule quiet_ask, erule run_done [OF client_act.simps(5)])

lemma no_reader [simp]:
  "body_readers (status_only st) = []" "body_readers http_not_found = []" "body_readers api_unauthorized = []"
  "body_readers (json_error env st t) = []" "body_readers (json_bad_request env t) = []"
  "body_readers (api_lifecycle env e) = []" "body_readers (read_only_refused env) = []"
  "body_readers (json_response env p) = []" "body_readers (text_body kind st t) = []"
  "body_readers (api_go_http_error st t) = []" "body_readers (invalid_range n) = []"
  "body_readers (multipart_zeros rs n) = []" "body_readers (m3u_response env t tag ts b) = []"
  "body_readers (multipart_response h i n t rs is_head) = []"
  by (auto simp: body_readers_def status_only_def http_not_found_def api_unauthorized_def json_error_def
      json_bad_request_def api_lifecycle_def read_only_refused_def json_response_def text_body_def
      api_go_http_error_def invalid_range_def multipart_zeros_def m3u_response_def multipart_response_def Let_def
      split: option.split)

lemma no_reader_body [simp]:
  "body_readers \<lparr>ar_status = st, ar_headers = hs, ar_body = NoBody\<rparr> = []"
  "body_readers \<lparr>ar_status = st, ar_headers = hs, ar_body = Text t\<rparr> = []"
  "body_readers \<lparr>ar_status = st, ar_headers = hs, ar_body = Zeros n\<rparr> = []"
  by (simp_all add: body_readers_def)

lemma same_reader [simp]:
  "body_readers (r\<lparr>ar_headers := names\<rparr>) = body_readers r"
  "body_readers (with_header n v r) = body_readers r" "body_readers (without_headers ns r) = body_readers r"
  "body_readers (playback_headers lib hs mime etag t r) = body_readers r" "body_readers (final_headers r) = body_readers r"
  by (simp_all add: body_readers_def with_header_def without_headers_def playback_headers_def final_headers_def Let_def)

lemma quiet_call [serving]: "quiet en (ask_core m) \<Longrightarrow> quiet en (call_core env m)"
  unfolding call_core_def by (intro serving) simp_all

lemma serves_ret [serving]: "body_readers x = [] \<Longrightarrow> serves en (ret x)"
  unfolding serves_def by (auto intro: service_run.Start)

lemma serves_raise [serving]: "body_readers x = [] \<Longrightarrow> serves en (raise x)"
  unfolding serves_def by (auto intro: service_run.Start)

lemma serves_bnd [serving]:
  assumes "quiet en m" "\<And>x. serves en (f x)"
  shows "serves en (bnd m f)"
  unfolding serves_def
proof (intro allI impI)
  fix a a' r
  assume a: "fits a" "bnd m f a = (a', r)"
  obtain b q where m: "m a = (b, q)" by fastforce
  note first = quietD [OF assms(1) a(1) m]
  show "service_run en (served a) (served a') \<and> ap_readers a' = ap_readers a @ body_readers (answer r)"
  proof (cases q)
    case (Inl e)
    then show ?thesis using a(2) m first(1,2) first(3) [of e] by auto
  next
    case (Inr x)
    then have f: "f x b = (a', r)" using a(2) m by simp
    have "fits b" using a(1) first(2) by simp
    note rest = servesD [OF assms(2) this f]
    show ?thesis using service_run_trans [OF rest(1) first(1)] rest(2) first(2) by simp
  qed
qed

lemma serves_then [serving]:
  assumes "serves en m" "\<And>x. body_readers (f x) = body_readers x"
  shows "serves en (bnd m (\<lambda>x. ret (f x)))"
  unfolding serves_def
proof (intro allI impI)
  fix a a' r
  assume a: "fits a" "bnd m (\<lambda>x. ret (f x)) a = (a', r)"
  obtain b q where m: "m a = (b, q)" by fastforce
  show "service_run en (served a) (served a') \<and> ap_readers a' = ap_readers a @ body_readers (answer r)"
    using servesD [OF assms(1) a(1) m] a(2) m assms(2) by (cases q) auto
qed

lemma serves_settle [serving]:
  assumes "serves en m"
  shows "serves en (settle m)"
  unfolding serves_def
proof (intro allI impI)
  fix a a' r
  assume a: "fits a" "settle m a = (a', r)"
  obtain b q where q: "m a = (b, q)" by fastforce
  then have "settle m a = (b, Inr (answer q))" by (simp add: settle_def answer_def)
  then have "a' = b" "r = Inr (answer q)" using a(2) by auto
  then show "service_run en (served a) (served a') \<and> ap_readers a' = ap_readers a @ body_readers (answer r)"
    using servesD [OF assms a(1) q] by simp
qed

lemma serves_cases [serving]:
  "(b \<Longrightarrow> serves en m) \<Longrightarrow> (\<not> b \<Longrightarrow> serves en n) \<Longrightarrow> serves en (if b then m else n)"
  "(o1 = None \<Longrightarrow> serves en m) \<Longrightarrow> (\<And>x. o1 = Some x \<Longrightarrow> serves en (k x)) \<Longrightarrow> serves en (case_option m k o1)"
  "(\<And>e. r = Inl e \<Longrightarrow> serves en (k1 e)) \<Longrightarrow> (\<And>x. r = Inr x \<Longrightarrow> serves en (k2 x)) \<Longrightarrow> serves en (case_sum k1 k2 r)"
  "(\<And>x y. p = (x, y) \<Longrightarrow> serves en (k3 x y)) \<Longrightarrow> serves en (case_prod k3 p)"
  by (auto split: option.split sum.split prod.split)

lemma serves_Let [serving]: "serves en (f x) \<Longrightarrow> serves en (Let x f)"
  by (simp add: Let_def)

lemma serves_guarded [serving]: "serves en m \<Longrightarrow> serves en (guarded env rq m)"
  unfolding guarded_def by (intro serving) simp_all

subsection \<open>Playback\<close>

lemma get_view_state: "fst (get_view en w h s) = s"
  using keepsD [OF keeps_queries(2) [of "\<lambda>t. t = s" en w h], of s] by (metis prod.collapse)

lemma playback_command_steps:
  assumes "playback_command en w pq s = (s', r)" "length rs + 3 < U64"
  shows "case r of Inl e \<Rightarrow> service_run en (s, rs) (s', rs)
                 | Inr p \<Rightarrow> service_run en (s, rs) (s', rs @ [pl_reader p])"
proof -
  obtain q where g: "get_view en w (pq_hash pq) s = (s, q)" by (metis get_view_state prod.collapse)
  show ?thesis
  proof (cases "\<exists>v f. q = Inr (Some v) \<and> List.find (\<lambda>f. fv_id f = pq_index pq) (tv_file_stats v) = Some f")
    case False
    then have "s' = s \<and> (\<exists>e. r = Inl e)"
      using assms(1) g by (auto simp: playback_command_def bnd_def split: sum.splits option.splits)
    then show ?thesis by (auto intro: service_run.Start)
  next
    case True
    then obtain v f where v: "q = Inr (Some v)" "List.find (\<lambda>f. fv_id f = pq_index pq) (tv_file_stats v) = Some f"
      by blast
    obtain t x where p: "play_with_prefetch en w (pq_hash pq) (pq_index pq) (pq_offset pq) (pq_end pq)
        (pq_prefetch_offset pq) s = (t, x)" by fastforce
    show ?thesis
    proof (cases x)
      case (Inl e)
      then have "s' = t" "r = Inl e" using assms(1) g v p by (simp_all add: playback_command_def)
      then show ?thesis
        using service_step.PlayFails [OF p [unfolded Inl] assms(2)] by (auto intro: service_run.Step [OF service_run.Start])
    next
      case (Inr rd)
      then have "s' = t" "\<exists>pl. r = Inr pl \<and> pl_reader pl = rd"
        using assms(1) g v p by (simp_all add: playback_command_def) auto
      then show ?thesis
        using service_step.Play [OF p [unfolded Inr] assms(2)] by (auto intro: service_run.Step [OF service_run.Start])
    qed
  qed
qed

lemma open_playback_steps:
  assumes "fits a" "open_playback en w pq a = (a', r)"
  obtains e where "r = Inr (Inl e)" "service_run en (served a) (served a')" "ap_readers a' = ap_readers a"
  | p where "r = Inr (Inr p)" "service_run en (served a) (served a')" "ap_readers a' = ap_readers a @ [pl_reader p]"
proof -
  obtain s x where c: "playback_command en w pq (ap_core a) = (s, x)" by fastforce
  note steps = playback_command_steps [OF c assms(1)]
  show ?thesis
  proof (cases x)
    case (Inl e)
    then have "a' = a\<lparr>ap_core := s\<rparr>" "r = Inr (Inl e)" using assms(2) c by (auto simp: open_playback_def)
    then show ?thesis using that(1) steps Inl by (simp add: served_def)
  next
    case (Inr p)
    then have "a' = a\<lparr>ap_core := s, ap_readers := ap_readers a @ [pl_reader p]\<rparr>" "r = Inr (Inr p)"
      using assms(2) c by (auto simp: open_playback_def)
    then show ?thesis using that(2) steps Inr by (simp add: served_def)
  qed
qed

lemma close_playback_steps:
  assumes "ap_readers a = rs @ [pl_reader p]"
  obtains a' where "close_playback p a = (a', Inr ())" "ap_readers a' = rs" "service_run en (served a) (served a')"
proof -
  obtain s r where d: "reader_drop (pl_reader p) (ap_core a) = (s, r)" by fastforce
  have "service_step en (ap_core a, rs @ pl_reader p # []) (s, rs @ [])" by (rule service_step.Close [OF d])
  then have "service_run en (served a) (s, rs)"
    using assms by (auto simp: served_def intro: service_run.intros)
  then show ?thesis using that assms d by (auto simp: close_playback_def served_def)
qed

lemma quiet_open_close [serving]:
  assumes "\<And>e. quiet en (f e)" "\<And>p. quiet en (g p)"
  shows "quiet en (bnd (open_playback en w pq) (\<lambda>r. case r of Inl e \<Rightarrow> f e | Inr p \<Rightarrow> seq (close_playback p) (g p)))"
  unfolding quiet_def
proof (intro allI impI)
  fix a a' r
  assume a: "fits a"
    and run: "bnd (open_playback en w pq) (\<lambda>r. case r of Inl e \<Rightarrow> f e | Inr p \<Rightarrow> seq (close_playback p) (g p)) a = (a', r)"
  obtain b q where m: "open_playback en w pq a = (b, q)" by fastforce
  show "service_run en (served a) (served a') \<and> ap_readers a' = ap_readers a
      \<and> (\<forall>x. r = Inl x \<longrightarrow> body_readers x = [])"
    using a m
  proof (cases rule: open_playback_steps)
    case (1 e)
    then have "f e b = (a', r)" "fits b" using run m a by simp_all
    from quietD [OF assms(1) this(2,1)] 1 show ?thesis by (metis service_run_trans)
  next
    case (2 p)
    obtain c where c: "close_playback p b = (c, Inr ())" "ap_readers c = ap_readers a" "service_run en (served b) (served c)"
      using close_playback_steps [OF 2(3)] by blast
    then have "g p c = (a', r)" "fits c" using run m a 2 by simp_all
    from quietD [OF assms(2) this(2,1)] 2 c show ?thesis by (metis service_run_trans)
  qed
qed

lemma try_playback_open:
  "bnd (try_playback env en w pq) f =
     bnd (open_playback en w pq) (\<lambda>r. case r of Inl e \<Rightarrow> raise (api_lifecycle env e) | Inr p \<Rightarrow> f p)"
  by (auto simp: try_playback_def bnd_def fun_eq_iff split: prod.split sum.split)

lemma quiet_try_close [serving]: "quiet en (bnd (try_playback env en w pq) close_playback)"
proof -
  have c: "close_playback = (\<lambda>p. seq (close_playback p) (ret ()))"
    by (auto simp: close_playback_def bnd_def fun_eq_iff)
  have "quiet en (bnd (open_playback en w pq)
      (\<lambda>r. case r of Inl e \<Rightarrow> raise (api_lifecycle env e) | Inr p \<Rightarrow> seq (close_playback p) (ret ())))"
    by (intro serving) simp_all
  then show ?thesis by (subst c) (simp only: try_playback_open)
qed

lemma quiet_preload [serving]: "quiet en (preload env en w v i)"
  unfolding preload_def by (cases "view_hash v") (auto intro: serving)

text \<open>A reader that the response reads stays open.\<close>

lemma serves_reader_response [serving]:
  assumes "\<And>b. ar_body (mk b) = b"
  shows "serves en (reader_response env en w pq is_head len mk)"
proof (cases is_head)
  case True
  have split: "bnd (try_playback env en w pq) (\<lambda>p. seq (close_playback p) (ret x)) =
      bnd (bnd (try_playback env en w pq) close_playback) (\<lambda>_. ret x)" for x :: api_response
    by (simp add: bnd_assoc)
  have "body_readers (mk NoBody) = []" by (simp add: body_readers_def assms)
  then show ?thesis using True by (simp add: reader_response_def split) (intro serving)
next
  case False
  show ?thesis
    unfolding serves_def
  proof (intro allI impI)
    fix a a' r
    assume a: "fits a" and run: "reader_response env en w pq is_head len mk a = (a', r)"
    obtain b q where m: "open_playback en w pq a = (b, q)" by fastforce
    show "service_run en (served a) (served a') \<and> ap_readers a' = ap_readers a @ body_readers (answer r)"
      using a m
    proof (cases rule: open_playback_steps)
      case (1 e)
      then show ?thesis using run m False by (auto simp: reader_response_def try_playback_open)
    next
      case (2 p)
      then have "a' = b" "r = Inr (mk (ReaderBody p len))"
        using run m False by (auto simp: reader_response_def try_playback_open)
      then show ?thesis using 2 by (simp add: body_readers_def assms)
    qed
  qed
qed

end
