(* ===== verification/HttpProps.thy ===== *)
theory HttpProps
  imports HttpServes
begin

text \<open>
  What the HTTP application promises: every request is a run of the service and leaves open only the
  reader of its body; without credentials nothing but the shared playback routes reaches the core.
\<close>

subsection \<open>Every handler serves\<close>

declare torrents_command.simps [simp del] settings_command_act.simps [simp del] viewed_command_act.simps [simp del]
  waf_command_act.simps [simp del]

lemma quiet_required_hash [serving]: "quiet en (required_hash env h)"
  unfolding required_hash_def by (intro serving) simp_all

lemma quiet_json_body [serving]: "quiet en (json_body env d rq)"
  unfolding json_body_def by (intro serving) (auto intro!: serving split: json_failure.split)

lemma quiet_commands [serving]:
  "quiet en (torrent_command_of env a)" "quiet en (settings_command_of env b)" "quiet en (viewed_command_of env c h)"
  unfolding torrent_command_of_def settings_command_of_def viewed_command_of_def viewed_hash_def viewed_index_def
  by (intro serving; simp)+

lemma quiet_removed_tasks [serving]: "quiet en (removed_tasks env en w cmd)"
  unfolding removed_tasks_def
  by (auto intro!: serving split: torrent_command.split torrent_reply.split sum.split)

lemma quiet_parts [serving]:
  "quiet en (remove_task env task)" "quiet en (announce_catalog env en w b)"
  "quiet en (touch_viewed env ws h i)" "quiet en (shareable_link_exists en w link)"
  "quiet en (stream_allowed env en w link shares rq)" "quiet en (current_view en w v)"
proof -
  show s: "quiet en (shareable_link_exists en w link)"
    unfolding shareable_link_exists_def by (intro serving)
  show "quiet en (stream_allowed env en w link shares rq)"
    unfolding stream_allowed_def by (intro serving s) simp_all
qed (unfold remove_task_def announce_catalog_def touch_viewed_def current_view_def; intro serving)+

lemma quiet_added [serving]:
  "(\<And>e. body_readers (failed e) = []) \<Longrightarrow> quiet en (added_torrent en w rq failed st)"
  unfolding added_torrent_def by (intro serving) (auto intro!: serving split: torrent_reply.split)

lemma quiet_upload_fields [serving]: "quiet en (upload_fields env fs opts files)"
  by (induction fs arbitrary: opts files)
    (auto intro!: serving split: sum.split upload_field.split)

lemma quiet_add_uploads [serving]: "quiet en (add_uploads env en ws n opts bs added)"
  by (induction bs arbitrary: n added)
    (auto intro!: serving split: torrent_reply.split)

lemma quiet_cache_report [serving]: "quiet en (cache_report env en ws h)"
  unfolding cache_report_def
  by (intro serving) (auto intro!: serving split: list.split torrent_reply.split)

lemma serves_management [serving]:
  "serves en (torrents_handler env en ws rq)" "serves en (upload_handler env en ws rq)"
  "serves en (settings_handler env en ws rq)" "serves en (viewed_handler env en ws rq)"
  "serves en (cache_handler env en ws rq)" "serves en (get_waf env en ws rq)" "serves en (set_waf env en ws rq)"
  "serves en (magnets_handler env en ws rq)" "serves en (get_storage env en ws rq)"
  "serves en (set_storage env en ws rq)" "serves en (tmdb_handler env en ws rq)"
  "serves en (shutdown_handler env can_stop reason rq)" "serves en (echo_handler env)"
  "serves en (playlist_all_handler env en ws rq)"
  unfolding torrents_handler_def upload_handler_def settings_handler_def viewed_handler_def cache_handler_def
    get_waf_def set_waf_def magnets_handler_def get_storage_def set_storage_def tmdb_handler_def
    shutdown_handler_def echo_handler_def playlist_all_handler_def Let_def
  by (intro serving; auto intro!: serving split: torrent_reply.split)+

lemma serves_download [serving]: "serves en (download_handler env t rq)"
  unfolding download_handler_def Let_def
  by (intro serving) (auto intro!: serving split: list.split)

lemma serves_playlists [serving]:
  "serves en (individual_playlist env ws v base fname fl si rq)" "serves en (playlist_handler env en ws fname rq)"
proof -
  show p: "serves en (individual_playlist env ws v base fname fl si rq)" for v base fname fl si
    unfolding individual_playlist_def Let_def by (intro serving) simp
  show "serves en (playlist_handler env en ws fname rq)"
    unfolding playlist_handler_def Let_def by (intro serving p) simp_all
qed

lemma serves_ranges [serving]: "serves en (ranges_response env en w h f mime hd1 rs)"
  unfolding ranges_response_def Let_def by (intro serving) (auto intro!: serving split: list.split)

lemma serves_file [serving]: "serves en (serve_file env en ws h f t rq)"
  unfolding serve_file_def Let_def by (intro serving) simp_all

lemma serves_playback [serving]:
  "serves en (raw_playback env en ws v i rq)" "serves en (play_handler env en ws ht it rq)"
  "serves en (stream_handler env en ws fname rq)"
proof -
  show p: "serves en (raw_playback env en ws v i rq)" for v i
    unfolding raw_playback_def by (intro serving) simp_all
  show "serves en (play_handler env en ws ht it rq)"
    unfolding play_handler_def by (intro serving) (auto intro!: serving p split: torrent_reply.split)
  show "serves en (stream_handler env en ws fname rq)"
    unfolding stream_handler_def Let_def by (intro serving p) simp_all
qed

lemma serves_dispatch:
  assumes "serves en (other rq)"
  shows "serves en (dispatch env en can_stop other ws rq)"
  unfolding dispatch_def using assms by (auto intro!: serving split: route.split)

lemma serves_layers [serving]:
  "serves en inner \<Longrightarrow> serves en (head_only_where_routed rq inner)"
  "serves en inner \<Longrightarrow> serves en (cors rq inner)"
  "serves en inner \<Longrightarrow> serves en (waf_layer env w rq inner)"
  unfolding head_only_where_routed_def cors_def waf_layer_def Let_def
  by (intro serving | assumption | simp)+

subsection \<open>Requests are runs of the service\<close>

definition answers :: "('e, 's, 'a) app_act \<Rightarrow> bool" where
  "answers m \<longleftrightarrow> (\<forall>a. \<exists>y. snd (m a) = Inr y)"

lemma answers_ret [serving]: "answers (ret x)"
  by (simp add: answers_def)

lemma answers_settle [serving]: "answers (settle m)"
  by (auto simp: answers_def settle_def bnd_def attempt_def split: prod.split)

lemma answers_ask [serving]: "answers (ask_core m)"
  by (auto simp: answers_def ask_core_def split: prod.split)

lemma answers_bnd [serving]:
  assumes "answers m" "\<And>x. answers (f x)"
  shows "answers (bnd m f)"
  unfolding answers_def
proof
  fix a
  obtain b x where "m a = (b, Inr x)" using assms(1) unfolding answers_def by (metis prod.collapse)
  moreover obtain y where "snd (f x b) = Inr y" using assms(2) unfolding answers_def by blast
  ultimately show "\<exists>y. snd (bnd m f a) = Inr y" by simp
qed

lemma answers_cases [serving]:
  "(b \<Longrightarrow> answers m) \<Longrightarrow> (\<not> b \<Longrightarrow> answers n) \<Longrightarrow> answers (if b then m else n)"
  "(\<And>e. r = Inl e \<Longrightarrow> answers (k1 e)) \<Longrightarrow> (\<And>x. r = Inr x \<Longrightarrow> answers (k2 x)) \<Longrightarrow> answers (case_sum k1 k2 r)"
  by (auto split: sum.split)

lemma app_answers: "answers (http_app env en can_stop other ws rq)"
  unfolding http_app_def waf_layer_def cors_def head_only_where_routed_def Let_def by (intro serving)

lemma app_serves: "serves en (other rq) \<Longrightarrow> serves en (http_app env en can_stop other ws rq)"
  unfolding http_app_def by (intro serving serves_dispatch) simp_all


text \<open>A server that asks for the password of one user, over the sample service.\<close>

definition demo_env :: "string http_env" where
  "demo_env =
     \<lparr>he_lib = \<lparr>hl_parse_date = (\<lambda>s. None), hl_fmt_date = (\<lambda>t. []), hl_to_str_ok = (\<lambda>s. True),
               hl_value_ok = (\<lambda>s. True), hl_guess = (\<lambda>s. None)\<rparr>,
      he_auth = \<lparr>al_base64 = Some, al_accounts = (\<lambda>s. None)\<rparr>,
      he_ip = \<lparr>ip_parse_net = (\<lambda>s. None), ip_net_has = (\<lambda>n a. False)\<rparr>,
      he_cfg = (http_config_default [])\<lparr>hc_credentials := Some [(''user'', ''secret'')]\<rparr>,
      he_decode = (\<lambda>s. s), he_json = (\<lambda>p. Some []), he_error = (\<lambda>e. []), he_hash_error = (\<lambda>s. []),
      he_too_long = [], he_torrent_action = (\<lambda>s. Inl JsonEof), he_settings_action = (\<lambda>s. Inl JsonEof),
      he_viewed_action = (\<lambda>s. Inl JsonEof), he_cache_action = (\<lambda>s. Inl JsonEof),
      he_waf_update = (\<lambda>s. Inl JsonEof), he_preferences = (\<lambda>s. Inl JsonEof), he_gstreamer = False,
      he_version = ''1'', he_now = 0\<rparr>"

definition demo_request :: "http_method \<Rightarrow> string \<Rightarrow> string option \<Rightarrow> api_request" where
  "demo_request m p q =
     \<lparr>aq_method = m, aq_path = p, aq_query = q, aq_headers = Map.empty, aq_peer = V4 1, aq_scheme = None,
      aq_body = [], aq_fields = []\<rparr>"

definition demo_app :: "(unit engine, memory_store) app" where
  "demo_app = \<lparr>ap_core = demo_start, ap_readers = [], ap_notices = []\<rparr>"

definition no_other :: "api_request \<Rightarrow> ('e, 's, api_response) app_act" where
  "no_other rq = raise http_not_found"

lemma no_other_serves: "serves en (no_other rq)"
  unfolding no_other_def by (intro serving) simp


subsection \<open>Without credentials\<close>

text \<open>A torrent is known when the core shows it.\<close>

definition knows :: "('e, 's) engine_ops \<Rightarrow> 's world \<Rightarrow> ('e, 's) coord \<Rightarrow> info_hash \<Rightarrow> bool" where
  "knows en w s h = (\<exists>v. snd (get_view en w h s) = Inr (Some v))"

definition management :: "route \<Rightarrow> bool" where
  "management rt =
     (case rt of
        StreamRoute _ \<Rightarrow> False | PlayRoute _ _ \<Rightarrow> False | PlaylistRoute _ \<Rightarrow> False
      | EchoRoute \<Rightarrow> False | OtherRoute \<Rightarrow> False | MissingRoute \<Rightarrow> False | _ \<Rightarrow> True)"

lemma locked_guard: "locked_out env rq \<Longrightarrow> guarded env rq m a = (a, Inl api_unauthorized)"
  by (simp add: locked_out_def guarded_def)

lemma ask_get: "ask_core (torrents_command en w (GetCmd h)) a =
    (a, Inr (map_sum id TorrentReply (snd (get_view en w h (ap_core a)))))"
proof -
  obtain r where r: "get_view en w h (ap_core a) = (ap_core a, r)" by (metis get_view_state prod.collapse)
  then show ?thesis
    by (cases r) (simp_all add: ask_core_def torrents_command.simps mapped_def)
qed

lemma ask_unknown:
  assumes "\<not> knows en w (ap_core a) h"
  obtains e where "ask_core (torrents_command en w (GetCmd h)) a = (a, Inr (Inl e))"
  | "ask_core (torrents_command en w (GetCmd h)) a = (a, Inr (Inr (TorrentReply None)))"
proof (cases "snd (get_view en w h (ap_core a))")
  case (Inl e)
  then show ?thesis using that(1) [of e] by (simp add: ask_get)
next
  case (Inr v)
  then have "v = None" using assms by (cases v) (auto simp: knows_def)
  then show ?thesis using that(2) Inr by (simp add: ask_get)
qed

lemma play_locked:
  assumes "locked_out env rq" "play_handler env en ws ht it rq a = (a', r)" "a' \<noteq> a"
  shows "\<exists>h. info_hash_from_str ht = Inr h \<and> knows en (ws 0) (ap_core a) h"
proof (cases "info_hash_from_str ht")
  case (Inr h)
  have "knows en (ws 0) (ap_core a) h"
  proof (rule ccontr)
    assume "\<not> knows en (ws 0) (ap_core a) h"
    then have "play_handler env en ws ht it rq a = (a, Inl api_unauthorized)"
      using assms(1) Inr by (cases rule: ask_unknown) (simp_all add: play_handler_def)
    then show False using assms(2,3) by simp
  qed
  then show ?thesis using Inr by simp
qed (use assms in \<open>simp add: play_handler_def\<close>)

lemma stream_locked:
  assumes "locked_out env rq" "stream_handler env en ws fname rq a = (a', r)" "a' \<noteq> a"
  shows "\<exists>h. link_info_hash (wo_zlib (ws 0)) (query_text (query_of env rq) ''link'') = Some h
    \<and> knows en (ws 0) (ap_core a) h
    \<and> (query_has (query_of env rq) ''play'' \<or> query_has (query_of env rq) ''m3u'')"
proof (rule ccontr)
  let ?link = "query_text (query_of env rq) ''link''"
    and ?shares = "query_has (query_of env rq) ''play'' \<or> query_has (query_of env rq) ''m3u''"
  assume none: "\<not> ?thesis"
  have "shareable_link_exists en (ws 0) ?link a = (a, Inr False)" if ?shares
  proof (cases "link_info_hash (wo_zlib (ws 0)) ?link")
    case (Some h)
    then have "\<not> knows en (ws 0) (ap_core a) h" using none that by blast
    then show ?thesis using Some by (cases rule: ask_unknown) (simp_all add: shareable_link_exists_def)
  qed (simp add: shareable_link_exists_def)
  then have "stream_allowed env en (ws 0) ?link ?shares rq a = (a, Inl api_unauthorized)"
    using assms(1) by (cases ?shares) (simp_all add: stream_allowed_def bnd_step(2) [where x = False])
  then have "fst (stream_handler env en ws fname rq a) = a"
    by (simp add: stream_handler_def Let_def)
  then show False using assms(2,3) by simp
qed

lemma dispatch_locked:
  assumes "locked_out env rq" "dispatch env en can_stop other ws rq a = (a', r)" "a' \<noteq> a"
    "route_of (he_decode env) (aq_method rq) (aq_path rq) = rt" "rt \<noteq> OtherRoute"
  shows "(\<exists>fname. rt = PlaylistRoute fname)
    \<or> (\<exists>ht it h. rt = PlayRoute ht it \<and> info_hash_from_str ht = Inr h \<and> knows en (ws 0) (ap_core a) h)
    \<or> (\<exists>fname h. rt = StreamRoute fname
         \<and> (query_has (query_of env rq) ''play'' \<or> query_has (query_of env rq) ''m3u'')
         \<and> link_info_hash (wo_zlib (ws 0)) (query_text (query_of env rq) ''link'') = Some h
         \<and> knows en (ws 0) (ap_core a) h)"
proof (cases rt)
  case (StreamRoute fname)
  then show ?thesis
    using stream_locked [OF assms(1) _ assms(3)] assms(2,4) by (fastforce simp: dispatch_def)
next
  case (PlayRoute ht it)
  then show ?thesis
    using play_locked [OF assms(1) _ assms(3)] assms(2,4) by (fastforce simp: dispatch_def)
qed (use assms in \<open>auto simp: dispatch_def locked_guard echo_handler_def torrents_handler_def upload_handler_def
      settings_handler_def viewed_handler_def cache_handler_def get_waf_def set_waf_def magnets_handler_def
      get_storage_def set_storage_def tmdb_handler_def download_handler_def shutdown_handler_def
      playlist_all_handler_def\<close>)

lemma management_locked:
  assumes "locked_out env rq" "management (route_of (he_decode env) (aq_method rq) (aq_path rq))"
  shows "dispatch env en can_stop other ws rq a = (a, Inl api_unauthorized)"
  using assms
  by (cases "route_of (he_decode env) (aq_method rq) (aq_path rq)")
    (simp_all add: management_def dispatch_def locked_guard torrents_handler_def upload_handler_def
      settings_handler_def viewed_handler_def cache_handler_def get_waf_def set_waf_def magnets_handler_def
      get_storage_def set_storage_def tmdb_handler_def download_handler_def shutdown_handler_def
      playlist_all_handler_def)

lemma waf_state: "fst (ask_core (waf_command_act w GetWaf) a) = a"
proof -
  have "fst (waf_command_act w GetWaf s) = s" for s
    by (simp add: waf_command_act.simps ask_db_def)
  then obtain r where "waf_command_act w GetWaf (ap_core a) = (ap_core a, r)" by (metis prod.collapse)
  then show ?thesis by (simp add: ask_core_def)
qed

lemma app_state_change:
  assumes "http_app env en can_stop other ws rq a = (a', r)" "a' \<noteq> a"
  shows "\<exists>r'. dispatch env en can_stop other ws rq a = (a', r')"
proof -
  obtain q where q: "ask_core (waf_command_act (ws 100) GetWaf) a = (a, Inr q)"
    using waf_state [of "ws 100" a] answers_ask unfolding answers_def by (metis prod.collapse)
  obtain b r' where d: "dispatch env en can_stop other ws rq a = (b, r')" by fastforce
  then have "settle (dispatch env en can_stop other ws rq) a = (b, Inr (answer r'))"
    by (simp add: settle_def answer_def)
  then have "b = a'"
    using assms q
    by (auto simp: http_app_def waf_layer_def cors_def head_only_where_routed_def bnd_def Let_def
        split: sum.splits if_splits)
  then show ?thesis using d by blast
qed


lemma demo_locked: "locked_out demo_env (demo_request m p q)"
  by (simp add: locked_out_def management_authorized_def authorized_def auth_enabled_def demo_env_def
      recognizes_def header_str_def demo_request_def)


lemma call_viewed_list: "fst (call_core env (viewed_command_act w (ListViewed h)) a) = a"
proof -
  have "fst (viewed_command_act w (ListViewed h) s) = s" for s
    by (simp add: viewed_command_act.simps ask_db_def bnd_def split: sum.split)
  then obtain r where "viewed_command_act w (ListViewed h) (ap_core a) = (ap_core a, r)" by (metis prod.collapse)
  then show ?thesis by (cases r) (simp_all add: call_core_def ask_core_def)
qed

lemma individual_playlist_state: "fst (individual_playlist env ws v base fname fl si rq a) = a"
proof -
  obtain r where "call_core env (viewed_command_act (ws 20) (ListViewed (view_hash v))) a = (a, r)"
    by (metis call_viewed_list prod.collapse)
  then show ?thesis by (cases r) (simp_all add: individual_playlist_def Let_def)
qed

lemma current_view_state:
  obtains u where "current_view en w v a = (a, Inr u)"
  by (cases "view_hash v") (auto simp: current_view_def ask_get)

lemma added_torrent_state:
  "\<exists>r. added_torrent en w rq failed st a =
     (a\<lparr>ap_core := fst (add_torrent en w rq (ap_core a))\<rparr>, r)
   \<and> (\<forall>v. r = Inr v \<longrightarrow> snd (add_torrent en w rq (ap_core a)) = Inr v)"
  by (auto simp: added_torrent_def ask_core_def torrents_command.simps mapped_def bnd_def split: prod.split sum.split)


definition demo_plain_world :: "memory_store world" where
  "demo_plain_world = (demo_world False)\<lparr>wo_zlib := sample_zlib\<lparr>z_inflate := (\<lambda>b. None)\<rparr>\<rparr>"

definition demo_bare :: "(unit engine, memory_store) app" where
  "demo_bare = \<lparr>ap_core = demo_start\<lparr>co_db := empty_db\<rparr>, ap_readers = [], ap_notices = []\<rparr>"

definition demo_link :: string where
  "demo_link = concat (replicate 20 ''01'')"

lemma demo_link_hash: "info_hash_to_string demo_hash = demo_link" "info_hash_from_str demo_link = Inr demo_hash"
  by code_simp+

lemma demo_link_query:
  "query_of demo_env (demo_request GET ''/playlist'' (Some (''hash='' @ demo_link))) ''hash'' = Some demo_link"
  by code_simp

lemma demo_plain_simps [simp]:
  "wo_store demo_plain_world = memory_vt" "wo_fault demo_plain_world c h = False" "wo_read_text demo_plain_world p = None"
  by (simp_all add: demo_plain_world_def)

lemma demo_link_text:
  "replace_str ''&amp;'' ''&'' demo_link = demo_link" "strip_prefix demo_link ''file://'' = None"
  "\<not> starts_with demo_link ''magnet:''"
  by code_simp+

lemma demo_no_token: "torrs_decode (wo_zlib demo_plain_world) t = None"
  by (simp add: torrs_decode_def demo_plain_world_def Let_def split: option.split)

lemma demo_add_unknown:
  assumes "rq_link rq = demo_link" "\<not> rq_save_to_db rq"
  shows "\<exists>s v. add_torrent (adapter_ops demo_session) demo_plain_world rq (demo_start\<lparr>co_db := empty_db\<rparr>) = (s, Inr v)
     \<and> eg_loaded (co_engine s) = [demo_hash \<mapsto> 0] \<and> map fst (co_live s) = [demo_hash]"
proof -
  let ?s = "demo_start\<lparr>co_db := empty_db\<rparr>" and ?m = "Magnet (''magnet:?xt=urn:btih:'' @ demo_link)"
  obtain c' e' where a: "adapter_add demo_session demo_engine (co_cache demo_start) ?m
      \<lparr>ao_only_files = None, ao_initial_peers = [], ao_trackers = extra_trackers demo_plain_world ?s\<rparr> =
        (\<lparr>eg_session = (), eg_loaded = [demo_hash \<mapsto> 0]\<rparr>, c', Inr demo_metadata)"
      "c_torrents c' = [(demo_hash, e')]"
    using demo_adapter_add [of "co_cache demo_start"] by fastforce
  have h: "adapter_source_hash demo_session ?m = None" by (simp add: adapter_source_hash_def demo_session_def)
  have m: "md_hash demo_metadata = demo_hash" by (simp add: demo_metadata_def)
  have none: "db_torrent False empty_db demo_hash = Inr None" by (simp add: db_torrent_def empty_db_def)
  have "add_torrent (adapter_ops demo_session) demo_plain_world rq ?s =
      add_new (adapter_ops demo_session) demo_plain_world (rq\<lparr>rq_link := demo_link\<rparr>) ?m None ?s"
    using assms h by (simp add: add_torrent_def demo_link_text demo_no_token demo_link_hash add_source_def Let_def)
  then show ?thesis
    using a m none assms(2)
    by (simp add: add_new_def saved_source_def engine_add_def do_engine_def forget_hints_def ask_db_def insert_live_def
        Let_def)
qed


end
