(* ===== verification/AccessProps.thy ===== *)
theory AccessProps
  imports Access
begin

text \<open>
  What access control decides: the WAF as a rule over the lines of its lists, credentials as a
  lookup, and the public address, which only trusted proxies can change.
\<close>

subsection \<open>Credentials and the public address\<close>

lemma recognizes_iff:
  "recognizes lib al accounts hs \<longleftrightarrow>
     (\<exists>v t user password.
        header_str lib hs ''authorization'' = Some (''Basic '' @ v) \<and> al_base64 al v = Some t
        \<and> valid_utf8 (map byte_val t) \<and> t = user @ '':'' @ password \<and> CHR '':'' \<notin> set user
        \<and> map_of accounts user = Some password)"
proof -
  define cred where "cred = Option.bind (header_str lib hs ''authorization'')
    (\<lambda>v. Option.bind (strip_prefix v ''Basic '') (\<lambda>v. Option.bind (al_base64 al v) utf8_text))"
  have "recognizes lib al accounts hs \<longleftrightarrow>
      (\<exists>t user password. cred = Some t \<and> split_once CHR '':'' t = Some (user, password)
         \<and> map_of accounts user = Some password)"
    unfolding recognizes_def cred_def by (simp split: option.split)
  moreover have "cred = Some t \<longleftrightarrow>
      (\<exists>v. header_str lib hs ''authorization'' = Some (''Basic '' @ v) \<and> al_base64 al v = Some t
         \<and> valid_utf8 (map byte_val t))" for t
    unfolding cred_def bind_eq_Some_conv utf8_text_def strip_prefix_eq_Some by auto
  ultimately show ?thesis by (simp add: split_once_eq_Some) blast
qed

lemma public_base_untrusted:
  assumes "\<not> trusts ip cfg peer"
  shows "public_base lib ip cfg peer hs scheme =
    the_default ''http'' scheme @ ''://'' @ the_default ''127.0.0.1:8090'' (header_str lib hs ''host'')"
  using assms by (simp add: public_base_def public_scheme_def forwarded_def or_opt_def Let_def)

subsection \<open>The WAF\<close>

text \<open>The lines of a list that count: trimmed, neither empty nor comments.\<close>

definition list_entries :: "string \<Rightarrow> string list" where
  "list_entries s = filter (\<lambda>l. \<not> skipped_line l) (map trim (lines s))"

lemma list_lines_entries:
  "fst (list_lines f w n ls) = List.map_filter f (filter (\<lambda>l. \<not> skipped_line l) (map trim ls))"
proof (induction ls arbitrary: n)
  case (Cons l ls)
  obtain rs ws where "list_lines f w (n + 1) ls = (rs, ws)" by fastforce
  then show ?case using Cons.IH [of "n + 1"] by (simp add: List.map_filter_simps split: option.split)
qed (simp add: List.map_filter_simps)

text \<open>Every line that counts is an entry or is warned about, and the warnings give its number.\<close>

lemma list_lines_warnings:
  "snd (list_lines f w n ls) =
     map (\<lambda>(i, l). w i) (filter (\<lambda>(i, l). \<not> skipped_line (trim l) \<and> f (trim l) = None) (enumerate n ls))"
proof (induction ls arbitrary: n)
  case (Cons l ls)
  obtain rs ws where "list_lines f w (n + 1) ls = (rs, ws)" by fastforce
  then show ?case using Cons.IH [of "n + 1"] by (cases "f (trim l)") (simp_all add: Let_def)
qed simp

lemma set_map_filter_iff: "set (List.map_filter f xs) = {y. \<exists>x \<in> set xs. f x = Some y}"
  by (induction xs) (auto simp: List.map_filter_simps split: option.split)

lemma set_add_hosts: "set (fold add_host hs base) = set base \<union> set hs"
  by (induction hs arbitrary: base) (auto simp: add_host_def)

lemma ends_with_iff: "ends_with s p \<longleftrightarrow> (\<exists>t. s = t @ p)"
proof
  assume "ends_with s p"
  then have "rev s = rev p @ drop (length p) (rev s)"
    unfolding ends_with_def starts_with_def by (metis append_take_drop_id length_rev)
  then have "s = rev (drop (length p) (rev s)) @ p" by (metis rev_append rev_rev_ident)
  then show "\<exists>t. s = t @ p" by blast
qed (auto simp: ends_with_def starts_with_def)

lemma list_ex_two: "list_ex P [x, y] \<longleftrightarrow> (\<exists>z. (z = x \<or> z = y) \<and> P z)"
  by auto

lemma ip_rules_set:
  "set (fst (parse_ip_rules ip name s)) = {r. \<exists>l \<in> set (list_entries s). line_rule ip l = Some r}"
  by (simp add: parse_ip_rules_def list_lines_entries list_entries_def set_map_filter_iff)

lemma referer_set: "set (fst (parse_referers s)) = {h. \<exists>l \<in> set (list_entries s). referer_host l = Some h}"
  by (simp add: parse_referers_def list_lines_entries list_entries_def set_map_filter_iff)

lemma waf_parse_parts:
  "ws_whitelist (waf_parse ip wl) = fst (parse_ip_rules ip ''whitelist'' (wl_whitelist wl))"
  "ws_blacklist (waf_parse ip wl) = fst (parse_ip_rules ip ''blacklist'' (wl_blacklist wl))"
  "ws_referers (waf_parse ip wl) = fold add_host (fst (parse_referers (wl_referers wl))) DEFAULT_BLOCKED_REFERERS"
  by (simp_all add: waf_parse_def split: prod.split)

definition listed_rule :: "'n ip_lib \<Rightarrow> string \<Rightarrow> 'n ip_rule \<Rightarrow> bool" where
  "listed_rule ip s r = (\<exists>l \<in> set (list_entries s). line_rule ip l = Some r)"

definition listed_host :: "waf_lists \<Rightarrow> string \<Rightarrow> bool" where
  "listed_host wl h =
     (h \<in> set DEFAULT_BLOCKED_REFERERS \<or> (\<exists>l \<in> set (list_entries (wl_referers wl)). referer_host l = Some h))"



text \<open>
  A bracketed IPv6 host is cut at its first colon, in a rule and in a header alike: \<open>[::1]\<close> gives a
  rule that matches nothing, and a rule for one address matches every address of the same first group.
\<close>

lemma ipv6_referers_lose_their_address:
  "referer_host ''[::1]'' = Some []" "header_host ''http://[::1]/'' = None"
  "referer_host ''[2001:db8::1]'' = Some ''2001''" "header_host ''http://[2001:4860::8888]/'' = Some ''2001''"
  by code_simp+

end
