(* ===== verification/Spec2Isabelle.thy ===== *)
theory Spec2Isabelle
  imports CacheProps DiskProps ServeProps CoordProps CoordRemoval CoordViews VfsProps DavLockProps WebDavWalk DnsProps
    HttpProps AccessProps
begin

text \<open>
  Rustorr, a torrent streaming server: it adds torrents, streams their files over HTTP while the
  pieces arrive, keeps downloaded bytes in a cache under a soft cap, and remembers torrents,
  settings and viewed positions in SQLite. The crates under src/crates are modelled as follows.

  Foundations.
  \<^item> Prelude, RustStr: machine integers (a u64 or usize is a natural number below U64, with the
    wrapping, checked and saturating operators written out; the release build wraps), the
    standard containers and the string functions the crates use. A string is the list of its
    UTF-8 bytes. Fallible code returns a sum, Inl the error.
  \<^item> Domain: rustorr-domain (byte ranges, file and piece indexes, info hashes).

  Storage, rustorr-cache.
  \<^item> Layout (layout.rs, error.rs), Extents (extents.rs): the shape of a torrent and the set of
    stored byte ranges, the latter refined to sets of offsets.
  \<^item> PieceStore (store.rs): the PieceStore trait as a record of operations and its contract as the
    locale piece_store_contract. MemoryStore (memory.rs), DiskManifest and DiskStore (disk.rs) are
    the two providers; both are interpretations of the contract. What the operating system does
    to a call, failures in the middle of writes and removals included, is an argument.
  \<^item> Cache, CacheInv, CachePolicy (cache.rs): table, clock, pins, eviction and reports over any
    store; CacheInv adds the pins and unfinished writes that callers hold and proves the
    accounting under the contract for every interleaving. CacheProps and DiskProps state the
    results over the two stores.

  Persistent state.
  \<^item> StateDb (rustorr-state): the tables, every query with its conversions and failures, and the
    migrations.

  Engine, rustorr-engine.
  \<^item> CacheStorage (cache_storage.rs): the storage traits the torrent engine calls.
  \<^item> EngineAdapter (port.rs, adapter.rs, config.rs, error.rs): the Engine trait with its contract, and
    its implementation over a librqbit session, which is a parameter.

  Lifecycle, rustorr-lifecycle.
  \<^item> Settings (model.rs, trackers.rs) and TorrsHash (torrs_hash.rs): documents, the normal form of
    settings, the tracker policy, and the token that stands for a torrent in links.
  \<^item> Action: the handlers' way of changing a state and stopping early, with two judgements, keeps
    (an invariant) and does (a postcondition).
  \<^item> Coordinator (lib.rs): every operation of the coordinator; Client (client.rs): the commands and
    what the coordinator does with each. Operations behind the gate are one action, the tasks
    they spawn and the timers are actions of their own.
  \<^item> CoordInv: the invariant that ties pins, readers, look-ahead tasks and the live table together,
    kept by every operation. Service: the relation service_step of all that can happen next
    (commands, tasks, timers, reader polls and drops, engine storage calls), each step under its
    own outcomes of the outside world, and its runs. CoordDrop, CoordProps, CoordRemoval and
    CoordViews: what clients can rely on; CoordSample is the concrete service of their witnesses.

  HTTP, rustorr-http.
  \<^item> HttpRange (range.rs), MediaType (media_type.rs), ServeContent (serve_content.rs): ranges,
    media types, conditional requests and bodies; ServeProps states their properties.
  \<^item> Xml (dlna/didl.rs, the escaping all documents share), DavXml (webdav/xml.rs): request bodies
    read from the events of the XML reader, and the documents written.
  \<^item> DavLock, IfHeader (webdav/lock.rs): the lock table of the WebDAV mount, a trie of counted
    nodes, and the parsers of its headers. DavLockInv relates the nodes to a map of locks,
    DavLockSpec and DavLockProps refine every operation to one on that map.
  \<^item> WebDav, WebDavMethods (webdav/mod.rs): every method of the mount, over the file system and the
    lock table. WebDavProps shows that no request but LOCK and UNLOCK disturbs the locks,
    WebDavWalk that PROPFIND comes to an end.

  Virtual file system, rustorr-vfs.
  \<^item> Vfs (lib.rs): the torrents as a directory tree over a client core, which is a record of its
    methods with the coordinator as one instance; VfsProps relates listings and paths.

  Discovery, rustorr-discovery.
  \<^item> Dns (dns.rs): the messages of the mDNS responder, packed with shared suffixes and parsed;
    DnsProps shows the round trip and bounds what any packet can make the parser build.

  HTTP application, rustorr-http.
  \<^item> Access (access.rs): credentials of Basic authentication, trusted proxies and the address of a
    client, the public base URL, and the WAF lists with the address parser of the standard library.
    Playlist (m3u.rs and the magnet links of web_api.rs).
  \<^item> HttpApi (error.rs and the shared parts of app.rs): requests, responses and errors, and the state
    app, which is the coordinator with the readers that response bodies hold open and the
    notices sent to other parts. HttpHandlers, HttpPlayback and HttpRouter (app.rs, web_api.rs,
    settings_api.rs): every route of the client core, the playback of files with conditional and
    range requests, and the layers around the routes (WAF, CORS, authentication, HEAD). An
    early return with a response is the error of the action.
  \<^item> HttpServes: the judgements quiet and serves (what an action may change, and which readers it leaves
    open), with one rule per construct. HttpProps: a request is a run of service steps, and what
    clients without credentials can do; AccessProps: what the WAF blocks.

  Bounds and fuel. Nothing is bounded beyond what the code bounds; loops are structural recursion
  or carry a measure, and no model uses fuel except where the code itself counts attempts (the 128
  turns of the DNS name reader, the attempts to load a torrent's metadata). The walk of PROPFIND
  may not end for every core: it is a partial function, and WebDavWalk proves when it ends.

  Outside code. librqbit, SQLite, the operating system, the clock, mime_guess, the date and header
  validity checks of the http crates, the XML reader, the URL parser, the zlib codec, and the JSON,
  Base64 and network crates (records http_env, auth_lib and ip_lib) are parameters, with what the code
  relies on as named hypotheses (contracts are locales, interpreted on the model). Routes that are
  not modelled are one argument of the router.

  Not modelled. Logging and metrics, JSON field names (serde attributes), connection handling
  (axum, hyper, TLS), the runtime's scheduling inside one gated operation (and of WebDAV requests, of
  which one runs at a time), the FUSE mount, DLNA, Media Station X, the search, ffprobe, status and metrics routes, search clients, discovery sockets,
  the GStreamer pipelines and the command line; PROJECT.json lists each
  with its reason.
\<close>

end
